(* ===== verification/CBase.thy ===== *)
theory CBase
  imports Main "HOL-Library.Word"
begin

text \<open>
  Shared vocabulary of the development: machine bytes and the little-endian layout of a
  32-bit integer, faults (C++ exceptions, undefined behaviour, process abort, a wait that
  cannot be satisfied), the state-and-fault computations in which the server's handlers are
  written, and the parts of the C library the handlers call (\<open>c_str\<close>, the
  \<open>printf\<close> family with the bounds check of \<open>_stprintf_s\<close>, \<open>atoi\<close>,
  \<open>sscanf "%u"\<close>).
\<close>

unbundle bit_operations_syntax

named_theorems hoare_rules \<open>triples of the operations, used after \<open>hoare_bind\<close>\<close>
named_theorems quiet_intros \<open>operations that leave the ownership of every connection object alone\<close>
named_theorems settles_intros \<open>operations that keep or settle the ownership of a connection\<close>

section \<open>Bytes\<close>

type_synonym byte = "8 word"

definition bytes_of :: "string \<Rightarrow> byte list" where
  "bytes_of s = map of_char s"

definition string_of :: "byte list \<Rightarrow> string" where
  "string_of bs = map (\<lambda>b. char_of (unat b)) bs"

lemma length_bytes_of [simp]: "length (bytes_of s) = length s"
  by (simp add: bytes_of_def)

lemma length_string_of [simp]: "length (string_of bs) = length bs"
  by (simp add: string_of_def)

lemma char_of_unat_of_char [simp]: "char_of (unat (of_char c :: byte)) = c"
proof -
  have "unat (of_nat (of_char c) :: byte) = of_char c mod 256"
    by (simp add: unat_of_nat)
  moreover have "(of_nat (of_char c) :: byte) = of_char c" by (rule of_nat_of_char)
  ultimately have "unat (of_char c :: byte) = of_char c mod 256" by simp
  then show ?thesis by simp
qed

lemma string_of_bytes_of [simp]: "string_of (bytes_of s) = s"
  by (simp add: string_of_def bytes_of_def comp_def)

text \<open>\<open>*(INT*)p\<close> and \<open>memcpy(p, &n, 4)\<close> on the little-endian target.\<close>

definition le32 :: "32 word \<Rightarrow> byte list" where
  "le32 n = [ucast n, ucast (drop_bit 8 n), ucast (drop_bit 16 n), ucast (drop_bit 24 n)]"

fun un_le32 :: "byte list \<Rightarrow> 32 word" where
  "un_le32 (a # b # c # d # _) =
     ucast a OR push_bit 8 (ucast b) OR push_bit 16 (ucast c) OR push_bit 24 (ucast d)"
| "un_le32 _ = 0"

lemma length_le32 [simp]: "length (le32 n) = 4"
  by (simp add: le32_def)

lemma un_le32_le32 [simp]: "un_le32 (le32 n @ rest) = n"
proof (rule bit_word_eqI)
  fix i assume i: "i < LENGTH(32)"
  then consider "i < 8" | "8 \<le> i" "i < 16" | "16 \<le> i" "i < 24" | "24 \<le> i" "i < 32"
    by force
  then show "bit (un_le32 (le32 n @ rest)) i = bit n i"
    by cases (auto simp: le32_def bit_simps)
qed

lemma un_le32_take [simp]:
  assumes "4 \<le> k"
  shows "un_le32 (take k bs) = un_le32 bs"
proof -
  obtain j where k: "k = Suc (Suc (Suc (Suc j)))"
    using assms by (metis add.commute add_Suc_right le_iff_add numeral_eq_Suc pred_numeral_simps(1,2,3) plus_nat.add_0 BitM.simps(1,2) Suc_eq_plus1 eval_nat_numeral(2) eval_nat_numeral(3))
  show ?thesis unfolding k
    by (cases bs rule: un_le32.cases) auto
qed

lemma sint_of_nat_small: "l < 2 ^ 31 \<Longrightarrow> sint (of_nat l :: 32 word) = int l"
  by (simp add: signed_of_nat signed_take_bit_int_eq_self)

section \<open>Computations with state and faults\<close>

text \<open>
  \<open>TypeError\<close>, \<open>UnpackError\<close> and \<open>ComError\<close> are the exceptions
  \<open>msgpack::type_error\<close>, \<open>msgpack::unpack_error\<close> and \<open>_com_error\<close>,
  \<open>OtherExn\<close> any other C++ exception. The other four are no exceptions and no
  handler catches them: \<open>Undefined\<close> is undefined behaviour (a null dereference, an
  access out of bounds), \<open>Abort\<close> the invalid-parameter termination of the CRT's
  \<open>_s\<close> functions, \<open>Blocked\<close> an infinite wait for a pooled connection, \<open>Hang\<close> a loop over
  the rows of a result that does not end after the number of rows the library reports, or a parser without fuel.
\<close>

datatype fault = TypeError | UnpackError | ComError | OtherExn | Undefined | Abort | Blocked | Hang

fun is_exception :: "fault \<Rightarrow> bool" where
  "is_exception Undefined = False"
| "is_exception Abort = False"
| "is_exception Blocked = False"
| "is_exception Hang = False"
| "is_exception _ = True"

type_synonym ('s, 'a) cm = "'s \<Rightarrow> (fault + 'a) \<times> 's"

definition ret :: "'a \<Rightarrow> ('s, 'a) cm" where
  "ret x = (\<lambda>s. (Inr x, s))"

definition throw :: "fault \<Rightarrow> ('s, 'a) cm" where
  "throw f = (\<lambda>s. (Inl f, s))"

definition cbind :: "('s, 'a) cm \<Rightarrow> ('a \<Rightarrow> ('s, 'b) cm) \<Rightarrow> ('s, 'b) cm" where
  "cbind m f = (\<lambda>s. case m s of (Inl e, s') \<Rightarrow> (Inl e, s') | (Inr x, s') \<Rightarrow> f x s')"

definition gets :: "('s \<Rightarrow> 'a) \<Rightarrow> ('s, 'a) cm" where
  "gets f = (\<lambda>s. (Inr (f s), s))"

definition modify :: "('s \<Rightarrow> 's) \<Rightarrow> ('s, unit) cm" where
  "modify f = (\<lambda>s. (Inr (), f s))"

definition lift_fault :: "fault + 'a \<Rightarrow> ('s, 'a) cm" where
  "lift_fault r = (case r of Inl f \<Rightarrow> throw f | Inr x \<Rightarrow> ret x)"

definition of_opt :: "fault \<Rightarrow> 'a option \<Rightarrow> ('s, 'a) cm" where
  "of_opt f r = (case r of None \<Rightarrow> throw f | Some x \<Rightarrow> ret x)"

text \<open>\<open>try { m } catch (p) { h }\<close>: the faults that satisfy \<open>p\<close> run \<open>h\<close>.\<close>

definition catch :: "('s, 'a) cm \<Rightarrow> (fault \<Rightarrow> bool) \<Rightarrow> ('s, 'a) cm \<Rightarrow> ('s, 'a) cm" where
  "catch m p h =
     (\<lambda>s. case m s of (Inl e, s') \<Rightarrow> if p e then h s' else (Inl e, s') | (Inr x, s') \<Rightarrow> (Inr x, s'))"

lemma ret_app [simp]: "ret x s = (Inr x, s)"
  by (simp add: ret_def)

lemma throw_app [simp]: "throw f s = (Inl f, s)"
  by (simp add: throw_def)

lemma gets_app [simp]: "gets f s = (Inr (f s), s)"
  by (simp add: gets_def)

lemma modify_app [simp]: "modify f s = (Inr (), f s)"
  by (simp add: modify_def)

lemma of_opt_simps [simp]: "of_opt f None = throw f" "of_opt f (Some x) = ret x"
  by (simp_all add: of_opt_def)

lemma lift_fault_simps [simp]: "lift_fault (Inl f) = throw f" "lift_fault (Inr x) = ret x"
  by (simp_all add: lift_fault_def)

lemma cbind_Inr: "m s = (Inr x, s') \<Longrightarrow> cbind m f s = f x s'"
  by (simp add: cbind_def)

lemma cbind_Inl: "m s = (Inl e, s') \<Longrightarrow> cbind m f s = (Inl e, s')"
  by (simp add: cbind_def)

lemma cbind_ret [simp]: "cbind (ret x) f = f x"
  by (simp add: cbind_def fun_eq_iff)

lemma cbind_throw [simp]: "cbind (throw e) f = throw e"
  by (simp add: cbind_def fun_eq_iff)

lemma cbind_gets [simp]: "cbind (gets g) f s = f (g s) s"
  by (simp add: cbind_def)

lemma cbind_modify [simp]: "cbind (modify g) f s = f () (g s)"
  by (simp add: cbind_def)

lemma cbind_assoc: "cbind (cbind m f) g = cbind m (\<lambda>x. cbind (f x) g)"
  by (auto simp: cbind_def fun_eq_iff split: sum.splits prod.splits)

text \<open>
  Triples: from a state with \<open>P\<close>, a normal result \<open>x\<close> leaves a state with \<open>Q x\<close>, a fault \<open>f\<close>
  leaves a state with \<open>E f\<close>.
\<close>

definition hoare :: "('s \<Rightarrow> bool) \<Rightarrow> ('s, 'a) cm \<Rightarrow> ('a \<Rightarrow> 's \<Rightarrow> bool) \<Rightarrow> (fault \<Rightarrow> 's \<Rightarrow> bool) \<Rightarrow> bool" where
  "hoare P m Q E \<longleftrightarrow>
     (\<forall>s. P s \<longrightarrow> (case m s of (Inl f, s') \<Rightarrow> E f s' | (Inr x, s') \<Rightarrow> Q x s'))"

lemma hoareI:
  assumes "\<And>s x s'. P s \<Longrightarrow> m s = (Inr x, s') \<Longrightarrow> Q x s'"
    and "\<And>s f s'. P s \<Longrightarrow> m s = (Inl f, s') \<Longrightarrow> E f s'"
  shows "hoare P m Q E"
  using assms by (auto simp: hoare_def split: prod.splits sum.splits)

lemma hoareD_Inr: "hoare P m Q E \<Longrightarrow> P s \<Longrightarrow> m s = (Inr x, s') \<Longrightarrow> Q x s'"
  by (auto simp: hoare_def)

lemma hoareD_Inl: "hoare P m Q E \<Longrightarrow> P s \<Longrightarrow> m s = (Inl f, s') \<Longrightarrow> E f s'"
  by (auto simp: hoare_def)

lemma hoare_bind:
  assumes "hoare P m R E" and "\<And>x. hoare (R x) (f x) Q E"
  shows "hoare P (cbind m f) Q E"
  using assms unfolding hoare_def cbind_def
  by (fastforce split: prod.splits sum.splits)

lemma hoare_pre: "hoare P' m Q E \<Longrightarrow> (\<And>s. P s \<Longrightarrow> P' s) \<Longrightarrow> hoare P m Q E"
  by (simp add: hoare_def)

lemma hoare_post:
  assumes "hoare P m Q' E'" and "\<And>x s. Q' x s \<Longrightarrow> Q x s" and "\<And>f s. E' f s \<Longrightarrow> E f s"
  shows "hoare P m Q E"
  using assms by (fastforce simp: hoare_def split: prod.splits sum.splits)

lemma hoare_ret: "(\<And>s. P s \<Longrightarrow> Q x s) \<Longrightarrow> hoare P (ret x) Q E"
  by (simp add: hoare_def)

lemma hoare_throw: "(\<And>s. P s \<Longrightarrow> E f s) \<Longrightarrow> hoare P (throw f) Q E"
  by (simp add: hoare_def)

lemma hoare_gets: "(\<And>s. P s \<Longrightarrow> Q (g s) s) \<Longrightarrow> hoare P (gets g) Q E"
  by (simp add: hoare_def)

lemma hoare_modify: "(\<And>s. P s \<Longrightarrow> Q () (g s)) \<Longrightarrow> hoare P (modify g) Q E"
  by (simp add: hoare_def)

lemma hoare_if:
  "(b \<Longrightarrow> hoare P m Q E) \<Longrightarrow> (\<not> b \<Longrightarrow> hoare P n Q E) \<Longrightarrow> hoare P (if b then m else n) Q E"
  by simp

lemma hoare_conj:
  "hoare P m Q E \<Longrightarrow> hoare P' m Q' E \<Longrightarrow>
     hoare (\<lambda>s. P s \<and> P' s) m (\<lambda>x s. Q x s \<and> Q' x s) E"
  by (fastforce simp: hoare_def split: prod.splits sum.splits)

lemma hoare_option:
  "(r = None \<Longrightarrow> hoare P m Q E) \<Longrightarrow> (\<And>x. r = Some x \<Longrightarrow> hoare P (n x) Q E) \<Longrightarrow>
     hoare P (case r of None \<Rightarrow> m | Some x \<Rightarrow> n x) Q E"
  by (simp split: option.split)

section \<open>The C library\<close>

definition c_str :: "string \<Rightarrow> string" where
  \<comment> \<open>what a \<open>char*\<close> consumer sees of a \<open>std::string\<close>\<close>
  "c_str s = takeWhile (\<lambda>c. c \<noteq> CHR 0x00) s"

lemma length_c_str: "length (c_str s) \<le> length s"
  by (simp add: c_str_def length_takeWhile_le)

lemma c_str_id: "CHR 0x00 \<notin> set s \<Longrightarrow> c_str s = s"
  by (auto simp: c_str_def takeWhile_eq_all_conv)

fun dec_nat :: "nat \<Rightarrow> string" where
  "dec_nat n = (if n < 10 then [char_of (n + 48)] else dec_nat (n div 10) @ [char_of (n mod 10 + 48)])"

declare dec_nat.simps [simp del]

definition dec_int :: "int \<Rightarrow> string" where
  "dec_int i = (if i < 0 then CHR ''-'' # dec_nat (nat (- i)) else dec_nat (nat i))"

definition zpad :: "nat \<Rightarrow> string \<Rightarrow> string" where
  "zpad k s = replicate (k - length s) CHR ''0'' @ s"

definition hexdigit :: "nat \<Rightarrow> char" where
  "hexdigit d = (if d < 10 then char_of (d + 48) else char_of (d + 87))"

fun hex_nat :: "nat \<Rightarrow> string" where
  "hex_nat n = (if n < 16 then [hexdigit n] else hex_nat (n div 16) @ [hexdigit (n mod 16)])"

declare hex_nat.simps [simp del]

text \<open>
  Arguments of the variadic \<open>printf\<close> family: a string (\<open>const char*\<close>), a signed or an
  unsigned integer, a \<open>double\<close> given by its bit pattern. The rendering of a double by
  \<open>%f\<close> is the argument \<open>ff\<close>.
\<close>

datatype farg = FS string | FD int | FU nat | FF "64 word"

definition arg_s :: "farg list \<Rightarrow> (string \<times> farg list) option" where
  "arg_s as = (case as of FS s # r \<Rightarrow> Some (c_str s, r) | _ \<Rightarrow> None)"

definition arg_d :: "farg list \<Rightarrow> (int \<times> farg list) option" where
  "arg_d as = (case as of FD i # r \<Rightarrow> Some (i, r) | _ \<Rightarrow> None)"

definition arg_u :: "farg list \<Rightarrow> (nat \<times> farg list) option" where
  "arg_u as = (case as of FU n # r \<Rightarrow> Some (n, r) | _ \<Rightarrow> None)"

definition arg_f :: "farg list \<Rightarrow> (64 word \<times> farg list) option" where
  "arg_f as = (case as of FF d # r \<Rightarrow> Some (d, r) | _ \<Rightarrow> None)"

text \<open>
  The conversions the program uses: \<open>%%\<close>, \<open>%s\<close>, \<open>%d\<close>, \<open>%u\<close>, \<open>%f\<close>, \<open>%lf\<close>,
  \<open>%02d\<close>, \<open>%03d\<close>, \<open>%04d\<close>, \<open>%08x\<close>. An argument that is missing or of another type is
  undefined behaviour (\<open>None\<close>); arguments left over are ignored.
\<close>

datatype fspec = SpPct | SpS | SpD | SpU | SpF | SpZD nat | SpX nat

definition spec_of :: "string \<Rightarrow> (fspec \<times> string) option" where
  "spec_of s = (case s of [] \<Rightarrow> None | c # r \<Rightarrow>
     if c = CHR ''%'' then Some (SpPct, r)
     else if c = CHR ''s'' then Some (SpS, r)
     else if c = CHR ''d'' then Some (SpD, r)
     else if c = CHR ''u'' then Some (SpU, r)
     else if c = CHR ''f'' then Some (SpF, r)
     else if take 2 s = ''lf'' then Some (SpF, drop 2 s)
     else if take 3 s = ''02d'' then Some (SpZD 2, drop 3 s)
     else if take 3 s = ''03d'' then Some (SpZD 3, drop 3 s)
     else if take 3 s = ''04d'' then Some (SpZD 4, drop 3 s)
     else if take 3 s = ''08x'' then Some (SpX 8, drop 3 s)
     else None)"

definition render :: "(64 word \<Rightarrow> string) \<Rightarrow> fspec \<Rightarrow> farg list \<Rightarrow> (string \<times> farg list) option" where
  "render ff sp as = (case sp of
      SpPct \<Rightarrow> Some (''%'', as)
    | SpS \<Rightarrow> arg_s as
    | SpD \<Rightarrow> map_option (\<lambda>(i, r). (dec_int i, r)) (arg_d as)
    | SpU \<Rightarrow> map_option (\<lambda>(n, r). (dec_nat n, r)) (arg_u as)
    | SpF \<Rightarrow> map_option (\<lambda>(d, r). (ff d, r)) (arg_f as)
    | SpZD k \<Rightarrow> map_option (\<lambda>(i, r). (zpad k (dec_int i), r)) (arg_d as)
    | SpX k \<Rightarrow> map_option (\<lambda>(n, r). (zpad k (hex_nat n), r)) (arg_u as))"

lemma spec_of_shorter: "spec_of s = Some (sp, r) \<Longrightarrow> length r < length s"
  by (auto simp: spec_of_def split: list.splits if_splits)

function cformat :: "(64 word \<Rightarrow> string) \<Rightarrow> string \<Rightarrow> farg list \<Rightarrow> string option" where
  "cformat ff [] as = Some []"
| "cformat ff (c # cs) as =
     (if c = CHR ''%'' then
        (case spec_of cs of
           None \<Rightarrow> None
         | Some (sp, r) \<Rightarrow>
             (case render ff sp as of
                None \<Rightarrow> None
              | Some (t, as') \<Rightarrow> map_option (\<lambda>u. t @ u) (cformat ff r as')))
      else map_option (\<lambda>u. c # u) (cformat ff cs as))"
  by pat_completeness auto
termination
  by (relation "measure (\<lambda>(ff, s, as). length s)") (auto dest: spec_of_shorter)

text \<open>
  \<open>_stprintf_s(buf, n, fmt, ...)\<close>: the result and its terminating zero must fit in \<open>n\<close>
  characters, otherwise the CRT's invalid-parameter handler ends the process.
\<close>

definition stprintf_s :: "(64 word \<Rightarrow> string) \<Rightarrow> nat \<Rightarrow> string \<Rightarrow> farg list \<Rightarrow> fault + string" where
  "stprintf_s ff n fmt as =
     (case cformat ff fmt as of
        None \<Rightarrow> Inl Undefined
      | Some s \<Rightarrow> if length s < n then Inr s else Inl Abort)"

text \<open>
  \<open>_vsntprintf_s(buf, n, _TRUNCATE, fmt, ...)\<close> truncates instead.
\<close>

definition vsntprintf_trunc :: "(64 word \<Rightarrow> string) \<Rightarrow> nat \<Rightarrow> string \<Rightarrow> farg list \<Rightarrow> fault + string" where
  "vsntprintf_trunc ff n fmt as =
     (case cformat ff fmt as of
        None \<Rightarrow> Inl Undefined
      | Some s \<Rightarrow> if n = 0 then Inl Abort else Inr (take (n - 1) s))"

definition is_space :: "char \<Rightarrow> bool" where
  "is_space c \<longleftrightarrow> c = CHR '' '' \<or> (of_char c :: nat) \<in> {9, 10, 11, 12, 13}"

definition is_digit :: "char \<Rightarrow> bool" where
  "is_digit c \<longleftrightarrow> 48 \<le> (of_char c :: nat) \<and> (of_char c :: nat) \<le> 57"

definition digit_val :: "char \<Rightarrow> nat" where
  "digit_val c = of_char c - 48"

definition dec_val :: "string \<Rightarrow> nat" where
  "dec_val s = foldl (\<lambda>n c. 10 * n + digit_val c) 0 s"

text \<open>Leading blanks, an optional sign, then the digits: the sign and the digit string.\<close>

definition num_prefix :: "string \<Rightarrow> bool \<times> string" where
  "num_prefix s =
     (let t = dropWhile is_space s in
      if take 1 t = ''-'' then (True, takeWhile is_digit (drop 1 t))
      else if take 1 t = ''+'' then (False, takeWhile is_digit (drop 1 t))
      else (False, takeWhile is_digit t))"

definition int_min :: int where "int_min = - (2 ^ 31)"
definition int_max :: int where "int_max = 2 ^ 31 - 1"

text \<open>\<open>atoi\<close>: no digits give 0; a value outside \<open>int\<close> is undefined.\<close>

definition c_atoi :: "string \<Rightarrow> fault + int" where
  "c_atoi s =
     (let (neg, ds) = num_prefix (c_str s);
          v = (if neg then - int (dec_val ds) else int (dec_val ds))
      in if int_min \<le> v \<and> v \<le> int_max then Inr v else Inl Undefined)"

text \<open>
  \<open>sscanf(s, "%u", &n)\<close>: with no digits the variable keeps its value; a negative number is
  negated modulo \<open>2 ^ 32\<close>; a magnitude outside \<open>unsigned int\<close> is undefined.
\<close>

definition c_scan_u :: "string \<Rightarrow> nat \<Rightarrow> fault + nat" where
  "c_scan_u s old =
     (let (neg, ds) = num_prefix (c_str s); v = dec_val ds
      in if ds = [] then Inr old
         else if 2 ^ 32 \<le> v then Inl Undefined
         else Inr (if neg then (2 ^ 32 - v) mod 2 ^ 32 else v))"

text \<open>Two's-complement wrap-around of \<open>int\<close> arithmetic, as the target computes it.\<close>

definition wrap32 :: "int \<Rightarrow> int" where
  "wrap32 i = (i + 2 ^ 31) mod 2 ^ 32 - 2 ^ 31"

lemma wrap32_id: "int_min \<le> i \<Longrightarrow> i \<le> int_max \<Longrightarrow> wrap32 i = i"
  by (simp add: wrap32_def int_min_def int_max_def)

lemma wrap32_range: "int_min \<le> wrap32 i \<and> wrap32 i \<le> int_max"
proof -
  have "0 \<le> (i + 2 ^ 31) mod 2 ^ 32" "(i + 2 ^ 31) mod 2 ^ 32 < 2 ^ 32" by simp_all
  then show ?thesis by (simp add: wrap32_def int_min_def int_max_def)
qed

text \<open>The byte a pointer into a text points at, the terminating zero at its end.\<close>

definition peek :: "string \<Rightarrow> char" where
  "peek s = (case s of [] \<Rightarrow> CHR 0x00 | c # _ \<Rightarrow> c)"

lemma peek_simps [simp]: "peek [] = CHR 0x00" "peek (c # s) = c"
  by (simp_all add: peek_def)

lemma peek_nonempty: "peek s = c \<Longrightarrow> c \<noteq> CHR 0x00 \<Longrightarrow> \<exists>r. s = c # r"
  by (cases s) auto

end
