(* ===== verification/Externals.thy ===== *)
theory Externals
  imports CBase
begin

text \<open>
  What the server calls and this repository does not define: Winsock and the completion port,
  the process heap, msgpack, ADO, the MySQL client, the DES component and the code-page
  conversion. Each is a field of the record \<open>ext\<close>, the argument \<open>e\<close> of the
  definitions that use it; a result that may differ from call to call takes the number of the
  call (\<open>tick\<close>) as its first argument. Every theorem holds for all values of these fields,
  except where a hypothesis states documented behaviour of the library.
\<close>

section \<open>Values exchanged with the libraries\<close>

text \<open>
  A decoded msgpack object, as far as the code looks at it: it tests for and walks arrays
  (\<open>type == ARRAY\<close>, \<open>via.array.ptr\<close>, \<open>via.array.size\<close>) and converts leaves with
  \<open>as<T>()\<close>, which is the library's. A \<open>double\<close> is its 64-bit pattern.
\<close>

datatype mobj =
    MNil | MBool bool | MInt int | MDouble "64 word" | MStr string | MBin string
  | MArray "mobj list" | MMap "(mobj \<times> mobj) list"

text \<open>\<open>unpacker.next(result)\<close>: an object, not enough bytes, or \<open>unpack_error\<close>.\<close>

datatype unpack_result = UnpObj mobj | UnpMore | UnpError

text \<open>
  One call of the packer. A response is the list of these calls; the bytes each call appends
  are the library's (\<open>mp_enc\<close>).
\<close>

datatype tok = TArr nat | TInt int | TStr string | TDouble "64 word"

text \<open>\<open>pack_array(n)\<close> takes a \<open>uint32_t\<close>.\<close>

definition pack_array :: "int \<Rightarrow> tok" where
  "pack_array n = TArr (nat (n mod 2 ^ 32))"

text \<open>\<open>_variant_t\<close>, by the type tags the code distinguishes.\<close>

record systime =
  wYear :: nat
  wMonth :: nat
  wDay :: nat
  wHour :: nat
  wMinute :: nat
  wSecond :: nat
  wMilliseconds :: nat

datatype variant =
    VT_BSTR string | VT_LPSTR string | VT_LPWSTR string
  | VT_I1 byte | VT_UI1 byte | VT_I2 "16 word" | VT_UI2 "16 word"
  | VT_INT "32 word" | VT_I4 "32 word" | VT_I8 "64 word"
  | VT_UINT "32 word" | VT_UI4 "32 word" | VT_UI8 "64 word"
  | VT_R4 "64 word" | VT_R8 "64 word" | VT_DATE "64 word" | VT_BOOL "16 word"
  | VT_DECIMAL byte "64 word" \<comment> \<open>sign and low 64 bits of the mantissa; the scale is not read\<close>
  | VT_NULL | VT_EMPTY | VT_UNKNOWN | VT_OTHER nat

text \<open>An XML element: its text, if its first child node is one, and its child elements.\<close>

datatype xml = Elem (xname: string) (xtext: "string option") (xchildren: "xml list")

section \<open>Floating point\<close>

text \<open>What \<open>cjson.c\<close> uses of \<open>double\<close>; a value is its 64-bit pattern.\<close>

record fpu =
  d_of_int :: "int \<Rightarrow> 64 word"
  d_add :: "64 word \<Rightarrow> 64 word \<Rightarrow> 64 word"
  d_mul :: "64 word \<Rightarrow> 64 word \<Rightarrow> 64 word"
  d_pow10 :: "int \<Rightarrow> 64 word"
  d_to_int :: "64 word \<Rightarrow> int"
  d_is_int :: "int \<Rightarrow> 64 word \<Rightarrow> bool" \<comment> \<open>the test of \<open>print_number\<close> for an integer\<close>
  d_whole :: "64 word \<Rightarrow> bool" \<comment> \<open>\<open>fabs(floor(d)-d)<=DBL_EPSILON && fabs(d)<1.0e60\<close>\<close>
  d_extreme :: "64 word \<Rightarrow> bool" \<comment> \<open>\<open>fabs(d)<1.0e-6 || fabs(d)>1.0e9\<close>\<close>
  fmt_0f :: "64 word \<Rightarrow> string"
  fmt_e :: "64 word \<Rightarrow> string"
  fmt_f :: "64 word \<Rightarrow> string"

text \<open>An instance for the worked examples: the patterns are read as integers.\<close>

definition fpu0 :: fpu where
  "fpu0 = \<lparr>d_of_int = word_of_int, d_add = (+), d_mul = (*), d_pow10 = (\<lambda>k. if k = 0 then 1 else 0),
     d_to_int = sint, d_is_int = (\<lambda>i d. d = word_of_int i), d_whole = (\<lambda>_. True), d_extreme = (\<lambda>_. False),
     fmt_0f = (\<lambda>d. dec_int (sint d)), fmt_e = (\<lambda>d. dec_int (sint d)), fmt_f = (\<lambda>d. dec_int (sint d))\<rparr>"

section \<open>The libraries\<close>

record ext =
  \<comment> \<open>process heap and Winsock\<close>
  heap_ok :: "nat \<Rightarrow> bool"
  bobj_hdr :: nat \<comment> \<open>\<open>SIZE_OF_BUFFER_OBJ_T\<close>\<close>
  os_socket :: "nat \<Rightarrow> nat option"
  os_bind :: "nat \<Rightarrow> bool"
  os_startup :: "nat \<Rightarrow> bool"
  os_event :: "nat \<Rightarrow> nat option"
  os_listen :: "nat \<Rightarrow> bool"
  os_conntime :: "nat \<Rightarrow> int option"
  os_iocp :: "nat \<Rightarrow> bool"
  os_thread :: "nat \<Rightarrow> bool"
  os_acceptex :: "nat \<Rightarrow> bool"
  os_recv :: "nat \<Rightarrow> bool"
  os_send :: "nat \<Rightarrow> bool"
  os_connectex :: "nat \<Rightarrow> bool"
  os_addrinfo :: "nat \<Rightarrow> bool"
  os_rand :: "nat \<Rightarrow> int"
  os_tick :: "nat \<Rightarrow> 32 word"
  os_time :: "nat \<Rightarrow> systime"
  \<comment> \<open>C library rendering and parsing of doubles\<close>
  fmt_double :: "64 word \<Rightarrow> string"
  c_atof :: "string \<Rightarrow> 64 word"
  fpu_of :: fpu
  \<comment> \<open>msgpack\<close>
  mp_unpack :: "byte list \<Rightarrow> unpack_result"
  mp_int :: "mobj \<Rightarrow> int option"
  mp_uint :: "mobj \<Rightarrow> nat option"
  mp_double :: "mobj \<Rightarrow> 64 word option"
  mp_string :: "mobj \<Rightarrow> string option"
  mp_enc :: "tok \<Rightarrow> byte list"
  mp_moves :: "nat \<Rightarrow> nat \<Rightarrow> bool" \<comment> \<open>a \<open>write\<close> of k bytes at size n reallocates\<close>
  lit_tail :: "byte \<times> byte \<times> byte" \<comment> \<open>the bytes that follow the literal \<open>"\xfb\xfc"\<close> in memory\<close>
  \<comment> \<open>ADO\<close>
  ado_create :: "nat \<Rightarrow> bool"
  ado_connect :: "nat \<Rightarrow> bool"
  ado_state_open :: "nat \<Rightarrow> bool"
  ado_open :: "nat \<Rightarrow> string \<Rightarrow> nat option"
  ado_exec :: "nat \<Rightarrow> string \<Rightarrow> bool"
  ado_trans :: "nat \<Rightarrow> bool"
  ado_count :: "nat \<Rightarrow> int"
  ado_move :: "nat \<Rightarrow> int \<Rightarrow> nat option"
  ado_eof :: "nat \<Rightarrow> bool"
  ado_next :: "nat \<Rightarrow> nat option"
  ado_get :: "nat \<Rightarrow> string \<Rightarrow> variant option"
  var_bstr :: "variant \<Rightarrow> string option"
  var_time :: "64 word \<Rightarrow> systime"
  \<comment> \<open>the MySQL client\<close>
  my_init :: "nat \<Rightarrow> bool"
  my_connect :: "nat \<Rightarrow> bool"
  my_ping :: "nat \<Rightarrow> bool"
  my_query :: "nat \<Rightarrow> string \<Rightarrow> bool"
  my_affected :: "nat \<Rightarrow> nat"
  my_store :: "nat \<Rightarrow> nat option"
  my_field_count :: "nat \<Rightarrow> nat"
  my_errno :: "nat \<Rightarrow> nat"
  my_error :: "nat \<Rightarrow> string"
  my_insert_id :: "nat \<Rightarrow> nat"
  my_num_rows :: "nat \<Rightarrow> nat"
  my_seek :: "nat \<Rightarrow> int \<Rightarrow> nat"
  my_fetch :: "nat \<Rightarrow> string option list option \<times> nat"
  \<comment> \<open>the DES component and the code page\<close>
  des_create :: "nat \<Rightarrow> bool"
  des_call :: "string \<Rightarrow> string list \<Rightarrow> string option"
  utf8_ansi :: "byte list \<Rightarrow> string"

text \<open>
  An environment in which every call succeeds and no query finds a row. The worked examples
  evaluate the definitions in this environment or in a variation of it.
\<close>

definition systime0 :: systime where
  "systime0 = \<lparr>wYear = 2016, wMonth = 7, wDay = 1, wHour = 12, wMinute = 30, wSecond = 15,
     wMilliseconds = 7\<rparr>"

definition ext0 :: ext where
  "ext0 = \<lparr>heap_ok = (\<lambda>_. True), bobj_hdr = 120, os_socket = (\<lambda>n. Some n), os_bind = (\<lambda>_. True), os_startup = (\<lambda>_. True),
     os_event = (\<lambda>n. Some n), os_listen = (\<lambda>_. True), os_conntime = (\<lambda>_. Some 0), os_iocp = (\<lambda>_. True), os_thread = (\<lambda>_. True),
     os_acceptex = (\<lambda>_. True), os_recv = (\<lambda>_. True), os_send = (\<lambda>_. True),
     os_connectex = (\<lambda>_. True), os_addrinfo = (\<lambda>_. True), os_rand = (\<lambda>_. 41), os_tick = (\<lambda>_. 0),
     os_time = (\<lambda>_. systime0), fmt_double = (\<lambda>_. ''0.000000''), c_atof = (\<lambda>_. 0), fpu_of = fpu0,
     mp_unpack = (\<lambda>_. UnpMore),
     mp_int = (\<lambda>m. case m of MInt i \<Rightarrow> Some i | _ \<Rightarrow> None),
     mp_uint = (\<lambda>m. case m of MInt i \<Rightarrow> if 0 \<le> i then Some (nat i) else None | _ \<Rightarrow> None),
     mp_double = (\<lambda>m. case m of MDouble d \<Rightarrow> Some d | _ \<Rightarrow> None),
     mp_string = (\<lambda>m. case m of MStr t \<Rightarrow> Some t | _ \<Rightarrow> None),
     mp_enc = (\<lambda>t. case t of TArr k \<Rightarrow> [144 + of_nat k] | TInt i \<Rightarrow> [of_int i]
       | TStr u \<Rightarrow> (160 + of_nat (length u)) # bytes_of u | TDouble d \<Rightarrow> [203, 0, 0, 0, 0, 0, 0, 0, 0]),
     mp_moves = (\<lambda>_ _. False), lit_tail = (0, 0, 0),
     ado_create = (\<lambda>_. True), ado_connect = (\<lambda>_. True), ado_state_open = (\<lambda>_. True),
     ado_open = (\<lambda>_ _. None), ado_exec = (\<lambda>_ _. True), ado_trans = (\<lambda>_. True), ado_count = (\<lambda>_. 0),
     ado_move = (\<lambda>r _. Some r), ado_eof = (\<lambda>_. True), ado_next = (\<lambda>r. Some (Suc r)),
     ado_get = (\<lambda>_ _. Some VT_NULL), var_bstr = (\<lambda>_. Some ''''), var_time = (\<lambda>_. systime0),
     my_init = (\<lambda>_. True), my_connect = (\<lambda>_. True), my_ping = (\<lambda>_. True), my_query = (\<lambda>_ _. True),
     my_affected = (\<lambda>_. 0), my_store = (\<lambda>_. Some 0), my_field_count = (\<lambda>_. 0), my_errno = (\<lambda>_. 0),
     my_error = (\<lambda>_. ''''), my_insert_id = (\<lambda>_. 0), my_num_rows = (\<lambda>_. 0), my_seek = (\<lambda>r _. nat 0),
     my_fetch = (\<lambda>r. (None, r)), des_create = (\<lambda>_. True), des_call = (\<lambda>_ _. Some ''''),
     utf8_ansi = string_of\<rparr>"

section \<open>Well-formed msgpack output\<close>

text \<open>
  \<open>eat n ts\<close> reads \<open>n\<close> complete values off a list of packer calls: an array header of size
  \<open>k\<close> stands for the \<open>k\<close> values that follow it. The result is what is left over, \<open>None\<close> when
  values are missing.
\<close>

function eat :: "nat \<Rightarrow> tok list \<Rightarrow> tok list option" where
  "eat 0 ts = Some ts"
| "eat (Suc n) [] = None"
| "eat (Suc n) (t # ts) = (case t of TArr k \<Rightarrow> eat (k + n) ts | _ \<Rightarrow> eat n ts)"
  by pat_completeness auto
termination by (relation "measure (\<lambda>(n, ts). length ts)") auto

definition one_value :: "tok list \<Rightarrow> bool" where
  "one_value ts \<longleftrightarrow> eat 1 ts = Some []"

definition nvalues :: "nat \<Rightarrow> tok list \<Rightarrow> bool" where
  "nvalues n ts \<longleftrightarrow> eat n ts = Some []"

lemma eat_add: "eat (m + n) ts = Option.bind (eat m ts) (eat n)"
proof (induction m ts arbitrary: n rule: eat.induct)
  case (1 ts)
  then show ?case by simp
next
  case (2 n')
  then show ?case by simp
next
  case (3 n' t ts)
  then show ?case by (cases t) (auto simp: add.assoc)
qed

lemma eat_append: "eat n ts = Some r \<Longrightarrow> eat n (ts @ us) = Some (r @ us)"
proof (induction n ts arbitrary: r rule: eat.induct)
  case (3 n t ts)
  then show ?case by (cases t) auto
qed auto

lemma values_0 [simp]: "nvalues 0 ts \<longleftrightarrow> ts = []"
  by (simp add: nvalues_def)

lemma values_append:
  assumes "nvalues m ts" "nvalues n us"
  shows "nvalues (m + n) (ts @ us)"
  using assms by (simp add: nvalues_def eat_add eat_append)

lemma values_leaf [simp]:
  "nvalues (Suc 0) [TInt i]" "nvalues (Suc 0) [TStr s]" "nvalues (Suc 0) [TDouble d]"
  by (simp_all add: nvalues_def)

lemma values_Cons:
  "nvalues (Suc n) (TInt i # ts) \<longleftrightarrow> nvalues n ts"
  "nvalues (Suc n) (TStr s # ts) \<longleftrightarrow> nvalues n ts"
  "nvalues (Suc n) (TDouble d # ts) \<longleftrightarrow> nvalues n ts"
  "nvalues (Suc n) (TArr k # ts) \<longleftrightarrow> nvalues (k + n) ts"
  by (simp_all add: nvalues_def)

lemma values_array: "nvalues k ts \<Longrightarrow> nvalues 1 (TArr k # ts)"
  by (simp add: nvalues_def)

lemma one_value_array: "one_value (TArr k # ts) \<longleftrightarrow> nvalues k ts"
  by (simp add: nvalues_def one_value_def)

lemma values_concat:
  assumes "\<And>x. x \<in> set xs \<Longrightarrow> nvalues 1 x"
  shows "nvalues (length xs) (concat xs)"
  using assms
proof (induction xs)
  case (Cons x xs)
  then have "nvalues (1 + length xs) (x @ concat xs)"
    by (intro values_append) auto
  then show ?case by simp
qed simp

lemma values_Nil [simp]: "nvalues n [] \<longleftrightarrow> n = 0"
  by (cases n) (auto simp: nvalues_def)

lemma values_0_Cons: "nvalues n (t # ts) \<Longrightarrow> \<exists>n'. n = Suc n'"
  by (cases n) auto

lemma values_unique: "nvalues m ts \<Longrightarrow> nvalues n ts \<Longrightarrow> m = n"
proof (induction ts arbitrary: m n)
  case (Cons t ts)
  from Cons.prems obtain m' n' where mn: "m = Suc m'" "n = Suc n'"
    by (meson values_0_Cons)
  show ?case
  proof (cases t)
    case (TArr k)
    with Cons.prems mn have "nvalues (k + m') ts" "nvalues (k + n') ts"
      by (simp_all add: values_Cons)
    from Cons.IH [OF this] mn show ?thesis by simp
  qed (use Cons mn in \<open>auto simp: values_Cons\<close>)
qed simp

lemma pack_array_small [simp]:
  "0 \<le> n \<Longrightarrow> n < 2 ^ 32 \<Longrightarrow> pack_array n = TArr (nat n)"
  by (simp add: pack_array_def)

end
