(* ===== verification/DBPool.thy ===== *)
theory DBPool
  imports Externals
begin

text \<open>
  \<open>DBPool.cpp\<close>, first half: the pool of ADO connections. A connection is a heap cell of type
  \<open>_ConnectionPtr\<close>, a smart pointer that may be empty: \<open>conner c\<close> is \<open>None\<close> when the cell
  \<open>c\<close> is not allocated, \<open>Some True\<close> when it holds an interface. Here an operation is one
  step of the pool, and the wait for \<open>hWaitConner\<close> when the pool is exhausted is the fault \<open>Blocked\<close>;
  \<open>PoolThreads\<close> takes the operations apart at the borders of the critical section \<open>csConner\<close>.
\<close>

section \<open>What a connection pool promises\<close>

text \<open>
  Any interleaving of threads: \<open>None\<close> is a thread that allocates, \<open>Some i\<close> the release of the
  \<open>i\<close>-th connection handed out and not yet released. A blocked allocation changes nothing
  for the other threads.
\<close>

fun pool_run :: "('p, nat option) cm \<Rightarrow> (nat \<Rightarrow> ('p, unit) cm) \<Rightarrow> nat option list \<Rightarrow>
    nat list \<times> 'p \<Rightarrow> nat list \<times> 'p" where
  "pool_run alloc free [] st = st"
| "pool_run alloc free (None # as) (cs, p) =
     (case alloc p of
        (Inr (Some c), p') \<Rightarrow> pool_run alloc free as (c # cs, p')
      | (_, p') \<Rightarrow> pool_run alloc free as (cs, p'))"
| "pool_run alloc free (Some i # as) (cs, p) =
     (if i < length cs
      then pool_run alloc free as (take i cs @ drop (Suc i) cs, snd (free (cs ! i) p))
      else pool_run alloc free as (cs, p))"

text \<open>
  \<open>held p\<close> are the connections that exist, \<open>idle p\<close> those that wait in the pool. The client
  sees an allocation that gives a connection nobody else has, fails, or blocks, and a release
  that makes the connection idle again.
\<close>

locale conn_pool =
  fixes inv :: "'p \<Rightarrow> bool"
    and idle :: "'p \<Rightarrow> nat set"
    and held :: "'p \<Rightarrow> nat set"
    and limit :: "'p \<Rightarrow> nat"
    and alloc :: "('p, nat option) cm"
    and free :: "nat \<Rightarrow> ('p, unit) cm"
  assumes alloc_some: "\<lbrakk>inv p; alloc p = (Inr (Some c), p')\<rbrakk> \<Longrightarrow>
      inv p' \<and> limit p' = limit p \<and> c \<notin> held p - idle p \<and>
      held p' - idle p' = insert c (held p - idle p)"
    and alloc_none: "\<lbrakk>inv p; alloc p = (Inr None, p')\<rbrakk> \<Longrightarrow>
      inv p' \<and> limit p' = limit p \<and> held p' - idle p' = held p - idle p"
    and alloc_fault: "\<lbrakk>inv p; alloc p = (Inl f, p')\<rbrakk> \<Longrightarrow>
      f = Blocked \<and> inv p' \<and> limit p' = limit p \<and> held p' - idle p' = held p - idle p \<and>
      idle p' = {} \<and> limit p \<le> card (held p')"
    and free_ok: "\<lbrakk>inv p; c \<in> held p - idle p\<rbrakk> \<Longrightarrow>
      \<exists>p'. free c p = (Inr (), p') \<and> inv p' \<and> limit p' = limit p \<and>
           held p' - idle p' = (held p - idle p) - {c}"
    and bounded: "inv p \<Longrightarrow> finite (held p) \<and> card (held p) \<le> limit p"
begin

lemma set_remove_nth:
  assumes "distinct cs" "i < length cs"
  shows "set (take i cs @ drop (Suc i) cs) = set cs - {cs ! i}"
    and "distinct (take i cs @ drop (Suc i) cs)"
proof -
  have cs: "cs = take i cs @ cs ! i # drop (Suc i) cs"
    using assms(2) by (rule id_take_nth_drop)
  have "distinct (take i cs @ cs ! i # drop (Suc i) cs)"
    using assms(1) cs by simp
  moreover have "set cs = set (take i cs @ cs ! i # drop (Suc i) cs)"
    using cs by simp
  ultimately show "set (take i cs @ drop (Suc i) cs) = set cs - {cs ! i}"
    and "distinct (take i cs @ drop (Suc i) cs)"
    by auto
qed

lemma handed_out_bound:
  assumes "inv p" "distinct cs" "set cs = held p - idle p"
  shows "length cs \<le> limit p"
proof -
  have "length cs = card (held p - idle p)"
    using assms distinct_card [of cs] by simp
  also have "\<dots> \<le> card (held p)"
    using bounded [OF assms(1)] by (intro card_mono) auto
  finally show ?thesis using bounded [OF assms(1)] by linarith
qed

lemma run_exclusive:
  "\<lbrakk>inv p; distinct cs; set cs = held p - idle p; pool_run alloc free as (cs, p) = (cs', p')\<rbrakk> \<Longrightarrow>
     inv p' \<and> distinct cs' \<and> set cs' = held p' - idle p' \<and> length cs' \<le> limit p \<and>
     limit p' = limit p"
proof (induction as arbitrary: cs p)
  case Nil
  then show ?case using handed_out_bound by simp
next
  case (Cons a as)
  show ?case
  proof (cases a)
    case None
    obtain r p1 where al: "alloc p = (r, p1)" by (cases "alloc p")
    consider c where "r = Inr (Some c)" | "r = Inr None" | f where "r = Inl f"
      by (metis old.sum.exhaust option.exhaust)
    then show ?thesis
    proof cases
      case 1
      with alloc_some [OF Cons.prems(1)] al have st:
        "inv p1" "limit p1 = limit p" "c \<notin> set cs"
        "held p1 - idle p1 = insert c (held p - idle p)"
        using Cons.prems(3) by auto
      then have "distinct (c # cs)" "set (c # cs) = held p1 - idle p1"
        using Cons.prems(2,3) by auto
      with Cons.IH [OF st(1) this] Cons.prems(4) st(2) al 1 None show ?thesis by simp
    next
      case 2
      with alloc_none [OF Cons.prems(1)] al have st:
        "inv p1" "limit p1 = limit p" "held p1 - idle p1 = held p - idle p" by auto
      with Cons.IH [OF st(1) Cons.prems(2)] Cons.prems(3,4) al 2 None show ?thesis by simp
    next
      case 3
      with alloc_fault [OF Cons.prems(1)] al have st:
        "inv p1" "limit p1 = limit p" "held p1 - idle p1 = held p - idle p" by auto
      with Cons.IH [OF st(1) Cons.prems(2)] Cons.prems(3,4) al 3 None show ?thesis by simp
    qed
  next
    case (Some i)
    show ?thesis
    proof (cases "i < length cs")
      case True
      then have "cs ! i \<in> held p - idle p" using Cons.prems(3) nth_mem by blast
      from free_ok [OF Cons.prems(1) this] obtain p1 where p1:
        "free (cs ! i) p = (Inr (), p1)" "inv p1" "limit p1 = limit p"
        "held p1 - idle p1 = (held p - idle p) - {cs ! i}" by blast
      note rm = set_remove_nth [OF Cons.prems(2) True]
      have "set (take i cs @ drop (Suc i) cs) = held p1 - idle p1"
        using rm(1) p1(4) Cons.prems(3) by simp
      with Cons.IH [OF p1(2) rm(2) this] Cons.prems(4) p1 Some True show ?thesis by simp
    next
      case False
      with Cons.IH [OF Cons.prems(1-3)] Cons.prems(4) Some show ?thesis by simp
    qed
  qed
qed

text \<open>Allocating, using and releasing a connection leaves the set of borrowed ones as it was.\<close>

lemma borrow_return:
  assumes "inv p" "alloc p = (Inr (Some c), p1)"
  shows "\<exists>p2. free c p1 = (Inr (), p2) \<and> inv p2 \<and> held p2 - idle p2 = held p - idle p"
proof -
  from alloc_some [OF assms] have
    a: "inv p1" "c \<notin> held p - idle p" "held p1 - idle p1 = insert c (held p - idle p)" by auto
  then have "c \<in> held p1 - idle p1" by auto
  from free_ok [OF a(1) this] a show ?thesis by auto
qed

text \<open>An allocation blocks only when as many connections as allowed are borrowed.\<close>

lemma blocked_exhausted:
  assumes "inv p" "alloc p = (Inl f, p')"
  shows "card (held p - idle p) = limit p"
proof -
  note a = alloc_fault [OF assms]
  then have "held p' = held p - idle p" by auto
  with a bounded [of p'] show ?thesis by auto
qed

end

section \<open>The state of the ADO pool\<close>

record adopool =
  vctConner :: "nat list"
  conner :: "nat \<Rightarrow> bool option"
  nextConner :: nat
  g_nMinConner :: int
  g_nMaxConner :: int
  g_nCurrentNum :: int
  bInitial :: bool
  hWaitConner :: bool
  acalls :: nat
  sqllog :: "string list"

definition acall :: "(nat \<Rightarrow> 'a) \<Rightarrow> (adopool, 'a) cm" where
  "acall f = (\<lambda>p. (Inr (f (acalls p)), p\<lparr>acalls := Suc (acalls p)\<rparr>))"

lemma acall_app [simp]: "acall f p = (Inr (f (acalls p)), p\<lparr>acalls := Suc (acalls p)\<rparr>)"
  by (simp add: acall_def)

section \<open>Connections\<close>

definition new_conner :: "(adopool, nat) cm" where
  "new_conner = (\<lambda>p. (Inr (nextConner p),
     p\<lparr>conner := (conner p)(nextConner p := Some False), nextConner := Suc (nextConner p)\<rparr>))"

definition delete_conner :: "nat \<Rightarrow> (adopool, unit) cm" where
  "delete_conner c = modify (\<lambda>p. p\<lparr>conner := (conner p)(c := None)\<rparr>)"

definition CreateConner :: "ext \<Rightarrow> nat \<Rightarrow> (adopool, bool) cm" where
  "CreateConner e c =
     cbind (acall (ado_create e)) (\<lambda>ok.
       if ok then cbind (modify (\<lambda>p. p\<lparr>conner := (conner p)(c := Some True)\<rparr>)) (\<lambda>_. ret True)
       else ret False)"

definition ReleaseConner :: "nat \<Rightarrow> (adopool, bool) cm" where
  "ReleaseConner c =
     cbind (modify (\<lambda>p. if conner p c = Some True
                        then p\<lparr>conner := (conner p)(c := Some False)\<rparr> else p)) (\<lambda>_. ret True)"

definition ConnectDatabase :: "ext \<Rightarrow> nat \<Rightarrow> (adopool, bool) cm" where
  "ConnectDatabase e c =
     cbind (gets (\<lambda>p. conner p c)) (\<lambda>i.
       if i \<noteq> Some True then ret False else acall (ado_connect e))"

section \<open>The pool\<close>

definition ClearlVector :: "(adopool, unit) cm" where
  "ClearlVector = modify (\<lambda>p.
     p\<lparr>conner := (\<lambda>c. if c \<in> set (vctConner p) then None else conner p c), vctConner := []\<rparr>)"

fun InitConnerPool_loop :: "ext \<Rightarrow> nat \<Rightarrow> (adopool, bool) cm" where
  "InitConnerPool_loop e 0 = cbind (modify (\<lambda>p. p\<lparr>bInitial := False\<rparr>)) (\<lambda>_. ret True)"
| "InitConnerPool_loop e (Suc n) =
     cbind new_conner (\<lambda>c.
     cbind (CreateConner e c) (\<lambda>ok.
     if \<not> ok then
       cbind (delete_conner c) (\<lambda>_. cbind ClearlVector (\<lambda>_. ret False))
     else cbind (ConnectDatabase e c) (\<lambda>ok2.
     if \<not> ok2 then
       cbind (ReleaseConner c) (\<lambda>_. cbind (delete_conner c) (\<lambda>_. cbind ClearlVector (\<lambda>_. ret False)))
     else cbind (modify (\<lambda>p. p\<lparr>vctConner := vctConner p @ [c], g_nCurrentNum := g_nCurrentNum p + 1\<rparr>))
       (\<lambda>_. InitConnerPool_loop e n))))"

definition InitConnerPool :: "ext \<Rightarrow> nat \<Rightarrow> nat \<Rightarrow> (adopool, bool) cm" where
  "InitConnerPool e nMin nMax =
     cbind (gets bInitial) (\<lambda>b.
       if b then
         cbind (modify (\<lambda>p. p\<lparr>g_nMinConner := int nMin, g_nMaxConner := int nMax\<rparr>))
           (\<lambda>_. InitConnerPool_loop e nMin)
       else ret True)"

definition InitAdoMysql :: "ext \<Rightarrow> (adopool, bool) cm" where
  "InitAdoMysql e =
     cbind (modify (\<lambda>p. p\<lparr>g_nMinConner := 0, g_nMaxConner := 0, g_nCurrentNum := 0,
                          vctConner := [], hWaitConner := False\<rparr>))
       (\<lambda>_. InitConnerPool e 10 50)"

definition AddNewConner :: "ext \<Rightarrow> (adopool, nat option) cm" where
  "AddNewConner e =
     cbind new_conner (\<lambda>c.
     cbind (CreateConner e c) (\<lambda>ok.
     if \<not> ok then cbind (delete_conner c) (\<lambda>_. ret None)
     else cbind (ConnectDatabase e c) (\<lambda>ok2.
     if \<not> ok2 then cbind (ReleaseConner c) (\<lambda>_. cbind (delete_conner c) (\<lambda>_. ret None))
     else cbind (modify (\<lambda>p. p\<lparr>g_nCurrentNum := g_nCurrentNum p + 1\<rparr>)) (\<lambda>_. ret (Some c)))))"

definition AllocConner :: "ext \<Rightarrow> (adopool, nat option) cm" where
  "AllocConner e = (\<lambda>p.
     if vctConner p = [] then
       (if g_nCurrentNum p < g_nMaxConner p then AddNewConner e p
        else (Inl Blocked, p\<lparr>hWaitConner := False\<rparr>))
     else (Inr (Some (last (vctConner p))), p\<lparr>vctConner := butlast (vctConner p)\<rparr>))"

text \<open>The critical section of \<open>FreeConner\<close> and the \<open>SetEvent\<close> behind it.\<close>

definition PushConner :: "nat \<Rightarrow> (adopool, unit) cm" where
  "PushConner c = modify (\<lambda>p. p\<lparr>vctConner := vctConner p @ [c]\<rparr>)"

definition SignalConner :: "(adopool, unit) cm" where
  "SignalConner = modify (\<lambda>p. p\<lparr>hWaitConner := True\<rparr>)"

definition FreeConner :: "nat \<Rightarrow> (adopool, unit) cm" where
  "FreeConner c = cbind (PushConner c) (\<lambda>_. SignalConner)"

lemma FreeConner_app: "FreeConner c = modify (\<lambda>p. p\<lparr>vctConner := vctConner p @ [c], hWaitConner := True\<rparr>)"
  by (simp add: FreeConner_def PushConner_def SignalConner_def fun_eq_iff cbind_def modify_def)

definition ReInitConner :: "ext \<Rightarrow> nat \<Rightarrow> (adopool, bool) cm" where
  "ReInitConner e c =
     cbind (CreateConner e c) (\<lambda>ok.
     if \<not> ok then
       cbind (delete_conner c) (\<lambda>_.
       cbind (modify (\<lambda>p. p\<lparr>g_nCurrentNum := g_nCurrentNum p - 1\<rparr>)) (\<lambda>_. ret False))
     else cbind (ConnectDatabase e c) (\<lambda>ok2.
     if \<not> ok2 then
       cbind (ReleaseConner c) (\<lambda>_.
       cbind (delete_conner c) (\<lambda>_.
       cbind (modify (\<lambda>p. p\<lparr>g_nCurrentNum := g_nCurrentNum p - 1\<rparr>)) (\<lambda>_. ret False)))
     else ret True))"

text \<open>
  \<open>AllocTransConner\<close>: an allocation whose result is checked and, if need be, reconnected.
  \<open>Select_From_Tbl\<close> and \<open>ExecuteSql\<close> begin with the same guards.
\<close>

definition CheckConner :: "ext \<Rightarrow> nat \<Rightarrow> (adopool, nat option) cm" where
  "CheckConner e c =
     cbind (gets (\<lambda>p. conner p c)) (\<lambda>i.
     cbind (if i \<noteq> Some True then ReInitConner e c else ret True) (\<lambda>ok.
     if \<not> ok then ret None
     else cbind (acall (ado_state_open e)) (\<lambda>opn.
     if \<not> opn then
       cbind (ReleaseConner c) (\<lambda>_.
       cbind (ReInitConner e c) (\<lambda>ok2. if ok2 then ret (Some c) else ret None))
     else ret (Some c))))"

definition AllocTransConner :: "ext \<Rightarrow> (adopool, nat option) cm" where
  "AllocTransConner e = cbind (AllocConner e) (\<lambda>r. case r of None \<Rightarrow> ret None | Some c \<Rightarrow> CheckConner e c)"

definition log_sql :: "string \<Rightarrow> (adopool, unit) cm" where
  "log_sql s = modify (\<lambda>p. p\<lparr>sqllog := sqllog p @ [s]\<rparr>)"

definition CreateRecorder :: "ext \<Rightarrow> (adopool, bool) cm" where
  "CreateRecorder e = acall (ado_create e)"

text \<open>
  \<open>Select_From_Tbl(sql, pRecorder)\<close>: \<open>old\<close> is the record set \<open>pRecorder\<close> holds before the
  call; the second component of the result is what it holds afterwards. A failed or empty
  query leaves it empty, a failed allocation leaves it as it was.
\<close>

definition Select_From_Tbl :: "ext \<Rightarrow> string \<Rightarrow> nat option \<Rightarrow> (adopool, bool \<times> nat option) cm" where
  "Select_From_Tbl e sql old =
     cbind (AllocTransConner e) (\<lambda>r. case r of
       None \<Rightarrow> ret (False, old)
     | Some c \<Rightarrow>
         cbind (CreateRecorder e) (\<lambda>ok.
         if \<not> ok then cbind (FreeConner c) (\<lambda>_. ret (False, None))
         else cbind (log_sql sql) (\<lambda>_.
         cbind (acall (\<lambda>n. ado_open e n sql)) (\<lambda>rs. case rs of
           None \<Rightarrow> cbind (FreeConner c) (\<lambda>_. ret (False, None))
         | Some h \<Rightarrow> cbind (FreeConner c) (\<lambda>_.
             if ado_eof e h then ret (False, None) else ret (True, Some h))))))"

definition ExecuteSql :: "ext \<Rightarrow> string \<Rightarrow> (adopool, bool) cm" where
  "ExecuteSql e sql =
     cbind (AllocTransConner e) (\<lambda>r. case r of
       None \<Rightarrow> ret False
     | Some c \<Rightarrow>
         cbind (log_sql sql) (\<lambda>_.
         cbind (acall (\<lambda>n. ado_exec e n sql)) (\<lambda>ok.
         cbind (FreeConner c) (\<lambda>_. ret ok))))"

section \<open>The invariant of the pool\<close>

definition ado_held :: "adopool \<Rightarrow> nat set" where
  "ado_held p = dom (conner p)"

definition ado_idle :: "adopool \<Rightarrow> nat set" where
  "ado_idle p = set (vctConner p)"

abbreviation ado_busy :: "adopool \<Rightarrow> nat set" where
  "ado_busy p \<equiv> ado_held p - ado_idle p"

definition ado_limit :: "adopool \<Rightarrow> nat" where
  "ado_limit p = nat (g_nMaxConner p)"

definition ado_inv :: "adopool \<Rightarrow> bool" where
  "ado_inv p \<longleftrightarrow> distinct (vctConner p) \<and> ado_idle p \<subseteq> ado_held p \<and> finite (ado_held p) \<and>
     (\<forall>c. nextConner p \<le> c \<longrightarrow> conner p c = None) \<and>
     g_nCurrentNum p = int (card (ado_held p)) \<and> g_nCurrentNum p \<le> g_nMaxConner p"

lemmas ado_defs = ado_held_def ado_idle_def ado_limit_def

lemmas ado_prims = new_conner_def delete_conner_def CreateConner_def ReleaseConner_def
  ConnectDatabase_def cbind_def

lemma ado_held_upd [simp]:
  "ado_held (p\<lparr>vctConner := x\<rparr>) = ado_held p" "ado_held (p\<lparr>g_nCurrentNum := n\<rparr>) = ado_held p"
  "ado_held (p\<lparr>acalls := k\<rparr>) = ado_held p" "ado_held (p\<lparr>sqllog := l\<rparr>) = ado_held p"
  "ado_held (p\<lparr>hWaitConner := w\<rparr>) = ado_held p" "ado_held (p\<lparr>nextConner := k\<rparr>) = ado_held p"
  "ado_held (p\<lparr>conner := (conner p)(c \<mapsto> b)\<rparr>) = insert c (ado_held p)"
  "ado_held (p\<lparr>conner := (conner p)(c := None)\<rparr>) = ado_held p - {c}"
  by (auto simp: ado_held_def)

lemma ado_idle_upd [simp]:
  "ado_idle (p\<lparr>conner := f\<rparr>) = ado_idle p" "ado_idle (p\<lparr>g_nCurrentNum := n\<rparr>) = ado_idle p"
  "ado_idle (p\<lparr>acalls := k\<rparr>) = ado_idle p" "ado_idle (p\<lparr>sqllog := l\<rparr>) = ado_idle p"
  "ado_idle (p\<lparr>hWaitConner := w\<rparr>) = ado_idle p" "ado_idle (p\<lparr>nextConner := k\<rparr>) = ado_idle p"
  "ado_idle (p\<lparr>vctConner := x\<rparr>) = set x"
  by (auto simp: ado_idle_def)

lemma ado_limit_upd [simp]:
  "ado_limit (p\<lparr>conner := f\<rparr>) = ado_limit p" "ado_limit (p\<lparr>g_nCurrentNum := n\<rparr>) = ado_limit p"
  "ado_limit (p\<lparr>acalls := k\<rparr>) = ado_limit p" "ado_limit (p\<lparr>sqllog := l\<rparr>) = ado_limit p"
  "ado_limit (p\<lparr>hWaitConner := w\<rparr>) = ado_limit p" "ado_limit (p\<lparr>nextConner := k\<rparr>) = ado_limit p"
  "ado_limit (p\<lparr>vctConner := x\<rparr>) = ado_limit p"
  by (auto simp: ado_limit_def)

lemma ado_heldI: "conner p c = Some b \<Longrightarrow> c \<in> ado_held p"
  by (auto simp: ado_held_def)

text \<open>
  \<open>ado_st k B p\<close>: the pool satisfies its invariant, its limit is \<open>k\<close> and \<open>B\<close> are the connections
  that are borrowed.
\<close>

definition ado_st :: "nat \<Rightarrow> nat set \<Rightarrow> adopool \<Rightarrow> bool" where
  "ado_st k B p \<longleftrightarrow> ado_inv p \<and> ado_limit p = k \<and> ado_busy p = B"

lemma ado_inv_acalls [simp]: "ado_inv (p\<lparr>acalls := k\<rparr>) = ado_inv p"
  and ado_inv_sqllog [simp]: "ado_inv (p\<lparr>sqllog := l\<rparr>) = ado_inv p"
  and ado_inv_wait [simp]: "ado_inv (p\<lparr>hWaitConner := w\<rparr>) = ado_inv p"
  by (simp_all add: ado_inv_def)

lemma ado_inv_iface:
  assumes "ado_inv p" "c \<in> ado_held p"
  shows "ado_inv (p\<lparr>conner := (conner p)(c \<mapsto> b)\<rparr>)"
proof -
  have "insert c (ado_held p) = ado_held p" using assms(2) by auto
  moreover have "c < nextConner p"
    using assms by (auto simp: ado_inv_def ado_held_def not_le [symmetric])
  ultimately show ?thesis using assms by (auto simp: ado_inv_def)
qed

lemma ado_inv_delete:
  assumes inv: "ado_inv p" and c: "c \<in> ado_busy p"
  shows "ado_inv (p\<lparr>conner := (conner p)(c := None), g_nCurrentNum := g_nCurrentNum p - 1\<rparr>)"
    (is "ado_inv ?q")
proof -
  have held: "ado_held ?q = ado_held p - {c}" and idle: "ado_idle ?q = ado_idle p" by simp_all
  have fin: "finite (ado_held p)" using inv by (simp add: ado_inv_def)
  have "card (ado_held p) = Suc (card (ado_held p - {c}))"
    using c fin by (metis DiffE card.remove)
  then have "g_nCurrentNum ?q = int (card (ado_held ?q))"
    using inv held by (simp add: ado_inv_def)
  moreover have "ado_idle ?q \<subseteq> ado_held ?q"
    using inv c held idle by (auto simp: ado_inv_def)
  moreover have "g_nCurrentNum ?q \<le> g_nMaxConner ?q" "distinct (vctConner ?q)"
    "\<forall>d. nextConner ?q \<le> d \<longrightarrow> conner ?q d = None"
    using inv by (simp_all add: ado_inv_def)
  ultimately show ?thesis using fin held unfolding ado_inv_def by simp
qed

lemma insert_held: "c \<in> ado_held p \<Longrightarrow> insert c (ado_held p) = ado_held p"
  by auto

lemma ado_iface_st:
  assumes "ado_st k B p" "c \<in> B"
  shows "ado_st k B (p\<lparr>conner := (conner p)(c \<mapsto> b)\<rparr>)"
proof -
  have "c \<in> ado_held p" using assms by (auto simp: ado_st_def)
  with assms show ?thesis by (simp add: ado_st_def ado_inv_iface insert_held)
qed

abbreviation no_fault :: "fault \<Rightarrow> 's \<Rightarrow> bool" where
  "no_fault \<equiv> (\<lambda>_ _. False)"

lemma acall_st [hoare_rules]: "hoare (ado_st k B) (acall f) (\<lambda>_. ado_st k B) E"
  by (rule hoareI) (auto simp: ado_st_def)

lemma log_sql_st [hoare_rules]: "hoare (ado_st k B) (log_sql s) (\<lambda>_. ado_st k B) E"
  by (rule hoareI) (auto simp: ado_st_def log_sql_def)

lemma iface_st:
  assumes "c \<in> B" shows "hoare (ado_st k B) (modify (\<lambda>p. p\<lparr>conner := (conner p)(c \<mapsto> b)\<rparr>)) (\<lambda>_. ado_st k B) E"
  by (rule hoare_modify) (rule ado_iface_st [OF _ assms])

lemma CreateConner_st [hoare_rules]:
  assumes "c \<in> B" shows "hoare (ado_st k B) (CreateConner e c) (\<lambda>_. ado_st k B) E"
  unfolding CreateConner_def
  by (intro hoare_bind [OF acall_st] hoare_if hoare_bind [OF iface_st] hoare_ret assms)

lemma ReleaseConner_st [hoare_rules]:
  assumes "c \<in> B" shows "hoare (ado_st k B) (ReleaseConner c) (\<lambda>_. ado_st k B) E"
proof -
  have "hoare (ado_st k B) (modify (\<lambda>p. if conner p c = Some True
          then p\<lparr>conner := (conner p)(c := Some False)\<rparr> else p)) (\<lambda>_. ado_st k B) E"
    by (rule hoare_modify) (simp add: ado_iface_st assms)
  then show ?thesis unfolding ReleaseConner_def by (rule hoare_bind) (rule hoare_ret)
qed

lemma gets_st: "hoare (ado_st k B) (gets f) (\<lambda>_. ado_st k B) E"
  by (rule hoare_gets)

lemma ConnectDatabase_st [hoare_rules]:
  "hoare (ado_st k B) (ConnectDatabase e c) (\<lambda>_. ado_st k B) E"
  unfolding ConnectDatabase_def
  by (intro hoare_bind [OF gets_st] hoare_if hoare_ret acall_st)

lemma ado_drop_st:
  assumes "ado_st k B p" "c \<in> B"
  shows "ado_st k (B - {c}) (p\<lparr>conner := (conner p)(c := None), g_nCurrentNum := g_nCurrentNum p - 1\<rparr>)"
    (is "ado_st _ _ ?q")
proof -
  have "ado_inv ?q" using assms by (intro ado_inv_delete) (auto simp: ado_st_def)
  moreover have "ado_busy ?q = B - {c}" using assms by (auto simp: ado_st_def)
  ultimately show ?thesis using assms by (simp add: ado_st_def)
qed

lemma drop_conner_st:
  assumes "c \<in> B" and "\<And>p. ado_st k (B - {c}) p \<Longrightarrow> Q x p"
  shows "hoare (ado_st k B) (cbind (delete_conner c) (\<lambda>_.
           cbind (modify (\<lambda>p. p\<lparr>g_nCurrentNum := g_nCurrentNum p - 1\<rparr>)) (\<lambda>_. ret x))) Q E"
  using ado_drop_st assms by (simp add: hoare_def delete_conner_def)

lemma ReInitConner_st [hoare_rules]:
  assumes c: "c \<in> B"
  shows "hoare (ado_st k B) (ReInitConner e c)
           (\<lambda>ok. ado_st k (if ok then B else B - {c})) E"
  unfolding ReInitConner_def
  by (intro hoare_bind [OF CreateConner_st] hoare_bind [OF ConnectDatabase_st]
      hoare_bind [OF ReleaseConner_st] hoare_if drop_conner_st hoare_ret c) auto

text \<open>A cell that \<open>AddNewConner\<close> has allocated and the count does not include yet.\<close>

definition ado_fresh :: "nat \<Rightarrow> nat set \<Rightarrow> nat \<Rightarrow> adopool \<Rightarrow> bool" where
  "ado_fresh k B c q \<longleftrightarrow> conner q c \<noteq> None \<and> ado_st k B (q\<lparr>conner := (conner q)(c := None)\<rparr>) \<and>
     c < nextConner q \<and> g_nCurrentNum q < g_nMaxConner q"

lemmas ado_st_unfold = ado_st_def ado_inv_def ado_held_def ado_idle_def ado_limit_def

lemma new_conner_fresh:
  assumes st: "ado_st k B p" and lt: "g_nCurrentNum p < g_nMaxConner p"
    and n: "new_conner p = (Inr c, q)"
  shows "ado_fresh k B c q"
proof -
  have c: "c = nextConner p" "conner p c = None"
    using st n by (auto simp: ado_st_def ado_inv_def new_conner_def)
  then have "(conner p)(c := None) = conner p" by (simp add: fun_upd_idem)
  moreover have "q = p\<lparr>conner := (conner p)(c \<mapsto> False), nextConner := Suc c\<rparr>"
    using n c by (simp add: new_conner_def)
  ultimately show ?thesis using st lt c
    by (simp add: ado_fresh_def ado_st_unfold)
qed

lemma acall_fresh: "hoare (ado_fresh k B c) (acall f) (\<lambda>_. ado_fresh k B c) E"
  by (simp add: hoare_def ado_fresh_def ado_st_unfold)

lemma iface_fresh:
  "hoare (ado_fresh k B c) (modify (\<lambda>p. p\<lparr>conner := (conner p)(c \<mapsto> b)\<rparr>)) (\<lambda>_. ado_fresh k B c) E"
  by (rule hoare_modify) (simp add: ado_fresh_def)

lemma CreateConner_fresh: "hoare (ado_fresh k B c) (CreateConner e c) (\<lambda>_. ado_fresh k B c) E"
  unfolding CreateConner_def
  by (intro hoare_bind [OF acall_fresh] hoare_if hoare_bind [OF iface_fresh] hoare_ret)

lemma ConnectDatabase_fresh: "hoare (ado_fresh k B c) (ConnectDatabase e c) (\<lambda>_. ado_fresh k B c) E"
proof -
  have "hoare (ado_fresh k B c) (gets f) (\<lambda>_. ado_fresh k B c) E" for f
    by (rule hoare_gets)
  then show ?thesis unfolding ConnectDatabase_def
    by (rule hoare_bind) (intro hoare_if hoare_ret acall_fresh)
qed

lemma ReleaseConner_fresh: "hoare (ado_fresh k B c) (ReleaseConner c) (\<lambda>_. ado_fresh k B c) E"
proof -
  have "hoare (ado_fresh k B c) (modify (\<lambda>p. if conner p c = Some True
          then p\<lparr>conner := (conner p)(c := Some False)\<rparr> else p)) (\<lambda>_. ado_fresh k B c) E"
    by (rule hoare_modify) (auto simp: ado_fresh_def simp del: not_None_eq)
  then show ?thesis unfolding ReleaseConner_def by (rule hoare_bind) (rule hoare_ret)
qed

lemma delete_fresh: "hoare (ado_fresh k B c) (delete_conner c) (\<lambda>_. ado_st k B) E"
  unfolding delete_conner_def by (rule hoare_modify) (simp add: ado_fresh_def)

lemma ado_count_fresh:
  assumes "ado_fresh k B c q"
  shows "c \<notin> B \<and> ado_st k (insert c B) (q\<lparr>g_nCurrentNum := g_nCurrentNum q + 1\<rparr>)"
proof -
  let ?p = "q\<lparr>conner := (conner q)(c := None)\<rparr>"
  have st: "ado_st k B ?p" and c: "conner q c \<noteq> None" "c < nextConner q"
    and lt: "g_nCurrentNum q < g_nMaxConner q"
    using assms by (auto simp: ado_fresh_def)
  have held: "ado_held q = insert c (ado_held ?p)" and new: "c \<notin> ado_held ?p"
    using c by (auto simp: ado_held_def simp del: ado_held_upd)
  have inv: "ado_inv ?p" using st by (simp add: ado_st_def)
  then have idle: "c \<notin> ado_idle q" and fin: "finite (ado_held ?p)"
    using new by (auto simp: ado_inv_def)
  have "card (ado_held q) = Suc (card (ado_held ?p))"
    using card_insert_disjoint [OF fin new] held by argo
  moreover have "\<forall>d. nextConner q \<le> d \<longrightarrow> conner q d = None"
  proof (intro allI impI)
    fix d assume d: "nextConner q \<le> d"
    then have "conner ?p d = None" using inv by (simp add: ado_inv_def)
    with d c(2) show "conner q d = None" by simp
  qed
  moreover have "ado_idle q \<subseteq> ado_held q" using inv by (auto simp: ado_inv_def)
  moreover have "finite (ado_held q)" using held fin by simp
  moreover have "distinct (vctConner q)" "g_nCurrentNum q = int (card (ado_held ?p))"
    using inv by (simp_all add: ado_inv_def)
  ultimately have "ado_inv (q\<lparr>g_nCurrentNum := g_nCurrentNum q + 1\<rparr>)"
    using lt by (simp add: ado_inv_def)
  moreover have "ado_busy ?p = B" "ado_limit q = k" using st by (simp_all add: ado_st_def)
  moreover have "ado_busy q = insert c (ado_busy ?p)"
    using idle unfolding held by (simp add: insert_Diff_if) blast
  moreover have "c \<notin> ado_busy ?p" using new by blast
  ultimately show ?thesis by (simp add: ado_st_def)
qed

lemma AddNewConner_st:
  "hoare (\<lambda>p. ado_st k B p \<and> g_nCurrentNum p < g_nMaxConner p) (AddNewConner e)
     (\<lambda>r p. case r of None \<Rightarrow> ado_st k B p | Some c \<Rightarrow> c \<notin> B \<and> ado_st k (insert c B) p) no_fault"
proof -
  let ?Q = "\<lambda>r p. case r of None \<Rightarrow> ado_st k B p | Some c \<Rightarrow> c \<notin> B \<and> ado_st k (insert c B) p"
  have new: "hoare (\<lambda>p. ado_st k B p \<and> g_nCurrentNum p < g_nMaxConner p) new_conner
      (ado_fresh k B) no_fault"
  proof (rule hoareI)
    fix s c s' assume "ado_st k B s \<and> g_nCurrentNum s < g_nMaxConner s" "new_conner s = (Inr c, s')"
    then show "ado_fresh k B c s'" using new_conner_fresh by blast
  qed (simp add: new_conner_def)
  have count: "hoare (ado_fresh k B c)
      (cbind (modify (\<lambda>p. p\<lparr>g_nCurrentNum := g_nCurrentNum p + 1\<rparr>)) (\<lambda>_. ret (Some c))) ?Q no_fault" for c
    using ado_count_fresh by (simp add: hoare_def)
  show ?thesis unfolding AddNewConner_def
    by (intro hoare_bind [OF new] hoare_bind [OF CreateConner_fresh] hoare_if
        hoare_bind [OF ConnectDatabase_fresh] hoare_bind [OF ReleaseConner_fresh]
        hoare_bind [OF delete_fresh] hoare_ret count) simp_all
qed

abbreviation ado_blocked :: "nat \<Rightarrow> nat set \<Rightarrow> fault \<Rightarrow> adopool \<Rightarrow> bool" where
  "ado_blocked k B f p \<equiv> f = Blocked \<and> ado_st k B p \<and> ado_idle p = {} \<and> k \<le> card (ado_held p)"

lemma ado_pop:
  assumes "ado_st k B p" "vctConner p \<noteq> []"
  shows "last (vctConner p) \<notin> B \<and>
    ado_st k (insert (last (vctConner p)) B) (p\<lparr>vctConner := butlast (vctConner p)\<rparr>)"
proof -
  obtain cs c where v: "vctConner p = cs @ [c]" using assms(2) by (metis rev_exhaust)
  have inv: "ado_inv p" using assms(1) by (simp add: ado_st_def)
  then have "c \<notin> set cs" "c \<in> ado_held p" using v by (auto simp: ado_inv_def ado_idle_def)
  moreover have "ado_inv (p\<lparr>vctConner := cs\<rparr>)"
    using inv v by (auto simp: ado_inv_def ado_idle_def)
  moreover have "B = ado_held p - set (cs @ [c])" "ado_limit p = k"
    using assms(1) v by (auto simp: ado_st_def ado_idle_def)
  ultimately show ?thesis using v by (auto simp: ado_st_def)
qed

lemma AllocConner_st:
  "hoare (ado_st k B) (AllocConner e)
     (\<lambda>r p. case r of None \<Rightarrow> ado_st k B p | Some c \<Rightarrow> c \<notin> B \<and> ado_st k (insert c B) p)
     (ado_blocked k B)"
proof (rule hoareI)
  fix p r p' assume st: "ado_st k B p" and a: "AllocConner e p = (Inr r, p')"
  show "case r of None \<Rightarrow> ado_st k B p' | Some c \<Rightarrow> c \<notin> B \<and> ado_st k (insert c B) p'"
  proof (cases "vctConner p = []")
    case True
    then have "AddNewConner e p = (Inr r, p')" "g_nCurrentNum p < g_nMaxConner p"
      using a by (auto simp: AllocConner_def split: if_splits)
    then show ?thesis using hoareD_Inr [OF AddNewConner_st] st by blast
  next
    case False
    then show ?thesis using a ado_pop [OF st] by (auto simp: AllocConner_def)
  qed
next
  fix p f p' assume st: "ado_st k B p" and a: "AllocConner e p = (Inl f, p')"
  have "\<not> (vctConner p = [] \<and> g_nCurrentNum p < g_nMaxConner p)"
    using a st hoareD_Inl [OF AddNewConner_st, of k B p e f p'] by (auto simp: AllocConner_def)
  then have p: "vctConner p = []" "g_nMaxConner p \<le> g_nCurrentNum p"
    "f = Blocked" "p' = p\<lparr>hWaitConner := False\<rparr>"
    using a by (auto simp: AllocConner_def split: if_splits)
  then show "ado_blocked k B f p'"
    using st by (auto simp: ado_st_def ado_inv_def ado_limit_def ado_idle_def)
qed

lemma FreeConner_st:
  assumes "c \<in> B"
  shows "hoare (ado_st k B) (FreeConner c) (\<lambda>_. ado_st k (B - {c})) E"
  unfolding FreeConner_app
proof (rule hoare_modify)
  fix p assume "ado_st k B p"
  then show "ado_st k (B - {c}) (p\<lparr>vctConner := vctConner p @ [c], hWaitConner := True\<rparr>)"
    using assms by (auto simp: ado_st_def ado_inv_def ado_idle_def)
qed

lemma CheckConner_st:
  assumes c: "c \<notin> B"
  shows "hoare (ado_st k (insert c B)) (CheckConner e c)
     (\<lambda>r p. case r of None \<Rightarrow> ado_st k B p | Some c' \<Rightarrow> c' = c \<and> ado_st k (insert c B) p) E"
proof -
  let ?R = "\<lambda>ok. ado_st k (if ok then insert c B else insert c B - {c})"
  have re: "hoare (ado_st k (insert c B)) (ReInitConner e c) ?R E" by (rule ReInitConner_st) simp
  have B: "insert c B - {c} = B" using c by simp
  show ?thesis unfolding CheckConner_def
    by (rule hoare_bind [OF gets_st], rule hoare_bind [where R="?R"], rule hoare_if [OF re hoare_ret], simp, rule hoare_if,
        rule hoare_ret, simp add: B, rule hoare_pre [where P'="ado_st k (insert c B)"],
        intro hoare_bind [OF acall_st] hoare_if hoare_bind [OF ReleaseConner_st] hoare_bind [OF re] hoare_ret)
      (use B in auto)
qed

lemma AllocTransConner_st:
  "hoare (ado_st k B) (AllocTransConner e)
     (\<lambda>r p. case r of None \<Rightarrow> ado_st k B p | Some c \<Rightarrow> c \<notin> B \<and> ado_st k (insert c B) p)
     (ado_blocked k B)"
  unfolding AllocTransConner_def
proof (rule hoare_bind [OF AllocConner_st])
  fix r :: "nat option"
  let ?Q = "\<lambda>r p. case r of None \<Rightarrow> ado_st k B p | Some c \<Rightarrow> c \<notin> B \<and> ado_st k (insert c B) p"
  show "hoare (?Q r) (case r of None \<Rightarrow> ret None | Some c \<Rightarrow> CheckConner e c) ?Q (ado_blocked k B)"
  proof (cases r)
    case None
    then show ?thesis by (auto intro: hoare_ret)
  next
    case (Some c)
    show ?thesis
    proof (cases "c \<in> B")
      case True
      then show ?thesis using Some by (simp add: hoare_def)
    next
      case False
      have "hoare (ado_st k (insert c B)) (CheckConner e c) ?Q (ado_blocked k B)"
        by (rule hoare_post [OF CheckConner_st [OF False, where E = "ado_blocked k B"]]) (auto simp: False split: option.splits)
      then show ?thesis using Some False by simp
    qed
  qed
qed

section \<open>Queries give their connection back\<close>

text \<open>
  After the allocation \<open>Select_From_Tbl\<close> and \<open>ExecuteSql\<close> run a body that releases the
  connection on every path.
\<close>

lemma ado_using_st:
  assumes none: "\<And>p. ado_st k B p \<Longrightarrow> Q x0 p"
    and body: "\<And>c. c \<notin> B \<Longrightarrow> hoare (ado_st k (insert c B)) (body c) Q E"
    and E: "\<And>f p. ado_blocked k B f p \<Longrightarrow> E f p"
  shows "hoare (ado_st k B) (cbind (AllocTransConner e) (\<lambda>r. case r of None \<Rightarrow> ret x0 | Some c \<Rightarrow> body c)) Q E"
proof (rule hoare_bind)
  show "hoare (ado_st k B) (AllocTransConner e)
     (\<lambda>r p. case r of None \<Rightarrow> ado_st k B p | Some c \<Rightarrow> c \<notin> B \<and> ado_st k (insert c B) p) E"
    by (rule hoare_post [OF AllocTransConner_st]) (simp_all add: E)
  fix r
  show "hoare (\<lambda>p. case r of None \<Rightarrow> ado_st k B p | Some c \<Rightarrow> c \<notin> B \<and> ado_st k (insert c B) p)
    (case r of None \<Rightarrow> ret x0 | Some c \<Rightarrow> body c) Q E"
  proof (cases r)
    case None
    then show ?thesis using none by (auto intro: hoare_ret)
  next
    case (Some c)
    then show ?thesis using body [of c] by (auto simp: hoare_def)
  qed
qed

lemma ado_free_ret:
  assumes "c \<notin> B" "\<And>p. ado_st k B p \<Longrightarrow> Q x p"
  shows "hoare (ado_st k (insert c B)) (cbind (FreeConner c) (\<lambda>_. ret x)) Q E"
proof -
  have "hoare (ado_st k (insert c B)) (FreeConner c) (\<lambda>_. ado_st k (insert c B - {c})) E"
    by (rule FreeConner_st) simp
  with assms show ?thesis
    by (intro hoare_bind [where R="\<lambda>_. ado_st k B"] hoare_ret) simp_all
qed

lemma CreateRecorder_st: "hoare (ado_st k B) (CreateRecorder e) (\<lambda>_. ado_st k B) E"
  unfolding CreateRecorder_def by (rule acall_st)

lemma Select_From_Tbl_st:
  "hoare (ado_st k B) (Select_From_Tbl e sql old) (\<lambda>_. ado_st k B) (ado_blocked k B)"
proof -
  have free: "(if b then cbind (FreeConner c) (\<lambda>_. ret x) else cbind (FreeConner c) (\<lambda>_. ret y)) =
      cbind (FreeConner c) (\<lambda>_. if b then ret x else ret y)" for b c x y
    by simp
  show ?thesis unfolding Select_From_Tbl_def
    by (intro ado_using_st hoare_bind [OF CreateRecorder_st] hoare_if hoare_bind [OF log_sql_st]
        hoare_bind [OF acall_st] hoare_option ado_free_ret)
      (simp_all add: free [symmetric] if_distrib ado_free_ret split: if_splits)
qed

lemma ExecuteSql_st:
  "hoare (ado_st k B) (ExecuteSql e sql) (\<lambda>_. ado_st k B) (ado_blocked k B)"
  unfolding ExecuteSql_def
  by (intro ado_using_st hoare_bind [OF log_sql_st] hoare_bind [OF acall_st] ado_free_ret)

section \<open>The ADO pool is a connection pool\<close>

lemma ado_conn_pool:
  assumes st: "\<And>k B. hoare (ado_st k B) alloc
     (\<lambda>r p. case r of None \<Rightarrow> ado_st k B p | Some c \<Rightarrow> c \<notin> B \<and> ado_st k (insert c B) p) (ado_blocked k B)"
  shows "conn_pool ado_inv ado_idle ado_held ado_limit alloc FreeConner"
proof
  fix p p' c assume "ado_inv p" "alloc p = (Inr (Some c), p')"
  with hoareD_Inr [OF st, of _ _ p] show
    "ado_inv p' \<and> ado_limit p' = ado_limit p \<and> c \<notin> ado_busy p \<and> ado_busy p' = insert c (ado_busy p)"
    by (fastforce simp: ado_st_def)
next
  fix p p' assume "ado_inv p" "alloc p = (Inr None, p')"
  with hoareD_Inr [OF st, of _ _ p] show
    "ado_inv p' \<and> ado_limit p' = ado_limit p \<and> ado_busy p' = ado_busy p"
    by (fastforce simp: ado_st_def)
next
  fix p p' f assume "ado_inv p" "alloc p = (Inl f, p')"
  with hoareD_Inl [OF st, of _ _ p] show
    "f = Blocked \<and> ado_inv p' \<and> ado_limit p' = ado_limit p \<and> ado_busy p' = ado_busy p \<and>
     ado_idle p' = {} \<and> ado_limit p \<le> card (ado_held p')"
    by (fastforce simp: ado_st_def)
next
  fix p c assume "ado_inv p" "c \<in> ado_busy p"
  then have "ado_st (ado_limit p) (ado_busy p) p" "c \<in> ado_busy p" by (simp_all add: ado_st_def)
  moreover obtain p' where p': "FreeConner c p = (Inr (), p')" by (simp add: FreeConner_app)
  ultimately have "ado_st (ado_limit p) (ado_busy p - {c}) p'"
    using hoareD_Inr [OF FreeConner_st] by blast
  with p' show "\<exists>p'. FreeConner c p = (Inr (), p') \<and> ado_inv p' \<and> ado_limit p' = ado_limit p \<and>
      ado_busy p' = ado_busy p - {c}"
    by (auto simp: ado_st_def)
next
  fix p assume "ado_inv p"
  then show "finite (ado_held p) \<and> card (ado_held p) \<le> ado_limit p"
    by (auto simp: ado_inv_def ado_limit_def)
qed

interpretation ado: conn_pool ado_inv ado_idle ado_held ado_limit "AllocTransConner e" FreeConner
  for e
  by (rule ado_conn_pool [OF AllocTransConner_st])

lemma ado_balancedI:
  assumes m: "\<And>k B. hoare (ado_st k B) m (\<lambda>_. ado_st k B) (ado_blocked k B)" and inv: "ado_inv p"
  shows "ado_inv (snd (m p)) \<and> ado_busy (snd (m p)) = ado_busy p \<and>
    (\<forall>f. fst (m p) = Inl f \<longrightarrow> f = Blocked \<and> card (ado_busy p) = ado_limit p)"
proof -
  have st: "ado_st (ado_limit p) (ado_busy p) p" using inv by (simp add: ado_st_def)
  obtain r q where mp: "m p = (r, q)" by fastforce
  show ?thesis
  proof (cases r)
    case (Inl f)
    then have b: "ado_blocked (ado_limit p) (ado_busy p) f q"
      using hoareD_Inl [OF m st] mp by blast
    then have "ado_held q = ado_busy p" "card (ado_held q) \<le> ado_limit p"
      using ado.bounded [of q] by (auto simp: ado_st_def)
    then have "card (ado_busy p) = ado_limit p" using b by (metis le_antisym)
    then show ?thesis using mp Inl b by (auto simp: ado_st_def)
  next
    case (Inr x)
    then have "ado_st (ado_limit p) (ado_busy p) q" using hoareD_Inr [OF m st] mp by blast
    then show ?thesis using mp Inr by (auto simp: ado_st_def)
  qed
qed

section \<open>The pool at start-up\<close>

definition ado0 :: adopool where
  "ado0 = \<lparr>vctConner = [], conner = (\<lambda>_. None), nextConner = 0, g_nMinConner = 0,
     g_nMaxConner = 0, g_nCurrentNum = 0, bInitial = True, hWaitConner = False, acalls = 0,
     sqllog = []\<rparr>"

abbreviation ado_nums :: "int \<Rightarrow> int \<Rightarrow> adopool \<Rightarrow> bool" where
  "ado_nums m n p \<equiv> g_nCurrentNum p = m \<and> g_nMaxConner p = n"

lemma CreateConner_nums: "hoare (ado_nums m n) (CreateConner e c) (\<lambda>_. ado_nums m n) E"
  by (simp add: hoare_def CreateConner_def cbind_def)

lemma ConnectDatabase_nums: "hoare (ado_nums m n) (ConnectDatabase e c) (\<lambda>_. ado_nums m n) E"
  by (simp add: hoare_def ConnectDatabase_def cbind_def)

lemma ado_push_fresh:
  assumes "ado_fresh k B c q"
  shows "ado_st k B (q\<lparr>vctConner := vctConner q @ [c], g_nCurrentNum := g_nCurrentNum q + 1\<rparr>)"
proof -
  note n = ado_count_fresh [OF assms]
  then have "c \<in> ado_busy q" "ado_busy q - {c} = B" by (auto simp: ado_st_def)
  with n show ?thesis by (auto simp: ado_st_def ado_inv_def ado_idle_def ado_limit_def)
qed

lemma InitConnerPool_loop_st:
  "m + int n \<le> M \<Longrightarrow> hoare (\<lambda>p. ado_st k {} p \<and> ado_nums m M p) (InitConnerPool_loop e n)
     (\<lambda>ok p. ok \<longrightarrow> ado_st k {} p \<and> g_nCurrentNum p = m + int n) no_fault"
proof (induction n arbitrary: m)
  case 0
  have "ado_st k B (p\<lparr>bInitial := b\<rparr>) = ado_st k B p" for B p b by (simp add: ado_st_unfold)
  then show ?case by (simp add: hoare_def)
next
  case (Suc n)
  let ?Q = "\<lambda>ok p. ok \<longrightarrow> ado_st k {} p \<and> g_nCurrentNum p = m + int (Suc n)"
  let ?F = "\<lambda>c p. ado_fresh k {} c p \<and> ado_nums m M p"
  have M: "m < M" using Suc.prems by simp
  have new: "hoare (\<lambda>p. ado_st k {} p \<and> ado_nums m M p) new_conner ?F no_fault"
  proof (rule hoareI)
    fix s c s' assume s: "ado_st k {} s \<and> ado_nums m M s" and n: "new_conner s = (Inr c, s')"
    then have "ado_fresh k {} c s'" using M by (intro new_conner_fresh) auto
    then show "?F c s'" using s n by (auto simp: new_conner_def)
  qed (simp add: new_conner_def)
  have create: "hoare (?F c) (CreateConner e c) (\<lambda>_. ?F c) no_fault"
    and connect: "hoare (?F c) (ConnectDatabase e c) (\<lambda>_. ?F c) no_fault" for c
    by (rule hoare_conj [OF CreateConner_fresh CreateConner_nums],
        rule hoare_conj [OF ConnectDatabase_fresh ConnectDatabase_nums])
  have fail: "hoare P (cbind (delete_conner c) (\<lambda>_. cbind ClearlVector (\<lambda>_. ret False))) ?Q no_fault"
    "hoare P (cbind (ReleaseConner c) (\<lambda>_. cbind (delete_conner c) (\<lambda>_. cbind ClearlVector (\<lambda>_. ret False)))) ?Q no_fault"
    for P c
    by (simp_all add: hoare_def delete_conner_def ClearlVector_def ReleaseConner_def cbind_def)
  have IH: "hoare (\<lambda>p. ado_st k {} p \<and> ado_nums (m + 1) M p) (InitConnerPool_loop e n) ?Q no_fault"
    using Suc.IH [of "m + 1"] Suc.prems by (simp add: add.assoc)
  have step: "hoare (?F c)
      (cbind (modify (\<lambda>p. p\<lparr>vctConner := vctConner p @ [c], g_nCurrentNum := g_nCurrentNum p + 1\<rparr>))
         (\<lambda>_. InitConnerPool_loop e n)) ?Q no_fault" for c
    by (rule hoare_bind [OF hoare_modify IH]) (use ado_push_fresh in auto)
  show ?case unfolding InitConnerPool_loop.simps
    by (intro hoare_bind [OF new] hoare_bind [OF create] hoare_if hoare_bind [OF connect] fail step)
qed

lemma InitAdoMysql_st:
  assumes "InitAdoMysql e ado0 = (Inr True, p)"
  shows "ado_st 50 {} p \<and> g_nCurrentNum p = 10"
proof -
  let ?p = "ado0\<lparr>g_nMinConner := 10, g_nMaxConner := 50\<rparr>"
  have loop: "InitConnerPool_loop e 10 ?p = (Inr True, p)"
    using assms by (simp add: InitAdoMysql_def InitConnerPool_def ado0_def del: InitConnerPool_loop.simps)
  have pre: "ado_st 50 {} ?p \<and> ado_nums 0 50 ?p"
    by (simp add: ado_st_unfold ado0_def)
  have "(0::int) + int 10 \<le> 50" by simp
  from hoareD_Inr [OF InitConnerPool_loop_st [OF this] pre loop] show ?thesis by simp
qed

section \<open>Properties\<close>

text \<open>After a successful start-up, whatever threads allocate (also with a
  reconnection) and release ADO connections in whatever order, no connection is in the hands of
  two of them, the connections handed out are exactly those the pool has and does not keep idle,
  and there are never more than 50.\<close>

theorem ado_pool_exclusive:
  assumes "fst (InitAdoMysql e ado0) = Inr True"
  shows "case pool_run (AllocTransConner e) FreeConner as ([], snd (InitAdoMysql e ado0)) of
      (cs, p) \<Rightarrow> distinct cs \<and> set cs = ado_held p - ado_idle p \<and> length cs \<le> 50 \<and> ado_inv p"
proof -
  define p where "p = snd (InitAdoMysql e ado0)"
  have p: "InitAdoMysql e ado0 = (Inr True, p)"
    using prod_eqI [of "InitAdoMysql e ado0" "(Inr True, p)"] assms unfolding p_def fst_conv snd_conv by blast
  have st: "ado_inv p" "set [] = ado_busy p" "ado_limit p = 50"
    using InitAdoMysql_st [OF p] by (simp_all add: ado_st_def)
  obtain cs p' where r: "pool_run (AllocTransConner e) FreeConner as ([], p) = (cs, p')"
    by fastforce
  have "ado_inv p' \<and> distinct cs \<and> set cs = ado_busy p' \<and> length cs \<le> ado_limit p \<and>
      ado_limit p' = ado_limit p"
    by (rule ado.run_exclusive [OF st(1) _ st(2) r]) simp
  then show ?thesis unfolding p_def [symmetric] r st(3) by simp
qed

theorem ado_pool_exclusive_witness:
  "fst (InitAdoMysql ext0 ado0) = Inr True \<and>
   (case pool_run (AllocTransConner ext0) FreeConner [None, None, Some 1, None]
      ([], snd (InitAdoMysql ext0 ado0)) of
      (cs, p) \<Rightarrow> distinct cs \<and> set cs = ado_held p - ado_idle p \<and> length cs \<le> 50 \<and> ado_inv p)"
proof -
  have "fst (InitConnerPool_loop ext0 n p) = Inr True" for n p
    by (induction n arbitrary: p)
      (simp_all add: new_conner_def CreateConner_def ConnectDatabase_def cbind_def ext0_def)
  then have "fst (InitAdoMysql ext0 ado0) = Inr True"
    by (simp add: InitAdoMysql_def InitConnerPool_def ado0_def del: InitConnerPool_loop.simps)
  from conjI [OF this ado_pool_exclusive [OF this]] show ?thesis .
qed

text \<open>C20: in a pool that satisfies its invariant a query and a statement leave the pool as they found it on every
  path (failed allocation, failed reconnection, failed record set, failed query, empty result):
  the same connections are borrowed, the invariant and the limit hold; the only fault is a wait
  that can end only when another thread gives a connection back.\<close>

theorem ado_queries_balanced:
  assumes "ado_inv p"
  shows "ado_inv (snd (Select_From_Tbl e sql old p)) \<and>
    ado_busy (snd (Select_From_Tbl e sql old p)) = ado_busy p \<and>
    (\<forall>f. fst (Select_From_Tbl e sql old p) = Inl f \<longrightarrow> f = Blocked \<and> card (ado_busy p) = ado_limit p) \<and>
    ado_inv (snd (ExecuteSql e sql p)) \<and> ado_busy (snd (ExecuteSql e sql p)) = ado_busy p \<and>
    (\<forall>f. fst (ExecuteSql e sql p) = Inl f \<longrightarrow> f = Blocked \<and> card (ado_busy p) = ado_limit p)"
proof -
  have "ado_inv (snd (Select_From_Tbl e sql old p)) \<and>
      ado_busy (snd (Select_From_Tbl e sql old p)) = ado_busy p \<and>
      (\<forall>f. fst (Select_From_Tbl e sql old p) = Inl f \<longrightarrow> f = Blocked \<and> card (ado_busy p) = ado_limit p)"
    by (rule ado_balancedI [OF Select_From_Tbl_st assms])
  moreover have "ado_inv (snd (ExecuteSql e sql p)) \<and>
      ado_busy (snd (ExecuteSql e sql p)) = ado_busy p \<and>
      (\<forall>f. fst (ExecuteSql e sql p) = Inl f \<longrightarrow> f = Blocked \<and> card (ado_busy p) = ado_limit p)"
    by (rule ado_balancedI [OF ExecuteSql_st assms])
  ultimately show ?thesis by blast
qed

theorem ado_queries_balanced_witness:
  "ado_inv ado0 \<and> ado_busy (snd (Select_From_Tbl ext0 ''select 1'' None ado0)) = ado_busy ado0"
proof -
  have "ado_inv ado0" by (simp add: ado_inv_def ado_held_def ado_idle_def ado0_def)
  then show ?thesis using ado_queries_balanced [of ado0 ext0 "''select 1''" None] by blast
qed

text \<open>When a reconnection fails, its connection leaves the count, so a waiting
  thread could open a new one, but the event the thread waits for is not set: it sleeps on
  although the pool is below its limit.\<close>

theorem ado_lost_wakeup:
  assumes "ado_inv p" "c \<in> ado_busy p" "hWaitConner p = False"
    and "ReInitConner e c p = (Inr False, p')"
  shows "g_nCurrentNum p' < g_nMaxConner p' \<and> hWaitConner p' = False"
proof -
  have "hoare (\<lambda>q. ado_nums m n q \<and> hWaitConner q = False) (ReInitConner e c)
     (\<lambda>ok q. \<not> ok \<longrightarrow> g_nCurrentNum q = m - 1 \<and> g_nMaxConner q = n \<and> hWaitConner q = False) no_fault" for m n
    by (simp add: hoare_def ReInitConner_def ado_prims)
  from hoareD_Inr [OF this _ assms(4)] assms(1,3) show ?thesis
    by (auto simp: ado_inv_def)
qed

theorem ado_lost_wakeup_witness:
  "\<exists>e p c p'. ado_inv p \<and> c \<in> ado_busy p \<and> ReInitConner e c p = (Inr False, p') \<and>
     g_nCurrentNum p' < g_nMaxConner p' \<and> hWaitConner p' = False"
proof -
  let ?e = "ext0\<lparr>ado_create := (\<lambda>_. False)\<rparr>"
  let ?p = "ado0\<lparr>conner := [0 \<mapsto> False], nextConner := 1, g_nCurrentNum := 1, g_nMaxConner := 1\<rparr>"
  have p: "ado_inv ?p" "0 \<in> ado_busy ?p" "hWaitConner ?p = False"
    by (auto simp: ado_inv_def ado_held_def ado_idle_def ado0_def)
  obtain q where q: "ReInitConner ?e 0 ?p = (Inr False, q)"
    by (simp add: ReInitConner_def ado_prims)
  from ado_lost_wakeup [OF p q] p q show ?thesis by blast
qed

end
