(* ===== verification/MysqlPool.thy ===== *)
theory MysqlPool
  imports DBPool
begin

text \<open>
  \<open>DBPool.cpp\<close>, second half: the pool of MySQL connections. \<open>mylive\<close> are the handles that
  \<open>mysql_init\<close> gave and \<open>mysql_close\<close> has not taken back. A use of another handle is undefined
  behaviour. As for the ADO pool, operations are atomic and a wait for \<open>hWaitMysql\<close> is the
  fault \<open>Blocked\<close>.
\<close>

section \<open>State and operations\<close>

record mypool =
  vctMysql :: "nat list"
  mylive :: "nat set"
  nextMysql :: nat
  g_nMinConnection :: int
  g_nMaxConnection :: int
  g_nCurrentNumber :: int
  bMyInitial :: bool
  hWaitMysql :: bool
  mcalls :: nat
  mylog :: "string list"

definition mcall :: "(nat \<Rightarrow> 'a) \<Rightarrow> (mypool, 'a) cm" where
  "mcall f = (\<lambda>p. (Inr (f (mcalls p)), p\<lparr>mcalls := Suc (mcalls p)\<rparr>))"

definition mysql_init :: "ext \<Rightarrow> (mypool, nat option) cm" where
  "mysql_init e = cbind (mcall (my_init e)) (\<lambda>ok.
     if ok then (\<lambda>p. (Inr (Some (nextMysql p)),
       p\<lparr>mylive := insert (nextMysql p) (mylive p), nextMysql := Suc (nextMysql p)\<rparr>))
     else ret None)"

definition mysql_close :: "nat \<Rightarrow> (mypool, unit) cm" where
  "mysql_close c = modify (\<lambda>p. p\<lparr>mylive := mylive p - {c}\<rparr>)"

text \<open>\<open>Mysql_ConnectDB(&pMysql)\<close>: the result and what \<open>pMysql\<close> holds afterwards.\<close>

definition Mysql_ConnectDB :: "ext \<Rightarrow> (mypool, bool \<times> nat option) cm" where
  "Mysql_ConnectDB e = cbind (mysql_init e) (\<lambda>r. case r of
     None \<Rightarrow> ret (False, None)
   | Some c \<Rightarrow> cbind (mcall (my_connect e)) (\<lambda>ok. ret (ok, Some c)))"

definition Mysql_CloseConnection :: "nat option \<Rightarrow> (mypool, nat option) cm" where
  "Mysql_CloseConnection r = (case r of
     None \<Rightarrow> ret None
   | Some c \<Rightarrow> cbind (mysql_close c) (\<lambda>_. ret None))"

fun Mysql_InitConnectionPool_loop :: "ext \<Rightarrow> nat \<Rightarrow> (mypool, unit) cm" where
  "Mysql_InitConnectionPool_loop e 0 = ret ()"
| "Mysql_InitConnectionPool_loop e (Suc n) =
     cbind (Mysql_ConnectDB e) (\<lambda>(ok, r).
     if \<not> ok then cbind (Mysql_CloseConnection r) (\<lambda>_. Mysql_InitConnectionPool_loop e n)
     else cbind (modify (\<lambda>p. p\<lparr>vctMysql := vctMysql p @ [the r],
                               g_nCurrentNumber := g_nCurrentNumber p + 1\<rparr>))
            (\<lambda>_. Mysql_InitConnectionPool_loop e n))"

definition Mysql_InitConnectionPool :: "ext \<Rightarrow> nat \<Rightarrow> nat \<Rightarrow> (mypool, bool) cm" where
  "Mysql_InitConnectionPool e nMin nMax =
     cbind (gets bMyInitial) (\<lambda>b.
     if b then
       cbind (modify (\<lambda>p. p\<lparr>vctMysql := [], hWaitMysql := False, g_nMinConnection := int nMin,
                            g_nMaxConnection := int nMax\<rparr>)) (\<lambda>_.
       cbind (Mysql_InitConnectionPool_loop e nMin) (\<lambda>_.
       cbind (modify (\<lambda>p. p\<lparr>bMyInitial := False\<rparr>)) (\<lambda>_. ret True)))
     else ret True)"

definition Mysql_RemoveFromPool :: "nat option \<Rightarrow> (mypool, nat option) cm" where
  "Mysql_RemoveFromPool r =
     cbind (Mysql_CloseConnection r) (\<lambda>_.
     cbind (modify (\<lambda>p. p\<lparr>g_nCurrentNumber := g_nCurrentNumber p - 1\<rparr>)) (\<lambda>_. ret None))"

text \<open>
  \<open>Mysql_AllocConnection\<close>: first a connection from the pool or a new one (\<open>None\<close> when the
  new one cannot be opened), then the check that it is alive, with one reconnection.
\<close>

definition Mysql_TakeConnection :: "ext \<Rightarrow> (mypool, nat option) cm" where
  "Mysql_TakeConnection e = (\<lambda>p.
     if vctMysql p = [] then
       (if g_nCurrentNumber p < g_nMaxConnection p then
          cbind (Mysql_ConnectDB e) (\<lambda>(ok, r).
          if \<not> ok then Mysql_CloseConnection r
          else cbind (modify (\<lambda>p. p\<lparr>g_nCurrentNumber := g_nCurrentNumber p + 1\<rparr>)) (\<lambda>_. ret r)) p
        else (Inl Blocked, p\<lparr>hWaitMysql := False\<rparr>))
     else (Inr (Some (last (vctMysql p))), p\<lparr>vctMysql := butlast (vctMysql p)\<rparr>))"

text \<open>The connection that was taken is tried, outside the critical section, and replaced when it is dead.\<close>

definition Mysql_CheckConnection :: "ext \<Rightarrow> nat \<Rightarrow> (mypool, nat option) cm" where
  "Mysql_CheckConnection e c =
     cbind (mcall (my_ping e)) (\<lambda>alive.
     if alive then ret (Some c)
     else cbind (Mysql_CloseConnection (Some c)) (\<lambda>_.
          cbind (Mysql_ConnectDB e) (\<lambda>(ok, r').
          if \<not> ok then Mysql_RemoveFromPool r' else ret r')))"

definition Mysql_AllocConnection :: "ext \<Rightarrow> (mypool, nat option) cm" where
  "Mysql_AllocConnection e =
     cbind (Mysql_TakeConnection e) (\<lambda>r. case r of None \<Rightarrow> ret None | Some c \<Rightarrow> Mysql_CheckConnection e c)"

definition Mysql_Push :: "nat \<Rightarrow> (mypool, unit) cm" where
  "Mysql_Push c = modify (\<lambda>p. p\<lparr>vctMysql := vctMysql p @ [c]\<rparr>)"

definition Mysql_Signal :: "(mypool, unit) cm" where
  "Mysql_Signal = modify (\<lambda>p. p\<lparr>hWaitMysql := True\<rparr>)"

definition Mysql_BackToPool :: "nat \<Rightarrow> (mypool, unit) cm" where
  "Mysql_BackToPool c = cbind (Mysql_Push c) (\<lambda>_. Mysql_Signal)"

lemma Mysql_BackToPool_app: "Mysql_BackToPool c = modify (\<lambda>p. p\<lparr>vctMysql := vctMysql p @ [c], hWaitMysql := True\<rparr>)"
  by (simp add: Mysql_BackToPool_def Mysql_Push_def Mysql_Signal_def fun_eq_iff cbind_def modify_def)

text \<open>\<open>mysql_real_query\<close>: success or failure; the statement reaches the server.\<close>

definition mysql_real_query :: "ext \<Rightarrow> nat \<Rightarrow> string \<Rightarrow> (mypool, bool) cm" where
  "mysql_real_query e c sql =
     cbind (gets (\<lambda>p. c \<in> mylive p)) (\<lambda>live.
     if \<not> live then throw Undefined
     else cbind (modify (\<lambda>p. p\<lparr>mylog := mylog p @ [sql]\<rparr>)) (\<lambda>_.
          mcall (\<lambda>n. my_query e n sql)))"

definition InsertIntoTbl :: "ext \<Rightarrow> string \<Rightarrow> nat \<Rightarrow> (mypool, bool) cm" where
  "InsertIntoTbl e sql c =
     cbind (mysql_real_query e c (c_str sql)) (\<lambda>ok.
     if \<not> ok then ret False
     else cbind (mcall (my_affected e)) (\<lambda>n. if n = 0 then ret False else ret True))"

definition UpdateTbl :: "ext \<Rightarrow> string \<Rightarrow> nat \<Rightarrow> (mypool, bool) cm" where
  "UpdateTbl e sql c =
     cbind (mysql_real_query e c (c_str sql)) (\<lambda>ok.
     if \<not> ok then ret False
     else cbind (mcall (my_affected e)) (\<lambda>n. if n = 0 then ret False else ret True))"

definition CREATE_USER_TBL :: string where
  "CREATE_USER_TBL = ''CREATE TABLE IF NOT EXISTS user_tbl(id int unsigned not null auto_increment,'' @
     ''User char(32),'' @ ''Password char(41),'' @ ''Authority int,Usertype int,'' @
     ''Fatherid int unsigned,'' @ ''Dj double(8,2),'' @ ''Xgsj date,'' @ ''primary key(id),'' @
     ''unique key(User))''"

definition CREATE_KH_TBL :: string where
  "CREATE_KH_TBL = ''CREATE TABLE IF NOT EXISTS kh_tbl(id int nusigned not null auto_increment,'' @
     ''Khmc char(41),'' @ ''Userid int unsigned,'' @ ''nFatherid int unsigned,'' @
     ''Jlxm varchar(32),'' @ ''Dj double(8,2),'' @ ''Lxfs varchar(64),'' @ ''Ssdq varchar(64), '' @
     ''On1m int unsigned,'' @ ''On15d int unsigned,'' @ ''Du15d int unsigned,'' @
     ''Du1m int unsigned,'' @ ''primary key(id),'' @ ''unique key(Khmc))''"

definition create_tbl :: "ext \<Rightarrow> string \<Rightarrow> (mypool, bool) cm" where
  "create_tbl e sql =
     cbind (Mysql_AllocConnection e) (\<lambda>r. case r of
       None \<Rightarrow> ret False
     | Some c \<Rightarrow>
         cbind (mysql_real_query e c sql) (\<lambda>ok.
         cbind (Mysql_BackToPool c) (\<lambda>_. ret ok)))"

definition CreateUserTbl :: "ext \<Rightarrow> (mypool, bool) cm" where
  "CreateUserTbl e = create_tbl e CREATE_USER_TBL"

definition CreateKhTbl :: "ext \<Rightarrow> (mypool, bool) cm" where
  "CreateKhTbl e = create_tbl e CREATE_KH_TBL"

section \<open>The invariant of the pool\<close>

definition my_idle :: "mypool \<Rightarrow> nat set" where
  "my_idle p = set (vctMysql p)"

abbreviation my_busy :: "mypool \<Rightarrow> nat set" where
  "my_busy p \<equiv> mylive p - my_idle p"

definition my_limit :: "mypool \<Rightarrow> nat" where
  "my_limit p = nat (g_nMaxConnection p)"

text \<open>
  \<open>my_core k V B p\<close>: the handles are those of the pool, with the limit \<open>k\<close>, \<open>V\<close> the list of the
  idle ones and \<open>B\<close> the borrowed ones; \<open>my_st\<close> adds that the count agrees.
\<close>

definition my_core :: "nat \<Rightarrow> nat set \<Rightarrow> mypool \<Rightarrow> bool" where
  "my_core k B p \<longleftrightarrow> distinct (vctMysql p) \<and> my_idle p \<subseteq> mylive p \<and> finite (mylive p) \<and>
     (\<forall>c \<in> mylive p. c < nextMysql p) \<and> my_limit p = k \<and> my_busy p = B \<and>
     g_nCurrentNumber p \<le> g_nMaxConnection p"

definition my_st :: "nat \<Rightarrow> nat set \<Rightarrow> mypool \<Rightarrow> bool" where
  "my_st k B p \<longleftrightarrow> my_core k B p \<and> g_nCurrentNumber p = int (card (mylive p))"

definition my_inv :: "mypool \<Rightarrow> bool" where
  "my_inv p \<longleftrightarrow> my_st (my_limit p) (my_busy p) p"

lemmas my_unfold = my_st_def my_core_def my_idle_def my_limit_def

lemma my_st_mcall [hoare_rules]: "hoare (my_st k B) (mcall f) (\<lambda>_. my_st k B) E"
  by (simp add: hoare_def mcall_def my_unfold)

text \<open>An open handle that the count does not include: \<open>pMysql\<close> after \<open>Mysql_ConnectDB\<close>.\<close>

definition my_extra :: "nat \<Rightarrow> nat set \<Rightarrow> nat option \<Rightarrow> mypool \<Rightarrow> bool" where
  "my_extra k B r p \<longleftrightarrow> (case r of
      None \<Rightarrow> my_st k B p
    | Some c \<Rightarrow> c \<in> mylive p \<and> c < nextMysql p \<and> c \<notin> my_idle p \<and>
        my_st k B (p\<lparr>mylive := mylive p - {c}\<rparr>))"

abbreviation my_nums :: "int \<Rightarrow> int \<Rightarrow> mypool \<Rightarrow> bool" where
  "my_nums m n p \<equiv> g_nCurrentNumber p = m \<and> g_nMaxConnection p = n"

lemma my_insert_fresh:
  assumes "my_st k B p"
  shows "my_extra k B (Some (nextMysql p))
    (p\<lparr>mylive := insert (nextMysql p) (mylive p), nextMysql := Suc (nextMysql p)\<rparr>)"
proof -
  have n: "nextMysql p \<notin> mylive p" "nextMysql p \<notin> my_idle p"
    using assms by (auto simp: my_st_def my_core_def)
  then have "insert (nextMysql p) (mylive p) - {nextMysql p} = mylive p" by auto
  then show ?thesis using assms n
    by (auto simp: my_extra_def my_unfold)
qed

lemma mysql_init_st: "hoare (my_st k B) (mysql_init e) (my_extra k B) E"
  unfolding mysql_init_def
proof (rule hoare_bind [OF my_st_mcall], rule hoare_if)
  show "hoare (my_st k B) (\<lambda>p. (Inr (Some (nextMysql p)),
       p\<lparr>mylive := insert (nextMysql p) (mylive p), nextMysql := Suc (nextMysql p)\<rparr>)) (my_extra k B) E"
    using my_insert_fresh by (simp add: hoare_def)
  show "hoare (my_st k B) (ret None) (my_extra k B) E"
    by (rule hoare_ret) (simp add: my_extra_def)
qed

lemma my_extra_mcall: "hoare (my_extra k B r) (mcall f) (\<lambda>_. my_extra k B r) E"
proof -
  have "my_st k B (p\<lparr>mcalls := n, mylive := x\<rparr>) = my_st k B (p\<lparr>mylive := x\<rparr>)"
    "my_st k B (p\<lparr>mcalls := n\<rparr>) = my_st k B p" "my_idle (p\<lparr>mcalls := n\<rparr>) = my_idle p" for p n x
    by (simp_all add: my_unfold)
  then show ?thesis by (cases r) (simp_all add: hoare_def mcall_def my_extra_def)
qed

lemma Mysql_ConnectDB_st:
  "hoare (my_st k B) (Mysql_ConnectDB e)
     (\<lambda>(ok, r) p. my_extra k B r p \<and> (ok \<longrightarrow> r \<noteq> None)) E"
  unfolding Mysql_ConnectDB_def
proof (rule hoare_bind [OF mysql_init_st], rule hoare_option)
  fix r :: "nat option" and c assume "r = Some c"
  then show "hoare (my_extra k B r) (cbind (mcall (my_connect e)) (\<lambda>ok. ret (ok, Some c)))
      (\<lambda>(ok, r) p. my_extra k B r p \<and> (ok \<longrightarrow> r \<noteq> None)) E"
    by (auto intro: hoare_bind [OF my_extra_mcall] hoare_ret)
qed (auto intro: hoare_ret)

lemma Mysql_CloseConnection_st:
  "hoare (my_extra k B r) (Mysql_CloseConnection r) (\<lambda>x p. x = None \<and> my_st k B p) E"
  by (cases r) (simp_all add: hoare_def Mysql_CloseConnection_def mysql_close_def my_extra_def)

lemma mysql_init_nums: "hoare (my_nums m n) (mysql_init e) (\<lambda>_. my_nums m n) E"
  by (simp add: hoare_def mysql_init_def mcall_def cbind_def)

lemma Mysql_ConnectDB_nums: "hoare (my_nums m n) (Mysql_ConnectDB e) (\<lambda>_. my_nums m n) E"
  unfolding Mysql_ConnectDB_def
  by (rule hoare_bind [OF mysql_init_nums]) (simp add: hoare_def mcall_def cbind_def split: option.split)

text \<open>Counting the new handle: as a borrowed one, or at once as an idle one.\<close>

lemma my_count_extra:
  assumes "my_extra k B (Some c) p" "g_nCurrentNumber p < g_nMaxConnection p"
  shows "c \<notin> B \<and> my_st k (insert c B) (p\<lparr>g_nCurrentNumber := g_nCurrentNumber p + 1\<rparr>)"
proof -
  let ?q = "p\<lparr>mylive := mylive p - {c}\<rparr>"
  have st: "my_st k B ?q" and c: "c \<in> mylive p" "c \<notin> my_idle p" "c < nextMysql p"
    using assms(1) by (auto simp: my_extra_def)
  have fin: "finite (mylive p)" using st by (simp add: my_unfold)
  have "card (mylive p) = Suc (card (mylive p - {c}))" using c(1) fin by (metis card.remove)
  moreover have "g_nCurrentNumber p = int (card (mylive p - {c}))"
    using st by (simp add: my_st_def)
  ultimately have num: "g_nCurrentNumber p + 1 = int (card (mylive p))" by simp
  have busy: "my_busy p = insert c B" "c \<notin> B"
    using st c by (auto simp: my_unfold)
  have "my_idle p \<subseteq> mylive p" "distinct (vctMysql p)" "\<forall>d \<in> mylive p. d < nextMysql p"
    "my_limit p = k"
    using st c by (auto simp: my_unfold)
  with fin num busy assms(2) show ?thesis
    by (auto simp: my_st_def my_core_def my_idle_def my_limit_def)
qed

lemma my_return:
  assumes "my_st k B p" "c \<in> B"
  shows "my_st k (B - {c}) (p\<lparr>vctMysql := vctMysql p @ [c], hWaitMysql := w\<rparr>)"
  using assms by (auto simp: my_unfold)

lemma my_st_wait [simp]: "my_st k B (p\<lparr>hWaitMysql := w\<rparr>) = my_st k B p"
  by (simp add: my_unfold)

lemma Mysql_BackToPool_st:
  assumes "c \<in> B" shows "hoare (my_st k B) (Mysql_BackToPool c) (\<lambda>_. my_st k (B - {c})) E"
  unfolding Mysql_BackToPool_app by (rule hoare_modify) (rule my_return [OF _ assms])

lemma Mysql_RemoveFromPool_uncount:
  assumes "my_extra k B (Some c) p"
  shows "my_st k B (p\<lparr>mylive := mylive p - {c}\<rparr>)"
  using assms by (simp add: my_extra_def)

abbreviation my_got :: "nat \<Rightarrow> nat set \<Rightarrow> nat option \<Rightarrow> mypool \<Rightarrow> bool" where
  "my_got k B r p \<equiv> (case r of None \<Rightarrow> my_st k B p | Some c \<Rightarrow> c \<notin> B \<and> my_st k (insert c B) p)"

abbreviation my_blocked :: "nat \<Rightarrow> nat set \<Rightarrow> fault \<Rightarrow> mypool \<Rightarrow> bool" where
  "my_blocked k B f p \<equiv> f = Blocked \<and> my_st k B p \<and> my_idle p = {} \<and> k \<le> card (mylive p)"

lemma my_pop:
  assumes "my_st k B p" "vctMysql p \<noteq> []"
  shows "last (vctMysql p) \<notin> B \<and>
    my_st k (insert (last (vctMysql p)) B) (p\<lparr>vctMysql := butlast (vctMysql p)\<rparr>)"
proof -
  obtain cs c where v: "vctMysql p = cs @ [c]" using assms(2) by (metis rev_exhaust)
  with assms(1) show ?thesis by (auto simp: my_unfold)
qed

lemma my_new_st:
  "hoare (\<lambda>p. my_st k B p \<and> g_nCurrentNumber p < g_nMaxConnection p)
     (cbind (Mysql_ConnectDB e) (\<lambda>(ok, r).
        if \<not> ok then Mysql_CloseConnection r
        else cbind (modify (\<lambda>p. p\<lparr>g_nCurrentNumber := g_nCurrentNumber p + 1\<rparr>)) (\<lambda>_. ret r)))
     (my_got k B) no_fault"
proof (rule hoareI)
  let ?m = "(\<lambda>(ok, r). if \<not> ok then Mysql_CloseConnection r
        else cbind (modify (\<lambda>p. p\<lparr>g_nCurrentNumber := g_nCurrentNumber p + 1\<rparr>)) (\<lambda>_. ret r))"
  fix p assume p: "my_st k B p \<and> g_nCurrentNumber p < g_nMaxConnection p"
  obtain y q where c: "Mysql_ConnectDB e p = (y, q)" by fastforce
  have "y \<noteq> Inl f" for f using hoareD_Inl [OF Mysql_ConnectDB_st [where E = no_fault]] p c by metis
  then obtain ok r where y: "y = Inr (ok, r)" by (cases y) auto
  have ex: "my_extra k B r q" "ok \<longrightarrow> r \<noteq> None"
    using hoareD_Inr [OF Mysql_ConnectDB_st] p c y by blast+
  have lt: "g_nCurrentNumber q < g_nMaxConnection q"
    using hoareD_Inr [OF Mysql_ConnectDB_nums] p c y by (metis (no_types, lifting))
  { fix x p' assume "cbind (Mysql_ConnectDB e) ?m p = (Inr x, p')"
    then have m: "?m (ok, r) q = (Inr x, p')" using c y by (simp add: cbind_Inr)
    show "my_got k B x p'"
    proof (cases ok)
      case True
      with ex m my_count_extra [OF _ lt] show ?thesis by auto
    next
      case False
      then show ?thesis using m hoareD_Inr [OF Mysql_CloseConnection_st ex(1)] by auto
    qed }
  { fix f p' assume "cbind (Mysql_ConnectDB e) ?m p = (Inl f, p')"
    then have m: "?m (ok, r) q = (Inl f, p')" using c y by (simp add: cbind_Inr)
    then show False
      using hoareD_Inl [OF Mysql_CloseConnection_st [where E = no_fault] ex(1)] by (cases ok) auto }
qed

lemma Mysql_TakeConnection_st:
  "hoare (my_st k B) (Mysql_TakeConnection e) (my_got k B) (my_blocked k B)"
proof (rule hoareI)
  fix p r p' assume st: "my_st k B p" and a: "Mysql_TakeConnection e p = (Inr r, p')"
  show "my_got k B r p'"
  proof (cases "vctMysql p = []")
    case True
    then show ?thesis
      using a st hoareD_Inr [OF my_new_st, of k B p e r p']
      by (simp add: Mysql_TakeConnection_def split: if_splits)
  next
    case False
    then show ?thesis using a my_pop [OF st] by (auto simp: Mysql_TakeConnection_def)
  qed
next
  fix p f p' assume st: "my_st k B p" and a: "Mysql_TakeConnection e p = (Inl f, p')"
  have "\<not> (vctMysql p = [] \<and> g_nCurrentNumber p < g_nMaxConnection p)"
    using a st hoareD_Inl [OF my_new_st, of k B p e f p'] by (auto simp: Mysql_TakeConnection_def)
  then have "vctMysql p = []" "g_nMaxConnection p \<le> g_nCurrentNumber p"
    "f = Blocked" "p' = p\<lparr>hWaitMysql := False\<rparr>"
    using a by (auto simp: Mysql_TakeConnection_def split: if_splits)
  then show "my_blocked k B f p'" using st by (auto simp: my_unfold)
qed

text \<open>
  Between the close of a dead connection and its replacement the count is one too high: the
  pool is as it would be with the count \<open>n\<close>.
\<close>

lemma mysql_init_count:
  "mysql_init e (p\<lparr>g_nCurrentNumber := n\<rparr>) =
     (case mysql_init e p of (r, q) \<Rightarrow> (r, q\<lparr>g_nCurrentNumber := n\<rparr>))"
  by (simp add: mysql_init_def mcall_def cbind_def)

lemma Mysql_ConnectDB_count:
  "Mysql_ConnectDB e (p\<lparr>g_nCurrentNumber := n\<rparr>) =
     (case Mysql_ConnectDB e p of (r, q) \<Rightarrow> (r, q\<lparr>g_nCurrentNumber := n\<rparr>))"
  by (simp add: Mysql_ConnectDB_def cbind_def mysql_init_count mcall_def
      split: prod.splits sum.splits option.splits)

lemma my_reconnect_st:
  assumes c: "c \<notin> B"
  shows "hoare (my_st k (insert c B))
     (cbind (Mysql_CloseConnection (Some c)) (\<lambda>_.
        cbind (Mysql_ConnectDB e) (\<lambda>(ok, r'). if \<not> ok then Mysql_RemoveFromPool r' else ret r')))
     (my_got k B) no_fault"
proof -
  let ?f = "\<lambda>(ok, r'). if \<not> ok then Mysql_RemoveFromPool r' else ret r'"
  { fix p assume st: "my_st k (insert c B) p"
    let ?q = "p\<lparr>mylive := mylive p - {c}\<rparr>"
    let ?n = "g_nCurrentNumber p - 1"
    have live: "c \<in> mylive p" "finite (mylive p)" using st by (auto simp: my_unfold)
    have card: "card (mylive p) = Suc (card (mylive p - {c}))" using live by (metis card.remove)
    have q: "my_st k B (?q\<lparr>g_nCurrentNumber := ?n\<rparr>)"
      using st c card by (auto simp: my_unfold)
    obtain y q1 where con: "Mysql_ConnectDB e ?q = (y, q1)" by fastforce
    then have con': "Mysql_ConnectDB e (?q\<lparr>g_nCurrentNumber := ?n\<rparr>) = (y, q1\<lparr>g_nCurrentNumber := ?n\<rparr>)"
      by (simp add: Mysql_ConnectDB_count del: mypool.update_convs)
    have "y \<noteq> Inl f" for f
      using hoareD_Inl [OF Mysql_ConnectDB_st [where E = no_fault] q] con' by metis
    then obtain ok r where y: "y = Inr (ok, r)" by (cases y) auto
    have ex: "my_extra k B r (q1\<lparr>g_nCurrentNumber := ?n\<rparr>)" "ok \<longrightarrow> r \<noteq> None"
      using hoareD_Inr [OF Mysql_ConnectDB_st q con'[unfolded y]] by simp_all
    have num: "g_nCurrentNumber q1 = g_nCurrentNumber p" "g_nMaxConnection q1 = g_nMaxConnection p"
      using hoareD_Inr [OF Mysql_ConnectDB_nums [of "g_nCurrentNumber p" "g_nMaxConnection p"] _ con[unfolded y]]
      by simp_all
    have le: "g_nCurrentNumber p \<le> g_nMaxConnection p" using st by (simp add: my_st_def my_core_def)
    have "case ?f (ok, r) q1 of (Inl f, s) \<Rightarrow> False | (Inr x, s) \<Rightarrow> my_got k B x s"
    proof (cases ok)
      case True
      then obtain d where d: "r = Some d" using ex(2) by auto
      have "my_st k X (q1\<lparr>g_nCurrentNumber := g_nCurrentNumber p\<rparr>) = my_st k X q1" for X
        using num(1) by (simp add: my_unfold)
      then show ?thesis using my_count_extra [OF ex(1)[unfolded d]] num le True d by simp
    next
      case False
      have "my_st k B (case r of None \<Rightarrow> q1\<lparr>g_nCurrentNumber := ?n\<rparr>
          | Some d \<Rightarrow> q1\<lparr>mylive := mylive q1 - {d}, g_nCurrentNumber := ?n\<rparr>)"
      proof (cases r)
        case None
        then show ?thesis using ex(1) by (simp add: my_extra_def)
      next
        case (Some a)
        have "my_st k B (q1\<lparr>g_nCurrentNumber := n, mylive := x\<rparr>) =
            my_st k B (q1\<lparr>mylive := x, g_nCurrentNumber := n\<rparr>)" for n x
          by (simp add: my_unfold)
        then show ?thesis using ex(1) Some by (simp add: my_extra_def)
      qed
      then show ?thesis using False num
        by (cases r) (simp_all add: Mysql_RemoveFromPool_def Mysql_CloseConnection_def mysql_close_def cbind_assoc)
    qed
    then have "case cbind (Mysql_CloseConnection (Some c)) (\<lambda>_. cbind (Mysql_ConnectDB e) ?f) p of
        (Inl f, s) \<Rightarrow> False | (Inr x, s) \<Rightarrow> my_got k B x s"
      by (simp add: Mysql_CloseConnection_def mysql_close_def cbind_assoc
          cbind_Inr [where m = "Mysql_ConnectDB e", OF con[unfolded y]]) }
  then show ?thesis by (simp add: hoare_def)
qed

lemma Mysql_CheckConnection_st:
  assumes c: "c \<notin> B" shows "hoare (my_st k (insert c B)) (Mysql_CheckConnection e c) (my_got k B) E"
  unfolding Mysql_CheckConnection_def
  by (rule hoare_bind [OF my_st_mcall], rule hoare_if, rule hoare_ret)
    (use c in \<open>auto intro: hoare_post [OF my_reconnect_st]\<close>)

lemma Mysql_AllocConnection_st:
  "hoare (my_st k B) (Mysql_AllocConnection e) (my_got k B) (my_blocked k B)"
  unfolding Mysql_AllocConnection_def
proof (rule hoare_bind [OF Mysql_TakeConnection_st])
  fix r :: "nat option"
  show "hoare (my_got k B r) (case r of None \<Rightarrow> ret None | Some c \<Rightarrow> Mysql_CheckConnection e c) (my_got k B) (my_blocked k B)"
  proof (cases r)
    case None
    then show ?thesis by (auto intro: hoare_ret)
  next
    case (Some c)
    then show ?thesis using Mysql_CheckConnection_st [of c B k e "my_blocked k B"] by (cases "c \<in> B") (simp_all add: hoare_def)
  qed
qed

section \<open>The MySQL pool is a connection pool\<close>

lemma my_stD: "my_st k B p \<Longrightarrow> my_inv p \<and> my_limit p = k \<and> my_busy p = B"
  by (simp add: my_inv_def my_st_def my_core_def)

lemma my_invD: "my_inv p \<Longrightarrow> my_st (my_limit p) (my_busy p) p"
  by (simp add: my_inv_def)

lemma my_conn_pool:
  assumes st: "\<And>k B. hoare (my_st k B) alloc (my_got k B) (my_blocked k B)"
  shows "conn_pool my_inv my_idle mylive my_limit alloc Mysql_BackToPool"
proof
  fix p p' c assume p: "my_inv p" and a: "alloc p = (Inr (Some c), p')"
  have "c \<notin> my_busy p \<and> my_st (my_limit p) (insert c (my_busy p)) p'"
    using hoareD_Inr [OF st my_invD [OF p] a] by simp
  with my_stD show
    "my_inv p' \<and> my_limit p' = my_limit p \<and> c \<notin> my_busy p \<and> my_busy p' = insert c (my_busy p)"
    by blast
next
  fix p p' assume p: "my_inv p" and a: "alloc p = (Inr None, p')"
  have "my_st (my_limit p) (my_busy p) p'"
    using hoareD_Inr [OF st my_invD [OF p] a] by simp
  with my_stD show "my_inv p' \<and> my_limit p' = my_limit p \<and> my_busy p' = my_busy p"
    by blast
next
  fix p p' f assume p: "my_inv p" and a: "alloc p = (Inl f, p')"
  have "my_blocked (my_limit p) (my_busy p) f p'"
    using hoareD_Inl [OF st my_invD [OF p] a] .
  with my_stD show "f = Blocked \<and> my_inv p' \<and> my_limit p' = my_limit p \<and> my_busy p' = my_busy p \<and>
     my_idle p' = {} \<and> my_limit p \<le> card (mylive p')"
    by blast
next
  fix p c assume p: "my_inv p" and c: "c \<in> my_busy p"
  obtain p' where p': "Mysql_BackToPool c p = (Inr (), p')" by (simp add: Mysql_BackToPool_app)
  have "my_st (my_limit p) (my_busy p - {c}) p'"
    using hoareD_Inr [OF Mysql_BackToPool_st [OF c] my_invD [OF p] p'] .
  with p' my_stD show "\<exists>p'. Mysql_BackToPool c p = (Inr (), p') \<and> my_inv p' \<and> my_limit p' = my_limit p \<and>
      my_busy p' = my_busy p - {c}"
    by blast
next
  fix p assume "my_inv p"
  then have "finite (mylive p)" "g_nCurrentNumber p = int (card (mylive p))"
    "g_nCurrentNumber p \<le> g_nMaxConnection p"
    by (simp_all add: my_inv_def my_st_def my_core_def)
  then show "finite (mylive p) \<and> card (mylive p) \<le> my_limit p"
    by (simp add: my_limit_def)
qed

interpretation my: conn_pool my_inv my_idle mylive my_limit "Mysql_AllocConnection e" Mysql_BackToPool
  for e
  by (rule my_conn_pool [OF Mysql_AllocConnection_st])

section \<open>Start-up and properties\<close>

definition my0 :: mypool where
  "my0 = \<lparr>vctMysql = [], mylive = {}, nextMysql = 0, g_nMinConnection = 0, g_nMaxConnection = 0,
     g_nCurrentNumber = 0, bMyInitial = True, hWaitMysql = False, mcalls = 0, mylog = []\<rparr>"

lemma my_push_extra:
  assumes "my_extra k B (Some c) p" "g_nCurrentNumber p < g_nMaxConnection p"
  shows "my_st k B (p\<lparr>vctMysql := vctMysql p @ [c], g_nCurrentNumber := g_nCurrentNumber p + 1\<rparr>)"
proof -
  note n = my_count_extra [OF assms]
  then have c: "c \<in> insert c B" "insert c B - {c} = B" by auto
  have "my_st k (insert c B - {c}) (p\<lparr>g_nCurrentNumber := g_nCurrentNumber p + 1,
      vctMysql := vctMysql p @ [c], hWaitMysql := hWaitMysql p\<rparr>)"
    using my_return [OF _ c(1), of k "p\<lparr>g_nCurrentNumber := g_nCurrentNumber p + 1\<rparr>"] n by simp
  then show ?thesis unfolding c(2) by (simp add: my_unfold)
qed

lemma Mysql_InitConnectionPool_loop_st:
  "m + int n \<le> M \<Longrightarrow> hoare (\<lambda>p. my_st k {} p \<and> g_nCurrentNumber p \<le> m \<and> g_nMaxConnection p = M)
     (Mysql_InitConnectionPool_loop e n) (\<lambda>_ p. my_st k {} p) no_fault"
proof (induction n arbitrary: m)
  case 0
  then show ?case by (simp add: hoare_def)
next
  case (Suc n)
  let ?P = "\<lambda>m p. my_st k {} p \<and> g_nCurrentNumber p \<le> m \<and> g_nMaxConnection p = M"
  { fix p assume p: "?P m p"
    obtain y q where con: "Mysql_ConnectDB e p = (y, q)" by fastforce
    have "y \<noteq> Inl f" for f
      using hoareD_Inl [OF Mysql_ConnectDB_st [where E = no_fault]] p con by metis
    then obtain ok r where y: "y = Inr (ok, r)" by (cases y) auto
    have ex: "my_extra k {} r q" "ok \<longrightarrow> r \<noteq> None"
      using hoareD_Inr [OF Mysql_ConnectDB_st _ con[unfolded y]] p by blast+
    have num: "g_nCurrentNumber q = g_nCurrentNumber p" "g_nMaxConnection q = M"
      using hoareD_Inr [OF Mysql_ConnectDB_nums [of "g_nCurrentNumber p" M] _ con[unfolded y]] p
      by simp_all
    define s where "s = (if ok then q\<lparr>vctMysql := vctMysql q @ [the r],
        g_nCurrentNumber := g_nCurrentNumber q + 1\<rparr> else snd (Mysql_CloseConnection r q))"
    have "?P (m + 1) s"
    proof (cases ok)
      case True
      then obtain d where "r = Some d" using ex(2) by auto
      then show ?thesis using my_push_extra [of k "{}" d q] ex num p Suc.prems True
        by (simp add: s_def)
    next
      case False
      obtain x q' where cl: "Mysql_CloseConnection r q = (Inr x, q')"
        by (cases r) (simp_all add: Mysql_CloseConnection_def mysql_close_def)
      have "g_nCurrentNumber q' = g_nCurrentNumber q" "g_nMaxConnection q' = g_nMaxConnection q"
        using cl by (cases r; auto simp: Mysql_CloseConnection_def mysql_close_def)+
      then show ?thesis using hoareD_Inr [OF Mysql_CloseConnection_st ex(1) cl] num p cl False
        by (simp add: s_def)
    qed
    moreover have "Mysql_InitConnectionPool_loop e (Suc n) p = Mysql_InitConnectionPool_loop e n s"
      by (cases r) (simp_all add: cbind_Inr [where m = "Mysql_ConnectDB e", OF con[unfolded y]] s_def Mysql_CloseConnection_def
          mysql_close_def cbind_assoc)
    moreover have "hoare (?P (m + 1)) (Mysql_InitConnectionPool_loop e n) (\<lambda>_ p. my_st k {} p) no_fault"
      using Suc.IH [of "m + 1"] Suc.prems by simp
    ultimately have "case Mysql_InitConnectionPool_loop e (Suc n) p of
        (Inl f, s') \<Rightarrow> False | (Inr x, s') \<Rightarrow> my_st k {} s'"
      by (simp add: hoare_def) }
  then show ?case by (simp add: hoare_def del: Mysql_InitConnectionPool_loop.simps)
qed

lemma Mysql_InitConnectionPool_st:
  "fst (Mysql_InitConnectionPool e 10 20 my0) = Inr True \<and>
   my_st 20 {} (snd (Mysql_InitConnectionPool e 10 20 my0))"
proof -
  let ?p = "my0\<lparr>g_nMinConnection := 10, g_nMaxConnection := 20\<rparr>"
  have pre: "my_st 20 {} ?p \<and> g_nCurrentNumber ?p \<le> 0 \<and> g_nMaxConnection ?p = 20"
    by (simp add: my_unfold my0_def)
  have "(0::int) + int 10 \<le> 20" by simp
  note loop = Mysql_InitConnectionPool_loop_st [OF this, of 20 e]
  obtain y q where run: "Mysql_InitConnectionPool_loop e 10 ?p = (y, q)" by fastforce
  have "y \<noteq> Inl f" for f using hoareD_Inl [OF loop pre] run by metis
  then have y: "y = Inr ()" by (cases y) auto
  have st: "my_st 20 {} q" using hoareD_Inr [OF loop pre run[unfolded y]] .
  have "my_st 20 {} (q\<lparr>bMyInitial := False\<rparr>)" using st by (simp add: my_unfold)
  moreover have "Mysql_InitConnectionPool e 10 20 my0 = (Inr True, q\<lparr>bMyInitial := False\<rparr>)"
  proof -
    have eq: "my0\<lparr>vctMysql := [], hWaitMysql := False, g_nMinConnection := 10, g_nMaxConnection := 20\<rparr> = ?p"
      and init: "bMyInitial my0" by (simp_all add: my0_def)
    show ?thesis unfolding Mysql_InitConnectionPool_def
      by (simp add: init eq cbind_Inr [where m = "Mysql_InitConnectionPool_loop e 10", OF run[unfolded y]]
          del: Mysql_InitConnectionPool_loop.simps)
  qed
  ultimately show ?thesis by simp
qed

text \<open>Whatever threads allocate and release MySQL connections in
  whatever order, connections that turn out dead and are replaced included, no connection is in
  the hands of two of them, every connection handed out is open, and there are never more than
  20; an allocation waits only when 20 are handed out.\<close>

theorem mysql_pool_exclusive:
  "case pool_run (Mysql_AllocConnection e) Mysql_BackToPool as
       ([], snd (Mysql_InitConnectionPool e 10 20 my0)) of
     (cs, p) \<Rightarrow> distinct cs \<and> set cs = mylive p - my_idle p \<and> length cs \<le> 20 \<and>
       (case fst (Mysql_AllocConnection e p) of Inl f \<Rightarrow> f = Blocked \<and> length cs = 20 | Inr r \<Rightarrow> True)"
proof -
  define p where "p = snd (Mysql_InitConnectionPool e 10 20 my0)"
  have "my_st 20 {} p" using Mysql_InitConnectionPool_st p_def by blast
  then have st: "my_inv p" "set [] = my_busy p" "my_limit p = 20" using my_stD by auto
  obtain cs p' where r: "pool_run (Mysql_AllocConnection e) Mysql_BackToPool as ([], p) = (cs, p')"
    by fastforce
  have run: "my_inv p' \<and> distinct cs \<and> set cs = my_busy p' \<and> length cs \<le> my_limit p \<and>
      my_limit p' = my_limit p"
    by (rule my.run_exclusive [OF st(1) _ st(2) r]) simp
  have "\<forall>f p''. Mysql_AllocConnection e p' = (Inl f, p'') \<longrightarrow> f = Blocked \<and> length cs = 20"
    using my.blocked_exhausted [of p' e] my.alloc_fault [of p' e] run st(3) distinct_card [of cs]
    by (metis (no_types, lifting))
  then have "case fst (Mysql_AllocConnection e p') of Inl f \<Rightarrow> f = Blocked \<and> length cs = 20 | Inr r \<Rightarrow> True"
    by (cases "Mysql_AllocConnection e p'") (auto split: sum.split)
  with run st(3) show ?thesis unfolding p_def [symmetric] r by simp
qed

end
