(* ===== verification/PoolThreads.thy ===== *)
theory PoolThreads
  imports MysqlPool
begin

text \<open>
  The two connection pools under threads that interleave between the critical sections: a thread that asks for a connection
  enters the critical section, and sleeps outside of it when the pool is exhausted; a thread that releases one leaves the
  critical section before it sets the event.
\<close>

section \<open>Threads\<close>

text \<open>Where a thread stands: outside, in the loop of the allocation, asleep, with a connection that is to be checked, with
  one it uses, and between the critical section of the release and \<open>SetEvent\<close>.\<close>

datatype pc = Out | Trying | Waiting | Got nat | Has nat | Signalling

fun holding :: "pc \<Rightarrow> nat option" where
  "holding (Got c) = Some c"
| "holding (Has c) = Some c"
| "holding _ = None"

text \<open>The operations of a pool, each of which is one step. What a thread does to a connection that it holds alone is one step too.\<close>

record 'p pool_ops =
  op_take :: "('p, nat option) cm" \<comment> \<open>one round of the loop\<close>
  op_check :: "nat \<Rightarrow> ('p, nat option) cm"
  op_push :: "nat \<Rightarrow> ('p, unit) cm"
  op_signal :: "('p, unit) cm"
  op_event :: "'p \<Rightarrow> bool"

fun after_take :: "fault + nat option \<Rightarrow> pc" where
  "after_take (Inl f) = Waiting"
| "after_take (Inr None) = Out"
| "after_take (Inr (Some c)) = Got c"

fun after_check :: "fault + nat option \<Rightarrow> pc" where
  "after_check (Inr (Some c)) = Has c"
| "after_check _ = Out"

inductive thread_step :: "'p pool_ops \<Rightarrow> nat \<Rightarrow> 'p \<times> (nat \<Rightarrow> pc) \<Rightarrow> 'p \<times> (nat \<Rightarrow> pc) \<Rightarrow> bool" for ops t where
  call: "s t = Out \<Longrightarrow> thread_step ops t (p, s) (p, s(t := Trying))"
| take: "s t = Trying \<Longrightarrow> op_take ops p = (r, p') \<Longrightarrow> thread_step ops t (p, s) (p', s(t := after_take r))"
| wake: "s t = Waiting \<Longrightarrow> op_event ops p \<Longrightarrow> thread_step ops t (p, s) (p, s(t := Trying))"
| check: "s t = Got c \<Longrightarrow> op_check ops c p = (r, p') \<Longrightarrow> thread_step ops t (p, s) (p', s(t := after_check r))"
| push: "s t = Has c \<Longrightarrow> op_push ops c p = (r, p') \<Longrightarrow> thread_step ops t (p, s) (p', s(t := Signalling))"
| signal: "s t = Signalling \<Longrightarrow> op_signal ops p = (r, p') \<Longrightarrow> thread_step ops t (p, s) (p', s(t := Out))"

inductive_cases thread_stepE: "thread_step ops t (p, s) st"

lemmas thread_step_cases [consumes 1, case_names call take wake check push signal] = thread_stepE

text \<open>A schedule is the list of the threads that make the steps.\<close>

inductive runs :: "'p pool_ops \<Rightarrow> nat list \<Rightarrow> 'p \<times> (nat \<Rightarrow> pc) \<Rightarrow> 'p \<times> (nat \<Rightarrow> pc) \<Rightarrow> bool" for ops where
  none: "runs ops [] st st"
| more: "thread_step ops t st st' \<Longrightarrow> runs ops ts st' st'' \<Longrightarrow> runs ops (t # ts) st st''"

inductive thread_reach :: "'p pool_ops \<Rightarrow> 'p \<Rightarrow> 'p \<times> (nat \<Rightarrow> pc) \<Rightarrow> bool" for ops p0 where
  start: "thread_reach ops p0 (p0, \<lambda>_. Out)"
| step: "thread_reach ops p0 st \<Longrightarrow> thread_step ops t st st' \<Longrightarrow> thread_reach ops p0 st'"

lemma runs_reach: "runs ops ts st st' \<Longrightarrow> thread_reach ops p0 st \<Longrightarrow> thread_reach ops p0 st'"
  by (induction rule: runs.induct) (auto intro: thread_reach.step)

section \<open>What the threads may rely on\<close>

text \<open>
  The contract of a pool whose callers sleep: a round that cannot succeed resets the event, a round that takes a connection leaves
  the event alone, a connection in the pool is never refused, and a check gives a connection that nobody else holds.
\<close>

locale waiting_pool = conn_pool inv idle held limit "op_take ops" free
  for inv :: "'p \<Rightarrow> bool" and idle :: "'p \<Rightarrow> nat set" and held :: "'p \<Rightarrow> nat set" and limit :: "'p \<Rightarrow> nat"
    and ops :: "'p pool_ops" and free :: "nat \<Rightarrow> ('p, unit) cm" +
  assumes free_split: "free c = cbind (op_push ops c) (\<lambda>_. op_signal ops)"
    and take_some: "inv p \<Longrightarrow> op_take ops p = (Inr r, p') \<Longrightarrow> op_event ops p' = op_event ops p \<and> idle p' \<subseteq> idle p"
    and take_sleep: "inv p \<Longrightarrow> op_take ops p = (Inl f, p') \<Longrightarrow> \<not> op_event ops p'"
    and take_idle: "inv p \<Longrightarrow> idle p \<noteq> {} \<Longrightarrow> \<exists>c p'. op_take ops p = (Inr (Some c), p')"
    and check_ok: "inv p \<Longrightarrow> c \<in> held p - idle p \<Longrightarrow> \<exists>r p'. op_check ops c p = (Inr r, p') \<and> inv p' \<and> limit p' = limit p \<and>
      idle p' = idle p \<and> op_event ops p' = op_event ops p \<and>
      (case r of None \<Rightarrow> held p' - idle p' = held p - idle p - {c}
       | Some c' \<Rightarrow> c' \<notin> held p - idle p - {c} \<and> held p' - idle p' = insert c' (held p - idle p - {c}))"
    and push_ok: "inv p \<Longrightarrow> c \<in> held p - idle p \<Longrightarrow> \<exists>p'. op_push ops c p = (Inr (), p') \<and> inv p' \<and> limit p' = limit p \<and>
      held p' - idle p' = held p - idle p - {c} \<and> idle p' \<noteq> {}"
    and signal_ok: "inv p \<Longrightarrow> \<exists>p'. op_signal ops p = (Inr (), p') \<and> inv p' \<and> limit p' = limit p \<and>
      held p' = held p \<and> idle p' = idle p \<and> op_event ops p'"

text \<open>
  The invariant: each connection outside the pool is held by exactly one thread, and while a thread sleeps beside a pool
  that is not empty, the event is set or a thread is about to set it.
\<close>

definition holders :: "(nat \<Rightarrow> pc) \<Rightarrow> nat set" where
  "holders s = {t. holding (s t) \<noteq> None}"

definition exclusive :: "nat set \<Rightarrow> (nat \<Rightarrow> pc) \<Rightarrow> bool" where
  "exclusive B s \<longleftrightarrow> bij_betw (\<lambda>t. the (holding (s t))) (holders s) B"

definition awake :: "bool \<Rightarrow> nat set \<Rightarrow> (nat \<Rightarrow> pc) \<Rightarrow> bool" where
  "awake ev I s \<longleftrightarrow> (\<exists>t. s t = Waiting) \<and> I \<noteq> {} \<longrightarrow> ev \<or> (\<exists>t. s t = Signalling)"

lemma exclusiveI:
  assumes "\<And>t c. holding (s t) = Some c \<Longrightarrow> c \<in> B" "\<And>t u c. holding (s t) = Some c \<Longrightarrow> holding (s u) = Some c \<Longrightarrow> t = u"
    "\<And>c. c \<in> B \<Longrightarrow> \<exists>t. holding (s t) = Some c"
  shows "exclusive B s"
  unfolding exclusive_def bij_betw_def
proof
  show "inj_on (\<lambda>t. the (holding (s t))) (holders s)"
    using assms(2) by (auto simp: inj_on_def holders_def)
  show "(\<lambda>t. the (holding (s t))) ` holders s = B"
    using assms(1,3) by (fastforce simp: holders_def image_def)
qed

lemma exclusiveD:
  assumes "exclusive B s"
  shows "holding (s t) = Some c \<Longrightarrow> c \<in> B" "holding (s t) = Some c \<Longrightarrow> holding (s u) = Some c \<Longrightarrow> t = u"
    "c \<in> B \<Longrightarrow> \<exists>t. holding (s t) = Some c"
proof -
  have im: "(\<lambda>t. the (holding (s t))) ` holders s = B" and inj: "inj_on (\<lambda>t. the (holding (s t))) (holders s)"
    using assms by (simp_all add: exclusive_def bij_betw_def)
  show "holding (s t) = Some c \<Longrightarrow> c \<in> B" using im by (force simp: holders_def)
  show "holding (s t) = Some c \<Longrightarrow> holding (s u) = Some c \<Longrightarrow> t = u" using inj by (auto simp: inj_on_def holders_def)
  show "c \<in> B \<Longrightarrow> \<exists>t. holding (s t) = Some c" using im by (force simp: holders_def)
qed

lemma exclusive_card: "exclusive B s \<Longrightarrow> card (holders s) = card B"
  by (auto simp: exclusive_def bij_betw_same_card)

lemma awake_simps [simp]: "awake ev {} s" "awake True I s" "awake ev I (s(t := Signalling))"
  by (auto simp: awake_def)

lemma awake_step: "awake ev I s \<Longrightarrow> I' \<subseteq> I \<Longrightarrow> q \<noteq> Waiting \<Longrightarrow> s t \<noteq> Signalling \<Longrightarrow> awake ev I' (s(t := q))"
proof -
  assume a: "awake ev I s" "I' \<subseteq> I" "q \<noteq> Waiting" "s t \<noteq> Signalling"
  { fix u assume u: "(s(t := q)) u = Waiting" and "I' \<noteq> {}"
    then have "s u = Waiting" "I \<noteq> {}" using a(2,3) by (auto split: if_splits)
    then have "ev \<or> (\<exists>v. s v = Signalling)" using a(1) by (auto simp: awake_def)
    then have "ev \<or> (\<exists>v. (s(t := q)) v = Signalling)" using a(4) by (metis fun_upd_other) }
  then show ?thesis unfolding awake_def by blast
qed

text \<open>How the invariant follows a thread that takes, keeps or gives back a connection.\<close>

lemma exclusive_same: "exclusive B s \<Longrightarrow> holding q = holding (s t) \<Longrightarrow> exclusive B (s(t := q))"
proof -
  assume "exclusive B s" "holding q = holding (s t)"
  moreover from this have "holding ((s(t := q)) u) = holding (s u)" for u by simp
  ultimately show ?thesis unfolding exclusive_def holders_def by simp
qed

lemma exclusive_drop:
  assumes "exclusive B s" "holding (s t) = Some c" "holding q = None" shows "exclusive (B - {c}) (s(t := q))"
proof (rule exclusiveI)
  fix u d assume "holding ((s(t := q)) u) = Some d"
  then have u: "u \<noteq> t" "holding (s u) = Some d" using assms(3) by (auto split: if_splits)
  then show "d \<in> B - {c}" using exclusiveD(1,2) [OF assms(1)] assms(2) by blast
next
  fix u v d assume "holding ((s(t := q)) u) = Some d" "holding ((s(t := q)) v) = Some d"
  then show "u = v" using exclusiveD(2) [OF assms(1)] assms(3) by (auto split: if_splits)
next
  fix d assume "d \<in> B - {c}"
  then obtain u where "holding (s u) = Some d" "u \<noteq> t" using exclusiveD(3) [OF assms(1)] assms(2) by fastforce
  then show "\<exists>u. holding ((s(t := q)) u) = Some d" by (intro exI [of _ u]) simp
qed

lemma exclusive_add:
  assumes "exclusive B s" "holding (s t) = None" "holding q = Some c" "c \<notin> B" shows "exclusive (insert c B) (s(t := q))"
proof (rule exclusiveI)
  fix u d assume "holding ((s(t := q)) u) = Some d"
  then show "d \<in> insert c B" using exclusiveD(1) [OF assms(1)] assms(3) by (auto split: if_splits)
next
  fix u v d assume "holding ((s(t := q)) u) = Some d" "holding ((s(t := q)) v) = Some d"
  then show "u = v" using exclusiveD(1,2) [OF assms(1)] assms(3,4) by (fastforce split: if_splits)
next
  fix d assume "d \<in> insert c B"
  then consider "d = c" | u where "holding (s u) = Some d" using exclusiveD(3) [OF assms(1)] by blast
  then show "\<exists>u. holding ((s(t := q)) u) = Some d" using assms(2,3) by cases (metis fun_upd_same, metis fun_upd_other option.distinct(1))
qed

context waiting_pool
begin

lemma step_ok:
  assumes "thread_step ops t (p, s) (p', s')" "inv p" "exclusive (held p - idle p) s" "awake (op_event ops p) (idle p) s"
  shows "inv p' \<and> limit p' = limit p \<and> exclusive (held p' - idle p') s' \<and> awake (op_event ops p') (idle p') s'"
  using assms(1)
proof (cases rule: thread_step_cases)
  case call
  then show ?thesis using assms(2,3) awake_step [OF assms(4), of _ Trying t] by (simp add: exclusive_same)
next
  case wake
  then show ?thesis using assms(2,3) by (simp add: exclusive_same)
next
  case (take r)
  show ?thesis
  proof (cases r)
    case (Inl f)
    then have p': "inv p'" "limit p' = limit p" "held p' - idle p' = held p - idle p" "idle p' = {}"
      using take alloc_fault [OF assms(2), of f p'] by auto
    have "exclusive (held p - idle p) s'" using take Inl by (simp add: exclusive_same [OF assms(3)])
    then show ?thesis unfolding p'(3) using p'(1,2,4) by simp
  next
    case (Inr x)
    note ev = take_some [OF assms(2), of x p']
    show ?thesis
    proof (cases x)
      case None
      then show ?thesis using take Inr ev alloc_none [OF assms(2), of p'] assms(3) awake_step [OF assms(4), of "idle p'" Out t]
        by (simp add: exclusive_same)
    next
      case (Some c)
      then show ?thesis using take Inr ev alloc_some [OF assms(2), of c p'] awake_step [OF assms(4), of "idle p'" "Got c" t]
        by (simp add: exclusive_add [OF assms(3)])
    qed
  qed
next
  case (check c r)
  have c: "c \<in> held p - idle p" using exclusiveD(1) [OF assms(3), of t c] check by simp
  obtain x where r: "r = Inr x" "inv p'" "limit p' = limit p" "idle p' = idle p" "op_event ops p' = op_event ops p"
      "case x of None \<Rightarrow> held p' - idle p' = held p - idle p - {c}
       | Some c' \<Rightarrow> c' \<notin> held p - idle p - {c} \<and> held p' - idle p' = insert c' (held p - idle p - {c})"
    using check_ok [OF assms(2) c] check by auto
  have out: "exclusive (held p - idle p - {c}) (s(t := Out))" using check by (intro exclusive_drop [OF assms(3)]) simp_all
  have "exclusive (held p' - idle p') s'"
  proof (cases x)
    case None
    then show ?thesis using out r(1,6) check by simp
  next
    case (Some c')
    then have "exclusive (insert c' (held p - idle p - {c})) ((s(t := Out))(t := Has c'))"
      using r(6) by (intro exclusive_add [OF out]) simp_all
    then show ?thesis using Some r(1,6) check by simp
  qed
  moreover have "awake (op_event ops p') (idle p') s'"
    using awake_step [OF assms(4) order_refl, of "after_check r" t] check r(1,4,5) by (cases x) simp_all
  ultimately show ?thesis using r by simp
next
  case (push c r)
  have c: "c \<in> held p - idle p" using exclusiveD(1) [OF assms(3), of t c] push by simp
  have "exclusive (held p - idle p - {c}) (s(t := Signalling))" using push by (intro exclusive_drop [OF assms(3)]) simp_all
  then show ?thesis using push push_ok [OF assms(2) c] by auto
next
  case (signal r)
  then show ?thesis using signal_ok [OF assms(2)] assms(3) by (auto simp: exclusive_same)
qed

lemma reach_ok:
  assumes "thread_reach ops p0 st" "inv p0" "held p0 - idle p0 = {}"
  shows "inv (fst st) \<and> limit (fst st) = limit p0 \<and> exclusive (held (fst st) - idle (fst st)) (snd st) \<and>
    awake (op_event ops (fst st)) (idle (fst st)) (snd st)"
  using assms(1)
proof (induction rule: thread_reach.induct)
  case start
  then show ?case using assms(2,3) by (simp only: fst_conv snd_conv) (auto simp: awake_def intro: exclusiveI)
next
  case (step st t st')
  then show ?case using step_ok [of t "fst st" "snd st" "fst st'" "snd st'"] by simp
qed

text \<open>No two threads hold one connection, and never more than the limit hold one.\<close>

lemma holders_bound:
  assumes "thread_reach ops p0 (p, s)" "inv p0" "held p0 - idle p0 = {}"
  shows "inj_on (\<lambda>t. the (holding (s t))) (holders s) \<and> finite (holders s) \<and> card (holders s) \<le> limit p0"
proof -
  have ok: "inv p" "limit p = limit p0" "exclusive (held p - idle p) s" using reach_ok [OF assms] by simp_all
  have fin: "finite (held p)" "card (held p) \<le> limit p" using bounded [OF ok(1)] by simp_all
  have inj: "inj_on (\<lambda>t. the (holding (s t))) (holders s)" and im: "(\<lambda>t. the (holding (s t))) ` holders s = held p - idle p"
    using ok(3) by (simp_all add: exclusive_def bij_betw_def)
  have "finite (holders s)" using inj im fin(1) by (metis finite_Diff finite_imageD)
  moreover have "card (holders s) \<le> card (held p)"
    using exclusive_card [OF ok(3)] fin(1) by (simp add: card_mono)
  ultimately show ?thesis using inj fin(2) ok(2) by simp
qed

text \<open>A release is not lost: a thread that sleeps can be woken by the next thread that gives its connection back.\<close>

lemma release_wakes:
  assumes ok: "inv p" "exclusive (held p - idle p) s" and t: "s t = Waiting" and u: "s u = Has c"
  shows "\<exists>p' s' c'. runs ops [u, u, t, t] (p, s) (p', s') \<and> s' t = Got c'"
proof -
  have tu: "t \<noteq> u" using t u by auto
  have c: "c \<in> held p - idle p" using exclusiveD(1) [OF ok(2), of u c] u by simp
  obtain p1 where p1: "op_push ops c p = (Inr (), p1)" "inv p1" "idle p1 \<noteq> {}" using push_ok [OF ok(1) c] by blast
  obtain p2 where p2: "op_signal ops p1 = (Inr (), p2)" "inv p2" "idle p2 \<noteq> {}" "op_event ops p2"
    using signal_ok [OF p1(2)] p1(3) by auto
  obtain c' p3 where p3: "op_take ops p2 = (Inr (Some c'), p3)" using take_idle [OF p2(2,3)] by blast
  let ?s1 = "s(u := Signalling)"
  let ?s2 = "?s1(u := Out)"
  let ?s3 = "?s2(t := Trying)"
  have "runs ops [u, u, t, t] (p, s) (p3, ?s3(t := Got c'))"
  proof (intro runs.more)
    show "runs ops [] (p3, ?s3(t := Got c')) (p3, ?s3(t := Got c'))" by (rule runs.none)
    show "thread_step ops u (p, s) (p1, ?s1)" by (rule thread_step.push, rule u, rule p1(1))
    show "thread_step ops u (p1, ?s1) (p2, ?s2)" by (rule thread_step.signal, simp, rule p2(1))
    show "thread_step ops t (p2, ?s2) (p2, ?s3)" by (rule thread_step.wake) (use t tu p2(4) in simp_all)
    show "thread_step ops t (p2, ?s3) (p3, ?s3(t := Got c'))" using thread_step.take [of ?s3 t ops p2, OF _ p3] by simp
  qed
  then show ?thesis by fastforce
qed

end

section \<open>The ADO pool\<close>

definition ado_ops :: "ext \<Rightarrow> adopool pool_ops" where
  "ado_ops e = \<lparr>op_take = AllocConner e, op_check = CheckConner e, op_push = PushConner, op_signal = SignalConner,
     op_event = hWaitConner\<rparr>"

lemma ado_ops_simps [simp]:
  "op_take (ado_ops e) = AllocConner e" "op_check (ado_ops e) = CheckConner e" "op_push (ado_ops e) = PushConner"
  "op_signal (ado_ops e) = SignalConner" "op_event (ado_ops e) = hWaitConner"
  by (simp_all add: ado_ops_def)

abbreviation ado_frame :: "nat list \<Rightarrow> bool \<Rightarrow> adopool \<Rightarrow> bool" where
  "ado_frame v b p \<equiv> vctConner p = v \<and> hWaitConner p = b"

lemma AddNewConner_frame: "hoare (ado_frame v b) (AddNewConner e) (\<lambda>_. ado_frame v b) no_fault"
  by (simp add: hoare_def AddNewConner_def ado_prims)

lemma CheckConner_frame: "hoare (ado_frame v b) (CheckConner e c) (\<lambda>_. ado_frame v b) no_fault"
  by (simp add: hoare_def CheckConner_def ReInitConner_def ado_prims)

lemma ado_stI: "ado_inv p \<Longrightarrow> ado_st (ado_limit p) (ado_busy p) p"
  by (simp add: ado_st_def)

lemma CheckConner_total:
  assumes "ado_inv p" "c \<in> ado_busy p"
  shows "\<exists>r p'. CheckConner e c p = (Inr r, p') \<and> ado_inv p' \<and> ado_limit p' = ado_limit p \<and>
      ado_idle p' = ado_idle p \<and> hWaitConner p' = hWaitConner p \<and>
      (case r of None \<Rightarrow> ado_busy p' = ado_busy p - {c}
       | Some c' \<Rightarrow> c' \<notin> ado_busy p - {c} \<and> ado_busy p' = insert c' (ado_busy p - {c}))"
proof -
  obtain y p' where run: "CheckConner e c p = (y, p')" by fastforce
  have st: "ado_st (ado_limit p) (insert c (ado_busy p - {c})) p"
    using ado_stI [OF assms(1)] assms(2) by (simp add: insert_absorb)
  have c: "c \<notin> ado_busy p - {c}" by simp
  note chk = CheckConner_st [OF c, of "ado_limit p" e no_fault]
  have "y \<noteq> Inl f" for f using hoareD_Inl [OF chk st] run by auto
  then obtain r where y: "y = Inr r" by (cases y) auto
  have "ado_frame (vctConner p) (hWaitConner p) p'"
    using hoareD_Inr [OF CheckConner_frame _ run [unfolded y]] by simp
  moreover have "case r of None \<Rightarrow> ado_st (ado_limit p) (ado_busy p - {c}) p'
      | Some c' \<Rightarrow> c' = c \<and> ado_st (ado_limit p) (insert c (ado_busy p - {c})) p'"
    using hoareD_Inr [OF chk st run [unfolded y]] by simp
  ultimately show ?thesis using run y by (cases r) (auto simp: ado_st_def ado_idle_def)
qed

interpretation adot: waiting_pool ado_inv ado_idle ado_held ado_limit "ado_ops e" FreeConner for e
proof (intro waiting_pool.intro waiting_pool_axioms.intro)
  show "conn_pool ado_inv ado_idle ado_held ado_limit (op_take (ado_ops e)) FreeConner"
    using ado_conn_pool [OF AllocConner_st] by simp
  show "FreeConner c = cbind (op_push (ado_ops e) c) (\<lambda>_. op_signal (ado_ops e))" for c
    by (simp add: FreeConner_def)
  show "op_event (ado_ops e) p' = op_event (ado_ops e) p \<and> ado_idle p' \<subseteq> ado_idle p"
    if "ado_inv p" "op_take (ado_ops e) p = (Inr r, p')" for p r p'
  proof (cases "vctConner p = []")
    case True
    then have "AddNewConner e p = (Inr r, p')" using that by (auto simp: AllocConner_def split: if_splits)
    then show ?thesis using hoareD_Inr [OF AddNewConner_frame] by (fastforce simp: ado_idle_def)
  next
    case False
    then show ?thesis using that by (auto simp: AllocConner_def ado_idle_def dest: in_set_butlastD)
  qed
  show "\<not> op_event (ado_ops e) p'" if "ado_inv p" "op_take (ado_ops e) p = (Inl f, p')" for p f p'
    using that hoareD_Inl [OF AddNewConner_frame, of p "vctConner p" "hWaitConner p" e f p']
    by (auto simp: AllocConner_def split: if_splits)
  show "\<exists>c p'. op_take (ado_ops e) p = (Inr (Some c), p')" if "ado_idle p \<noteq> {}" for p
    using that by (auto simp: AllocConner_def ado_idle_def)
  show "\<exists>r p'. op_check (ado_ops e) c p = (Inr r, p') \<and> ado_inv p' \<and> ado_limit p' = ado_limit p \<and>
      ado_idle p' = ado_idle p \<and> op_event (ado_ops e) p' = op_event (ado_ops e) p \<and>
      (case r of None \<Rightarrow> ado_busy p' = ado_busy p - {c}
       | Some c' \<Rightarrow> c' \<notin> ado_busy p - {c} \<and> ado_busy p' = insert c' (ado_busy p - {c}))"
    if "ado_inv p" "c \<in> ado_busy p" for p c
    using CheckConner_total [OF that] by simp
  show "\<exists>p'. op_push (ado_ops e) c p = (Inr (), p') \<and> ado_inv p' \<and> ado_limit p' = ado_limit p \<and>
      ado_busy p' = ado_busy p - {c} \<and> ado_idle p' \<noteq> {}"
    if "ado_inv p" "c \<in> ado_busy p" for p c
    using that by (auto simp: PushConner_def ado_inv_def ado_idle_def)
  show "\<exists>p'. op_signal (ado_ops e) p = (Inr (), p') \<and> ado_inv p' \<and> ado_limit p' = ado_limit p \<and>
      ado_held p' = ado_held p \<and> ado_idle p' = ado_idle p \<and> op_event (ado_ops e) p'"
    if "ado_inv p" for p using that by (simp add: SignalConner_def)
qed

section \<open>The MySQL pool\<close>

definition my_ops :: "ext \<Rightarrow> mypool pool_ops" where
  "my_ops e = \<lparr>op_take = Mysql_TakeConnection e, op_check = Mysql_CheckConnection e, op_push = Mysql_Push,
     op_signal = Mysql_Signal, op_event = hWaitMysql\<rparr>"

lemma my_ops_simps [simp]:
  "op_take (my_ops e) = Mysql_TakeConnection e" "op_check (my_ops e) = Mysql_CheckConnection e" "op_push (my_ops e) = Mysql_Push"
  "op_signal (my_ops e) = Mysql_Signal" "op_event (my_ops e) = hWaitMysql"
  by (simp_all add: my_ops_def)

abbreviation my_frame :: "nat list \<Rightarrow> bool \<Rightarrow> mypool \<Rightarrow> bool" where
  "my_frame v b p \<equiv> vctMysql p = v \<and> hWaitMysql p = b"

lemma Mysql_ConnectDB_frame: "hoare (my_frame v b) (Mysql_ConnectDB e) (\<lambda>_. my_frame v b) no_fault"
  by (simp add: hoare_def Mysql_ConnectDB_def mysql_init_def mcall_def cbind_def)

lemma my_close_frame:
  "hoare (my_frame v b) (Mysql_CloseConnection r) (\<lambda>_. my_frame v b) no_fault"
  "hoare (my_frame v b) (Mysql_RemoveFromPool r) (\<lambda>_. my_frame v b) no_fault"
  by (cases r; simp add: hoare_def Mysql_CloseConnection_def Mysql_RemoveFromPool_def mysql_close_def cbind_def)+

lemma my_new_frame:
  "hoare (my_frame v b) (cbind (Mysql_ConnectDB e) (\<lambda>(ok, r). if \<not> ok then Mysql_CloseConnection r
     else cbind (modify (\<lambda>p. p\<lparr>g_nCurrentNumber := g_nCurrentNumber p + 1\<rparr>)) (\<lambda>_. ret r))) (\<lambda>_. my_frame v b) no_fault"
proof (rule hoare_bind [OF Mysql_ConnectDB_frame])
  fix x :: "bool \<times> nat option"
  have "hoare (my_frame v b) (cbind (modify (\<lambda>p. p\<lparr>g_nCurrentNumber := g_nCurrentNumber p + 1\<rparr>)) (\<lambda>_. ret r)) (\<lambda>_. my_frame v b) no_fault"
    for r :: "nat option" by (simp add: hoare_def)
  then show "hoare (my_frame v b) (case x of (ok, r) \<Rightarrow> if \<not> ok then Mysql_CloseConnection r
     else cbind (modify (\<lambda>p. p\<lparr>g_nCurrentNumber := g_nCurrentNumber p + 1\<rparr>)) (\<lambda>_. ret r)) (\<lambda>_. my_frame v b) no_fault"
    using my_close_frame(1) by (cases x) simp
qed

lemma Mysql_CheckConnection_frame: "hoare (my_frame v b) (Mysql_CheckConnection e c) (\<lambda>_. my_frame v b) no_fault"
proof -
  have ping: "hoare (my_frame v b) (mcall (my_ping e)) (\<lambda>_. my_frame v b) no_fault" by (simp add: hoare_def mcall_def)
  have "hoare (my_frame v b) (case x of (ok, r) \<Rightarrow> if \<not> ok then Mysql_RemoveFromPool r else ret r) (\<lambda>_. my_frame v b) no_fault"
    for x :: "bool \<times> nat option" using my_close_frame(2) by (cases x) (simp add: hoare_def)
  then show ?thesis unfolding Mysql_CheckConnection_def
    by (intro hoare_bind [OF ping] hoare_if hoare_bind [OF my_close_frame(1)] hoare_bind [OF Mysql_ConnectDB_frame] hoare_ret) simp_all
qed

lemma Mysql_CheckConnection_total:
  assumes "my_inv p" "c \<in> my_busy p"
  shows "\<exists>r p'. Mysql_CheckConnection e c p = (Inr r, p') \<and> my_inv p' \<and> my_limit p' = my_limit p \<and>
      my_idle p' = my_idle p \<and> hWaitMysql p' = hWaitMysql p \<and>
      (case r of None \<Rightarrow> my_busy p' = my_busy p - {c}
       | Some c' \<Rightarrow> c' \<notin> my_busy p - {c} \<and> my_busy p' = insert c' (my_busy p - {c}))"
proof -
  obtain y p' where run: "Mysql_CheckConnection e c p = (y, p')" by fastforce
  have st: "my_st (my_limit p) (insert c (my_busy p - {c})) p"
    using my_invD [OF assms(1)] assms(2) by (simp add: insert_absorb)
  have c: "c \<notin> my_busy p - {c}" by simp
  note chk = Mysql_CheckConnection_st [OF c, of "my_limit p" e no_fault]
  have "y \<noteq> Inl f" for f using hoareD_Inl [OF chk st] run by auto
  then obtain r where y: "y = Inr r" by (cases y) auto
  have "my_frame (vctMysql p) (hWaitMysql p) p'"
    using hoareD_Inr [OF Mysql_CheckConnection_frame _ run [unfolded y]] by simp
  moreover have "my_got (my_limit p) (my_busy p - {c}) r p'"
    using hoareD_Inr [OF chk st run [unfolded y]] by simp
  ultimately show ?thesis using run y my_stD by (cases r) (fastforce simp: my_idle_def)+
qed

interpretation myt: waiting_pool my_inv my_idle mylive my_limit "my_ops e" Mysql_BackToPool for e
proof (intro waiting_pool.intro waiting_pool_axioms.intro)
  show "conn_pool my_inv my_idle mylive my_limit (op_take (my_ops e)) Mysql_BackToPool"
    using my_conn_pool [OF Mysql_TakeConnection_st] by simp
  show "Mysql_BackToPool c = cbind (op_push (my_ops e) c) (\<lambda>_. op_signal (my_ops e))" for c
    by (simp add: Mysql_BackToPool_def)
  show "op_event (my_ops e) p' = op_event (my_ops e) p \<and> my_idle p' \<subseteq> my_idle p"
    if "op_take (my_ops e) p = (Inr r, p')" for p r p'
  proof (cases "vctMysql p = []")
    case True
    then show ?thesis using that hoareD_Inr [OF my_new_frame, of p "vctMysql p" "hWaitMysql p" e r p']
      by (auto simp: Mysql_TakeConnection_def my_idle_def split: if_splits)
  next
    case False
    then show ?thesis using that by (auto simp: Mysql_TakeConnection_def my_idle_def dest: in_set_butlastD)
  qed
  show "\<not> op_event (my_ops e) p'" if "op_take (my_ops e) p = (Inl f, p')" for p f p'
    using that hoareD_Inl [OF my_new_frame, of p "vctMysql p" "hWaitMysql p" e f p']
    by (auto simp: Mysql_TakeConnection_def split: if_splits)
  show "\<exists>c p'. op_take (my_ops e) p = (Inr (Some c), p')" if "my_idle p \<noteq> {}" for p
    using that by (auto simp: Mysql_TakeConnection_def my_idle_def)
  show "\<exists>r p'. op_check (my_ops e) c p = (Inr r, p') \<and> my_inv p' \<and> my_limit p' = my_limit p \<and>
      my_idle p' = my_idle p \<and> op_event (my_ops e) p' = op_event (my_ops e) p \<and>
      (case r of None \<Rightarrow> my_busy p' = my_busy p - {c}
       | Some c' \<Rightarrow> c' \<notin> my_busy p - {c} \<and> my_busy p' = insert c' (my_busy p - {c}))"
    if "my_inv p" "c \<in> my_busy p" for p c
    using Mysql_CheckConnection_total [OF that] by simp
  show "\<exists>p'. op_push (my_ops e) c p = (Inr (), p') \<and> my_inv p' \<and> my_limit p' = my_limit p \<and>
      my_busy p' = my_busy p - {c} \<and> my_idle p' \<noteq> {}"
    if "my_inv p" "c \<in> my_busy p" for p c
  proof -
    have "my_st (my_limit p) (my_busy p - {c}) (p\<lparr>vctMysql := vctMysql p @ [c], hWaitMysql := hWaitMysql p\<rparr>)"
      using my_return [OF my_invD [OF that(1)] that(2)] by blast
    from my_stD [OF this] show ?thesis by (simp add: Mysql_Push_def my_idle_def)
  qed
  show "\<exists>p'. op_signal (my_ops e) p = (Inr (), p') \<and> my_inv p' \<and> my_limit p' = my_limit p \<and>
      mylive p' = mylive p \<and> my_idle p' = my_idle p \<and> op_event (my_ops e) p'"
    if "my_inv p" for p using that by (simp add: Mysql_Signal_def my_inv_def my_unfold)
qed

section \<open>Properties\<close>

lemma ado_started:
  assumes "fst (InitAdoMysql e ado0) = Inr True"
  shows "ado_inv (snd (InitAdoMysql e ado0))" "ado_busy (snd (InitAdoMysql e ado0)) = {}" "ado_limit (snd (InitAdoMysql e ado0)) = 50"
proof -
  have "InitAdoMysql e ado0 = (Inr True, snd (InitAdoMysql e ado0))" by (rule prod_eqI) (simp_all only: assms fst_conv snd_conv)
  from InitAdoMysql_st [OF this] show "ado_inv (snd (InitAdoMysql e ado0))" "ado_busy (snd (InitAdoMysql e ado0)) = {}"
    "ado_limit (snd (InitAdoMysql e ado0)) = 50" by (simp_all add: ado_st_def)
qed

lemma ado_reach:
  assumes "fst (InitAdoMysql e ado0) = Inr True" "thread_reach (ado_ops e) (snd (InitAdoMysql e ado0)) (p, s)"
  shows "ado_inv p" "ado_limit p = 50" "exclusive (ado_busy p) s" "awake (hWaitConner p) (ado_idle p) s"
  using adot.reach_ok [OF assms(2) ado_started(1,2) [OF assms(1)]] ado_started(3) [OF assms(1)] by simp_all

text \<open>
  C3: after a successful start-up, in every state that threads reach, interleaved between the critical sections
  of allocation and release, the check with its reconnection and the event, a connection belongs to one thread at most,
  the connections outside the pool are exactly those of the threads, and at most 50 threads have one.
\<close>

theorem ado_threads_exclusive:
  assumes "fst (InitAdoMysql e ado0) = Inr True" "thread_reach (ado_ops e) (snd (InitAdoMysql e ado0)) (p, s)"
  shows "(holding (s t) = Some c \<and> holding (s u) = Some c \<longrightarrow> t = u) \<and>
    (c \<in> ado_held p - ado_idle p \<longleftrightarrow> (\<exists>t. holding (s t) = Some c)) \<and> finite (holders s) \<and> card (holders s) \<le> 50"
proof -
  note r = ado_reach [OF assms]
  have "finite (holders s)" "card (holders s) \<le> 50"
    using adot.holders_bound [OF assms(2) ado_started(1,2) [OF assms(1)]] ado_started(3) [OF assms(1)] by simp_all
  then show ?thesis using exclusiveD [OF r(3)] by blast
qed

text \<open>
  C4: the same holds of the MySQL pool, whatever fails at start-up, with the connections that a check finds
  dead and replaces: a connection belongs to one thread at most, the open connections outside the pool are exactly those of the threads,
  and at most 20 threads have one; a thread that sleeps beside a pool that is not empty is about to be woken, and the
  release of any connection in use is enough for a sleeper to get one.
\<close>

theorem mysql_threads_exclusive:
  assumes "thread_reach (my_ops e) (snd (Mysql_InitConnectionPool e 10 20 my0)) (p, s)"
  shows "(holding (s t) = Some c \<and> holding (s u) = Some c \<longrightarrow> t = u) \<and>
    (c \<in> mylive p - my_idle p \<longleftrightarrow> (\<exists>t. holding (s t) = Some c)) \<and> finite (holders s) \<and> card (holders s) \<le> 20 \<and>
    (s t = Waiting \<and> my_idle p \<noteq> {} \<longrightarrow> hWaitMysql p \<or> (\<exists>v. s v = Signalling)) \<and>
    (s t = Waiting \<and> s u = Has c \<longrightarrow> (\<exists>p' s' c'. runs (my_ops e) [u, u, t, t] (p, s) (p', s') \<and> s' t = Got c'))"
proof -
  let ?p = "snd (Mysql_InitConnectionPool e 10 20 my0)"
  have st: "my_inv ?p" "my_busy ?p = {}" "my_limit ?p = 20" using my_stD [OF conjunct2 [OF Mysql_InitConnectionPool_st]] by auto
  have r: "my_inv p" "exclusive (my_busy p) s" "awake (hWaitMysql p) (my_idle p) s"
    using myt.reach_ok [OF assms st(1,2)] by simp_all
  have "finite (holders s)" "card (holders s) \<le> 20" using myt.holders_bound [OF assms st(1,2)] st(3) by simp_all
  moreover have "s t = Waiting \<Longrightarrow> s u = Has c \<Longrightarrow> \<exists>p' s' c'. runs (my_ops e) [u, u, t, t] (p, s) (p', s') \<and> s' t = Got c'"
    by (rule myt.release_wakes [OF r(1,2)])
  moreover have "s t = Waiting \<Longrightarrow> my_idle p \<noteq> {} \<Longrightarrow> hWaitMysql p \<or> (\<exists>v. s v = Signalling)" using r(3) by (auto simp: awake_def)
  ultimately show ?thesis using exclusiveD [OF r(2)] by blast
qed

theorem mysql_threads_exclusive_witness:
  "\<exists>p s. thread_reach (my_ops ext0) (snd (Mysql_InitConnectionPool ext0 10 20 my0)) (p, s) \<and> s 0 = Got 9 \<and>
     (\<exists>t. holding (s t) = Some 9) \<and> 9 \<in> mylive p - my_idle p \<and> card (holders s) \<le> 20"
proof -
  let ?p = "snd (Mysql_InitConnectionPool ext0 10 20 my0)"
  have "vctMysql ?p = [0, 1, 2, 3, 4, 5, 6, 7, 8, 9]"
    by (simp add: Mysql_InitConnectionPool_def Mysql_ConnectDB_def mysql_init_def mcall_def cbind_def my0_def ext0_def eval_nat_numeral)
  then have "Mysql_TakeConnection ext0 ?p = (Inr (Some 9), ?p\<lparr>vctMysql := butlast (vctMysql ?p)\<rparr>)"
    by (simp add: Mysql_TakeConnection_def)
  then have "thread_step (my_ops ext0) 0 (?p, (\<lambda>_. Out)(0 := Trying))
      (?p\<lparr>vctMysql := butlast (vctMysql ?p)\<rparr>, (\<lambda>_. Out)(0 := Trying, 0 := Got 9))"
    using thread_step.take [of "(\<lambda>_. Out)(0 := Trying)" 0 "my_ops ext0" ?p "Inr (Some 9)"] by simp
  moreover have "thread_step (my_ops ext0) 0 (?p, \<lambda>_. Out) (?p, (\<lambda>_. Out)(0 := Trying))" by (rule thread_step.call) simp
  ultimately have r: "thread_reach (my_ops ext0) ?p (?p\<lparr>vctMysql := butlast (vctMysql ?p)\<rparr>, (\<lambda>_. Out)(0 := Trying, 0 := Got 9))"
    by (blast intro: thread_reach.intros)
  have h: "holding (((\<lambda>_. Out)(0 := Trying, 0 := Got 9)) 0) = Some 9" by simp
  show ?thesis using mysql_threads_exclusive [OF r, of _ 9] r h by (metis fun_upd_same)
qed

section \<open>Runs of the ADO pool\<close>

text \<open>A database that opens 50 connections. Every connection made so far took two calls and is open.\<close>

definition opens :: "ext \<Rightarrow> bool" where
  "opens e \<longleftrightarrow> (\<forall>n. n < 100 \<longrightarrow> ado_create e n) \<and> (\<forall>n. ado_connect e n)"

definition sound :: "adopool \<Rightarrow> bool" where
  "sound p \<longleftrightarrow> (\<forall>c. conner p c \<noteq> Some False) \<and> int (acalls p) = 2 * g_nCurrentNum p \<and> g_nMaxConner p = 50"

lemma opens_loop:
  "opens e \<Longrightarrow> sound p \<Longrightarrow> g_nCurrentNum p + int n \<le> 50 \<Longrightarrow>
     \<exists>p'. InitConnerPool_loop e n p = (Inr True, p') \<and> sound p'"
proof (induction n arbitrary: p)
  case 0
  then show ?case by (simp add: sound_def)
next
  case (Suc n)
  let ?c = "nextConner p"
  let ?q = "p\<lparr>nextConner := Suc ?c, conner := (conner p)(?c \<mapsto> True), acalls := Suc (Suc (acalls p)),
    vctConner := vctConner p @ [?c], g_nCurrentNum := g_nCurrentNum p + 1\<rparr>"
  have n: "acalls p < 100" using Suc.prems by (simp add: sound_def)
  then have "InitConnerPool_loop e (Suc n) p = InitConnerPool_loop e n ?q"
    using Suc.prems(1) by (simp add: ado_prims opens_def)
  moreover have "sound ?q" using Suc.prems(2) by (simp add: sound_def)
  ultimately show ?case using Suc.IH [of ?q] Suc.prems by simp
qed

lemma opens_start: "opens e \<Longrightarrow> fst (InitAdoMysql e ado0) = Inr True \<and> sound (snd (InitAdoMysql e ado0))"
proof -
  assume e: "opens e"
  let ?p = "ado0\<lparr>g_nMinConner := 10, g_nMaxConner := 50\<rparr>"
  have "sound ?p" "g_nCurrentNum ?p + int 10 \<le> 50" by (simp_all add: sound_def ado0_def)
  from opens_loop [OF e this] show ?thesis
    by (auto simp: InitAdoMysql_def InitConnerPool_def ado0_def simp del: InitConnerPool_loop.simps)
qed

lemma opens_take:
  assumes "opens e" "ado_inv p" "sound p" "card (ado_busy p) < 50"
  shows "\<exists>c p'. AllocConner e p = (Inr (Some c), p') \<and> sound p'"
proof (cases "vctConner p = []")
  case True
  then have "g_nCurrentNum p < 50" "acalls p < 100" using assms(2-4) by (simp_all add: ado_inv_def ado_idle_def sound_def)
  then show ?thesis using True assms(1,3) by (simp add: AllocConner_def AddNewConner_def ado_prims opens_def sound_def)
next
  case False
  then show ?thesis using assms(3) by (simp add: AllocConner_def sound_def)
qed

text \<open>As many threads as the limit admits get a connection, and the next one goes to sleep.\<close>

lemma opens_busy:
  assumes e: "opens e" and n: "n \<le> 50"
  shows "\<exists>p s. thread_reach (ado_ops e) (snd (InitAdoMysql e ado0)) (p, s) \<and> sound p \<and>
    (\<forall>t. if t < n then \<exists>c. s t = Got c else s t = Out)"
  using n
proof (induction n)
  case 0
  then show ?case using opens_start [OF e] thread_reach.start by fastforce
next
  case (Suc n)
  then obtain p s where r: "thread_reach (ado_ops e) (snd (InitAdoMysql e ado0)) (p, s)" "sound p"
    and s: "\<And>t. if t < n then \<exists>c. s t = Got c else s t = Out" by auto
  note ok = ado_reach [OF _ r(1)]
  have "holding (s t) \<noteq> None \<longleftrightarrow> t < n" for t using s [of t] by (cases "t < n") auto
  then have "holders s = {..<n}" by (auto simp: holders_def)
  then have "card (ado_busy p) = n" using exclusive_card [OF ok(3)] opens_start [OF e] by simp
  then obtain c p' where c: "AllocConner e p = (Inr (Some c), p')" "sound p'"
    using opens_take [OF e ok(1) r(2)] opens_start [OF e] Suc.prems by auto
  let ?s = "s(n := Trying)"
  have "thread_step (ado_ops e) n (p, s) (p, ?s)" using s [of n] by (intro thread_step.call) simp
  moreover have "thread_step (ado_ops e) n (p, ?s) (p', ?s(n := Got c))"
    using thread_step.take [of ?s n "ado_ops e" p "Inr (Some c)" p'] c(1) by simp
  ultimately have "thread_reach (ado_ops e) (snd (InitAdoMysql e ado0)) (p', ?s(n := Got c))"
    using r(1) by (blast intro: thread_reach.step)
  moreover have "if t < Suc n then \<exists>d. (?s(n := Got c)) t = Got d else (?s(n := Got c)) t = Out" for t
    using s [of t] by (auto simp: less_Suc_eq split: if_splits)
  ultimately show ?case using c(2) by blast
qed

lemma opens_sleep:
  assumes e: "opens e"
  shows "\<exists>p s. thread_reach (ado_ops e) (snd (InitAdoMysql e ado0)) (p, s) \<and> sound p \<and> g_nCurrentNum p = 50 \<and> vctConner p = [] \<and>
    \<not> hWaitConner p \<and> s 50 = Waiting \<and> (\<forall>t. t < 50 \<longrightarrow> (\<exists>c. s t = Got c)) \<and> (\<forall>t. 50 < t \<longrightarrow> s t = Out)"
proof -
  obtain p s where r: "thread_reach (ado_ops e) (snd (InitAdoMysql e ado0)) (p, s)" "sound p"
    and s: "\<And>t. if t < 50 then \<exists>c. s t = Got c else s t = Out" using opens_busy [OF e order_refl] by blast
  note ok = ado_reach [OF conjunct1 [OF opens_start [OF e]] r(1)]
  have "holding (s t) \<noteq> None \<longleftrightarrow> t < 50" for t using s [of t] by (cases "t < 50") auto
  then have "holders s = {..<50}" by (auto simp: holders_def)
  then have busy: "card (ado_busy p) = 50" using exclusive_card [OF ok(3)] by simp
  have held: "finite (ado_held p)" "card (ado_held p) \<le> 50" "ado_idle p \<subseteq> ado_held p"
    using ado.bounded [OF ok(1)] ok(1,2) by (simp_all add: ado_inv_def)
  have "ado_busy p = ado_held p" using busy held(1,2) by (intro card_seteq) auto
  then have "ado_idle p = {}" "card (ado_held p) = 50" using held(3) busy by (blast, simp)
  then have p: "vctConner p = []" "g_nCurrentNum p = 50" using ok(1) by (auto simp: ado_inv_def ado_idle_def)
  let ?p = "p\<lparr>hWaitConner := False\<rparr>"
  have take: "AllocConner e p = (Inl Blocked, ?p)" using p r(2) by (simp add: AllocConner_def sound_def)
  let ?s = "s(50 := Trying)"
  have "thread_step (ado_ops e) 50 (p, s) (p, ?s)" using s [of 50] by (intro thread_step.call) simp
  moreover have "thread_step (ado_ops e) 50 (p, ?s) (?p, ?s(50 := Waiting))"
    using thread_step.take [of ?s 50 "ado_ops e" p "Inl Blocked" ?p] take by simp
  ultimately have "thread_reach (ado_ops e) (snd (InitAdoMysql e ado0)) (?p, ?s(50 := Waiting))"
    using r(1) by (blast intro: thread_reach.step)
  moreover have "\<forall>t. t < 50 \<longrightarrow> (\<exists>c. (?s(50 := Waiting)) t = Got c)" "\<forall>t. 50 < t \<longrightarrow> (?s(50 := Waiting)) t = Out"
    using s by (auto split: if_splits)
  ultimately show ?thesis using p r(2) by (intro exI [of _ ?p] exI [of _ "?s(50 := Waiting)"]) (simp add: sound_def)
qed

text \<open>
  C13: no release is lost. When a thread sleeps and the pool is not empty, the event is set or a thread is between its
  critical section and \<open>SetEvent\<close>; and from every state in which a thread sleeps and another one uses a connection, the
  release of that connection is enough for the sleeper to wake up and get one.
\<close>

theorem ado_release_wakes:
  assumes "fst (InitAdoMysql e ado0) = Inr True" "thread_reach (ado_ops e) (snd (InitAdoMysql e ado0)) (p, s)" "s t = Waiting"
  shows "(ado_idle p \<noteq> {} \<longrightarrow> hWaitConner p \<or> (\<exists>u. s u = Signalling)) \<and>
    (\<forall>u c. s u = Has c \<longrightarrow> (\<exists>p' s' c'. runs (ado_ops e) [u, u, t, t] (p, s) (p', s') \<and> s' t = Got c'))"
proof -
  note r = ado_reach [OF assms(1,2)]
  have "\<exists>p' s' c'. runs (ado_ops e) [u, u, t, t] (p, s) (p', s') \<and> s' t = Got c'" if "s u = Has c" for u c
    by (rule adot.release_wakes [OF r(1,3) assms(3) that])
  moreover have "ado_idle p \<noteq> {} \<Longrightarrow> hWaitConner p \<or> (\<exists>u. s u = Signalling)" using r(4) assms(3) by (auto simp: awake_def)
  ultimately show ?thesis by blast
qed

lemma opens_ext0: "opens ext0"
  by (simp add: opens_def ext0_def)

lemma ado_busy_open:
  assumes "ado_inv p" "exclusive (ado_busy p) s" "sound p" "holding (s t) = Some c" shows "conner p c = Some True"
proof -
  have "c \<in> ado_held p" using exclusiveD(1) [OF assms(2,4)] by simp
  then obtain b where "conner p c = Some b" by (auto simp: ado_held_def)
  then show ?thesis using assms(3) by (cases b) (auto simp: sound_def)
qed

theorem ado_release_wakes_witness:
  "\<exists>p s c. thread_reach (ado_ops ext0) (snd (InitAdoMysql ext0 ado0)) (p, s) \<and> s 50 = Waiting \<and> s 0 = Has c \<and>
     (\<exists>p' s' c'. runs (ado_ops ext0) [0, 0, 50, 50] (p, s) (p', s') \<and> s' 50 = Got c')"
proof -
  note start = conjunct1 [OF opens_start [OF opens_ext0]]
  obtain p s where r: "thread_reach (ado_ops ext0) (snd (InitAdoMysql ext0 ado0)) (p, s)" "sound p" "s 50 = Waiting"
    "\<forall>t. t < 50 \<longrightarrow> (\<exists>c. s t = Got c)" using opens_sleep [OF opens_ext0] by blast
  then obtain c where c: "s 0 = Got c" by (metis zero_less_numeral)
  note ok = ado_reach [OF start r(1)]
  have "conner p c = Some True" using ado_busy_open [OF ok(1,3) r(2), of 0 c] c by simp
  then have "CheckConner ext0 c p = (Inr (Some c), p\<lparr>acalls := Suc (acalls p)\<rparr>)"
    by (simp add: CheckConner_def cbind_def ext0_def)
  then have "thread_step (ado_ops ext0) 0 (p, s) (p\<lparr>acalls := Suc (acalls p)\<rparr>, s(0 := Has c))"
    using thread_step.check [of s 0 c "ado_ops ext0" p "Inr (Some c)"] c by simp
  then have r': "thread_reach (ado_ops ext0) (snd (InitAdoMysql ext0 ado0)) (p\<lparr>acalls := Suc (acalls p)\<rparr>, s(0 := Has c))"
    by (rule thread_reach.step [OF r(1)])
  have "(s(0 := Has c)) 50 = Waiting" "(s(0 := Has c)) 0 = Has c" using r(3) by simp_all
  with ado_release_wakes [OF start r' this(1)] r' show ?thesis by blast
qed

theorem ado_threads_exclusive_witness:
  "\<exists>p s. thread_reach (ado_ops ext0) (snd (InitAdoMysql ext0 ado0)) (p, s) \<and> s 0 \<noteq> Out \<and> finite (holders s) \<and> card (holders s) \<le> 50"
proof -
  note start = conjunct1 [OF opens_start [OF opens_ext0]]
  obtain p s where r: "thread_reach (ado_ops ext0) (snd (InitAdoMysql ext0 ado0)) (p, s)" "\<forall>t. t < 50 \<longrightarrow> (\<exists>c. s t = Got c)"
    using opens_sleep [OF opens_ext0] by blast
  then have "s 0 \<noteq> Out" by (metis pc.distinct(5) zero_less_numeral)
  then show ?thesis using ado_threads_exclusive [OF start r(1)] r(1) by blast
qed

section \<open>A sleeper that nobody wakes\<close>

text \<open>The database goes away after 50 connections were opened: they are found closed and cannot be opened again.\<close>

definition dying :: ext where
  "dying = ext0\<lparr>ado_create := (\<lambda>n. n < 100), ado_state_open := (\<lambda>_. False)\<rparr>"

lemma opens_dying: "opens dying"
  by (simp add: opens_def dying_def ext0_def)

lemma dying_check:
  assumes "conner p c = Some True" "100 \<le> acalls p"
  shows "\<exists>p'. CheckConner dying c p = (Inr None, p') \<and> hWaitConner p' = hWaitConner p \<and> 100 \<le> acalls p' \<and>
    conner p' = (conner p)(c := None)"
  using assms by (simp add: CheckConner_def ReInitConner_def ado_prims dying_def)

lemma dying_run:
  "n \<le> 50 \<Longrightarrow> \<exists>p s. thread_reach (ado_ops dying) (snd (InitAdoMysql dying ado0)) (p, s) \<and> (\<forall>c. conner p c \<noteq> Some False) \<and>
     100 \<le> acalls p \<and> \<not> hWaitConner p \<and> s 50 = Waiting \<and> (\<forall>t. t < n \<longrightarrow> s t = Out) \<and>
     (\<forall>t. n \<le> t \<and> t < 50 \<longrightarrow> (\<exists>c. s t = Got c)) \<and> (\<forall>t. 50 < t \<longrightarrow> s t = Out)"
proof (induction n)
  case 0
  obtain p s where "thread_reach (ado_ops dying) (snd (InitAdoMysql dying ado0)) (p, s)" "sound p" "g_nCurrentNum p = 50"
    "\<not> hWaitConner p" "s 50 = Waiting" "\<forall>t. t < 50 \<longrightarrow> (\<exists>c. s t = Got c)" "\<forall>t. 50 < t \<longrightarrow> s t = Out"
    using opens_sleep [OF opens_dying] by blast
  then show ?case by (intro exI [of _ p] exI [of _ s]) (simp add: sound_def)
next
  case (Suc n)
  then obtain p s where r: "thread_reach (ado_ops dying) (snd (InitAdoMysql dying ado0)) (p, s)" "\<forall>c. conner p c \<noteq> Some False"
      "100 \<le> acalls p" "\<not> hWaitConner p" "s 50 = Waiting" "\<forall>t. t < n \<longrightarrow> s t = Out"
      "\<forall>t. n \<le> t \<and> t < 50 \<longrightarrow> (\<exists>c. s t = Got c)" "\<forall>t. 50 < t \<longrightarrow> s t = Out" by auto
  obtain c where c: "s n = Got c" using r(7) Suc.prems by auto
  note ok = ado_reach [OF conjunct1 [OF opens_start [OF opens_dying]] r(1)]
  have "c \<in> ado_held p" using exclusiveD(1) [OF ok(3), of n c] c by simp
  then obtain b where "conner p c = Some b" by (auto simp: ado_held_def)
  then have "conner p c = Some True" using r(2) by (cases b) auto
  then obtain p' where p': "CheckConner dying c p = (Inr None, p')" "hWaitConner p' = hWaitConner p" "100 \<le> acalls p'"
      "conner p' = (conner p)(c := None)" using dying_check r(3) by blast
  have "thread_step (ado_ops dying) n (p, s) (p', s(n := Out))"
    using thread_step.check [of s n c "ado_ops dying" p "Inr None" p'] c p'(1) by simp
  then have "thread_reach (ado_ops dying) (snd (InitAdoMysql dying ado0)) (p', s(n := Out))"
    by (rule thread_reach.step [OF r(1)])
  moreover have "\<forall>t. t < Suc n \<longrightarrow> (s(n := Out)) t = Out" "(s(n := Out)) 50 = Waiting"
    using r(5,6) Suc.prems by (auto simp: less_Suc_eq)
  moreover have "\<forall>t. Suc n \<le> t \<and> t < 50 \<longrightarrow> (\<exists>c. (s(n := Out)) t = Got c)" "\<forall>t. 50 < t \<longrightarrow> (s(n := Out)) t = Out"
    using r(7,8) Suc.prems by auto
  moreover have "\<forall>c. conner p' c \<noteq> Some False" "100 \<le> acalls p'" "\<not> hWaitConner p'" using p' r(2,4) by simp_all
  ultimately show ?case by blast
qed

text \<open>
  C39: a failed reconnection takes its connection out of the count without setting the event. When the database goes away
  while a thread sleeps at the limit, all 50 connections can be dropped that way: no connection is left, a new one could be opened, no
  other thread is at work, and the sleeper has no step.
\<close>

theorem ado_pool_dead:
  "\<exists>p. thread_reach (ado_ops dying) (snd (InitAdoMysql dying ado0)) (p, (\<lambda>_. Out)(50 := Waiting)) \<and>
     ado_held p = {} \<and> g_nCurrentNum p = 0 \<and> g_nMaxConner p = 50 \<and>
     \<not> (\<exists>st. thread_step (ado_ops dying) 50 (p, (\<lambda>_. Out)(50 := Waiting)) st)"
proof -
  obtain p s where r: "thread_reach (ado_ops dying) (snd (InitAdoMysql dying ado0)) (p, s)" "\<not> hWaitConner p"
      "s 50 = Waiting" "\<forall>t. t < 50 \<longrightarrow> s t = Out" "\<forall>t. 50 < t \<longrightarrow> s t = Out" using dying_run [OF order_refl] by blast
  have s: "s = (\<lambda>_. Out)(50 := Waiting)"
  proof
    fix t show "s t = ((\<lambda>_. Out)(50 := Waiting)) t" using r(3-5) by (cases t "50 :: nat" rule: linorder_cases) auto
  qed
  note ok = ado_reach [OF conjunct1 [OF opens_start [OF opens_dying]] r(1)]
  have "holding (s t) = None" for t by (simp add: s)
  then have "c \<notin> ado_busy p" for c using exclusiveD(3) [OF ok(3), of c] by auto
  then have "ado_busy p = {}" by blast
  moreover have "ado_idle p = {}" using ok(4) r(2,3) by (auto simp: awake_def s split: if_splits)
  ultimately have held: "ado_held p = {}" by simp
  moreover have "g_nCurrentNum p = 0" "g_nMaxConner p = 50" using ok(1,2) held by (simp_all add: ado_inv_def ado_limit_def)
  moreover have "\<not> thread_step (ado_ops dying) 50 (p, s) st" for st
    using r(2,3) by (auto elim!: thread_stepE)
  ultimately show ?thesis using r(1) unfolding s by blast
qed

end
