(* ===== verification/SignalData.thy ===== *)
theory SignalData
  imports MysqlPool
begin

text \<open>
  \<open>SignalData.h\<close>, \<open>SignalData.cpp\<close>, \<open>MemPool.cpp\<close>: the objects of a connection, the state of
  the process (\<open>world\<close>) and the object pools. An object is an address (\<open>nat\<close>) in \<open>bufs\<close> or
  \<open>socks\<close>; an address that is not allocated maps to \<open>None\<close>, and an access through it is
  undefined behaviour. A completion function is named without its suffix \<open>Success\<close> or
  \<open>Failed\<close>: both members of such a pair are always set together.
\<close>

section \<open>Buffer, socket and listen objects\<close>

datatype comp =
    AcceptComp | RecvZeroComp | RecvComp | SendComp
  | NC_AcceptComp | NC_RecvZeroComp | NC_RecvComp | NC_SendComp
  | API_ConnectComp | API_SendComp | API_RecvZeroComp | API_RecvComp

datatype api_response =
    doDisNumberResponse | doCardStatusResponse | doServActiveResponse | doPay2Response
  | doPoolList01Response | doPoolList02Response | doPoolList03Response

record buf =
  pfnFailed :: "comp option"
  pfnSuccess :: "comp option"
  pfndoApiResponse :: "api_response option"
  pRelatedSObj :: "nat option"
  pRecorder :: "nat option"
  bres :: "nat option"
  nRecSetCount :: int
  wsaBuf :: "nat option \<times> 32 word"  \<comment> \<open>offset into \<open>data\<close> (\<open>None\<close>: a null pointer) and length\<close>
  dwRecvedCount :: "32 word"
  dwSendedCount :: "32 word"
  nCmd :: int
  nSubCmd :: int
  nSubSubCmd :: int
  strJrhm :: string
  datalen :: int
  bdata :: "byte list"

record sobj =
  sock :: "nat option"
  pRelatedBObj :: "nat option"
  sAddrInfo :: "nat option"
  nKey :: int
  dwTick :: "32 word"

record lobj =
  sListenSock :: "nat option"
  hPostAcceptExEvent :: "nat option"
  AcptMap :: "int \<Rightarrow> nat option"

text \<open>\<open>HeapAlloc\<close> with \<open>HEAP_ZERO_MEMORY\<close>: \<open>n\<close> is the room behind the header.\<close>

definition zero_buf :: "nat \<Rightarrow> buf" where
  "zero_buf n = \<lparr>pfnFailed = None, pfnSuccess = None, pfndoApiResponse = None, pRelatedSObj = None,
     pRecorder = None, bres = None, nRecSetCount = 0, wsaBuf = (None, 0), dwRecvedCount = 0,
     dwSendedCount = 0, nCmd = 0, nSubCmd = 0, nSubSubCmd = 0, strJrhm = '''', datalen = 0,
     bdata = replicate n 0\<rparr>"

definition zero_sobj :: sobj where
  "zero_sobj = \<lparr>sock = None, pRelatedBObj = None, sAddrInfo = None, nKey = 0, dwTick = 0\<rparr>"

text \<open>
  \<open>_buffer_obj::init\<close>: every field but \<open>nSubSubCmd\<close> and \<open>wsaBuf\<close>. The data is zeroed in place, in the bytes the
  object has; \<open>allocBObj\<close> calls it with no more.
\<close>

definition buf_init :: "nat \<Rightarrow> buf \<Rightarrow> buf" where
  "buf_init usefull_space o' = o'\<lparr>pfnFailed := None, pfnSuccess := None, pfndoApiResponse := None,
     pRelatedSObj := None, pRecorder := None, bres := None, nRecSetCount := 0, dwRecvedCount := 0,
     dwSendedCount := 0, nCmd := 0, nSubCmd := 0, strJrhm := '''', datalen := int usefull_space,
     bdata := replicate (min usefull_space (length (bdata o'))) 0 @ drop usefull_space (bdata o')\<rparr>"

definition sobj_init :: "sobj \<Rightarrow> sobj" where
  "sobj_init s = s\<lparr>sock := None, pRelatedBObj := None, sAddrInfo := None, nKey := 0, dwTick := 0\<rparr>"

definition lobj_init :: "lobj \<Rightarrow> lobj" where
  "lobj_init l = l\<lparr>sListenSock := None, hPostAcceptExEvent := None, AcptMap := (\<lambda>_. None)\<rparr>"

definition SetIoRequestFunction :: "comp \<Rightarrow> buf \<Rightarrow> buf" where
  "SetIoRequestFunction f o' = o'\<lparr>pfnFailed := Some f, pfnSuccess := Some f\<rparr>"

text \<open>
  \<open>ReleaseRecorder\<close> reads \<open>State\<close> and calls \<open>Close\<close> on an open record set without a \<open>catch\<close>. The model assumes that
  neither fails: ADO documents a failure of \<open>Close\<close> for a record set with an edit in progress, and no record set of
  the program is ever edited.
\<close>

definition buf_ReleaseRecorder :: "buf \<Rightarrow> buf" where
  "buf_ReleaseRecorder o' = o'\<lparr>pRecorder := None\<rparr>"

definition ReleaseRes :: "buf \<Rightarrow> buf" where
  "ReleaseRes o' = o'\<lparr>bres := None\<rparr>"

definition InsertAcpt :: "int \<Rightarrow> nat \<Rightarrow> lobj \<Rightarrow> lobj" where
  "InsertAcpt key s l = l\<lparr>AcptMap := (AcptMap l)(key \<mapsto> s)\<rparr>"

definition RemoveAcpt :: "int \<Rightarrow> lobj \<Rightarrow> lobj" where
  "RemoveAcpt key l = l\<lparr>AcptMap := (AcptMap l)(key := None)\<rparr>"

section \<open>The state of the process\<close>

text \<open>Messages to the help thread (\<open>theHelpThread.h\<close>): the structures the messages point to.\<close>

record dis_number =
  dn_Jrhm :: string
  dn_Rsptype :: string
  dn_Result :: string
  dn_ResultMsg :: string
  dn_TRANSACTIONID :: string

record card_status =
  cs_Result :: string
  cs_ResultMsg :: string
  cs_ProductStatusCd :: string
  cs_ProductStatusName :: string
  cs_PservCreateDate :: string
  cs_Number :: string
  cs_TRANSACTIONID :: string

record serv_active =
  sa_Jrhm :: string
  sa_Result :: string
  sa_Smsg :: string
  sa_TRANSACTIONID :: string

record pay2 =
  pp_Jrhm :: string
  pp_Status :: string
  pp_Message :: string
  pp_Url :: string

record notify_contract_root =
  nc_Type :: string
  nc_TRANSACTIONID :: string
  nc_Statusinfo :: string
  nc_Accnbr :: string
  nc_Senddt :: string
  nc_Accepttype :: string
  nc_Acceptmsg :: string
  nc_Statusdt :: string
  nc_Resultmsg :: string

datatype help_msg =
    MSG_DIS_NUMBER dis_number | MSG_CARD_STATUS card_status | MSG_SERV_ACTIVE serv_active
  | MSG_PAY2 pay2 | MSG_NOTIFY_CONTRACT_ROOT notify_contract_root

text \<open>
  An overlapped request that has been handed to the system: what it is, with which buffer, and
  the completion key (a listen object by its index, or a socket object).
\<close>

datatype io_req = IoAccept | IoRecv nat nat | IoZeroRecv | IoSend "byte list" | IoConnect "byte list"

datatype ckey = KListen nat | KSock nat

text \<open>
  The maps of \<open>Database_map.cpp\<close>. The members of \<open>_tbl_sim\<close> that no code reads or writes are left out; \<open>_tbl_user\<close> has
  none.
\<close>

record tbl_sim =
  ts_id :: nat
  ts_jrhm :: string
  ts_khmc :: string

record tbl_kh =
  tk_id :: nat
  tk_khmc :: string
  tk_jlxm :: string
  tk_sim :: "nat \<Rightarrow> tbl_sim option"

record tbl_khjl =
  tj_id :: nat
  tj_jlxm :: string
  tj_kh :: "nat \<Rightarrow> tbl_kh option"

record db_maps =
  map_user :: "nat \<Rightarrow> unit option"
  map_sim :: "nat \<Rightarrow> tbl_sim option"
  map_kh :: "nat \<Rightarrow> tbl_kh option"
  map_khjl :: "nat \<Rightarrow> tbl_khjl option"

definition empty_maps :: db_maps where
  "empty_maps = \<lparr>map_user = (\<lambda>_. None), map_sim = (\<lambda>_. None), map_kh = (\<lambda>_. None), map_khjl = (\<lambda>_. None)\<rparr>"

record world =
  bufs :: "nat \<Rightarrow> buf option"
  socks :: "nat \<Rightarrow> sobj option"
  nextObj :: nat
  vctBObj :: "nat list"
  vctSObj :: "nat list"
  lobjs :: "nat \<Rightarrow> lobj option"
  ConnMap :: "int \<Rightarrow> nat option"
  g_dwPageSize :: nat
  ado :: adopool
  mysql :: mypool
  tick :: nat
  pending :: "(nat \<times> ckey \<times> io_req) list"
  helpq :: "help_msg list"
  maps :: db_maps
  uniqueInstance :: bool

definition ext_call :: "(nat \<Rightarrow> 'a) \<Rightarrow> (world, 'a) cm" where
  "ext_call f = (\<lambda>w. (Inr (f (tick w)), w\<lparr>tick := Suc (tick w)\<rparr>))"

lemma ext_call_app [simp]: "ext_call f w = (Inr (f (tick w)), w\<lparr>tick := Suc (tick w)\<rparr>)"
  by (simp add: ext_call_def)

text \<open>Reading and updating an object through its address.\<close>

definition get_buf :: "nat \<Rightarrow> (world, buf) cm" where
  "get_buf b = cbind (gets (\<lambda>w. bufs w b)) (of_opt Undefined)"

definition upd_buf :: "nat \<Rightarrow> (buf \<Rightarrow> buf) \<Rightarrow> (world, unit) cm" where
  "upd_buf b f = cbind (get_buf b) (\<lambda>o'. modify (\<lambda>w. w\<lparr>bufs := (bufs w)(b \<mapsto> f o')\<rparr>))"

definition get_sobj :: "nat \<Rightarrow> (world, sobj) cm" where
  "get_sobj c = cbind (gets (\<lambda>w. socks w c)) (of_opt Undefined)"

definition upd_sobj :: "nat \<Rightarrow> (sobj \<Rightarrow> sobj) \<Rightarrow> (world, unit) cm" where
  "upd_sobj c f = cbind (get_sobj c) (\<lambda>s. modify (\<lambda>w. w\<lparr>socks := (socks w)(c \<mapsto> f s)\<rparr>))"

definition get_lobj :: "nat \<Rightarrow> (world, lobj) cm" where
  "get_lobj i = cbind (gets (\<lambda>w. lobjs w i)) (of_opt Undefined)"

definition upd_lobj :: "nat \<Rightarrow> (lobj \<Rightarrow> lobj) \<Rightarrow> (world, unit) cm" where
  "upd_lobj i f = cbind (get_lobj i) (\<lambda>l. modify (\<lambda>w. w\<lparr>lobjs := (lobjs w)(i \<mapsto> f l)\<rparr>))"

text \<open>\<open>bobj->pRelatedSObj\<close>, dereferenced by what follows.\<close>

definition related_sobj :: "nat \<Rightarrow> (world, nat) cm" where
  "related_sobj b = cbind (get_buf b) (\<lambda>o'. of_opt Undefined (pRelatedSObj o'))"

text \<open>
  A write of \<open>bs\<close> at offset \<open>off\<close> of \<open>data\<close>: outside the allocated bytes it is undefined.
\<close>

definition write_data :: "nat \<Rightarrow> nat \<Rightarrow> byte list \<Rightarrow> (world, unit) cm" where
  "write_data b off bs = cbind (get_buf b) (\<lambda>o'.
     if off + length bs \<le> length (bdata o')
     then upd_buf b (\<lambda>o'. o'\<lparr>bdata := take off (bdata o') @ bs @ drop (off + length bs) (bdata o')\<rparr>)
     else throw Undefined)"

text \<open>The calls into the pools and the queries of \<open>DBPool.cpp\<close>.\<close>

definition with_ado :: "(adopool, 'a) cm \<Rightarrow> (world, 'a) cm" where
  "with_ado m = (\<lambda>w. case m (ado w) of (r, p) \<Rightarrow> (r, w\<lparr>ado := p\<rparr>))"

definition with_mysql :: "(mypool, 'a) cm \<Rightarrow> (world, 'a) cm" where
  "with_mysql m = (\<lambda>w. case m (mysql w) of (r, p) \<Rightarrow> (r, w\<lparr>mysql := p\<rparr>))"

text \<open>\<open>UniqueInstance\<close>: the named event exists, or it is created, or neither.\<close>

definition UniqueInstance :: "bool \<Rightarrow> bool \<Rightarrow> (world, bool) cm" where
  "UniqueInstance exists_already can_create =
     (if exists_already then ret False
      else if \<not> can_create then ret False
      else cbind (modify (\<lambda>w. w\<lparr>uniqueInstance := True\<rparr>)) (\<lambda>_. ret True))"

definition GetRand :: "ext \<Rightarrow> (world, int) cm" where
  "GetRand e = ext_call (os_rand e)"

text \<open>\<open>error_info\<close>: the message replaces the start of \<open>data\<close>, with its terminating zero.\<close>

definition error_info :: "ext \<Rightarrow> nat \<Rightarrow> string \<Rightarrow> farg list \<Rightarrow> (world, unit) cm" where
  "error_info e b fmt args =
     cbind (get_buf b) (\<lambda>o'.
     cbind (lift_fault (vsntprintf_trunc (fmt_double e) (nat (datalen o')) fmt args)) (\<lambda>t.
     write_data b 0 (bytes_of t @ [0])))"

text \<open>The process before start-up, and a connection in it for the worked examples.\<close>

definition world0 :: world where
  "world0 = \<lparr>bufs = (\<lambda>_. None), socks = (\<lambda>_. None), nextObj = 0, vctBObj = [], vctSObj = [],
     lobjs = (\<lambda>_. None), ConnMap = (\<lambda>_. None), g_dwPageSize = 32768, ado = ado0, mysql = my0, tick = 0,
     pending = [], helpq = [], maps = empty_maps, uniqueInstance = False\<rparr>"

definition conn0 :: "byte list \<Rightarrow> world" where
  "conn0 d = world0\<lparr>bufs := [0 \<mapsto> (zero_buf 0)\<lparr>pRelatedSObj := Some 1, datalen := int (length d),
       bdata := d\<rparr>], socks := [1 \<mapsto> zero_sobj\<lparr>sock := Some 7, pRelatedBObj := Some 0\<rparr>], nextObj := 2\<rparr>"

section \<open>The object pools (\<open>MemPool.cpp\<close>)\<close>

definition MAX_POOL :: nat where "MAX_POOL = 1000"

definition InitMemPool :: "(world, unit) cm" where
  "InitMemPool = modify (\<lambda>w. w\<lparr>vctSObj := [], vctBObj := []\<rparr>)"

definition take_SObj :: "ext \<Rightarrow> (world, nat option) cm" where
  "take_SObj e = (\<lambda>w.
     if vctSObj w = [] then
       cbind (ext_call (heap_ok e)) (\<lambda>ok.
       if ok then (\<lambda>w. (Inr (Some (nextObj w)),
         w\<lparr>socks := (socks w)(nextObj w \<mapsto> zero_sobj), nextObj := Suc (nextObj w)\<rparr>))
       else ret None) w
     else (Inr (Some (last (vctSObj w))), w\<lparr>vctSObj := butlast (vctSObj w)\<rparr>))"

definition allocSObj :: "ext \<Rightarrow> (world, nat option) cm" where
  "allocSObj e = cbind (take_SObj e) (\<lambda>r. case r of
     None \<Rightarrow> ret None
   | Some c \<Rightarrow> cbind (upd_sobj c sobj_init) (\<lambda>_. ret (Some c)))"

definition freeSObj :: "nat \<Rightarrow> (world, unit) cm" where
  "freeSObj c = modify (\<lambda>w.
     if length (vctSObj w) < MAX_POOL then w\<lparr>vctSObj := vctSObj w @ [c]\<rparr>
     else w\<lparr>socks := (socks w)(c := None)\<rparr>)"

definition take_BObj :: "ext \<Rightarrow> nat \<Rightarrow> (world, nat option) cm" where
  "take_BObj e nSize = (\<lambda>w.
     if vctBObj w = [] then
       cbind (ext_call (heap_ok e)) (\<lambda>ok.
       if ok then (\<lambda>w. (Inr (Some (nextObj w)),
         w\<lparr>bufs := (bufs w)(nextObj w \<mapsto> zero_buf (nSize - bobj_hdr e)),
           nextObj := Suc (nextObj w)\<rparr>))
       else ret None) w
     else (Inr (Some (last (vctBObj w))), w\<lparr>vctBObj := butlast (vctBObj w)\<rparr>))"

text \<open>The size of an object is that of its first use: \<open>init\<close> with a larger one writes behind it.\<close>

definition allocBObj :: "ext \<Rightarrow> nat \<Rightarrow> (world, nat option) cm" where
  "allocBObj e nSize = cbind (take_BObj e nSize) (\<lambda>r. case r of
     None \<Rightarrow> ret None
   | Some b \<Rightarrow>
       cbind (get_buf b) (\<lambda>o'.
       if length (bdata o') < nSize - bobj_hdr e then throw Undefined
       else cbind (upd_buf b (buf_init (nSize - bobj_hdr e))) (\<lambda>_. ret (Some b))))"

definition freeBObj :: "nat \<Rightarrow> (world, unit) cm" where
  "freeBObj b =
     cbind (upd_buf b buf_ReleaseRecorder) (\<lambda>_.
     cbind (upd_buf b ReleaseRes) (\<lambda>_.
     modify (\<lambda>w. if length (vctBObj w) < MAX_POOL then w\<lparr>vctBObj := vctBObj w @ [b]\<rparr>
                 else w\<lparr>bufs := (bufs w)(b := None)\<rparr>)))"

section \<open>Posting requests (\<open>RequestPost.cpp\<close>)\<close>

definition post :: "nat \<Rightarrow> ckey \<Rightarrow> io_req \<Rightarrow> (world, unit) cm" where
  "post b k r = modify (\<lambda>w. w\<lparr>pending := pending w @ [(b, k, r)]\<rparr>)"

definition CSCloseSocket :: "nat \<Rightarrow> (world, unit) cm" where
  "CSCloseSocket c = upd_sobj c (\<lambda>s. if sock s \<noteq> None then s\<lparr>sock := None\<rparr> else s)"

definition PostZeroRecv :: "ext \<Rightarrow> nat \<Rightarrow> nat \<Rightarrow> (world, bool) cm" where
  "PostZeroRecv e c b =
     cbind (upd_buf b (\<lambda>o'. o'\<lparr>wsaBuf := (None, 0)\<rparr>)) (\<lambda>_.
     cbind (get_sobj c) (\<lambda>_.
     cbind (ext_call (os_recv e)) (\<lambda>ok.
     if ok then cbind (post b (KSock c) IoZeroRecv) (\<lambda>_. ret True) else ret False)))"

definition PostRecv :: "ext \<Rightarrow> nat \<Rightarrow> nat \<Rightarrow> (world, bool) cm" where
  "PostRecv e c b =
     cbind (upd_buf b (\<lambda>o'. o'\<lparr>wsaBuf := (Some (unat (dwRecvedCount o')),
                                        word_of_int (datalen o') - dwRecvedCount o')\<rparr>)) (\<lambda>_.
     cbind (get_buf b) (\<lambda>o'.
     cbind (get_sobj c) (\<lambda>_.
     cbind (ext_call (os_recv e)) (\<lambda>ok.
     if ok then cbind (post b (KSock c) (IoRecv (unat (dwRecvedCount o')) (unat (snd (wsaBuf o')))))
                  (\<lambda>_. ret True)
     else ret False))))"

definition PostSend :: "ext \<Rightarrow> nat \<Rightarrow> nat \<Rightarrow> (world, bool) cm" where
  "PostSend e c b =
     cbind (upd_buf b (\<lambda>o'. o'\<lparr>wsaBuf := (Some (unat (dwSendedCount o')),
                                        dwRecvedCount o' - dwSendedCount o')\<rparr>)) (\<lambda>_.
     cbind (get_buf b) (\<lambda>o'.
     cbind (get_sobj c) (\<lambda>_.
     cbind (ext_call (os_send e)) (\<lambda>ok.
     if \<not> ok then ret False
     else let off = unat (dwSendedCount o'); n = unat (snd (wsaBuf o'))
          in if length (bdata o') < off + n then throw Undefined
             else cbind (post b (KSock c) (IoSend (take n (drop off (bdata o'))))) (\<lambda>_. ret True)))))"

text \<open>The release of a connection that the handlers do when a post fails.\<close>

definition close_and_free :: "nat \<Rightarrow> nat \<Rightarrow> (world, unit) cm" where
  "close_and_free c b =
     cbind (CSCloseSocket c) (\<lambda>_. cbind (freeSObj c) (\<lambda>_. freeBObj b))"

definition PostAcceptEx :: "ext \<Rightarrow> nat \<Rightarrow> nat \<Rightarrow> (world, bool) cm" where
  "PostAcceptEx e l nIndex =
     cbind (gets g_dwPageSize) (\<lambda>page.
     cbind (allocBObj e page) (\<lambda>rb. case rb of
       None \<Rightarrow> ret False
     | Some b \<Rightarrow>
     cbind (allocSObj e) (\<lambda>rs. case rs of
       None \<Rightarrow> cbind (freeBObj b) (\<lambda>_. ret False)
     | Some c \<Rightarrow>
     cbind (ext_call (os_socket e)) (\<lambda>s.
     cbind (upd_sobj c (\<lambda>x. x\<lparr>sock := s\<rparr>)) (\<lambda>_.
     if s = None then cbind (freeBObj b) (\<lambda>_. cbind (freeSObj c) (\<lambda>_. ret False))
     else
     cbind (upd_sobj c (\<lambda>x. x\<lparr>pRelatedBObj := Some b\<rparr>)) (\<lambda>_.
     cbind (upd_buf b (\<lambda>o'. o'\<lparr>pRelatedSObj := Some c\<rparr>)) (\<lambda>_.
     cbind (upd_buf b (SetIoRequestFunction (if nIndex = 0 then AcceptComp else NC_AcceptComp))) (\<lambda>_.
     cbind (GetRand e) (\<lambda>key.
     cbind (upd_sobj c (\<lambda>x. x\<lparr>nKey := key\<rparr>)) (\<lambda>_.
     cbind (upd_lobj l (InsertAcpt key c)) (\<lambda>_.
     cbind (ext_call (os_acceptex e)) (\<lambda>ok.
     if ok then cbind (post b (KListen l) IoAccept) (\<lambda>_. ret True)
     else
       cbind (upd_lobj l (RemoveAcpt key)) (\<lambda>_.
       cbind (CSCloseSocket c) (\<lambda>_.
       cbind (freeBObj b) (\<lambda>_.
       cbind (freeSObj c) (\<lambda>_. ret False))))))))))))))))"

end
