(* ===== verification/DealHeadTail.thy ===== *)
theory DealHeadTail
  imports SignalData
begin

text \<open>
  \<open>DealHeadTail.cpp\<close>: the frames of the client protocol. A frame is \<open>fb fc\<close>, the length of
  the payload as a little-endian 32-bit integer, the payload, the sum of its bytes and \<open>0d\<close>.
  \<open>CheckRecvdata\<close> recognises a frame in the receive buffer, \<open>DealTail\<close> completes and sends one.
\<close>

section \<open>Checksum and bytes\<close>

fun csum_loop :: "byte list \<Rightarrow> byte \<Rightarrow> byte" where
  "csum_loop [] acc = acc"
| "csum_loop (b # bs) acc = csum_loop bs (acc + b)"

text \<open>\<open>csum(addr, count)\<close> with \<open>addr\<close> at offset \<open>off\<close> of \<open>bs\<close>; a count \<open>\<le> 0\<close> runs no iteration.\<close>

definition csum :: "byte list \<Rightarrow> nat \<Rightarrow> int \<Rightarrow> byte option" where
  "csum bs off count =
     (if count \<le> 0 then Some 0
      else if length bs < off + nat count then None
      else Some (csum_loop (take (nat count) (drop off bs)) 0))"

definition byte_at :: "byte list \<Rightarrow> nat \<Rightarrow> byte option" where
  "byte_at bs i = (if i < length bs then Some (bs ! i) else None)"

section \<open>Sending a frame\<close>

text \<open>\<open>sbuf.write("\xfb\xfc", 6)\<close>: the literal has three bytes, the call copies six.\<close>

definition sbuf_head :: "ext \<Rightarrow> byte list" where
  "sbuf_head e = (case lit_tail e of (x, y, z) \<Rightarrow> [0xfb, 0xfc, 0, x, y, z])"

definition sbuf_bytes :: "ext \<Rightarrow> tok list \<Rightarrow> byte list" where
  "sbuf_bytes e toks = sbuf_head e @ concat (map (mp_enc e) toks)"

definition PDATA_SIZE :: nat where "PDATA_SIZE = 1024 * 32"

text \<open>
  The frame \<open>DealTail\<close> builds in the \<open>sbuffer\<close>. \<open>pCh\<close> points to the storage of the buffer before
  the two \<open>write\<close>s, so a reallocation by one of them leaves it dangling.
\<close>

definition tail_frame :: "ext \<Rightarrow> byte list \<Rightarrow> fault + byte list" where
  "tail_frame e sb =
     (let nLen = length sb in
      if PDATA_SIZE < nLen - 6 then Inl Undefined
      else case csum (drop 6 sb) 0 (int nLen - 6) of
        None \<Rightarrow> Inl Undefined
      | Some nSum \<Rightarrow>
          if mp_moves e nLen 1 \<or> mp_moves e (Suc nLen) 1 then Inl Undefined
          else Inr (take 2 sb @ le32 (of_nat (nLen + 2) - 8) @ drop 6 sb @ [nSum, 0x0d]))"

definition DealTail_sbuf :: "ext \<Rightarrow> byte list \<Rightarrow> nat \<Rightarrow> (world, unit) cm" where
  "DealTail_sbuf e sb b =
     cbind (lift_fault (tail_frame e sb)) (\<lambda>frame.
     cbind (write_data b 0 frame) (\<lambda>_.
     cbind (upd_buf b (\<lambda>o'. o'\<lparr>dwRecvedCount := of_nat (length frame)\<rparr>)) (\<lambda>_.
     cbind (upd_buf b (SetIoRequestFunction SendComp)) (\<lambda>_.
     cbind (related_sobj b) (\<lambda>c.
     cbind (PostSend e c b) (\<lambda>ok.
     if \<not> ok then close_and_free c b else ret ()))))))"

definition DealTail :: "ext \<Rightarrow> tok list \<Rightarrow> nat \<Rightarrow> (world, unit) cm" where
  "DealTail e toks b = DealTail_sbuf e (sbuf_bytes e toks) b"

definition ErrorInfo_toks :: "buf \<Rightarrow> int \<Rightarrow> tok list" where
  "ErrorInfo_toks o' nTag =
     (if nTag = 0
      then [pack_array 3, TInt (nCmd o'), TInt (nSubCmd o'), TInt 1]
      else [pack_array 6, TInt (nCmd o'), TInt (nSubCmd o'), TInt (nSubSubCmd o'), TInt nTag,
            TInt 1, TInt 0])"

definition ErrorInfo :: "ext \<Rightarrow> tok list \<Rightarrow> nat \<Rightarrow> int \<Rightarrow> (world, bool) cm" where
  "ErrorInfo e toks b nTag =
     cbind (get_buf b) (\<lambda>o'.
     cbind (DealTail e (toks @ ErrorInfo_toks o' nTag) b) (\<lambda>_. ret False))"

text \<open>The header of a list reply and the position of its first row.\<close>

definition list_header :: "buf \<Rightarrow> int \<Rightarrow> int \<Rightarrow> tok list" where
  "list_header o' nPage nTag =
     (let nStart = wrap32 ((nTag - 1) * nPage);
          nTemp = wrap32 (nRecSetCount o' - nStart)
      in [pack_array 7, TInt (nCmd o'), TInt (nSubCmd o'), TInt (nSubSubCmd o'), TInt nTag, TInt 0,
          TInt (nRecSetCount o'), pack_array (if nTemp > nPage then nPage else nTemp)])"

definition InitMsgpack :: "ext \<Rightarrow> nat \<Rightarrow> int \<Rightarrow> int \<Rightarrow> (world, tok list) cm" where
  "InitMsgpack e b nPage nTag =
     cbind (get_buf b) (\<lambda>o'.
     cbind (of_opt Undefined (bres o')) (\<lambda>h.
     cbind (upd_buf b (\<lambda>x. x\<lparr>bres := Some (my_seek e h (wrap32 ((nTag - 1) * nPage)))\<rparr>)) (\<lambda>_.
     ret (list_header o' nPage nTag))))"

text \<open>An access through an empty \<open>_RecordsetPtr\<close> raises \<open>_com_error\<close>.\<close>

definition InitMsgpack_ado :: "ext \<Rightarrow> nat \<Rightarrow> int \<Rightarrow> int \<Rightarrow> (world, tok list) cm" where
  "InitMsgpack_ado e b nPage nTag =
     cbind (get_buf b) (\<lambda>o'.
     cbind (of_opt ComError (pRecorder o')) (\<lambda>h.
     cbind (of_opt ComError (ado_move e h (wrap32 ((nTag - 1) * nPage)))) (\<lambda>h'.
     cbind (upd_buf b (\<lambda>x. x\<lparr>pRecorder := Some h'\<rparr>)) (\<lambda>_.
     ret (list_header o' nPage nTag)))))"

section \<open>Receiving a frame\<close>

text \<open>
  \<open>DealHead\<close>: the older check, in \<open>int\<close> arithmetic. \<open>None\<close> is the jump to \<open>error\<close>.
\<close>

definition DealHead_check :: "buf \<Rightarrow> fault + int option" where
  "DealHead_check o' =
     (let nLen = sint (dwRecvedCount o'); d = bdata o' in
      if nLen < 8 then Inr None
      else case (byte_at d 0, byte_at d 1) of
        (Some b0, Some b1) \<Rightarrow>
          if b0 \<noteq> 0xfb \<or> b1 \<noteq> 0xfc then Inr None
          else if length d < 6 then Inl Undefined
          else
            let nFrameLen = sint (un_le32 (drop 2 d)) in
            if nFrameLen > int_max - 8 then Inl Undefined
            else if nLen < nFrameLen + 8 then Inr None
            else if 6 + nFrameLen < 0 then Inl Undefined
            else (case (byte_at d (nat (6 + nFrameLen)), csum d 6 nFrameLen, byte_at d (nat (nFrameLen + 7))) of
                (Some nSum, Some s, Some t) \<Rightarrow>
                  if nSum \<noteq> s then Inr None else if t \<noteq> 0x0d then Inr None else Inr (Some nFrameLen)
              | _ \<Rightarrow> Inl Undefined)
      | _ \<Rightarrow> Inl Undefined)"

definition DealHead :: "ext \<Rightarrow> nat \<Rightarrow> (world, int) cm" where
  "DealHead e b =
     cbind (get_buf b) (\<lambda>o'.
     cbind (lift_fault (DealHead_check o')) (\<lambda>r. case r of
       Some n \<Rightarrow> ret n
     | None \<Rightarrow> cbind (DealTail e [pack_array 3, TInt 0xbb, TInt 0xbb, TInt 0] b) (\<lambda>_. ret 0)))"

text \<open>
  \<open>CheckRecvdata\<close>: the arithmetic on \<open>dwFrameLen\<close> is unsigned and wraps. The result is the
  value returned and the new \<open>dwRecvedCount\<close>.
\<close>

definition check_frame :: "byte list \<Rightarrow> 32 word \<Rightarrow> fault + int \<times> 32 word" where
  "check_frame d recved =
     (if recved < 6 then Inr (0, recved)
      else case (byte_at d 0, byte_at d 1) of
        (Some b0, Some b1) \<Rightarrow>
          if b0 \<noteq> 0xfb \<or> b1 \<noteq> 0xfc then Inr (-1, recved)
          else if length d < 6 then Inl Undefined
          else
            let dwFrameLen = un_le32 (drop 2 d) in
            if dwFrameLen + 8 > recved then Inr (0, recved)
            else (case (byte_at d (unat (6 + dwFrameLen)), csum d 6 (sint dwFrameLen)) of
                (Some nSum, Some s) \<Rightarrow>
                  if nSum \<noteq> s then Inr (-1, recved)
                  else (case byte_at d (unat (dwFrameLen + 7)) of
                      None \<Rightarrow> Inl Undefined
                    | Some t \<Rightarrow> if t \<noteq> 0x0d then Inr (-1, recved)
                                else Inr (sint dwFrameLen, dwFrameLen))
              | _ \<Rightarrow> Inl Undefined)
      | _ \<Rightarrow> Inl Undefined)"

definition CheckRecvdata :: "nat \<Rightarrow> (world, int) cm" where
  "CheckRecvdata b =
     cbind (get_buf b) (\<lambda>o'.
     cbind (lift_fault (check_frame (bdata o') (dwRecvedCount o'))) (\<lambda>(r, n).
     cbind (upd_buf b (\<lambda>x. x\<lparr>dwRecvedCount := n\<rparr>)) (\<lambda>_. ret r)))"

section \<open>The frame format\<close>

text \<open>The frame that carries the payload \<open>p\<close>.\<close>

definition frame_of :: "byte list \<Rightarrow> byte list" where
  "frame_of p = [0xfb, 0xfc] @ le32 (of_nat (length p)) @ p @ [sum_list p, 0x0d]"

lemma length_frame_of [simp]: "length (frame_of p) = length p + 8"
  by (simp add: frame_of_def)

lemma csum_loop_sum: "csum_loop bs acc = acc + sum_list bs"
  by (induction bs arbitrary: acc) (simp_all add: add.assoc)

lemma tail_frame_ok:
  assumes "length p \<le> PDATA_SIZE" "\<not> mp_moves e (length p + 6) 1" "\<not> mp_moves e (length p + 7) 1"
  shows "tail_frame e (sbuf_head e @ p) = Inr (frame_of p)"
proof -
  obtain x y z where h: "sbuf_head e = [0xfb, 0xfc, 0, x, y, z]"
    by (cases "lit_tail e") (auto simp: sbuf_head_def)
  have "csum p 0 (int (length p)) = Some (sum_list p)"
    by (simp add: csum_def csum_loop_sum)
  moreover have "\<not> mp_moves e (length (sbuf_head e @ p)) 1" "\<not> mp_moves e (Suc (length (sbuf_head e @ p))) 1"
    using assms(2,3) by (simp_all add: h eval_nat_numeral)
  moreover have "int (length (sbuf_head e @ p)) - 6 = int (length p)" "drop 6 (sbuf_head e @ p) = p"
    "take 2 (sbuf_head e @ p) = [0xfb, 0xfc]" "length (sbuf_head e @ p) - 6 = length p"
    "(of_nat (length (sbuf_head e @ p) + 2) - 8 :: 32 word) = of_nat (length p)"
    by (simp_all add: h)
  ultimately show ?thesis using assms(1) by (simp add: tail_frame_def frame_of_def Let_def)
qed

lemma check_frame_short:
  "n < 6 \<Longrightarrow> check_frame d (of_nat n) = Inr (0, of_nat n)"
  by (simp add: check_frame_def word_less_nat_alt unat_of_nat)

lemma check_frame_main:
  assumes n: "6 \<le> n" "n \<le> length d" "n < 2 ^ 31"
    and hd: "d ! 0 = 0xfb" "d ! 1 = 0xfc"
    and l: "l = unat (un_le32 (drop 2 d))" "l + 8 < 2 ^ 32"
  shows "check_frame d (of_nat n) =
     (if n < l + 8 then Inr (0, of_nat n)
      else if d ! (6 + l) \<noteq> sum_list (take l (drop 6 d)) then Inr (-1, of_nat n)
      else if d ! (l + 7) \<noteq> 0x0d then Inr (-1, of_nat n)
      else Inr (int l, of_nat l))"
proof -
  let ?L = "un_le32 (drop 2 d)"
  have L: "?L = of_nat l" using l(1) by simp
  have u8: "unat (?L + 8) = l + 8"
    unfolding L using l(2) by (simp add: unat_word_ariths unat_of_nat)
  have un: "unat (of_nat n :: 32 word) = n" using n by (simp add: unat_of_nat)
  have ge6: "\<not> (of_nat n :: 32 word) < 6" using n un by (simp add: word_less_nat_alt)
  have cmp: "(?L + 8 > (of_nat n :: 32 word)) = (n < l + 8)"
    by (simp add: word_less_nat_alt u8 un del: unat_plus_if')
  have b01: "byte_at d 0 = Some 0xfb" "byte_at d 1 = Some 0xfc"
    using n hd by (auto simp: byte_at_def)
  show ?thesis
  proof (cases "n < l + 8")
    case True
    then show ?thesis using ge6 b01 n cmp by (simp add: check_frame_def Let_def)
  next
    case False
    have idx: "unat (6 + ?L) = 6 + l" "unat (?L + 7) = l + 7"
      unfolding L using l(2) by (simp_all add: unat_word_ariths unat_of_nat)
    have s: "sint ?L = int l"
      unfolding L using False n by (simp add: sint_of_nat_small)
    have cs: "csum d 6 (int l) = Some (sum_list (take l (drop 6 d)))"
      using False n by (auto simp: csum_def csum_loop_sum)
    have at: "byte_at d (6 + l) = Some (d ! (6 + l))" "byte_at d (l + 7) = Some (d ! (l + 7))"
      using False n by (simp_all add: byte_at_def)
    show ?thesis using ge6 b01 n cmp False
      by (simp add: check_frame_def Let_def cs idx at s) (simp add: L)
  qed
qed

text \<open>A buffer that starts with \<open>bs\<close> looks like \<open>bs\<close> below its length.\<close>

lemma nth_prefix: "take k d = take k bs \<Longrightarrow> i < k \<Longrightarrow> i < length d \<Longrightarrow> i < length bs \<Longrightarrow> d ! i = bs ! i"
  by (metis nth_take)

lemma frame_of_nth:
  "frame_of p ! 0 = 0xfb" "frame_of p ! 1 = 0xfc"
  "frame_of p ! (6 + length p) = sum_list p" "frame_of p ! (length p + 7) = 0x0d"
  "drop 6 (frame_of p) = p @ [sum_list p, 0x0d]"
  "drop 2 (frame_of p) = le32 (of_nat (length p)) @ p @ [sum_list p, 0x0d]"
proof -
  show "frame_of p ! 0 = 0xfb" "frame_of p ! 1 = 0xfc"
    "drop 2 (frame_of p) = le32 (of_nat (length p)) @ p @ [sum_list p, 0x0d]"
    by (simp_all add: frame_of_def)
  show d6: "drop 6 (frame_of p) = p @ [sum_list p, 0x0d]"
    by (simp add: frame_of_def le32_def)
  have "frame_of p ! (6 + i) = (p @ [sum_list p, 0x0d]) ! i" if "i < length p + 2" for i
    using that nth_drop [of 6 "frame_of p" i] d6 by simp
  from this [of "length p"] this [of "length p + 1"]
  show "frame_of p ! (6 + length p) = sum_list p" "frame_of p ! (length p + 7) = 0x0d"
    by (simp_all add: nth_append add.commute)
qed

lemma le32_un_le32: "4 \<le> length bs \<Longrightarrow> le32 (un_le32 bs) = take 4 bs"
proof (cases bs rule: un_le32.cases)
  case (1 a b c d r)
  let ?w = "ucast a OR push_bit 8 (ucast b) OR push_bit 16 (ucast c) OR push_bit 24 (ucast d) :: 32 word"
  have "(ucast ?w :: byte) = a" by (rule bit_word_eqI) (simp add: bit_simps)
  moreover have "(ucast (drop_bit 8 ?w) :: byte) = b"
    by (rule bit_word_eqI) (auto simp: bit_simps dest: bit_imp_le_length)
  moreover have "(ucast (drop_bit 16 ?w) :: byte) = c"
    by (rule bit_word_eqI) (auto simp: bit_simps dest: bit_imp_le_length)
  moreover have "(ucast (drop_bit 24 ?w) :: byte) = d"
    by (rule bit_word_eqI) (auto simp: bit_simps dest: bit_imp_le_length)
  ultimately show ?thesis unfolding le32_def 1 un_le32.simps by simp
qed simp_all

lemma frame_prefix_facts:
  assumes t: "take k d = take k (frame_of p)" and k: "6 \<le> k" "k \<le> length d" "k \<le> length p + 8"
  shows "d ! 0 = 0xfb" "d ! 1 = 0xfc" "un_le32 (drop 2 d) = of_nat (length p)"
proof -
  have "d ! i = frame_of p ! i" if "i < 2" for i
    using nth_prefix [OF t, of i] that k by simp
  from this [of 0] this [of 1] show "d ! 0 = 0xfb" "d ! 1 = 0xfc"
    by (simp_all add: frame_of_nth(1) frame_of_nth(2) [simplified])
  have "take 4 (drop 2 d) = take 4 (drop 2 (frame_of p))"
    using arg_cong [OF t, of "\<lambda>xs. take 4 (drop 2 xs)"] k by (simp add: take_drop)
  then have "un_le32 (drop 2 d) = un_le32 (drop 2 (frame_of p))"
    by (metis un_le32_take order_refl)
  then show "un_le32 (drop 2 d) = of_nat (length p)" by (simp add: frame_of_nth)
qed

lemma take_frame_payload:
  assumes "take (length p + 8) d = frame_of p"
  shows "take (length p) (drop 6 d) = p"
proof -
  have "take (length p + 2) (drop 6 d) = drop 6 (take (length p + 8) d)"
    by (simp add: drop_take)
  also have "\<dots> = p @ [sum_list p, 0x0d]" unfolding assms by (rule frame_of_nth)
  finally have "take (length p) (take (length p + 2) (drop 6 d)) = p" by simp
  then show ?thesis by simp
qed

lemma check_frame_frame:
  assumes n: "length p + 8 \<le> n" "n \<le> length d" "n < 2 ^ 31"
    and t: "take (length p + 8) d = frame_of p"
  shows "check_frame d (of_nat n) = Inr (int (length p), of_nat (length p))"
proof -
  have t': "take (length p + 8) d = take (length p + 8) (frame_of p)" using t by simp
  have hd: "d ! 0 = 0xfb" "d ! 1 = 0xfc" and L: "un_le32 (drop 2 d) = of_nat (length p)"
    using frame_prefix_facts [OF t'] n by simp_all
  have l: "length p = unat (un_le32 (drop 2 d))" unfolding L using n by (simp add: unat_of_nat)
  have "d ! i = frame_of p ! i" if "i < length p + 8" for i
    using nth_prefix [OF t' that] that n by simp
  then have "d ! (6 + length p) = sum_list p" "d ! (length p + 7) = 0x0d"
    by (simp_all add: frame_of_nth)
  then show ?thesis
    using check_frame_main [OF _ n(2,3) hd l] n take_frame_payload [OF t] by simp
qed

lemma check_frame_partial:
  assumes n: "n < length p + 8" "n \<le> length d" "length p + 8 < 2 ^ 31"
    and t: "take n d = take n (frame_of p)"
  shows "check_frame d (of_nat n) = Inr (0, of_nat n)"
proof (cases "n < 6")
  case True
  then show ?thesis by (rule check_frame_short)
next
  case False
  have hd: "d ! 0 = 0xfb" "d ! 1 = 0xfc" and L: "un_le32 (drop 2 d) = of_nat (length p)"
    using frame_prefix_facts [OF t] n False by simp_all
  have l: "length p = unat (un_le32 (drop 2 d))" unfolding L using n by (simp add: unat_of_nat)
  show ?thesis using check_frame_main [OF _ n(2) _ hd l] n False by simp
qed

text \<open>The length fields whose end mark lies below \<open>data\<close> after the wrap-around.\<close>

lemma check_frame_wrap:
  assumes n: "6 \<le> n" "n \<le> length d" "length d < 2 ^ 31"
    and hd: "d ! 0 = 0xfb" "d ! 1 = 0xfc"
    and l: "2 ^ 32 \<le> unat (un_le32 (drop 2 d)) + 8"
  shows "check_frame d (of_nat n) =
    (if un_le32 (drop 2 d) \<in> {0xFFFFFFF8, 0xFFFFFFF9} then Inl Undefined
     else if un_le32 (drop 2 d) = 0xFFFFFFFF \<and> n = 6 then Inr (0, of_nat n)
     else Inr (-1, of_nat n))"
proof -
  let ?L = "un_le32 (drop 2 d)"
  have un: "unat (of_nat n :: 32 word) = n" using n by (simp add: unat_of_nat)
  have ge6: "\<not> (of_nat n :: 32 word) < 6" using n un by (simp add: word_less_nat_alt)
  have b01: "byte_at d 0 = Some 0xfb" "byte_at d (Suc 0) = Some 0xfc"
    using n hd by (auto simp: byte_at_def)
  have "take 4 (drop 2 d) = le32 ?L" using n by (intro le32_un_le32 [symmetric]) simp
  then have b: "take 6 d = take 2 d @ le32 ?L"
    using take_add [of 2 4 d] by simp
  have bytes: "d ! (2 + i) = le32 ?L ! i" if "i < 4" for i
    using nth_take [of "2 + i" 6 d] b that n by (simp add: nth_append)
  have "unat ?L < 2 ^ 32" using unsigned_less [of ?L] by simp
  then obtain i where i: "unat ?L = 4294967288 + i" "i < 8"
    using l by (intro that [of "unat ?L - 4294967288"]) auto
  then have "i \<in> {0, 1, 2, 3, 4, 5, 6, 7}" by auto
  moreover have "?L = of_nat (4294967288 + i)" using i(1) by (metis of_nat_unat ucast_id)
  ultimately consider "?L = 0xFFFFFFF8" | "?L = 0xFFFFFFF9" | "?L = 0xFFFFFFFA" | "?L = 0xFFFFFFFB"
    | "?L = 0xFFFFFFFC" | "?L = 0xFFFFFFFD" | "?L = 0xFFFFFFFE" | "?L = 0xFFFFFFFF"
    by auto
  then show ?thesis
  proof cases
    case 1
    then show ?thesis using ge6 b01 n
      by (simp add: check_frame_def Let_def byte_at_def word_less_nat_alt un)
  next
    case 2
    then show ?thesis using ge6 b01 n
      by (simp add: check_frame_def Let_def byte_at_def word_less_nat_alt un)
  next
    case 3
    then show ?thesis using ge6 b01 n hd
      by (auto simp add: check_frame_def Let_def byte_at_def word_less_nat_alt un csum_def)
  next
    case 4
    then show ?thesis using ge6 b01 n hd
      by (auto simp add: check_frame_def Let_def byte_at_def word_less_nat_alt un csum_def)
  next
    case 5
    then show ?thesis using ge6 b01 n bytes [of 0]
      by (auto simp add: check_frame_def Let_def byte_at_def word_less_nat_alt un csum_def le32_def)
  next
    case 6
    then show ?thesis using ge6 b01 n bytes [of 1]
      by (auto simp add: check_frame_def Let_def byte_at_def word_less_nat_alt un csum_def le32_def)
  next
    case 7
    then show ?thesis using ge6 b01 n bytes [of 2]
      by (auto simp add: check_frame_def Let_def byte_at_def word_less_nat_alt un csum_def le32_def)
  next
    case 8
    then show ?thesis using ge6 b01 n bytes [of 3]
      by (auto simp add: check_frame_def Let_def byte_at_def word_less_nat_alt un csum_def le32_def)
  qed
qed

lemma check_frame_hd:
  assumes n: "6 \<le> n" "n \<le> length d" "length d < 2 ^ 31"
    and c: "check_frame d (of_nat n) = Inr (r, m)" "0 < r"
  shows "d ! 0 = 0xfb \<and> d ! 1 = 0xfc"
proof -
  have "unat (of_nat n :: 32 word) = n" using n by (simp add: unat_of_nat)
  then have "\<not> (of_nat n :: 32 word) < 6" using n by (simp add: word_less_nat_alt)
  moreover have "byte_at d 0 = Some (d ! 0)" "byte_at d (Suc 0) = Some (d ! 1)"
    using n by (auto simp: byte_at_def)
  ultimately show ?thesis using c by (auto simp: check_frame_def split: if_splits)
qed

lemma frame_of_parts:
  assumes l: "l + 8 \<le> length d" and hd: "d ! 0 = 0xfb" "d ! 1 = 0xfc"
    and s: "d ! (6 + l) = sum_list (take l (drop 6 d))" and t: "d ! (l + 7) = 0x0d"
    and L: "l = unat (un_le32 (drop 2 d))"
  shows "take (l + 8) d = frame_of (take l (drop 6 d))"
proof -
  have "take 4 (drop 2 d) = le32 (un_le32 (drop 2 d))" using l by (intro le32_un_le32 [symmetric]) simp
  then have le: "take 4 (drop 2 d) = le32 (of_nat l)" using L by simp
  have "take 2 d = [d ! 0, d ! 1]" using l by (cases d; cases "tl d") auto
  moreover have "take 2 (drop (6 + l) d) = [d ! (6 + l), d ! (l + 7)]"
    using l by (simp add: take_Suc_conv_app_nth eval_nat_numeral add.commute)
  moreover have "take (l + 8) d = take 2 d @ take 4 (drop 2 d) @ take l (drop 6 d) @ take 2 (drop (6 + l) d)"
    using take_add [of 2 "l + 6" d] take_add [of 4 "l + 2" "drop 2 d"] take_add [of l 2 "drop 6 d"]
    by (simp add: add.commute add.assoc)
  ultimately show ?thesis using l hd s t le by (simp add: frame_of_def)
qed

section \<open>What \<open>DealTail\<close> hands to the system\<close>

definition payload :: "ext \<Rightarrow> tok list \<Rightarrow> byte list" where
  "payload e toks = concat (map (mp_enc e) toks)"

text \<open>
  The reply fits: the checksum buffer on the stack, the \<open>data\<close> of the connection and, so that
  \<open>pCh\<close> stays valid, the storage of the \<open>sbuffer\<close> are large enough.
\<close>

definition reply_fits :: "ext \<Rightarrow> tok list \<Rightarrow> buf \<Rightarrow> bool" where
  "reply_fits e toks o' \<longleftrightarrow> (let n = length (payload e toks) in
     n \<le> PDATA_SIZE \<and> n + 8 \<le> length (bdata o') \<and>
     \<not> mp_moves e (n + 6) 1 \<and> \<not> mp_moves e (n + 7) 1)"

lemma tail_frame_reply:
  "reply_fits e toks o' \<Longrightarrow> tail_frame e (sbuf_bytes e toks) = Inr (frame_of (payload e toks))"
  using tail_frame_ok [of "payload e toks" e]
  by (simp add: reply_fits_def payload_def sbuf_bytes_def Let_def)

lemma upd_buf_run [simp]: "bufs w b = Some o' \<Longrightarrow> upd_buf b f w = (Inr (), w\<lparr>bufs := (bufs w)(b \<mapsto> f o')\<rparr>)"
  by (simp add: upd_buf_def get_buf_def cbind_def)

lemma get_buf_run [simp]: "bufs w b = Some o' \<Longrightarrow> get_buf b w = (Inr o', w)"
  by (simp add: get_buf_def cbind_def)

lemma upd_sobj_run [simp]: "socks w c = Some s \<Longrightarrow> upd_sobj c f w = (Inr (), w\<lparr>socks := (socks w)(c \<mapsto> f s)\<rparr>)"
  by (simp add: upd_sobj_def get_sobj_def cbind_def)

lemma get_sobj_run [simp]: "socks w c = Some s \<Longrightarrow> get_sobj c w = (Inr s, w)"
  by (simp add: get_sobj_def cbind_def)

lemma unat_of_nat_sub:
  "unat (w :: 32 word) \<le> n \<Longrightarrow> n < 2 ^ 32 \<Longrightarrow> unat (of_nat n - w) = n - unat w"
  by (subst unat_sub) (simp_all add: word_le_nat_alt unat_of_nat)

lemma DealTail_posts:
  assumes b: "bufs w b = Some o'" "pRelatedSObj o' = Some c" "socks w c = Some s"
    and fits: "reply_fits e toks o'" and k: "unat (dwSendedCount o') \<le> length (payload e toks) + 8"
    and ok: "os_send e (tick w)"
  shows "\<exists>w'. DealTail e toks b w = (Inr (), w') \<and>
    pending w' = pending w @ [(b, KSock c, IoSend (drop (unat (dwSendedCount o')) (frame_of (payload e toks))))] \<and>
    vctBObj w' = vctBObj w \<and> vctSObj w' = vctSObj w \<and> socks w' = socks w"
proof -
  define f where "f = frame_of (payload e toks)"
  have len: "length f \<le> length (bdata o')" "length f < 2 ^ 32"
    using fits by (simp_all add: reply_fits_def PDATA_SIZE_def Let_def f_def)
  have k': "unat (dwSendedCount o') \<le> length f" using k by (simp add: f_def)
  have cnt: "unat (of_nat (length f) - dwSendedCount o') = length f - unat (dwSendedCount o')"
    using k' len(2) by (rule unat_of_nat_sub)
  have post: "take (length f - j) (drop j (f @ r)) = drop j f" if "j \<le> length f" for j r
    using that by simp
  show ?thesis
    using b k' len ok unfolding DealTail_def DealTail_sbuf_def tail_frame_reply [OF fits] f_def [symmetric]
    by (simp add: cbind_def write_data_def related_sobj_def PostSend_def SetIoRequestFunction_def
        post_def Let_def cnt post [simplified])
qed

lemma word_sum_list_update:
  "i < length p \<Longrightarrow> sum_list (p[i := x]) = sum_list p + x - (p ! i :: byte)"
proof (induction p arbitrary: i)
  case (Cons a p)
  then show ?case by (cases i) simp_all
qed simp

section \<open>Properties\<close>

text \<open>C6: with \<open>n\<close> bytes received, \<open>CheckRecvdata\<close> reports a complete request
  exactly when they start with a well-formed frame of a non-empty payload, and then it reports
  the length of that payload.\<close>

theorem frame_accept_iff:
  assumes "n \<le> length d" "length d < 2 ^ 31"
  shows "(\<exists>m. check_frame d (of_nat n) = Inr (r, m)) \<and> 0 < r \<longleftrightarrow>
    (\<exists>p. p \<noteq> [] \<and> r = int (length p) \<and> length p + 8 \<le> n \<and> take (length p + 8) d = frame_of p)"
proof
  assume "\<exists>p. p \<noteq> [] \<and> r = int (length p) \<and> length p + 8 \<le> n \<and> take (length p + 8) d = frame_of p"
  then obtain p where p: "p \<noteq> []" "r = int (length p)" "length p + 8 \<le> n"
    "take (length p + 8) d = frame_of p" by blast
  have "n < 2 ^ 31" using assms by linarith
  from check_frame_frame [OF p(3) assms(1) this p(4)] p(1,2)
  show "(\<exists>m. check_frame d (of_nat n) = Inr (r, m)) \<and> 0 < r" by simp
next
  assume a: "(\<exists>m. check_frame d (of_nat n) = Inr (r, m)) \<and> 0 < r"
  then obtain m where c: "check_frame d (of_nat n) = Inr (r, m)" and r: "0 < r" by blast
  have n6: "6 \<le> n" using c r check_frame_short [of n d] by (cases "n < 6") auto
  have hd: "d ! 0 = 0xfb" "d ! 1 = 0xfc" using check_frame_hd [OF n6 assms c r] by auto
  define l where "l = unat (un_le32 (drop 2 d))"
  have small: "l + 8 < 2 ^ 32"
  proof (rule ccontr)
    assume "\<not> l + 8 < 2 ^ 32"
    then have "2 ^ 32 \<le> l + 8" by (simp only: not_less)
    from check_frame_wrap [OF n6 assms hd this[unfolded l_def]] c r show False by (auto split: if_splits)
  qed
  have n: "n < 2 ^ 31" using assms by linarith
  have eq: "l + 8 \<le> n" "d ! (6 + l) = sum_list (take l (drop 6 d))" "d ! (l + 7) = 0x0d" "r = int l"
    using check_frame_main [OF n6 assms(1) n hd l_def small] c r by (auto split: if_splits)
  have "take (l + 8) d = frame_of (take l (drop 6 d))"
    using frame_of_parts [OF _ hd eq(2,3) l_def] eq(1) assms(1) by simp
  moreover have "length (take l (drop 6 d)) = l" using eq(1) assms(1) by simp
  ultimately show "\<exists>p. p \<noteq> [] \<and> r = int (length p) \<and> length p + 8 \<le> n \<and> take (length p + 8) d = frame_of p"
    using eq(1,4) r by (intro exI [of _ "take l (drop 6 d)"]) auto
qed

theorem frame_accept_iff_witness:
  "\<exists>d n r. (\<exists>m. check_frame d (of_nat n) = Inr (r, m)) \<and> 0 < r \<and>
     (\<exists>p. p \<noteq> [] \<and> r = int (length p) \<and> length p + 8 \<le> n \<and> take (length p + 8) d = frame_of p)"
proof -
  let ?d = "[0xfb, 0xfc, 2, 0, 0, 0, 7, 8, 15, 0x0d, 99] :: byte list"
  have "take (length [7, 8 :: byte] + 8) ?d = frame_of [7, 8]" by (simp add: frame_of_def le32_def)
  then have "\<exists>p. p \<noteq> [] \<and> (2::int) = int (length p) \<and> length p + 8 \<le> 11 \<and> take (length p + 8) ?d = frame_of p"
    by (intro exI [of _ "[7, 8]"]) simp
  with frame_accept_iff [of 11 ?d 2] show ?thesis by fastforce
qed

text \<open>C5: what \<open>DealTail\<close> builds from a reply that packs to at least one byte and fits the
  buffers is the frame of the packed values: a receiver that applies \<open>CheckRecvdata\<close> to it, whatever else its buffer holds, finds a complete
  frame of exactly that payload.\<close>

theorem frame_roundtrip:
  assumes "reply_fits e toks o'" "payload e toks \<noteq> []" "length rest < 2 ^ 30"
  shows "\<exists>f. tail_frame e (sbuf_bytes e toks) = Inr f \<and>
    check_frame (f @ rest) (of_nat (length f)) =
      Inr (int (length (payload e toks)), of_nat (length (payload e toks))) \<and>
    take (length (payload e toks)) (drop 6 (f @ rest)) = payload e toks"
proof -
  let ?p = "payload e toks"
  have t: "take (length ?p + 8) (frame_of ?p @ rest) = frame_of ?p" by simp
  have "length ?p + 8 < 2 ^ 31"
    using assms(1) by (simp add: reply_fits_def PDATA_SIZE_def Let_def)
  then have "check_frame (frame_of ?p @ rest) (of_nat (length ?p + 8)) =
      Inr (int (length ?p), of_nat (length ?p))"
    using check_frame_frame [OF _ _ _ t, of "length ?p + 8"] by (simp del: of_nat_add)
  with tail_frame_reply [OF assms(1)] take_frame_payload [OF t] show ?thesis by simp
qed

theorem frame_roundtrip_witness:
  "\<exists>f. tail_frame ext0 (sbuf_bytes ext0 [TArr 1, TStr ''ok'']) = Inr f \<and>
    check_frame (f @ [1, 2]) (of_nat (length f)) =
      Inr (int (length (payload ext0 [TArr 1, TStr ''ok''])),
           of_nat (length (payload ext0 [TArr 1, TStr ''ok'']))) \<and>
    take (length (payload ext0 [TArr 1, TStr ''ok''])) (drop 6 (f @ [1, 2])) =
      payload ext0 [TArr 1, TStr ''ok'']"
proof (rule frame_roundtrip)
  show "reply_fits ext0 [TArr 1, TStr ''ok''] (zero_buf 100)"
    by (simp add: reply_fits_def payload_def ext0_def zero_buf_def PDATA_SIZE_def bytes_of_def)
qed (simp_all add: payload_def ext0_def)

text \<open>A request that arrives in pieces is never rejected: as long as the bytes
  received are a proper prefix of a frame, \<open>CheckRecvdata\<close> asks for more and keeps the count of
  the bytes it has.\<close>

theorem frame_partial:
  assumes "n < length (frame_of p)" "n \<le> length d" "length p < 2 ^ 30"
    and "take n d = take n (frame_of p)"
  shows "check_frame d (of_nat n) = Inr (0, of_nat n)"
  using check_frame_partial assms by simp

theorem frame_partial_witness:
  "check_frame ([0xfb, 0xfc, 2, 0, 0, 0, 7] @ replicate 9 0) (of_nat 7) = Inr (0, of_nat 7)"
  by (rule frame_partial [of 7 "[7, 8]"]) (simp_all add: frame_of_def le32_def)

text \<open>A frame with one byte changed outside its length field (in the start mark,
  the payload, the checksum or the end mark) is rejected.\<close>

theorem frame_corrupt:
  assumes i: "i < length (frame_of p)" "i \<notin> {2, 3, 4, 5}" and x: "x \<noteq> frame_of p ! i"
    and len: "length p < 2 ^ 29" "length rest < 2 ^ 29"
  shows "check_frame ((frame_of p)[i := x] @ rest) (of_nat (length (frame_of p))) =
    Inr (-1, of_nat (length (frame_of p)))"
proof -
  let ?n = "length p + 8"
  define d where "d = (frame_of p)[i := x] @ rest"
  have n: "6 \<le> ?n" "?n \<le> length d" "?n < 2 ^ 31" "length d < 2 ^ 31"
    using len by (simp_all add: d_def)
  have nth: "d ! j = (if j = i then x else frame_of p ! j)" if "j < ?n" for j
    using that i by (simp add: d_def nth_append nth_list_update)
  show ?thesis
  proof (cases "i < 2")
    case True
    then have "d ! 0 \<noteq> 0xfb \<or> d ! 1 \<noteq> 0xfc"
      using nth [of 0] nth [of 1] x frame_of_nth(1,2) [of p] by (auto simp: less_2_cases_iff)
    moreover have "byte_at d 0 = Some (d ! 0)" "byte_at d 1 = Some (d ! 1)"
      using n by (simp_all add: byte_at_def) auto
    moreover have "\<not> (of_nat ?n :: 32 word) < 6"
      using n by (simp add: word_less_nat_alt unat_of_nat del: of_nat_add)
    ultimately show ?thesis by (auto simp: check_frame_def d_def)
  next
    case False
    with i have i6: "6 \<le> i" by auto
    have hd: "d ! 0 = 0xfb" "d ! 1 = 0xfc"
      using nth [of 0] nth [of 1] i6 frame_of_nth(1,2) [of p] by auto
    have pre: "take 6 d = take 6 (frame_of p)" using i6 by (simp add: d_def)
    have L: "un_le32 (drop 2 d) = of_nat (length p)"
      by (rule frame_prefix_facts [OF pre]) (use n in simp_all)
    have l: "length p = unat (un_le32 (drop 2 d))" unfolding L using n by (simp add: unat_of_nat)
    have pl: "take (length p) (drop 6 d) = (if i < 6 + length p then p[i - 6 := x] else p)"
    proof -
      have "drop 6 d = (drop 6 (frame_of p))[i - 6 := x] @ rest"
        using i6 by (simp add: d_def drop_update_swap)
      then show ?thesis using i6 by (auto simp: frame_of_nth list_update_append)
    qed
    have "d ! (6 + length p) \<noteq> sum_list (take (length p) (drop 6 d)) \<or> d ! (length p + 7) \<noteq> 0x0d"
    proof (cases "i < 6 + length p")
      case True
      then have il: "i - 6 < length p" using i6 by linarith
      then have "x \<noteq> p ! (i - 6)"
        using x i6 nth_drop [of 6 "frame_of p" "i - 6"] by (simp add: frame_of_nth nth_append)
      then have "sum_list (p[i - 6 := x]) \<noteq> sum_list p"
        using word_sum_list_update [OF il, of x] by simp
      then show ?thesis using True nth [of "6 + length p"] by (simp add: pl frame_of_nth)
    next
      case False
      then have "i = 6 + length p \<or> i = length p + 7" using i by auto
      then show ?thesis using nth [of "6 + length p"] nth [of "length p + 7"] x False
        by (auto simp: pl frame_of_nth)
    qed
    then show ?thesis using check_frame_main [OF n(1,2,3) hd l] n by (auto simp: d_def)
  qed
qed

theorem frame_corrupt_witness:
  "check_frame ((frame_of [7, 8])[7 := 9] @ []) (of_nat (length (frame_of [7, 8]))) =
    Inr (-1, of_nat (length (frame_of [7, 8])))"
  by (rule frame_corrupt) (simp_all add: frame_of_def le32_def)

text \<open>C38: in a buffer of its size \<open>CheckRecvdata\<close> reads outside the buffer
  exactly for a start mark followed by one of the two length fields \<open>fffffff8\<close> and \<open>fffffff9\<close>:
  the sum of the length and 8 wraps to at most the number of bytes received, and the checksum is
  looked up before the data.\<close>

theorem frame_undefined_iff:
  assumes "n \<le> length d" "length d < 2 ^ 31"
  shows "check_frame d (of_nat n) = Inl Undefined \<longleftrightarrow>
    6 \<le> n \<and> d ! 0 = 0xfb \<and> d ! 1 = 0xfc \<and> un_le32 (drop 2 d) \<in> {0xFFFFFFF8, 0xFFFFFFF9}"
proof (cases "6 \<le> n \<and> d ! 0 = 0xfb \<and> d ! 1 = 0xfc")
  case True
  then have h: "6 \<le> n" "d ! 0 = 0xfb" "d ! 1 = 0xfc" by auto
  show ?thesis
  proof (cases "unat (un_le32 (drop 2 d)) + 8 < 2 ^ 32")
    case True
    then have "un_le32 (drop 2 d) \<notin> {0xFFFFFFF8, 0xFFFFFFF9}" by auto
    moreover have "check_frame d (of_nat n) \<noteq> Inl Undefined"
      using check_frame_main [OF h(1) assms(1) _ h(2,3) refl True] assms by simp
    ultimately show ?thesis by blast
  next
    case False
    then show ?thesis using check_frame_wrap [OF h(1) assms h(2,3)] h by simp
  qed
next
  case False
  have un: "unat (of_nat n :: 32 word) = n" using assms by (simp add: unat_of_nat)
  have "check_frame d (of_nat n) \<noteq> Inl Undefined"
  proof (cases "n < 6")
    case True
    then show ?thesis by (simp add: check_frame_short)
  next
    case n6: False
    then have "byte_at d 0 = Some (d ! 0)" "byte_at d (Suc 0) = Some (d ! 1)"
      using assms by (auto simp: byte_at_def)
    moreover have "\<not> (of_nat n :: 32 word) < 6" using n6 un by (simp add: word_less_nat_alt)
    ultimately show ?thesis using False n6 by (auto simp: check_frame_def)
  qed
  then show ?thesis using False by blast
qed

theorem frame_undefined_iff_witness:
  "check_frame ([0xfb, 0xfc, 0xf8, 0xff, 0xff, 0xff, 0, 0] :: byte list) (of_nat 8) = Inl Undefined"
  by (subst frame_undefined_iff) simp_all

text \<open>A well-formed frame without payload is not answered: the check asks for
  more bytes and at once forgets the ones it has, so the next bytes received overwrite it.\<close>

theorem frame_empty_lost:
  assumes "8 \<le> n" "n \<le> length d" "n < 2 ^ 31" "take 8 d = frame_of []"
  shows "check_frame d (of_nat n) = Inr (0, 0)"
  using check_frame_frame [of "[]" n d] assms by simp

theorem frame_empty_lost_witness:
  "check_frame ([0xfb, 0xfc, 0, 0, 0, 0, 0, 0x0d] :: byte list) (of_nat 8) = Inr (0, 0)"
  by (rule frame_empty_lost) (simp_all add: frame_of_def le32_def)

text \<open>C29: when the reply fits the buffers and the system accepts the
  send, \<open>DealTail\<close> posts exactly one send, of the frame of the packed
  values from position \<open>dwSendedCount\<close> on: the whole frame when the count is zero, and a frame
  without its head when an earlier transfer left the count positive.\<close>

theorem DealTail_reply:
  assumes "bufs w b = Some o'" "pRelatedSObj o' = Some c" "socks w c = Some s"
    and "reply_fits e toks o'" "unat (dwSendedCount o') \<le> length (payload e toks) + 8"
    and "os_send e (tick w)"
  shows "\<exists>w'. DealTail e toks b w = (Inr (), w') \<and>
    pending w' = pending w @
      [(b, KSock c, IoSend (drop (unat (dwSendedCount o')) (frame_of (payload e toks))))] \<and>
    vctBObj w' = vctBObj w \<and> vctSObj w' = vctSObj w"
  using DealTail_posts [OF assms] by blast

theorem DealTail_reply_witness:
  "\<exists>w'. DealTail ext0 [TArr 1, TInt 5] 0 (conn0 (replicate 64 0)) = (Inr (), w') \<and>
    pending w' = pending (conn0 (replicate 64 0)) @
      [(0, KSock 1, IoSend (drop (unat (0 :: 32 word)) (frame_of (payload ext0 [TArr 1, TInt 5]))))] \<and>
    vctBObj w' = vctBObj (conn0 (replicate 64 0)) \<and> vctSObj w' = vctSObj (conn0 (replicate 64 0))"
proof -
  let ?o = "(zero_buf 0)\<lparr>pRelatedSObj := Some 1, datalen := 64, bdata := replicate 64 0\<rparr>"
  have "dwSendedCount ?o = 0" by (simp add: zero_buf_def)
  moreover have "reply_fits ext0 [TArr 1, TInt 5] ?o"
    by (simp add: reply_fits_def payload_def ext0_def PDATA_SIZE_def)
  moreover have "bufs (conn0 (replicate 64 0)) 0 = Some ?o" "pRelatedSObj ?o = Some 1"
    "socks (conn0 (replicate 64 0)) 1 = Some (zero_sobj\<lparr>sock := Some 7, pRelatedBObj := Some 0\<rparr>)"
    "os_send ext0 (tick (conn0 (replicate 64 0)))"
    by (simp_all add: conn0_def ext0_def)
  ultimately show ?thesis
    using DealTail_reply [of "conn0 (replicate 64 0)" 0 ?o 1 _ ext0 "[TArr 1, TInt 5]"] by simp
qed

end
