(* ===== verification/Ownership.thy ===== *)
theory Ownership
  imports DealHeadTail
begin

text \<open>
  Who owns a connection object. At every moment an allocated buffer or socket object is in the
  object pool, belongs to exactly one outstanding request, or is in the hands of the handler
  that runs: \<open>winv B S\<close>, with \<open>B\<close> and \<open>S\<close> what handlers hold. The rules of this theory reduce the
  claim that a handler disposes of its connection exactly once to the structure of the handler:
  a \<open>quiet\<close> prefix works on the handler's own buffer, a tail call \<open>settles\<close> the connection.
\<close>

section \<open>The invariant\<close>

fun api_comp :: "comp \<Rightarrow> bool" where
  "api_comp API_ConnectComp = True"
| "api_comp API_SendComp = True"
| "api_comp API_RecvZeroComp = True"
| "api_comp API_RecvComp = True"
| "api_comp _ = False"

fun accept_comp :: "comp \<Rightarrow> bool" where
  "accept_comp AcceptComp = True"
| "accept_comp NC_AcceptComp = True"
| "accept_comp _ = False"

text \<open>The completion function of a buffer fits the key of its request.\<close>

definition key_ok :: "world \<Rightarrow> comp \<Rightarrow> nat \<Rightarrow> ckey \<Rightarrow> bool" where
  "key_ok w f c k \<longleftrightarrow> (case k of
      KListen l \<Rightarrow> accept_comp f \<and> lobjs w l \<noteq> None
    | KSock a \<Rightarrow> \<not> accept_comp f \<and> (api_comp f \<longleftrightarrow> a \<noteq> c))"

fun pend_ok :: "world \<Rightarrow> nat \<times> ckey \<times> io_req \<Rightarrow> bool" where
  "pend_ok w (b, k, r) = (case bufs w b of
      None \<Rightarrow> False
    | Some o' \<Rightarrow> (case (pRelatedSObj o', pfnSuccess o') of
          (Some c, Some f) \<Rightarrow> pfnFailed o' = Some f \<and> key_ok w f c k
        | _ \<Rightarrow> False))"

fun key_socks :: "ckey \<Rightarrow> nat set" where
  "key_socks (KListen l) = {}"
| "key_socks (KSock a) = {a}"

definition buf_sock :: "world \<Rightarrow> nat \<Rightarrow> nat set" where
  "buf_sock w b = (case bufs w b of None \<Rightarrow> {} | Some o' \<Rightarrow> set_option (pRelatedSObj o'))"

fun pend_socks :: "world \<Rightarrow> nat \<times> ckey \<times> io_req \<Rightarrow> nat set" where
  "pend_socks w (b, k, r) = buf_sock w b \<union> key_socks k"

text \<open>Pairwise disjoint sets.\<close>

fun disjoint_list :: "'a set list \<Rightarrow> bool" where
  "disjoint_list [] = True"
| "disjoint_list (X # Xs) \<longleftrightarrow> X \<inter> \<Union>(set Xs) = {} \<and> disjoint_list Xs"

lemma disjoint_list_append [simp]:
  "disjoint_list (Xs @ Ys) \<longleftrightarrow> disjoint_list Xs \<and> disjoint_list Ys \<and> \<Union>(set Xs) \<inter> \<Union>(set Ys) = {}"
  by (induction Xs) auto

text \<open>
  The objects: \<open>PB\<close> and \<open>PS\<close> are the buffers and the sockets of the outstanding requests, \<open>VB\<close>
  and \<open>VS\<close> the pools, \<open>DB\<close> and \<open>DS\<close> what is allocated, \<open>n\<close> the next address.
\<close>

definition parts :: "nat set \<Rightarrow> nat set \<Rightarrow> nat list \<Rightarrow> nat set list \<Rightarrow> nat list \<Rightarrow> nat list \<Rightarrow>
    nat set \<Rightarrow> nat set \<Rightarrow> nat \<Rightarrow> bool" where
  "parts B S PB PS VB VS DB DS n \<longleftrightarrow>
     distinct (PB @ VB) \<and> B \<inter> set (PB @ VB) = {} \<and> DB = B \<union> set (PB @ VB) \<and>
     distinct VS \<and> disjoint_list PS \<and> S \<inter> (\<Union>(set PS) \<union> set VS) = {} \<and> \<Union>(set PS) \<inter> set VS = {} \<and>
     DS = S \<union> \<Union>(set PS) \<union> set VS \<and> length VB \<le> MAX_POOL \<and> length VS \<le> MAX_POOL \<and>
     (\<forall>x \<in> DB \<union> DS. x < n)"

definition winv :: "nat set \<Rightarrow> nat set \<Rightarrow> world \<Rightarrow> bool" where
  "winv B S w \<longleftrightarrow>
     parts B S (map fst (pending w)) (map (pend_socks w) (pending w)) (vctBObj w) (vctSObj w)
       (dom (bufs w)) (dom (socks w)) (nextObj w) \<and>
     (\<forall>p \<in> set (pending w). pend_ok w p)"

lemma parts_free_sock:
  "parts B (insert c S) PB PS VB VS DB DS n \<Longrightarrow> c \<notin> S \<Longrightarrow> length VS < MAX_POOL \<Longrightarrow>
     parts B S PB PS VB (VS @ [c]) DB DS n"
  by (auto simp: parts_def)

lemma parts_drop_sock:
  "parts B (insert c S) PB PS VB VS DB DS n \<Longrightarrow> c \<notin> S \<Longrightarrow> parts B S PB PS VB VS DB (DS - {c}) n"
  by (auto simp: parts_def)

lemma parts_free_buf:
  "parts (insert b B) S PB PS VB VS DB DS n \<Longrightarrow> b \<notin> B \<Longrightarrow> length VB < MAX_POOL \<Longrightarrow>
     parts B S PB PS (VB @ [b]) VS DB DS n"
  by (auto simp: parts_def)

lemma parts_drop_buf:
  "parts (insert b B) S PB PS VB VS DB DS n \<Longrightarrow> b \<notin> B \<Longrightarrow> parts B S PB PS VB VS (DB - {b}) DS n"
  by (auto simp: parts_def)

lemma parts_post:
  "parts (insert b B) (X \<union> S) PB PS VB VS DB DS n \<Longrightarrow> b \<notin> B \<Longrightarrow> X \<inter> S = {} \<Longrightarrow>
     parts B S (PB @ [b]) (PS @ [X]) VB VS DB DS n"
  by (auto simp: parts_def)

lemma parts_unpost:
  "parts B S (PB @ b # PB') (PS @ X # PS') VB VS DB DS n \<Longrightarrow>
     b \<notin> B \<and> X \<inter> S = {} \<and> parts (insert b B) (X \<union> S) (PB @ PB') (PS @ PS') VB VS DB DS n"
  by (auto simp: parts_def)

lemma parts_pop_sock:
  "parts B S PB PS VB (VS @ [c]) DB DS n \<Longrightarrow> c \<notin> S \<and> parts B (insert c S) PB PS VB VS DB DS n"
  by (auto simp: parts_def)

lemma parts_new_sock:
  "parts B S PB PS VB VS DB DS n \<Longrightarrow> n \<notin> S \<and> parts B (insert n S) PB PS VB VS DB (insert n DS) (Suc n)"
  by (auto simp: parts_def less_Suc_eq)

lemma parts_pop_buf:
  "parts B S PB PS (VB @ [b]) VS DB DS n \<Longrightarrow> b \<notin> B \<and> parts (insert b B) S PB PS VB VS DB DS n"
  by (auto simp: parts_def)

lemma parts_new_buf:
  "parts B S PB PS VB VS DB DS n \<Longrightarrow> n \<notin> B \<and> parts (insert n B) S PB PS VB VS (insert n DB) DS (Suc n)"
  by (auto simp: parts_def less_Suc_eq)

lemma parts_held:
  "parts B S PB PS VB VS DB DS n \<Longrightarrow> b \<in> B \<Longrightarrow> b \<notin> set PB \<and> b \<notin> set VB \<and> b \<in> DB"
  by (auto simp: parts_def)

lemma parts_held_sock:
  "parts B S PB PS VB VS DB DS n \<Longrightarrow> c \<in> S \<Longrightarrow> c \<notin> \<Union>(set PS) \<and> c \<notin> set VS \<and> c \<in> DS"
  by (auto simp: parts_def)

text \<open>A handler holds the buffer \<open>b\<close> of the connection \<open>c\<close>; other holders have \<open>B\<close> and \<open>S\<close>.\<close>

definition own :: "nat \<Rightarrow> nat \<Rightarrow> nat set \<Rightarrow> nat set \<Rightarrow> world \<Rightarrow> bool" where
  "own b c B S w \<longleftrightarrow> winv (insert b B) (insert c S) w \<and> b \<notin> B \<and> c \<notin> S \<and>
     (\<exists>o'. bufs w b = Some o' \<and> pRelatedSObj o' = Some c)"

section \<open>Operations that leave ownership alone\<close>

text \<open>What a quiet operation on the buffer \<open>b\<close> may change.\<close>

definition qrel :: "nat \<Rightarrow> world \<Rightarrow> world \<Rightarrow> bool" where
  "qrel b w w' \<longleftrightarrow> socks w' = socks w \<and> vctBObj w' = vctBObj w \<and> vctSObj w' = vctSObj w \<and>
     pending w' = pending w \<and> lobjs w' = lobjs w \<and> nextObj w' = nextObj w \<and> ConnMap w' = ConnMap w \<and>
     (\<forall>b'. b' \<noteq> b \<longrightarrow> bufs w' b' = bufs w b') \<and>
     map_option pRelatedSObj (bufs w' b) = map_option pRelatedSObj (bufs w b)"

definition quiet :: "nat \<Rightarrow> (world, 'a) cm \<Rightarrow> bool" where
  "quiet b m \<longleftrightarrow> (\<forall>w. qrel b w (snd (m w)))"

lemma qrel_refl [simp]: "qrel b w w"
  by (simp add: qrel_def)

lemma qrel_trans: "qrel b w1 w2 \<Longrightarrow> qrel b w2 w3 \<Longrightarrow> qrel b w1 w3"
  by (auto simp: qrel_def)

lemma quietD: "quiet b m \<Longrightarrow> m w = (r, w') \<Longrightarrow> qrel b w w'"
  unfolding quiet_def by (metis snd_conv)

lemma quiet_bind [quiet_intros]:
  assumes "quiet b m" "\<And>x. quiet b (f x)"
  shows "quiet b (cbind m f)"
  unfolding quiet_def
proof
  fix w
  obtain r w1 where m: "m w = (r, w1)" by fastforce
  have q: "qrel b w w1" using quietD [OF assms(1) m] .
  show "qrel b w (snd (cbind m f w))"
  proof (cases r)
    case (Inl e)
    then show ?thesis using m q by (simp add: cbind_def)
  next
    case (Inr x)
    obtain r2 w2 where f: "f x w1 = (r2, w2)" by fastforce
    then show ?thesis using m Inr q quietD [OF assms(2) f] by (auto simp: cbind_def intro: qrel_trans)
  qed
qed

lemma quiet_ret [quiet_intros]: "quiet b (ret x)"
  and quiet_throw [quiet_intros]: "quiet b (throw f)"
  and quiet_gets [quiet_intros]: "quiet b (gets g)"
  and quiet_get_buf [quiet_intros]: "quiet b (get_buf b')"
  and quiet_get_sobj [quiet_intros]: "quiet b (get_sobj c)"
  and quiet_ext_call [quiet_intros]: "quiet b (ext_call h)"
  by (simp_all add: quiet_def get_buf_def get_sobj_def cbind_def of_opt_def qrel_def split: option.split)

lemma quiet_of_opt [quiet_intros]: "quiet b (of_opt f r)"
  by (cases r) (simp_all add: quiet_def)

lemma quiet_lift_fault [quiet_intros]: "quiet b (lift_fault r)"
  by (cases r) (simp_all add: quiet_def)

lemma quiet_if [quiet_intros]:
  "(p \<Longrightarrow> quiet b m) \<Longrightarrow> (\<not> p \<Longrightarrow> quiet b n) \<Longrightarrow> quiet b (if p then m else n)"
  by simp

lemma quiet_option [quiet_intros]:
  "(r = None \<Longrightarrow> quiet b m) \<Longrightarrow> (\<And>x. r = Some x \<Longrightarrow> quiet b (f x)) \<Longrightarrow>
     quiet b (case r of None \<Rightarrow> m | Some x \<Rightarrow> f x)"
  by (cases r) simp_all

lemma quiet_prod [quiet_intros]:
  "(\<And>x y. p = (x, y) \<Longrightarrow> quiet b (f x y)) \<Longrightarrow> quiet b (case p of (x, y) \<Rightarrow> f x y)"
  by (cases p) simp

lemma quiet_upd_buf [quiet_intros]:
  "(\<And>o'. pRelatedSObj (f o') = pRelatedSObj o') \<Longrightarrow> quiet b (upd_buf b f)"
  by (auto simp: quiet_def upd_buf_def get_buf_def cbind_def of_opt_def qrel_def split: option.split)

lemma quiet_with_ado [quiet_intros]: "quiet b (with_ado m)"
  and quiet_with_mysql [quiet_intros]: "quiet b (with_mysql m')"
  by (simp_all add: quiet_def with_ado_def with_mysql_def qrel_def split: prod.split)

lemma quiet_write_data [quiet_intros]: "quiet b (write_data b off bs)"
  unfolding write_data_def by (intro quiet_intros) simp

lemma quiet_error_info [quiet_intros]: "quiet b (error_info e b fmt args)"
  unfolding error_info_def by (intro quiet_intros)

text \<open>\<open>pend_ok\<close> and \<open>pend_socks\<close> look at the buffers of the requests and at the listen objects.\<close>

lemma pend_cong:
  assumes "bufs w' (fst p) = bufs w (fst p)" "dom (lobjs w') = dom (lobjs w)"
  shows "pend_ok w' p = pend_ok w p" and "pend_socks w' p = pend_socks w p"
proof -
  have "key_ok w' f c k = key_ok w f c k" for f c k
    using assms(2) by (auto simp: key_ok_def domIff set_eq_iff split: ckey.split)
  then show "pend_ok w' p = pend_ok w p" "pend_socks w' p = pend_socks w p"
    using assms(1) by (cases p; simp add: buf_sock_def cong: option.case_cong)+
qed

lemma winv_cong:
  assumes "pending w' = pending w" "dom (lobjs w') = dom (lobjs w)"
    and "\<And>b. b \<in> fst ` set (pending w) \<Longrightarrow> bufs w' b = bufs w b"
  shows "winv B S w' \<longleftrightarrow>
     parts B S (map fst (pending w)) (map (pend_socks w) (pending w)) (vctBObj w') (vctSObj w')
       (dom (bufs w')) (dom (socks w')) (nextObj w') \<and>
     (\<forall>p \<in> set (pending w). pend_ok w p)"
proof -
  have eq: "pend_ok w' p = pend_ok w p" "pend_socks w' p = pend_socks w p"
    if "p \<in> set (pending w)" for p
    using pend_cong [of w' p w] assms(2,3) that by auto
  then have m: "map (pend_socks w') (pending w) = map (pend_socks w) (pending w)" by simp
  show ?thesis unfolding winv_def assms(1) m using eq by (simp cong: ball_cong)
qed

lemma winv_held:
  assumes "winv B S w" "b \<in> B"
  shows "b \<notin> fst ` set (pending w)" "b \<notin> set (vctBObj w)" "b \<in> dom (bufs w)"
proof -
  have "parts B S (map fst (pending w)) (map (pend_socks w) (pending w)) (vctBObj w) (vctSObj w)
      (dom (bufs w)) (dom (socks w)) (nextObj w)" using assms(1) by (simp add: winv_def)
  from parts_held [OF this assms(2)]
  show "b \<notin> fst ` set (pending w)" "b \<notin> set (vctBObj w)" "b \<in> dom (bufs w)" by simp_all
qed

lemma qrel_dom: "qrel b w w' \<Longrightarrow> dom (bufs w') = dom (bufs w)"
proof (intro set_eqI)
  fix x assume q: "qrel b w w'"
  show "x \<in> dom (bufs w') \<longleftrightarrow> x \<in> dom (bufs w)"
  proof (cases "x = b")
    case True
    have "map_option pRelatedSObj (bufs w' b) = map_option pRelatedSObj (bufs w b)"
      using q by (simp add: qrel_def)
    then show ?thesis using True by (metis domIff option.map_disc_iff)
  next
    case False
    then show ?thesis using q by (simp add: qrel_def domIff)
  qed
qed

lemma qrel_winv:
  assumes q: "qrel b w w'" and inv: "winv B S w" and b: "b \<in> B"
  shows "winv B S w'"
proof -
  have "bufs w' x = bufs w x" if "x \<in> fst ` set (pending w)" for x
    using q winv_held(1) [OF inv b] that by (auto simp: qrel_def)
  then have "winv B S w' \<longleftrightarrow> winv B S w"
    using winv_cong [of w' w] q qrel_dom [OF q] by (simp add: qrel_def winv_def [of B S w])
  then show ?thesis using inv by simp
qed

lemma qrel_own: "qrel b w w' \<Longrightarrow> own b c B S w \<Longrightarrow> own b c B S w'"
proof -
  assume q: "qrel b w w'" and o: "own b c B S w"
  then obtain o' where o': "bufs w b = Some o'" "pRelatedSObj o' = Some c" by (auto simp: own_def)
  have "map_option pRelatedSObj (bufs w' b) = Some (Some c)"
    using q o' by (simp add: qrel_def)
  then show ?thesis using o qrel_winv [OF q] by (auto simp: own_def)
qed

lemma quiet_own: "quiet b m \<Longrightarrow> hoare (own b c B S) m (\<lambda>_. own b c B S) (\<lambda>_. own b c B S)"
  by (rule hoareI) (auto dest: quietD intro: qrel_own)

section \<open>The operations that move ownership\<close>

text \<open>
  A C++ exception leaves the connection with the handler, for the \<open>catch\<close> clauses to answer. The other
  faults end the thread or the process; nothing is claimed of the state they leave.
\<close>

definition exn :: "(world \<Rightarrow> bool) \<Rightarrow> fault \<Rightarrow> world \<Rightarrow> bool" where
  "exn P f w \<longleftrightarrow> is_exception f \<longrightarrow> P w"

lemma exnI: "P w \<Longrightarrow> exn P f w"
  by (simp add: exn_def)

definition settles :: "nat \<Rightarrow> (world, 'a) cm \<Rightarrow> bool" where
  "settles b m \<longleftrightarrow> (\<forall>c B S. hoare (own b c B S) m (\<lambda>_. winv B S) (exn (own b c B S)))"

lemma settlesD: "settles b m \<Longrightarrow> hoare (own b c B S) m (\<lambda>_. winv B S) (exn (own b c B S))"
  by (simp add: settles_def)

lemma settlesI:
  assumes "\<And>c B S. hoare (own b c B S) m (\<lambda>_. winv B S) (\<lambda>_. own b c B S)"
  shows "settles b m"
  unfolding settles_def using assms by (blast intro: hoare_post exnI)

lemma quiet_exn: "quiet b m \<Longrightarrow> hoare (own b c B S) m (\<lambda>_. own b c B S) (exn (own b c B S))"
  by (rule hoare_post [OF quiet_own]) (auto intro: exnI)

text \<open>
  \<open>leaves\<close>: a handler that may return without having disposed of its connection, which then
  stays allocated for ever.
\<close>

definition leaves :: "nat \<Rightarrow> (world, 'a) cm \<Rightarrow> bool" where
  "leaves b m \<longleftrightarrow> (\<forall>c B S. hoare (own b c B S) m (\<lambda>_ w. winv B S w \<or> own b c B S w) (exn (own b c B S)))"

text \<open>What follows a tail call: it cannot fail and touches no connection object.\<close>

definition epilogue :: "(world, 'a) cm \<Rightarrow> bool" where
  "epilogue m \<longleftrightarrow> (\<forall>B S. hoare (winv B S) m (\<lambda>_. winv B S) no_fault)"

definition cthen :: "(world, 'a) cm \<Rightarrow> (world, 'b) cm \<Rightarrow> (world, 'b) cm" where
  "cthen m k = cbind m (\<lambda>_. k)"

lemma epilogue_ret [settles_intros]: "epilogue (ret x)"
  by (simp add: epilogue_def hoare_def)

lemma settles_bind [settles_intros]:
  "quiet b m \<Longrightarrow> (\<And>x. settles b (f x)) \<Longrightarrow> settles b (cbind m f)"
  unfolding settles_def by (auto intro: hoare_bind [OF quiet_exn])

lemma settles_cthen [settles_intros]:
  assumes "settles b m" "epilogue k" shows "settles b (cthen m k)"
  unfolding settles_def cthen_def
proof (intro allI)
  fix c B S
  have "hoare (own b c B S) m (\<lambda>_. winv B S) (exn (own b c B S))"
    using assms(1) by (simp add: settles_def)
  moreover have "hoare (winv B S) k (\<lambda>_. winv B S) (exn (own b c B S))"
    using assms(2) by (auto simp: epilogue_def intro: hoare_post)
  ultimately show "hoare (own b c B S) (cbind m (\<lambda>_. k)) (\<lambda>_. winv B S) (exn (own b c B S))"
    by (rule hoare_bind)
qed

lemma settles_if [settles_intros]:
  "(p \<Longrightarrow> settles b m) \<Longrightarrow> (\<not> p \<Longrightarrow> settles b n) \<Longrightarrow> settles b (if p then m else n)"
  by simp

lemma settles_option [settles_intros]:
  "(r = None \<Longrightarrow> settles b m) \<Longrightarrow> (\<And>x. r = Some x \<Longrightarrow> settles b (f x)) \<Longrightarrow>
     settles b (case r of None \<Rightarrow> m | Some x \<Rightarrow> f x)"
  by (cases r) simp_all

lemma settles_prod [settles_intros]:
  "(\<And>x y. p = (x, y) \<Longrightarrow> settles b (f x y)) \<Longrightarrow> settles b (case p of (x, y) \<Rightarrow> f x y)"
  by (cases p) simp

lemma settles_throw [settles_intros]: "settles b (throw f)"
  by (simp add: settles_def hoare_def exn_def)

lemma leaves_settles: "settles b m \<Longrightarrow> leaves b m"
  by (fastforce simp: settles_def leaves_def intro: hoare_post)

lemma leaves_bind: "quiet b m \<Longrightarrow> (\<And>x. leaves b (f x)) \<Longrightarrow> leaves b (cbind m f)"
  unfolding leaves_def by (auto intro: hoare_bind [OF quiet_exn])

lemma leaves_quiet: "quiet b m \<Longrightarrow> leaves b m"
  unfolding leaves_def by (auto intro: hoare_post [OF quiet_exn])

lemma leaves_prod:
  "(\<And>x y. p = (x, y) \<Longrightarrow> leaves b (f x y)) \<Longrightarrow> leaves b (case p of (x, y) \<Rightarrow> f x y)"
  by (cases p) simp

lemma leaves_if: "(p \<Longrightarrow> leaves b m) \<Longrightarrow> (\<not> p \<Longrightarrow> leaves b n) \<Longrightarrow> leaves b (if p then m else n)"
  by simp

lemma winv_same:
  assumes "pending w' = pending w" "vctBObj w' = vctBObj w" "vctSObj w' = vctSObj w"
    and "bufs w' = bufs w" "dom (socks w') = dom (socks w)" "nextObj w' = nextObj w"
    and "dom (lobjs w') = dom (lobjs w)"
  shows "winv B S w' = winv B S w"
  using winv_cong [of w' w B S] assms by (simp add: winv_def [of B S w])

lemma upd_sobj_winv: "hoare (winv B S) (upd_sobj c f) (\<lambda>_. winv B S) (\<lambda>_. winv B S)"
proof (rule hoareI)
  fix w x w' assume w: "winv B S w" "upd_sobj c f w = (Inr x, w')"
  then obtain s where s: "socks w c = Some s" "w' = w\<lparr>socks := (socks w)(c \<mapsto> f s)\<rparr>"
    by (auto simp: upd_sobj_def get_sobj_def cbind_def of_opt_def split: option.splits)
  have "winv B S w' = winv B S w" by (rule winv_same) (use s in auto)
  then show "winv B S w'" using w by simp
next
  fix w e w' assume w: "winv B S w" "upd_sobj c f w = (Inl e, w')"
  then show "winv B S w'"
    by (auto simp: upd_sobj_def get_sobj_def cbind_def of_opt_def split: option.splits)
qed

lemma own_keep:
  assumes m: "\<And>B S. hoare (winv B S) m (\<lambda>_. winv B S) (\<lambda>_. winv B S)"
    and bufs: "\<And>w r w'. m w = (r, w') \<Longrightarrow> bufs w' = bufs w"
  shows "hoare (own b c B S) m (\<lambda>_. own b c B S) (\<lambda>_. own b c B S)"
proof (rule hoareI)
  fix w x w' assume o: "own b c B S w" and r: "m w = (Inr x, w')"
  then have "winv (insert b B) (insert c S) w" by (simp add: own_def)
  from hoareD_Inr [OF m this r] bufs [OF r] o show "own b c B S w'" by (simp add: own_def)
next
  fix w x w' assume o: "own b c B S w" and r: "m w = (Inl x, w')"
  then have "winv (insert b B) (insert c S) w" by (simp add: own_def)
  from hoareD_Inl [OF m this r] bufs [OF r] o show "own b c B S w'" by (simp add: own_def)
qed

lemma upd_sobj_bufs: "upd_sobj x f w = (r, w') \<Longrightarrow> bufs w' = bufs w"
  by (auto simp: upd_sobj_def get_sobj_def cbind_def of_opt_def split: option.splits)

lemma upd_sobj_own: "hoare (own b c B S) (upd_sobj x f) (\<lambda>_. own b c B S) (\<lambda>_. own b c B S)"
  by (rule own_keep [OF upd_sobj_winv upd_sobj_bufs])

lemma freeSObj_winv:
  assumes c: "c \<notin> S"
  shows "hoare (winv B (insert c S)) (freeSObj c) (\<lambda>_. winv B S) E"
  unfolding freeSObj_def
proof (rule hoare_modify)
  fix w assume inv: "winv B (insert c S) w"
  let ?w' = "if length (vctSObj w) < MAX_POOL then w\<lparr>vctSObj := vctSObj w @ [c]\<rparr>
        else w\<lparr>socks := (socks w)(c := None)\<rparr>"
  have cong: "winv B S ?w' \<longleftrightarrow>
     parts B S (map fst (pending w)) (map (pend_socks w) (pending w)) (vctBObj ?w') (vctSObj ?w')
       (dom (bufs ?w')) (dom (socks ?w')) (nextObj ?w') \<and>
     (\<forall>p \<in> set (pending w). pend_ok w p)"
    by (rule winv_cong) simp_all
  have p: "parts B (insert c S) (map fst (pending w)) (map (pend_socks w) (pending w)) (vctBObj w)
      (vctSObj w) (dom (bufs w)) (dom (socks w)) (nextObj w)" "\<forall>p \<in> set (pending w). pend_ok w p"
    using inv by (simp_all add: winv_def)
  show "winv B S ?w'" unfolding cong
    using parts_free_sock [OF p(1) c] parts_drop_sock [OF p(1) c] p(2)
    by (cases "length (vctSObj w) < MAX_POOL") simp_all
qed

lemma parts_of: "winv B S w \<Longrightarrow> parts B S (map fst (pending w)) (map (pend_socks w) (pending w))
    (vctBObj w) (vctSObj w) (dom (bufs w)) (dom (socks w)) (nextObj w)"
  by (simp add: winv_def)

lemma pend_ok_of: "winv B S w \<Longrightarrow> \<forall>p \<in> set (pending w). pend_ok w p"
  by (simp add: winv_def)

lemma free_buf_winv:
  assumes b: "b \<notin> B"
  shows "hoare (winv (insert b B) S) (modify (\<lambda>w. if length (vctBObj w) < MAX_POOL
      then w\<lparr>vctBObj := vctBObj w @ [b]\<rparr> else w\<lparr>bufs := (bufs w)(b := None)\<rparr>)) (\<lambda>_. winv B S) E"
proof (rule hoare_modify)
  fix w assume inv: "winv (insert b B) S w"
  let ?w' = "if length (vctBObj w) < MAX_POOL then w\<lparr>vctBObj := vctBObj w @ [b]\<rparr>
        else w\<lparr>bufs := (bufs w)(b := None)\<rparr>"
  have nb: "b \<notin> fst ` set (pending w)" using winv_held(1) [OF inv] by simp
  have cong: "winv B S ?w' \<longleftrightarrow>
     parts B S (map fst (pending w)) (map (pend_socks w) (pending w)) (vctBObj ?w') (vctSObj ?w')
       (dom (bufs ?w')) (dom (socks ?w')) (nextObj ?w') \<and>
     (\<forall>p \<in> set (pending w). pend_ok w p)"
    by (rule winv_cong) (use nb in auto)
  show "winv B S ?w'" unfolding cong
    using parts_free_buf [OF parts_of [OF inv] b] parts_drop_buf [OF parts_of [OF inv] b]
      pend_ok_of [OF inv]
    by (cases "length (vctBObj w) < MAX_POOL") simp_all
qed

lemma quiet_winv: "quiet b m \<Longrightarrow> b \<in> B \<Longrightarrow> hoare (winv B S) m (\<lambda>_. winv B S) (\<lambda>_. winv B S)"
  by (rule hoareI) (auto dest: quietD intro: qrel_winv)

lemma no_error:
  "hoare P m Q E \<Longrightarrow> (\<And>w. P w \<Longrightarrow> \<exists>x w'. m w = (Inr x, w')) \<Longrightarrow> hoare P m Q E'"
  by (fastforce simp: hoare_def split: prod.splits sum.splits)

lemma upd_held:
  assumes "b \<in> B" "\<And>o'. pRelatedSObj (f o') = pRelatedSObj o'"
  shows "hoare (winv B S) (upd_buf b f) (\<lambda>_. winv B S) E"
proof (rule no_error [OF quiet_winv [OF quiet_upd_buf [OF assms(2)] assms(1)]])
  fix w assume "winv B S w"
  then have "b \<in> dom (bufs w)" by (rule winv_held(3) [OF _ assms(1)])
  then show "\<exists>x w'. upd_buf b f w = (Inr x, w')" by auto
qed

lemma freeBObj_winv:
  assumes "b \<notin> B" shows "hoare (winv (insert b B) S) (freeBObj b) (\<lambda>_. winv B S) E"
  unfolding freeBObj_def
  by (rule hoare_bind [OF upd_held], simp, simp add: buf_ReleaseRecorder_def,
      rule hoare_bind [OF upd_held], simp, simp add: ReleaseRes_def,
      rule free_buf_winv [OF assms])

lemma upd_sobj_held:
  assumes "c \<in> S" shows "hoare (winv B S) (upd_sobj c f) (\<lambda>_. winv B S) E"
proof (rule no_error [OF upd_sobj_winv])
  fix w assume "winv B S w"
  then have "c \<in> dom (socks w)" using parts_held_sock [OF parts_of assms] by blast
  then show "\<exists>x w'. upd_sobj c f w = (Inr x, w')" by auto
qed

lemma CSCloseSocket_held: "c \<in> S \<Longrightarrow> hoare (winv B S) (CSCloseSocket c) (\<lambda>_. winv B S) E"
  unfolding CSCloseSocket_def by (rule upd_sobj_held)

lemma close_and_free_winv:
  assumes "b \<notin> B" "c \<notin> S"
  shows "hoare (winv (insert b B) (insert c S)) (close_and_free c b) (\<lambda>_. winv B S) E"
  unfolding close_and_free_def
  by (rule hoare_bind [OF CSCloseSocket_held], simp, rule hoare_bind [OF freeSObj_winv [OF assms(2)]],
      rule freeBObj_winv [OF assms(1)])

section \<open>Posting\<close>

text \<open>
  The buffer \<open>b\<close> of the connection \<open>c\<close> with the completion function \<open>f\<close>, about to be posted on
  the socket \<open>a\<close>: the connection's own, or for a call of the remote API another one.
\<close>

definition ready :: "nat \<Rightarrow> nat \<Rightarrow> comp \<Rightarrow> nat \<Rightarrow> nat set \<Rightarrow> nat set \<Rightarrow> world \<Rightarrow> bool" where
  "ready b c f a B S w \<longleftrightarrow> winv (insert b B) ({c, a} \<union> S) w \<and> b \<notin> B \<and> c \<notin> S \<and> a \<notin> S \<and>
     (\<exists>o'. bufs w b = Some o' \<and> pRelatedSObj o' = Some c \<and> pfnSuccess o' = Some f \<and> pfnFailed o' = Some f)"

lemma ready_own: "ready b c f c B S w \<Longrightarrow> own b c B S w"
  by (auto simp: ready_def own_def)

lemma post_winv:
  assumes "\<not> accept_comp f" "api_comp f \<longleftrightarrow> a \<noteq> c"
  shows "hoare (ready b c f a B S) (post b (KSock a) r) (\<lambda>_. winv B S) E"
  unfolding post_def
proof (rule hoare_modify)
  fix w assume rd: "ready b c f a B S w"
  then obtain o' where o': "bufs w b = Some o'" "pRelatedSObj o' = Some c" "pfnSuccess o' = Some f"
      "pfnFailed o' = Some f" and inv: "winv (insert b B) ({c, a} \<union> S) w"
      and b: "b \<notin> B" "{c, a} \<inter> S = {}"
    by (auto simp: ready_def)
  let ?p = "(b, KSock a, r)" and ?w' = "w\<lparr>pending := pending w @ [(b, KSock a, r)]\<rparr>"
  have same: "pend_ok ?w' p = pend_ok w p" "pend_socks ?w' p = pend_socks w p" for p
    by (rule pend_cong; simp)+
  have X: "pend_socks w ?p = {c, a}" using o' by (auto simp: buf_sock_def)
  have ok: "pend_ok w ?p" using o' assms by (simp add: key_ok_def)
  show "winv B S ?w'"
    using parts_post [OF parts_of [OF inv] b] pend_ok_of [OF inv] X ok
    by (simp add: winv_def same del: pend_socks.simps pend_ok.simps cong: map_cong)
qed

lemma ready_upd_buf:
  assumes "\<And>o'. pRelatedSObj (g o') = pRelatedSObj o'" "\<And>o'. pfnSuccess (g o') = pfnSuccess o'"
    "\<And>o'. pfnFailed (g o') = pfnFailed o'"
  shows "hoare (ready b c f a B S) (upd_buf b g) (\<lambda>_. ready b c f a B S) E"
proof -
  have held: "hoare (winv (insert b B) X) (upd_buf b g) (\<lambda>_. winv (insert b B) X) E" for X
    by (rule upd_held) (simp_all add: assms(1))
  show ?thesis
  proof (rule no_error, rule hoareI)
    fix w x w' assume rd: "ready b c f a B S w" and r: "upd_buf b g w = (Inr x, w')"
    then obtain o' where o': "bufs w b = Some o'" by (auto simp: ready_def)
    then have w': "w' = w\<lparr>bufs := (bufs w)(b \<mapsto> g o')\<rparr>" using r by simp
    have "winv (insert b B) ({c, a} \<union> S) w'"
      using hoareD_Inr [OF held _ r] rd by (simp add: ready_def)
    then show "ready b c f a B S w'" using rd o' w' assms by (auto simp: ready_def)
  next
    fix w assume "ready b c f a B S w"
    then show "\<exists>x w'. upd_buf b g w = (Inr x, w')" by (auto simp: ready_def)
  qed (auto simp: ready_def)
qed

lemma ready_ext_call: "hoare (ready b c f a B S) (ext_call h) (\<lambda>_. ready b c f a B S) E"
proof -
  have "winv B' S' (w\<lparr>tick := n\<rparr>) = winv B' S' w" for B' S' w n by (rule winv_same) simp_all
  then show ?thesis by (simp add: hoare_def ready_def)
qed

lemma ready_get_buf: "hoare (ready b c f a B S) (get_buf x) (\<lambda>_. ready b c f a B S) (\<lambda>_. ready b c f a B S)"
  and ready_get_sobj: "hoare (ready b c f a B S) (get_sobj y) (\<lambda>_. ready b c f a B S) (\<lambda>_. ready b c f a B S)"
  by (auto simp: hoare_def get_buf_def get_sobj_def cbind_def of_opt_def split: option.splits)

lemma post_or_not:
  assumes "\<not> accept_comp f" "api_comp f \<longleftrightarrow> a \<noteq> c"
  shows "hoare (ready b c f a B S) (cbind (post b (KSock a) r) (\<lambda>_. ret True))
     (\<lambda>ok w. if ok then winv B S w else ready b c f a B S w) (\<lambda>_. ready b c f a B S)"
  by (rule hoare_bind [OF post_winv [OF assms]], rule hoare_ret, simp)

lemma PostZeroRecv_ready:
  assumes "\<not> accept_comp f" "api_comp f \<longleftrightarrow> a \<noteq> c"
  shows "hoare (ready b c f a B S) (PostZeroRecv e a b)
     (\<lambda>ok w. if ok then winv B S w else ready b c f a B S w) (\<lambda>_. ready b c f a B S)"
  unfolding PostZeroRecv_def
  by (intro hoare_bind [OF ready_upd_buf] hoare_bind [OF ready_get_sobj]
      hoare_bind [OF ready_ext_call] hoare_if post_or_not [OF assms] hoare_ret) simp_all

lemma PostRecv_ready:
  assumes "\<not> accept_comp f" "api_comp f \<longleftrightarrow> a \<noteq> c"
  shows "hoare (ready b c f a B S) (PostRecv e a b)
     (\<lambda>ok w. if ok then winv B S w else ready b c f a B S w) (\<lambda>_. ready b c f a B S)"
  unfolding PostRecv_def
  by (intro hoare_bind [OF ready_upd_buf] hoare_bind [OF ready_get_buf] hoare_bind [OF ready_get_sobj]
      hoare_bind [OF ready_ext_call] hoare_if post_or_not [OF assms] hoare_ret) simp_all

lemma PostSend_ready:
  assumes "\<not> accept_comp f" "api_comp f \<longleftrightarrow> a \<noteq> c"
  shows "hoare (ready b c f a B S) (PostSend e a b)
     (\<lambda>ok w. if ok then winv B S w else ready b c f a B S w) (\<lambda>_. ready b c f a B S)"
  unfolding PostSend_def Let_def
  by (intro hoare_bind [OF ready_upd_buf] hoare_bind [OF ready_get_buf] hoare_bind [OF ready_get_sobj]
      hoare_bind [OF ready_ext_call] hoare_if post_or_not [OF assms] hoare_ret hoare_throw) simp_all

lemma own_set_fn:
  "hoare (own b c B S) (upd_buf b (SetIoRequestFunction f)) (\<lambda>_. ready b c f c B S) E"
proof -
  have held: "hoare (winv (insert b B) X) (upd_buf b (SetIoRequestFunction f)) (\<lambda>_. winv (insert b B) X) E" for X
    by (rule upd_held) (simp_all add: SetIoRequestFunction_def)
  show ?thesis
  proof (rule no_error, rule hoareI)
    fix w x w' assume o: "own b c B S w" and r: "upd_buf b (SetIoRequestFunction f) w = (Inr x, w')"
    then obtain o' where o': "bufs w b = Some o'" "pRelatedSObj o' = Some c" by (auto simp: own_def)
    then have w': "w' = w\<lparr>bufs := (bufs w)(b \<mapsto> SetIoRequestFunction f o')\<rparr>" using r by simp
    have "winv (insert b B) (insert c S) w'"
      using hoareD_Inr [OF held _ r] o by (simp add: own_def)
    then show "ready b c f c B S w'" using o o' w' by (auto simp: ready_def own_def SetIoRequestFunction_def)
  next
    fix w assume "own b c B S w"
    then show "\<exists>x w'. upd_buf b (SetIoRequestFunction f) w = (Inr x, w')" by (auto simp: own_def)
  qed (auto simp: own_def)
qed

text \<open>Post with the completion function \<open>f\<close>, and release the connection when that fails.\<close>

lemma own_close_and_free:
  "hoare (own b c B S) (close_and_free c b) (\<lambda>_. winv B S) E"
proof (cases "b \<in> B \<or> c \<in> S")
  case True
  then show ?thesis by (auto simp: hoare_def own_def)
next
  case False
  then show ?thesis
    by (intro hoare_pre [OF close_and_free_winv]) (simp_all add: own_def)
qed

lemma post_or_release:
  assumes "\<And>B S. hoare (ready b c f c B S) m
     (\<lambda>ok w. if ok then winv B S w else ready b c f c B S w) (\<lambda>_. ready b c f c B S)"
    and k: "\<And>B S. hoare (winv B S) k (\<lambda>_. winv B S) no_fault"
    and k': "\<And>B S. hoare (own b c B S) k' (\<lambda>_. winv B S) (\<lambda>_. own b c B S)"
  shows "hoare (own b c B S) (cbind (upd_buf b (SetIoRequestFunction f)) (\<lambda>_. cbind m (\<lambda>ok.
     if \<not> ok then k' else k))) (\<lambda>_. winv B S) (\<lambda>_. own b c B S)"
proof (rule hoare_bind [OF own_set_fn], rule hoare_bind)
  show "hoare (ready b c f c B S) m (\<lambda>ok w. if ok then winv B S w else ready b c f c B S w)
      (\<lambda>_. own b c B S)"
    by (rule hoare_post [OF assms(1)]) (simp_all add: ready_own)
  fix ok :: bool
  show "hoare (\<lambda>w. if ok then winv B S w else ready b c f c B S w) (if \<not> ok then k' else k)
      (\<lambda>_. winv B S) (\<lambda>_. own b c B S)"
  proof (cases ok)
    case True
    then show ?thesis using k [of B S] by (auto intro: hoare_post)
  next
    case False
    then show ?thesis using k' [of B S] by (auto intro: hoare_pre ready_own)
  qed
qed

section \<open>The replies settle\<close>

lemma own_related: "hoare (own b c B S) (related_sobj b) (\<lambda>x w. x = c \<and> own b c B S w) E"
  by (auto simp: hoare_def related_sobj_def own_def cbind_def)

lemma ready_related: "hoare (ready b c f a B S) (related_sobj b) (\<lambda>x w. x = c \<and> ready b c f a B S w) E"
  by (auto simp: hoare_def related_sobj_def ready_def cbind_def)

lemma hoare_eq: "(\<And>s. P s \<Longrightarrow> x = y) \<Longrightarrow> hoare P (m y) Q E \<Longrightarrow> hoare P (m x) Q E"
  by (auto simp: hoare_def)

lemma settles_DealTail_sbuf [settles_intros]: "settles b (DealTail_sbuf e sb b)"
proof (rule settlesI)
  fix c B S
  have tail: "hoare (ready b c SendComp c B S) (cbind (related_sobj b) (\<lambda>c. cbind (PostSend e c b)
      (\<lambda>ok. if \<not> ok then close_and_free c b else ret ()))) (\<lambda>_. winv B S) (\<lambda>_. own b c B S)"
  proof (rule hoare_bind [OF ready_related])
    fix x
    have "hoare (ready b c SendComp c B S) (PostSend e c b)
        (\<lambda>ok w. if ok then winv B S w else own b c B S w) (\<lambda>_. own b c B S)"
      by (rule hoare_post [OF PostSend_ready]) (auto intro: ready_own)
    moreover have "hoare (\<lambda>w. if ok then winv B S w else own b c B S w)
        (if \<not> ok then close_and_free c b else ret ()) (\<lambda>_. winv B S) (\<lambda>_. own b c B S)" for ok
      by (cases ok) (simp_all add: own_close_and_free hoare_ret)
    ultimately have "hoare (ready b c SendComp c B S) (cbind (PostSend e c b)
        (\<lambda>ok. if \<not> ok then close_and_free c b else ret ())) (\<lambda>_. winv B S) (\<lambda>_. own b c B S)"
      by (rule hoare_bind)
    then show "hoare (\<lambda>w. x = c \<and> ready b c SendComp c B S w) (cbind (PostSend e x b)
        (\<lambda>ok. if \<not> ok then close_and_free x b else ret ())) (\<lambda>_. winv B S) (\<lambda>_. own b c B S)"
      by (auto simp: hoare_def)
  qed
  show "hoare (own b c B S) (DealTail_sbuf e sb b) (\<lambda>_. winv B S) (\<lambda>_. own b c B S)"
    unfolding DealTail_sbuf_def
    by (intro hoare_bind [OF quiet_own] quiet_intros hoare_bind [OF own_set_fn] tail) simp_all
qed

lemma settles_DealTail [settles_intros]: "settles b (DealTail e toks b)"
  unfolding DealTail_def by (rule settles_DealTail_sbuf)

lemma settles_ErrorInfo [settles_intros]: "settles b (ErrorInfo e toks b nTag)"
  unfolding ErrorInfo_def cthen_def [symmetric]
  by (intro settles_intros quiet_intros)

lemma quiet_InitMsgpack [quiet_intros]: "quiet b (InitMsgpack e b nPage nTag)"
  unfolding InitMsgpack_def by (intro quiet_intros) simp

lemma quiet_InitMsgpack_ado [quiet_intros]: "quiet b (InitMsgpack_ado e b nPage nTag)"
  unfolding InitMsgpack_ado_def by (intro quiet_intros) simp

section \<open>Taking objects from the pools\<close>

lemma take_SObj_winv:
  "hoare (winv B S) (take_SObj e) (\<lambda>r w. case r of None \<Rightarrow> winv B S w
     | Some c \<Rightarrow> c \<notin> S \<and> winv B (insert c S) w) no_fault"
proof (rule hoareI)
  fix w r w' assume inv: "winv B S w" and t: "take_SObj e w = (Inr r, w')"
  note p = parts_of [OF inv]
  show "case r of None \<Rightarrow> winv B S w' | Some c \<Rightarrow> c \<notin> S \<and> winv B (insert c S) w'"
  proof (cases "vctSObj w = []")
    case False
    then obtain V c where V: "vctSObj w = V @ [c]" by (metis rev_exhaust)
    have w': "r = Some c" "w' = w\<lparr>vctSObj := V\<rparr>" using t V by (auto simp: take_SObj_def)
    have "winv B (insert c S) w' \<longleftrightarrow> parts B (insert c S) (map fst (pending w)) (map (pend_socks w) (pending w))
       (vctBObj w) V (dom (bufs w)) (dom (socks w)) (nextObj w) \<and> (\<forall>p \<in> set (pending w). pend_ok w p)"
      using winv_cong [of w' w B "insert c S"] w' by simp
    then show ?thesis using parts_pop_sock [OF p[unfolded V]] pend_ok_of [OF inv] w'(1) by simp
  next
    case True
    show ?thesis
    proof (cases "heap_ok e (tick w)")
      case False
      then have "r = None" "w' = w\<lparr>tick := Suc (tick w)\<rparr>" using t True by (auto simp: take_SObj_def cbind_def)
      moreover have "winv B S (w\<lparr>tick := Suc (tick w)\<rparr>) = winv B S w" by (rule winv_same) simp_all
      ultimately show ?thesis using inv by simp
    next
      case ok: True
      let ?n = "nextObj w"
      have w': "r = Some ?n" "w' = w\<lparr>tick := Suc (tick w), socks := (socks w)(?n \<mapsto> zero_sobj), nextObj := Suc ?n\<rparr>"
        using t True ok by (auto simp: take_SObj_def cbind_def)
      have "winv B (insert ?n S) w' \<longleftrightarrow> parts B (insert ?n S) (map fst (pending w)) (map (pend_socks w) (pending w))
         (vctBObj w) (vctSObj w) (dom (bufs w)) (insert ?n (dom (socks w))) (Suc ?n) \<and>
         (\<forall>p \<in> set (pending w). pend_ok w p)"
        using winv_cong [of w' w B "insert ?n S"] w' by simp
      then show ?thesis using parts_new_sock [OF p] pend_ok_of [OF inv] w'(1) by simp
    qed
  qed
qed (auto simp: take_SObj_def cbind_def split: if_splits)

lemma allocSObj_winv:
  "hoare (winv B S) (allocSObj e) (\<lambda>r w. case r of None \<Rightarrow> winv B S w
     | Some c \<Rightarrow> c \<notin> S \<and> winv B (insert c S) w) no_fault"
  unfolding allocSObj_def
proof (rule hoare_bind [OF take_SObj_winv], rule hoare_option)
  fix r :: "nat option" and c assume r: "r = Some c"
  have "hoare (winv B (insert c S)) (upd_sobj c sobj_init) (\<lambda>_. winv B (insert c S)) no_fault"
    by (rule upd_sobj_held) simp
  then show "hoare (\<lambda>w. case r of None \<Rightarrow> winv B S w | Some c \<Rightarrow> c \<notin> S \<and> winv B (insert c S) w)
     (cbind (upd_sobj c sobj_init) (\<lambda>_. ret (Some c)))
     (\<lambda>r w. case r of None \<Rightarrow> winv B S w | Some c \<Rightarrow> c \<notin> S \<and> winv B (insert c S) w) no_fault"
    unfolding r by (cases "c \<in> S") (auto simp: hoare_def cbind_def split: prod.splits sum.splits)
qed (auto intro: hoare_ret)

end
