(* ===== verification/DataParser.thy ===== *)
theory DataParser
  imports Ownership
begin

text \<open>
  \<open>doDataParser.cpp\<close>: one row of a query result as packer calls. A field is read through its
  column name (ADO) or its position (MySQL).
\<close>

section \<open>Fields\<close>

definition date_text :: "ext \<Rightarrow> 64 word \<Rightarrow> bool \<Rightarrow> fault + string" where
  "date_text e d bDateTime =
     (let st = var_time e d in
      if bDateTime then
        stprintf_s (fmt_double e) 32 ''%04d-%02d-%02d %02d:%02d:%02d''
          [FD (int (wYear st)), FD (int (wMonth st)), FD (int (wDay st)), FD (int (wHour st)),
           FD (int (wMinute st)), FD (int (wSecond st))]
      else
        stprintf_s (fmt_double e) 32 ''%04d-%02d-%02d''
          [FD (int (wYear st)), FD (int (wMonth st)), FD (int (wDay st))])"

text \<open>
  \<open>PackCollectDate\<close>: the union member the code reads for each type tag. \<open>lVal\<close> and \<open>ulVal\<close> are
  the low 32 bits of a 64-bit value.
\<close>

fun PackCollectDate :: "ext \<Rightarrow> bool \<Rightarrow> variant \<Rightarrow> fault + tok list" where
  "PackCollectDate e dt (VT_BSTR s) = Inr [TStr (c_str s)]"
| "PackCollectDate e dt (VT_LPSTR s) = Inr [TStr (c_str s)]"
| "PackCollectDate e dt (VT_LPWSTR s) = Inr [TStr (c_str s)]"
| "PackCollectDate e dt (VT_I1 x) = Inr [TInt (uint x)]"
| "PackCollectDate e dt (VT_UI1 x) = Inr [TInt (uint x)]"
| "PackCollectDate e dt (VT_I2 x) = Inr [TInt (sint x)]"
| "PackCollectDate e dt (VT_UI2 x) = Inr [TInt (uint x)]"
| "PackCollectDate e dt (VT_INT x) = Inr [TInt (sint x)]"
| "PackCollectDate e dt (VT_I4 x) = Inr [TInt (sint x)]"
| "PackCollectDate e dt (VT_I8 x) = Inr [TInt (sint (ucast x :: 32 word))]"
| "PackCollectDate e dt (VT_UINT x) = Inr [TInt (uint x)]"
| "PackCollectDate e dt (VT_UI4 x) = Inr [TInt (uint x)]"
| "PackCollectDate e dt (VT_UI8 x) = Inr [TInt (uint (ucast x :: 32 word))]"
| "PackCollectDate e dt (VT_R4 d) = Inr [TDouble d]"
| "PackCollectDate e dt (VT_R8 d) = Inr [TDouble d]"
| "PackCollectDate e dt (VT_DATE d) = (case date_text e d dt of Inl f \<Rightarrow> Inl f | Inr s \<Rightarrow> Inr [TStr s])"
| "PackCollectDate e dt (VT_BOOL x) = Inr [TInt (sint x)]"
| "PackCollectDate e dt (VT_DECIMAL sign lo) =
     Inr [TInt (sint (ucast (if sign = 128 then - lo else lo) :: 32 word))]"
| "PackCollectDate e dt VT_NULL = Inr [TStr '''']"
| "PackCollectDate e dt VT_EMPTY = Inr [TStr '''']"
| "PackCollectDate e dt VT_UNKNOWN = Inr [TStr '''']"
| "PackCollectDate e dt (VT_OTHER t) = Inr []"

text \<open>\<open>var = pRecorder->GetCollect(name); PackCollectDate(_msgpack, var, dt)\<close> for each column.\<close>

fun pack_fields :: "ext \<Rightarrow> nat \<Rightarrow> (string \<times> bool) list \<Rightarrow> fault + tok list" where
  "pack_fields e h [] = Inr []"
| "pack_fields e h ((name, dt) # fs) = (case ado_get e h name of
     None \<Rightarrow> Inl ComError
   | Some v \<Rightarrow> (case PackCollectDate e dt v of
       Inl f \<Rightarrow> Inl f
     | Inr ts \<Rightarrow> (case pack_fields e h fs of
         Inl f \<Rightarrow> Inl f
       | Inr us \<Rightarrow> Inr (ts @ us))))"

definition pack_row :: "ext \<Rightarrow> int \<Rightarrow> tok list \<Rightarrow> (string \<times> bool) list \<Rightarrow> nat \<Rightarrow> fault + tok list" where
  "pack_row e n pre fs h = (case pack_fields e h fs of
     Inl f \<Rightarrow> Inl f
   | Inr ts \<Rightarrow> Inr (pack_array n # pre @ ts))"

section \<open>Rows of a record set\<close>

definition ParserUserData :: "ext \<Rightarrow> nat \<Rightarrow> fault + tok list" where
  "ParserUserData e = pack_row e 6 []
     [(''id'', True), (''username'', True), (''password'', True), (''authority'', True),
      (''dj'', True), (''xgsj'', True)]"

definition ParserSimData :: "ext \<Rightarrow> nat \<Rightarrow> fault + tok list" where
  "ParserSimData e = pack_row e 16 []
     [(''id'', True), (''jrhm'', True), (''iccid'', True), (''dxzh'', True), (''khmc'', True),
      (''jlxm'', True), (''zt'', True), (''llchm'', True), (''llclx'', True), (''dj'', True),
      (''xsrq'', False), (''jhrq'', False), (''xfrq'', False), (''dqrq'', False),
      (''zxrq'', False), (''bz'', True)]"

definition ParserKhData :: "ext \<Rightarrow> nat \<Rightarrow> fault + tok list" where
  "ParserKhData e = pack_row e 6 []
     [(''id'', True), (''khmc'', True), (''lxfs'', True), (''jlxm'', True), (''xgsj'', True),
      (''bz'', True)]"

definition ParserKhjlData :: "ext \<Rightarrow> nat \<Rightarrow> fault + tok list" where
  "ParserKhjlData e = pack_row e 5 []
     [(''id'', True), (''jlxm'', True), (''lxfs'', True), (''xgsj'', True), (''bz'', True)]"

definition ParserXsrqData :: "ext \<Rightarrow> nat \<Rightarrow> fault + tok list" where
  "ParserXsrqData e = pack_row e 2 [] [(''xsrq'', False), (''num'', True)]"

definition ParserDxzhData :: "ext \<Rightarrow> nat \<Rightarrow> fault + tok list" where
  "ParserDxzhData e = pack_row e 7 []
     [(''id'', True), (''dxzh'', True), (''userid'', True), (''pwd'', True), (''skey'', True),
      (''xgsj'', True), (''bz'', True)]"

definition ParserLlcData :: "ext \<Rightarrow> nat \<Rightarrow> fault + tok list" where
  "ParserLlcData e = pack_row e 6 []
     [(''id'', True), (''llchm'', True), (''llclx'', True), (''dxzh'', True), (''xgsj'', True),
      (''bz'', True)]"

definition ParserLltcData :: "ext \<Rightarrow> nat \<Rightarrow> fault + tok list" where
  "ParserLltcData e = pack_row e 4 []
     [(''id'', True), (''tcmc'', True), (''tcfl'', True), (''xgsj'', True)]"

definition ParserSsdqData :: "ext \<Rightarrow> nat \<Rightarrow> fault + tok list" where
  "ParserSsdqData e = pack_row e 3 [] [(''id'', True), (''ssdq'', True), (''xgsj'', True)]"

definition ParserKhSimCount :: "ext \<Rightarrow> string \<Rightarrow> nat \<Rightarrow> fault + tok list" where
  "ParserKhSimCount e strKhmc = pack_row e 9 [TStr strKhmc]
     [(''jlxm'', True), (''lxfs'', True), (''sim_total'', True), (''sim_using'', True),
      (''use_1m'', True), (''use_15d'', True), (''due_1m'', True), (''due_15d'', True)]"

section \<open>Rows of a MySQL result\<close>

text \<open>
  \<open>row[i]\<close> as a C string: a row that is null, a position outside the row and an SQL null are
  null or wild pointers, and every use the parsers make of them is undefined.
\<close>

definition row_str :: "string option list option \<Rightarrow> nat \<Rightarrow> fault + string" where
  "row_str row i = (case row of
     None \<Rightarrow> Inl Undefined
   | Some cells \<Rightarrow> if i < length cells
       then (case cells ! i of None \<Rightarrow> Inl Undefined | Some s \<Rightarrow> Inr (c_str s)) else Inl Undefined)"

definition sum_bind :: "fault + 'a \<Rightarrow> ('a \<Rightarrow> fault + 'b) \<Rightarrow> fault + 'b" where
  "sum_bind r f = (case r of Inl x \<Rightarrow> Inl x | Inr x \<Rightarrow> f x)"

lemma sum_bind_simps [simp]: "sum_bind (Inl x) f = Inl x" "sum_bind (Inr y) f = f y"
  by (simp_all add: sum_bind_def)

definition ParserUser :: "ext \<Rightarrow> string option list option \<Rightarrow> fault + tok list" where
  "ParserUser e row =
     sum_bind (row_str row 0) (\<lambda>s0. sum_bind (c_scan_u s0 0) (\<lambda>nId.
     sum_bind (row_str row 1) (\<lambda>s1. sum_bind (row_str row 2) (\<lambda>s2.
     sum_bind (row_str row 3) (\<lambda>s3. sum_bind (c_atoi s3) (\<lambda>n3.
     sum_bind (row_str row 4) (\<lambda>s4. sum_bind (c_atoi s4) (\<lambda>n4.
     sum_bind (row_str row 5) (\<lambda>s5. sum_bind (c_scan_u s5 0) (\<lambda>n5.
     sum_bind (row_str row 6) (\<lambda>s6. sum_bind (row_str row 7) (\<lambda>s7.
     Inr [pack_array 8, TInt (int nId), TStr s1, TStr s2, TInt n3, TInt n4, TInt (int n5),
          TDouble (c_atof e s6), TStr s7]))))))))))))"

text \<open>\<open>ParserKh\<close> announces 8 values and packs 11: \<open>nTemp\<close> is packed again after each reset.\<close>

definition ParserKh :: "ext \<Rightarrow> string option list option \<Rightarrow> fault + tok list" where
  "ParserKh e row =
     sum_bind (row_str row 0) (\<lambda>s0. sum_bind (c_scan_u s0 0) (\<lambda>nId.
     sum_bind (row_str row 1) (\<lambda>s1.
     sum_bind (row_str row 2) (\<lambda>s2. sum_bind (c_scan_u s2 0) (\<lambda>n2.
     sum_bind (row_str row 3) (\<lambda>s3. sum_bind (c_atoi s3) (\<lambda>n3.
     sum_bind (row_str row 4) (\<lambda>s4. sum_bind (c_scan_u s4 0) (\<lambda>n4.
     sum_bind (row_str row 5) (\<lambda>s5. sum_bind (row_str row 6) (\<lambda>s6.
     sum_bind (row_str row 7) (\<lambda>s7. sum_bind (row_str row 8) (\<lambda>s8.
     Inr [pack_array 8, TInt (int nId), TStr s1, TInt (int n2), TInt 0, TInt n3, TInt (int n4),
          TInt 0, TStr s5, TDouble (c_atof e s6), TStr s7, TStr s8])))))))))))))"

section \<open>Rows are well-formed values\<close>

fun packable :: "variant \<Rightarrow> bool" where
  "packable (VT_OTHER t) = False"
| "packable _ = True"

lemma PackCollectDate_value: "packable v \<Longrightarrow> PackCollectDate e dt v = Inr ts \<Longrightarrow> nvalues 1 ts"
  by (cases v) (auto split: sum.splits)

lemma pack_fields_values:
  assumes "\<And>n d v. (n, d) \<in> set fs \<Longrightarrow> ado_get e h n = Some v \<Longrightarrow> packable v"
    and "pack_fields e h fs = Inr ts"
  shows "nvalues (length fs) ts"
  using assms
proof (induction fs arbitrary: ts)
  case (Cons f fs)
  obtain n d where f: "f = (n, d)" by (cases f)
  obtain v t u where v: "ado_get e h n = Some v" "PackCollectDate e d v = Inr t"
      "pack_fields e h fs = Inr u" "ts = t @ u"
    using Cons.prems(2) f by (auto split: option.splits sum.splits)
  have "nvalues 1 t" using PackCollectDate_value [OF _ v(2)] Cons.prems(1) f v(1) by auto
  moreover have "nvalues (length fs) u" using Cons.IH Cons.prems(1) v(3) by auto
  ultimately have "nvalues (1 + length fs) (t @ u)" by (rule values_append)
  then show ?case using v(4) by simp
qed simp

text \<open>The columns of a record set whose types the packer knows.\<close>

definition rec_packable :: "ext \<Rightarrow> nat \<Rightarrow> bool" where
  "rec_packable e h \<longleftrightarrow> (\<forall>n v. ado_get e h n = Some v \<longrightarrow> packable v)"

lemma pack_row_value:
  assumes p: "rec_packable e h" and r: "pack_row e n pre fs h = Inr ts"
    and pre: "nvalues (length pre) pre" and n: "n = int (length pre + length fs)" "n < 2 ^ 32"
  shows "nvalues 1 ts"
proof -
  obtain us where us: "pack_fields e h fs = Inr us" "ts = pack_array n # pre @ us"
    using r by (auto simp: pack_row_def split: sum.splits)
  have "nvalues (length fs) us"
    using pack_fields_values [OF _ us(1)] p by (auto simp: rec_packable_def)
  then have "nvalues (length pre + length fs) (pre @ us)" using pre by (intro values_append)
  moreover have "pack_array n = TArr (length pre + length fs)"
    using n by simp
  ultimately show ?thesis using us(2) values_array by metis
qed

named_theorems row_values \<open>the record-set parsers pack one value\<close>

lemma ParserSimData_value [row_values]: "rec_packable e h \<Longrightarrow> ParserSimData e h = Inr ts \<Longrightarrow> nvalues 1 ts"
  unfolding ParserSimData_def by (rule pack_row_value, assumption, assumption, simp_all add: nvalues_def)

lemma ParserKhData_value [row_values]: "rec_packable e h \<Longrightarrow> ParserKhData e h = Inr ts \<Longrightarrow> nvalues 1 ts"
  unfolding ParserKhData_def by (rule pack_row_value, assumption, assumption, simp_all add: nvalues_def)

lemma ParserKhjlData_value [row_values]: "rec_packable e h \<Longrightarrow> ParserKhjlData e h = Inr ts \<Longrightarrow> nvalues 1 ts"
  unfolding ParserKhjlData_def by (rule pack_row_value, assumption, assumption, simp_all add: nvalues_def)

lemma ParserXsrqData_value [row_values]: "rec_packable e h \<Longrightarrow> ParserXsrqData e h = Inr ts \<Longrightarrow> nvalues 1 ts"
  unfolding ParserXsrqData_def by (rule pack_row_value, assumption, assumption, simp_all add: nvalues_def)

lemma ParserDxzhData_value [row_values]: "rec_packable e h \<Longrightarrow> ParserDxzhData e h = Inr ts \<Longrightarrow> nvalues 1 ts"
  unfolding ParserDxzhData_def by (rule pack_row_value, assumption, assumption, simp_all add: nvalues_def)

lemma ParserLlcData_value [row_values]: "rec_packable e h \<Longrightarrow> ParserLlcData e h = Inr ts \<Longrightarrow> nvalues 1 ts"
  unfolding ParserLlcData_def by (rule pack_row_value, assumption, assumption, simp_all add: nvalues_def)

lemma ParserLltcData_value [row_values]: "rec_packable e h \<Longrightarrow> ParserLltcData e h = Inr ts \<Longrightarrow> nvalues 1 ts"
  unfolding ParserLltcData_def by (rule pack_row_value, assumption, assumption, simp_all add: nvalues_def)

lemma ParserSsdqData_value [row_values]: "rec_packable e h \<Longrightarrow> ParserSsdqData e h = Inr ts \<Longrightarrow> nvalues 1 ts"
  unfolding ParserSsdqData_def by (rule pack_row_value, assumption, assumption, simp_all add: nvalues_def)

lemma ParserUserData_value [row_values]: "rec_packable e h \<Longrightarrow> ParserUserData e h = Inr ts \<Longrightarrow> nvalues 1 ts"
  unfolding ParserUserData_def by (rule pack_row_value, assumption, assumption, simp_all add: nvalues_def)

lemma ParserKhSimCount_value [row_values]:
  "rec_packable e h \<Longrightarrow> ParserKhSimCount e s h = Inr ts \<Longrightarrow> nvalues 1 ts"
  unfolding ParserKhSimCount_def by (rule pack_row_value, assumption, assumption, simp_all add: nvalues_def)

lemma ParserUser_value: "ParserUser e row = Inr ts \<Longrightarrow> nvalues 1 ts"
  by (auto simp: ParserUser_def sum_bind_def nvalues_def eval_nat_numeral split: sum.splits)

text \<open>A row of \<open>ParserKh\<close> is one array of 8 followed by three values that belong to nothing.\<close>

lemma ParserKh_values: "ParserKh e row = Inr ts \<Longrightarrow> nvalues 4 ts"
  by (auto simp: ParserKh_def sum_bind_def nvalues_def eval_nat_numeral split: sum.splits)

end
