(* ===== verification/Requests.thy ===== *)
theory Requests
  imports DataParser
begin

text \<open>
  What the request handlers share: the cursor over the unpacked request, the SQL text they
  build, the queries at the level of the process, and the two loops that pack the rows of a list.
\<close>

section \<open>The request\<close>

text \<open>
  \<open>pObj\<close>, \<open>pArray\<close> and \<open>pDataObj\<close> walk the elements of an array; the model's pointer is the list of the
  elements from the one it points to. Reading past the end, and the \<open>via.array\<close> of an object that
  is no array, are undefined behaviour; a failed conversion throws \<open>msgpack::type_error\<close>.
\<close>

definition rd :: "(mobj \<Rightarrow> 'a option) \<Rightarrow> fault \<Rightarrow> mobj list \<Rightarrow> (world, 'a \<times> mobj list) cm" where
  "rd conv f ms = (case ms of
     [] \<Rightarrow> throw Undefined
   | m # r \<Rightarrow> (case conv m of None \<Rightarrow> throw f | Some x \<Rightarrow> ret (x, r)))"

definition elems :: "mobj \<Rightarrow> mobj list option" where
  "elems m = (case m of MArray xs \<Rightarrow> Some xs | _ \<Rightarrow> None)"

definition rd_array :: "mobj list \<Rightarrow> (world, mobj list \<times> mobj list) cm" where
  "rd_array = rd elems Undefined"

definition rd_int :: "ext \<Rightarrow> mobj list \<Rightarrow> (world, int \<times> mobj list) cm" where
  "rd_int e = rd (mp_int e) TypeError"

definition rd_uint :: "ext \<Rightarrow> mobj list \<Rightarrow> (world, nat \<times> mobj list) cm" where
  "rd_uint e = rd (mp_uint e) TypeError"

definition rd_double :: "ext \<Rightarrow> mobj list \<Rightarrow> (world, 64 word \<times> mobj list) cm" where
  "rd_double e = rd (mp_double e) TypeError"

definition rd_str :: "ext \<Rightarrow> mobj list \<Rightarrow> (world, string \<times> mobj list) cm" where
  "rd_str e = rd (mp_string e) TypeError"

text \<open>\<open>pArray = (pObj++)->via.array.ptr; pDataObj = (pArray++)->via.array.ptr\<close>.\<close>

definition rd_row :: "mobj list \<Rightarrow> (world, mobj list \<times> mobj list) cm" where
  "rd_row ms = (cbind (rd_array ms) (\<lambda>(arr, r).
     cbind (rd_array arr) (\<lambda>(row, x).
     ret (row, r))))"

text \<open>\<open>++pObj; bobj->nSubCmd = (pObj++)->as<int>()\<close>.\<close>

definition sub_cmd :: "ext \<Rightarrow> mobj list \<Rightarrow> nat \<Rightarrow> (world, int \<times> mobj list) cm" where
  "sub_cmd e args b = (cbind (rd_int e (drop 1 args)) (\<lambda>(n, ms).
     cbind (upd_buf b (\<lambda>o'. o'\<lparr>nSubCmd := n\<rparr>)) (\<lambda>_.
     ret (n, ms))))"

section \<open>SQL text and messages\<close>

text \<open>
  A literal is written with a grave accent for the SQL quote. Bytes that are not ASCII are the
  GBK encoding of the source files.
\<close>

definition sq :: "string \<Rightarrow> string" where
  "sq s = map (\<lambda>c. if c = CHR ''`'' then CHR 0x27 else c) s"

definition sprintf_s :: "ext \<Rightarrow> nat \<Rightarrow> string \<Rightarrow> farg list \<Rightarrow> (world, string) cm" where
  "sprintf_s e n fmt args = lift_fault (stprintf_s (fmt_double e) n fmt args)"

definition USER_ITEM :: string where
  "USER_ITEM = ''id,User,Password,Authority,Usertype,Fatherid,Dj,Xgsj''"

definition SIM_ITEM :: string where
  "SIM_ITEM = ''id,jrhm,iccid,dxzh,khmc,jlxm,zt,llchm,llclx,dj,xsrq,jhrq,xfrq,dqrq,zxrq,bz''"

definition msg_connect :: string where \<comment> \<open>the database could not be reached\<close>
  "msg_connect = ([CHR 0xC1, CHR 0xAC, CHR 0xBD, CHR 0xD3, CHR 0xCA, CHR 0xFD, CHR 0xBE, CHR 0xDD, CHR 0xBF, CHR 0xE2, CHR 0xCA, CHR 0xA7, CHR 0xB0, CHR 0xDC])"

definition msg_user_exists :: string where \<comment> \<open>the user name exists\<close>
  "msg_user_exists = ([CHR 0xD2, CHR 0xD1, CHR 0xBE, CHR 0xAD, CHR 0xB4, CHR 0xE6, CHR 0xD4, CHR 0xDA, CHR 0xB5, CHR 0xC4, CHR 0xD3, CHR 0xC3, CHR 0xBB, CHR 0xA7, CHR 0xC3, CHR 0xFB])"

definition msg_db_error :: string where \<comment> \<open>database error\<close>
  "msg_db_error = ([CHR 0xCA, CHR 0xFD, CHR 0xBE, CHR 0xDD, CHR 0xBF, CHR 0xE2, CHR 0xD2, CHR 0xEC, CHR 0xB3, CHR 0xA3] @ sq '' ErrorCode = %08x, ErrorMsg = %s'')"

definition msg_no_match :: string where \<comment> \<open>no matching data\<close>
  "msg_no_match = ([CHR 0xCE, CHR 0xB4, CHR 0xB2, CHR 0xE9, CHR 0xD1, CHR 0xAF, CHR 0xB5, CHR 0xBD, CHR 0xC6, CHR 0xA5, CHR 0xC5, CHR 0xE4, CHR 0xCA, CHR 0xFD, CHR 0xBE, CHR 0xDD])"

section \<open>Queries\<close>

definition mysql_alloc :: "ext \<Rightarrow> (world, nat option) cm" where
  "mysql_alloc e = with_mysql (Mysql_AllocConnection e)"

definition mysql_back :: "nat \<Rightarrow> (world, unit) cm" where
  "mysql_back h = with_mysql (Mysql_BackToPool h)"

text \<open>\<open>SelectFromTbl\<close>: the result set, or \<open>None\<close> after a message about the failure.\<close>

definition SelectFromTbl :: "ext \<Rightarrow> string \<Rightarrow> nat \<Rightarrow> nat \<Rightarrow> (world, nat option) cm" where
  "SelectFromTbl e sql h b = (cbind (with_mysql (mysql_real_query e h sql)) (\<lambda>ok.
     if \<not> ok then (cbind (with_mysql (mcall (my_errno e))) (\<lambda>en.
       cbind (with_mysql (mcall (my_error e))) (\<lambda>em.
       cbind (error_info e b msg_db_error [FU en, FS em]) (\<lambda>_.
       ret None))))
     else (cbind (with_mysql (mcall (my_store e))) (\<lambda>r.
       if r = None then (cbind (with_mysql (mcall (my_field_count e))) (\<lambda>n.
         if n \<noteq> 0 then (cbind (with_mysql (mcall (my_errno e))) (\<lambda>en.
           cbind (with_mysql (mcall (my_error e))) (\<lambda>em.
           cbind (error_info e b msg_db_error [FU en, FS em]) (\<lambda>_.
           ret None))))
         else (cbind (error_info e b msg_no_match []) (\<lambda>_.
           ret None))))
       else ret r))))"

text \<open>\<open>Select_From_Tbl(sql, bobj->pRecorder)\<close> and \<open>ExecuteSql(sql)\<close>.\<close>

definition ado_select :: "ext \<Rightarrow> string \<Rightarrow> nat \<Rightarrow> (world, bool) cm" where
  "ado_select e sql b = (cbind (get_buf b) (\<lambda>o1.
     cbind (with_ado (Select_From_Tbl e sql (pRecorder o1))) (\<lambda>(ok, r).
     cbind (upd_buf b (\<lambda>o'. o'\<lparr>pRecorder := r\<rparr>)) (\<lambda>_.
     ret ok))))"

definition ado_execute :: "ext \<Rightarrow> string \<Rightarrow> (world, bool) cm" where
  "ado_execute e sql = with_ado (ExecuteSql e sql)"

definition recorder :: "nat \<Rightarrow> (world, nat) cm" where
  "recorder b = (cbind (get_buf b) (\<lambda>o1.
     of_opt ComError (pRecorder o1)))"

section \<open>Replies\<close>

text \<open>The reply to a command that returns one row.\<close>

definition one_header :: "buf \<Rightarrow> tok list" where
  "one_header o' = [pack_array 4, TInt (nCmd o'), TInt (nSubCmd o'), TInt 0, pack_array 1]"

definition ado_reply_one :: "ext \<Rightarrow> (nat \<Rightarrow> fault + tok list) \<Rightarrow> nat \<Rightarrow> (world, bool) cm" where
  "ado_reply_one e parse b = (cbind (get_buf b) (\<lambda>o1.
     cbind (recorder b) (\<lambda>h.
     cbind (lift_fault (parse h)) (\<lambda>row.
     cthen (DealTail e (one_header o1 @ row) b) (
     ret True)))))"

text \<open>
  The row loop of the ADO lists, \<open>while (!bRt && nPage--)\<close>: \<open>n\<close> is \<open>nPage\<close> as an unsigned number,
  so a negative page size does not stop the loop before the end of the record set.
\<close>

fun ado_rows :: "ext \<Rightarrow> (nat \<Rightarrow> fault + tok list) \<Rightarrow> nat \<Rightarrow> nat \<Rightarrow> (world, tok list) cm" where
  "ado_rows e parse b 0 = cbind (recorder b) (\<lambda>h. ret [])"
| "ado_rows e parse b (Suc n) = cbind (recorder b) (\<lambda>h.
     if ado_eof e h then ret []
     else cbind (lift_fault (parse h)) (\<lambda>ts.
       cbind (of_opt ComError (ado_next e h)) (\<lambda>h'.
       cbind (upd_buf b (\<lambda>o'. o'\<lparr>pRecorder := Some h'\<rparr>)) (\<lambda>_.
       cbind (ado_rows e parse b n) (\<lambda>us. ret (ts @ us))))))"

definition page_count :: "int \<Rightarrow> nat" where
  "page_count nPage = nat (nPage mod 2 ^ 32)"

definition ado_list_reply :: "ext \<Rightarrow> (nat \<Rightarrow> fault + tok list) \<Rightarrow> int \<Rightarrow> int \<Rightarrow> nat \<Rightarrow> (world, bool) cm" where
  "ado_list_reply e parse nPage nTag b = (cbind (InitMsgpack_ado e b nPage nTag) (\<lambda>hd.
     cbind (ado_rows e parse b (page_count nPage)) (\<lambda>rows.
     cthen (DealTail e (hd @ rows) b) (
     ret True))))"

text \<open>The list commands run their query only when the connection has no record set yet.\<close>

definition ado_list :: "ext \<Rightarrow> (world, string) cm \<Rightarrow> (nat \<Rightarrow> fault + tok list) \<Rightarrow> int \<Rightarrow> int \<Rightarrow> nat \<Rightarrow>
    (world, bool) cm" where
  "ado_list e mk_sql parse nPage nTag b = (cbind (get_buf b) (\<lambda>o1.
     if pRecorder o1 = None then (cbind mk_sql (\<lambda>sql.
       cbind (ado_select e sql b) (\<lambda>ok.
       if \<not> ok then ErrorInfo e [] b nTag
       else (cbind (recorder b) (\<lambda>h.
         cbind (upd_buf b (\<lambda>o'. o'\<lparr>nRecSetCount := ado_count e h\<rparr>)) (\<lambda>_.
         ado_list_reply e parse nPage nTag b))))))
     else ado_list_reply e parse nPage nTag b))"

text \<open>
  The row loop of the MySQL lists, \<open>while (row)\<close>, has no bound of its own: it ends when the library
  has no further row. \<open>n\<close> is one more than the number of rows the library reports.
\<close>

fun my_rows :: "ext \<Rightarrow> (string option list option \<Rightarrow> fault + tok list) \<Rightarrow> nat \<Rightarrow> nat \<Rightarrow> (world, tok list \<times> nat) cm" where
  "my_rows e parse 0 h = throw Hang"
| "my_rows e parse (Suc n) h = (case my_fetch e h of
     (None, h') \<Rightarrow> ret ([], h')
   | (Some row, h') \<Rightarrow> cbind (lift_fault (parse (Some row))) (\<lambda>ts.
       cbind (my_rows e parse n h') (\<lambda>(us, h''). ret (ts @ us, h''))))"

definition my_list_reply :: "ext \<Rightarrow> (string option list option \<Rightarrow> fault + tok list) \<Rightarrow> int \<Rightarrow> int \<Rightarrow> nat \<Rightarrow>
    (world, tok list) cm" where
  "my_list_reply e parse nPage nTag b = (cbind (InitMsgpack e b nPage nTag) (\<lambda>hd.
     cbind (get_buf b) (\<lambda>o1.
     cbind (of_opt Undefined (bres o1)) (\<lambda>h.
     cbind (my_rows e parse (Suc (my_num_rows e h)) h) (\<lambda>(rows, h').
     cbind (upd_buf b (\<lambda>o'. o'\<lparr>bres := Some h'\<rparr>)) (\<lambda>_.
     ret (hd @ rows)))))))"

text \<open>
  The MySQL lists. The result is the reply, or \<open>None\<close> when \<open>ErrorInfo\<close> has been sent for a failed query;
  the connection is back in its pool in either case.
\<close>

definition my_list_query :: "ext \<Rightarrow> (world, string) cm \<Rightarrow> nat \<Rightarrow> (world, bool) cm" where
  "my_list_query e mk_sql b = (cbind (get_buf b) (\<lambda>o1.
     if bres o1 \<noteq> None then ret True
     else (cbind mk_sql (\<lambda>sql.
       cbind (mysql_alloc e) (\<lambda>rh.
       case rh of
         None \<Rightarrow> (cbind (error_info e b msg_connect []) (\<lambda>_. ret False))
       | Some h \<Rightarrow> (cbind (SelectFromTbl e sql h b) (\<lambda>res.
         cbind (upd_buf b (\<lambda>o'. o'\<lparr>bres := res\<rparr>)) (\<lambda>_.
         cbind (mysql_back h) (\<lambda>_.
         if res = None then ret False
         else (cbind (upd_buf b (\<lambda>o'. o'\<lparr>nRecSetCount := wrap32 (int (my_num_rows e (the res)))\<rparr>)) (\<lambda>_.
           ret True)))))))))))"

definition my_list :: "ext \<Rightarrow> (world, string) cm \<Rightarrow> (string option list option \<Rightarrow> fault + tok list) \<Rightarrow>
    int \<Rightarrow> int \<Rightarrow> nat \<Rightarrow> (world, bool) cm" where
  "my_list e mk_sql parse nPage nTag b = (cbind (my_list_query e mk_sql b) (\<lambda>ok.
     if \<not> ok then ErrorInfo e [] b nTag
     else (cbind (my_list_reply e parse nPage nTag b) (\<lambda>toks.
       cthen (DealTail e toks b) (
       ret True)))))"

section \<open>Ownership\<close>

lemma quiet_rd [quiet_intros]: "quiet b (rd conv f ms)"
  unfolding rd_def by (cases ms) (auto intro!: quiet_intros)

lemma quiet_readers [quiet_intros]:
  "quiet b (rd_array ms)" "quiet b (rd_int e ms)" "quiet b (rd_uint e ms)"
  "quiet b (rd_double e ms)" "quiet b (rd_str e ms)"
  unfolding rd_array_def rd_int_def rd_uint_def rd_double_def rd_str_def by (intro quiet_intros)+

lemma quiet_rd_row [quiet_intros]: "quiet b (rd_row ms)"
  unfolding rd_row_def by (intro quiet_intros)

lemma quiet_sub_cmd [quiet_intros]: "quiet b (sub_cmd e args b)"
  unfolding sub_cmd_def by (intro quiet_intros) simp

lemma quiet_sprintf_s [quiet_intros]: "quiet b (sprintf_s e n fmt args)"
  unfolding sprintf_s_def by (intro quiet_intros)

lemma quiet_mysql [quiet_intros]: "quiet b (mysql_alloc e)" "quiet b (mysql_back h)"
  unfolding mysql_alloc_def mysql_back_def by (intro quiet_intros)+

lemma quiet_SelectFromTbl [quiet_intros]: "quiet b (SelectFromTbl e sql h b)"
  unfolding SelectFromTbl_def by (intro quiet_intros)

lemma quiet_ado_select [quiet_intros]: "quiet b (ado_select e sql b)"
  unfolding ado_select_def by (intro quiet_intros) simp

lemma quiet_ado_execute [quiet_intros]: "quiet b (ado_execute e sql)"
  unfolding ado_execute_def by (intro quiet_intros)

lemma quiet_recorder [quiet_intros]: "quiet b (recorder b')"
  unfolding recorder_def by (intro quiet_intros)

lemma quiet_ado_rows [quiet_intros]: "quiet b (ado_rows e parse b n)"
proof (induction n)
  case 0
  show ?case by (simp, intro quiet_intros)
next
  case (Suc n)
  show ?case by (simp, intro quiet_intros Suc) simp
qed

lemma quiet_my_rows [quiet_intros]: "quiet b (my_rows e parse n h)"
proof (induction n arbitrary: h)
  case 0
  show ?case by (simp only: my_rows.simps quiet_throw)
next
  case (Suc n)
  show ?case unfolding my_rows.simps
    by (cases "my_fetch e h"; cases "fst (my_fetch e h)") (auto simp del: ret_app intro!: quiet_intros Suc)
qed

lemma settles_ado_reply_one [settles_intros]: "settles b (ado_reply_one e parse b)"
  unfolding ado_reply_one_def by (intro settles_intros quiet_intros)

lemma settles_ado_list_reply [settles_intros]: "settles b (ado_list_reply e parse nPage nTag b)"
  unfolding ado_list_reply_def by (intro settles_intros quiet_intros)

lemma settles_ado_list [settles_intros]:
  "(\<And>b. quiet b mk_sql) \<Longrightarrow> settles b (ado_list e mk_sql parse nPage nTag b)"
  unfolding ado_list_def by (intro settles_intros quiet_intros) (assumption | simp)+

lemma quiet_my_list_reply [quiet_intros]: "quiet b (my_list_reply e parse nPage nTag b)"
  unfolding my_list_reply_def by (intro quiet_intros) simp

lemma quiet_my_list_query [quiet_intros]:
  "(\<And>b. quiet b mk_sql) \<Longrightarrow> quiet b (my_list_query e mk_sql b)"
  unfolding my_list_query_def by (intro quiet_intros) (assumption | simp)+

lemma settles_my_list [settles_intros]:
  "(\<And>b. quiet b mk_sql) \<Longrightarrow> settles b (my_list e mk_sql parse nPage nTag b)"
  unfolding my_list_def by (intro settles_intros quiet_intros) (assumption | simp)+

end
