(* ===== verification/UserData.thy ===== *)
theory UserData
  imports Requests
begin

text \<open>\<open>doUserData.cpp\<close>: user accounts, kept in the MySQL table \<open>user_tbl\<close>.\<close>

text \<open>The reply with the one row of a result set, which is not looked for before it is used.\<close>

definition my_reply_one :: "ext \<Rightarrow> nat \<Rightarrow> nat \<Rightarrow> (world, bool) cm" where
  "my_reply_one e res b = (cbind (get_buf b) (\<lambda>o1.
     cbind (lift_fault (ParserUser e (fst (my_fetch e res)))) (\<lambda>row.
     cthen (DealTail e (one_header o1 @ row) b) (
     ret True))))"

definition USER_ADD :: "ext \<Rightarrow> mobj list \<Rightarrow> nat \<Rightarrow> (world, bool) cm" where
  "USER_ADD e ms b = (cbind (rd_row ms) (\<lambda>(d, r).
     cbind (rd_str e d) (\<lambda>(strUser, d).
     cbind (rd_str e d) (\<lambda>(strPassword, d).
     cbind (rd_int e d) (\<lambda>(nAuthority, d).
     cbind (rd_int e d) (\<lambda>(nUsertype, d).
     cbind (rd_uint e d) (\<lambda>(nFatherid, d).
     cbind (rd_double e d) (\<lambda>(nDj, d).
     cbind (rd_str e d) (\<lambda>(strKhmc, d).
     cbind (sprintf_s e 256 (sq ''INSERT INTO user_tbl (%s) VALUES(null,`%s`,`%s`,%d,%d,%u,%f,now())'')
       [FS USER_ITEM, FS strUser, FS strPassword, FD nAuthority, FD nUsertype, FU nFatherid, FF nDj]) (\<lambda>sql.
     cbind (mysql_alloc e) (\<lambda>rh.
     case rh of
       None \<Rightarrow> (cbind (error_info e b msg_connect []) (\<lambda>_. ErrorInfo e [] b 0))
     | Some h \<Rightarrow> (cbind (with_mysql (InsertIntoTbl e sql h)) (\<lambda>ok.
       if \<not> ok then (cbind (with_mysql (mcall (my_errno e))) (\<lambda>uError.
         cbind ((if uError = 1062 then error_info e b msg_user_exists []
          else (cbind (with_mysql (mcall (my_error e))) (\<lambda>em.
            error_info e b msg_db_error [FU uError, FS em])))) (\<lambda>_.
         cbind (mysql_back h) (\<lambda>_.
         ErrorInfo e [] b 0))))
       else (cbind (with_mysql (mcall (my_insert_id e))) (\<lambda>nIndex.
         cbind (sprintf_s e 256 (sq ''SELECT %s FROM user_tbl WHERE id=%u'')
           [FS USER_ITEM, FU (nIndex mod 2 ^ 32)]) (\<lambda>sql.
         cbind (SelectFromTbl e sql h b) (\<lambda>res.
         cbind (mysql_back h) (\<lambda>_.
         case res of
           None \<Rightarrow> ErrorInfo e [] b 0
         | Some rs \<Rightarrow> my_reply_one e rs b))))))))))))))))))"

definition USER_LOGIN :: "ext \<Rightarrow> mobj list \<Rightarrow> nat \<Rightarrow> (world, bool) cm" where
  "USER_LOGIN e ms b = (cbind (rd_row ms) (\<lambda>(d, r).
     cbind (rd_str e d) (\<lambda>(strUser, d).
     cbind (rd_str e d) (\<lambda>(strPassword, d).
     cbind (sprintf_s e 256 (sq ''SELECT %s FROM user_tbl WHERE User=`%s` AND Password=`%s`'')
       [FS USER_ITEM, FS strUser, FS strPassword]) (\<lambda>sql.
     cbind (mysql_alloc e) (\<lambda>rh.
     case rh of
       None \<Rightarrow> (cbind (error_info e b msg_connect []) (\<lambda>_. ErrorInfo e [] b 0))
     | Some h \<Rightarrow> (cbind (SelectFromTbl e sql h b) (\<lambda>res.
       cbind (mysql_back h) (\<lambda>_.
       case res of
         None \<Rightarrow> ErrorInfo e [] b 0
       | Some rs \<Rightarrow> my_reply_one e rs b)))))))))"

definition USER_LIST_sql :: "ext \<Rightarrow> int \<Rightarrow> nat \<Rightarrow> (world, string) cm" where
  "USER_LIST_sql e nUsertype nId =
     (if nUsertype = 1
      then sprintf_s e 256 (sq ''SELECT %s FROM user_tbl WHERE Fatherid=1'') [FS USER_ITEM]
      else sprintf_s e 256 (sq ''SELECT %s FROM user_tbl WHERE Fatherid=%u'') [FS USER_ITEM, FU nId])"

definition USER_LIST :: "ext \<Rightarrow> mobj list \<Rightarrow> nat \<Rightarrow> (world, bool) cm" where
  "USER_LIST e ms b = (cbind (rd_int e ms) (\<lambda>(nTag, ms).
     cbind (rd_int e ms) (\<lambda>(nPage, ms).
     cbind (rd_row ms) (\<lambda>(d, r).
     cbind (rd_uint e d) (\<lambda>(nId, d).
     cbind (rd_int e d) (\<lambda>(nUsertype, d).
     my_list e (USER_LIST_sql e nUsertype nId) (ParserUser e) nPage nTag b))))))"

definition doUserData :: "ext \<Rightarrow> mobj list \<Rightarrow> nat \<Rightarrow> (world, bool) cm" where
  "doUserData e args b = (cbind (sub_cmd e args b) (\<lambda>(cmd, ms).
     if cmd = 1 then USER_ADD e ms b
     else if cmd = 2 then USER_LOGIN e ms b
     else if cmd = 3 then USER_LIST e ms b
     else ret True))"

lemma settles_my_reply_one [settles_intros]: "settles b (my_reply_one e res b)"
  unfolding my_reply_one_def by (intro settles_intros quiet_intros)

lemma settles_user [settles_intros]:
  "settles b (USER_ADD e ms b)" "settles b (USER_LOGIN e ms b)" "settles b (USER_LIST e ms b)"
  unfolding USER_ADD_def USER_LOGIN_def USER_LIST_def USER_LIST_sql_def
  by (intro settles_intros quiet_intros; simp)+

lemma leaves_doUserData: "leaves b (doUserData e args b)"
  unfolding doUserData_def
  by (intro leaves_bind leaves_prod leaves_if leaves_settles [OF settles_user(1)]
      leaves_settles [OF settles_user(2)] leaves_settles [OF settles_user(3)] leaves_quiet quiet_intros)

end
