(* ===== verification/SimData.thy ===== *)
theory SimData
  imports Requests
begin

text \<open>\<open>doSimData.cpp\<close>: the SIM cards, in the table \<open>sim_tbl\<close>.\<close>

definition SIM_INSERT :: string where
  "SIM_INSERT = (sq ''INSERT INTO sim_tbl (id,jrhm,iccid,dxzh,llchm,jlxm,lltc,zt,ssdq,khmc,xsrq,bz,dj) values(null,`%s`,`%s`,`%s`,`%s`,'') @
     concat (replicate 7 (sq ''if(STRCMP(`%s`,``),`%s`,null),'')) @
     (sq ''%lf) ON DUPLICATE KEY UPDATE jlxm=`%s`,lltc=`%s`,zt=`%s`,ssdq=`%s`,khmc=`%s`,xsrq=`%s`,bz=`%s`,dj=%lf'')"

definition SIM_ADD :: "ext \<Rightarrow> mobj list \<Rightarrow> nat \<Rightarrow> (world, bool) cm" where
  "SIM_ADD e ms b = (cbind (rd_row ms) (\<lambda>(d, r).
     cbind (rd_str e d) (\<lambda>(strJrhm, d).
     cbind (rd_str e d) (\<lambda>(strIccid, d).
     cbind (rd_str e d) (\<lambda>(strJlxm, d).
     cbind (rd_str e d) (\<lambda>(strLltc, d).
     cbind (rd_str e d) (\<lambda>(strDxzh, d).
     cbind (rd_str e d) (\<lambda>(strJhrq, d).
     cbind (rd_str e d) (\<lambda>(strZt, d).
     cbind (rd_str e d) (\<lambda>(strSsdq, d).
     cbind (rd_str e d) (\<lambda>(stKhmc, d).
     cbind (rd_str e d) (\<lambda>(strLlchm, d).
     cbind (rd_str e d) (\<lambda>(strXsrq, d).
     cbind (rd_str e d) (\<lambda>(strDqrq, d).
     cbind (rd_str e d) (\<lambda>(strXfrq, d).
     cbind (rd_str e d) (\<lambda>(strZxrq, d).
     cbind (rd_str e d) (\<lambda>(strBz, d).
     cbind (rd_double e d) (\<lambda>(dj, d).
     cbind (sprintf_s e 512 SIM_INSERT
       [FS strJrhm, FS strIccid, FS strDxzh, FS strLlchm,
        FS strJlxm, FS strJlxm, FS strLltc, FS strLltc, FS strZt, FS strZt, FS strSsdq, FS strSsdq,
        FS stKhmc, FS stKhmc, FS strXsrq, FS strXsrq, FS strBz, FS strBz, FF dj,
        FS strJlxm, FS strLltc, FS strZt, FS strSsdq, FS stKhmc, FS strXsrq, FS strBz, FF dj]) (\<lambda>sql.
     cbind (ado_execute e sql) (\<lambda>ok.
     if \<not> ok then ErrorInfo e [] b 0
     else (cbind (sprintf_s e 256 ((sq ''SELECT '') @ SIM_ITEM @ (sq '' FROM sim_tbl WHERE jrhm=`%s`'')) [FS strJrhm]) (\<lambda>sql.
       cbind (ado_select e sql b) (\<lambda>ok.
       if \<not> ok then ErrorInfo e [] b 0
       else ado_reply_one e (ParserSimData e) b)))))))))))))))))))))))"

definition SIM_LIST_sql :: "ext \<Rightarrow> int \<Rightarrow> string \<Rightarrow> (world, string) cm" where
  "SIM_LIST_sql e nUsertype strKhmc =
     (if nUsertype = 1 then sprintf_s e 256 (sq ''SELECT %s FROM sim_tbl'') [FS USER_ITEM]
      else sprintf_s e 256 (sq ''SELECT %s FROM sim_tbl WHERE khmc=`%s`'') [FS USER_ITEM, FS strKhmc])"

text \<open>
  \<open>SIM_LIST\<close> sends the reply of the MySQL list and then runs on: it reads two further elements
  of the request and builds a second reply, from the ADO record set, in the buffer whose send has
  just been posted; \<open>sbuf\<close> still holds the first frame. (The source declares \<open>nTag\<close> and \<open>nPage\<close> twice in one block; the second
  declaration is read as an assignment.)
\<close>

definition SIM_LIST :: "ext \<Rightarrow> mobj list \<Rightarrow> nat \<Rightarrow> (world, bool) cm" where
  "SIM_LIST e ms b = (cbind (rd_int e ms) (\<lambda>(nTag, ms).
     cbind (rd_int e ms) (\<lambda>(nPage, ms).
     cbind (rd_row ms) (\<lambda>(d, ms).
     cbind (rd_uint e d) (\<lambda>(nId, d).
     cbind (rd_int e d) (\<lambda>(nUsertype, d).
     cbind (rd_str e d) (\<lambda>(strKhmc, d).
     cbind (my_list_query e (SIM_LIST_sql e nUsertype strKhmc) b) (\<lambda>ok.
     if \<not> ok then ErrorInfo e [] b nTag
     else (cbind (my_list_reply e (ParserUser e) nPage nTag b) (\<lambda>toks.
       cthen (DealTail e toks b) (
       (cbind (lift_fault (tail_frame e (sbuf_bytes e toks))) (\<lambda>sent.
         cbind (rd_int e ms) (\<lambda>(nTag, ms).
         cbind (rd_int e ms) (\<lambda>(nPage, ms).
         cbind (get_buf b) (\<lambda>o1.
         cbind ((if pRecorder o1 = None then (cbind (ado_select e ((sq ''SELECT '') @ SIM_ITEM @ (sq '' FROM sim_tbl'')) b) (\<lambda>ok.
                  if \<not> ok then ret False
                  else (cbind (recorder b) (\<lambda>h.
                    cbind (upd_buf b (\<lambda>o'. o'\<lparr>nRecSetCount := ado_count e h\<rparr>)) (\<lambda>_.
                    ret True)))))
                else ret True)) (\<lambda>ok.
         if \<not> ok then (cbind (get_buf b) (\<lambda>o1.
           cbind (DealTail_sbuf e (sent @ concat (map (mp_enc e) (ErrorInfo_toks o1 nTag))) b) (\<lambda>_.
           ret False)))
         else (cbind (InitMsgpack_ado e b nPage nTag) (\<lambda>hd.
           cbind (ado_rows e (ParserSimData e) b (page_count nPage)) (\<lambda>rows.
           cbind (DealTail_sbuf e (sent @ concat (map (mp_enc e) (hd @ rows))) b) (\<lambda>_.
           ret True)))))))))))))))))))))"

definition SIM_JRHM :: "ext \<Rightarrow> mobj list \<Rightarrow> nat \<Rightarrow> (world, bool) cm" where
  "SIM_JRHM e ms b = (cbind (rd_row ms) (\<lambda>(d, r).
     cbind (rd_str e d) (\<lambda>(strJrhm, d).
     cbind (sprintf_s e 256 ((sq ''SELECT '') @ SIM_ITEM @ (sq '' FROM sim_tbl where jrhm=`%s`'')) [FS strJrhm]) (\<lambda>sql.
     cbind (ado_select e sql b) (\<lambda>ok.
     if \<not> ok then ErrorInfo e [] b 0
     else ado_reply_one e (ParserSimData e) b)))))"

definition doSimData :: "ext \<Rightarrow> mobj list \<Rightarrow> nat \<Rightarrow> (world, bool) cm" where
  "doSimData e args b = (cbind (sub_cmd e args b) (\<lambda>(cmd, ms).
     if cmd = 1 then SIM_ADD e ms b
     else if cmd = 2 then SIM_LIST e ms b
     else if cmd = 3 then SIM_JRHM e ms b
     else ret True))"

lemma settles_sim [settles_intros]: "settles b (SIM_ADD e ms b)" "settles b (SIM_JRHM e ms b)"
  unfolding SIM_ADD_def SIM_JRHM_def by (intro settles_intros quiet_intros)+

end
