(* ===== verification/KhData.thy ===== *)
theory KhData
  imports Requests
begin

text \<open>
  \<open>doKhData.cpp\<close>: the customers, in \<open>kh_tbl\<close>, the lists of their SIM cards, and the periodic count
  \<open>OnTimer\<close>, which nothing in the program calls.
\<close>

definition KH_ADD :: "ext \<Rightarrow> mobj list \<Rightarrow> nat \<Rightarrow> (world, bool) cm" where
  "KH_ADD e ms b = (cbind (rd_row ms) (\<lambda>(d, r).
     cbind (rd_str e d) (\<lambda>(strKhmc, d).
     cbind (rd_str e d) (\<lambda>(strLxfs, d).
     cbind (rd_str e d) (\<lambda>(strJlxm, d).
     cbind (rd_str e d) (\<lambda>(strBz, d).
     cbind (sprintf_s e 256 (sq ''INSERT INTO kh_tbl (id,khmc,lxfs,jlxm,xgsj,bz) VALUES(null,`%s`,`%s`,`%s`,now(),`%s`)'')
       [FS strKhmc, FS strLxfs, FS strJlxm, FS strBz]) (\<lambda>sql.
     cbind (ado_execute e sql) (\<lambda>ok.
     if \<not> ok then ErrorInfo e [] b 0
     else (cbind (sprintf_s e 256 (sq ''SELECT id,khmc,lxfs,jlxm,xgsj,bz FROM kh_tbl WHERE khmc=`%s`'') [FS strKhmc]) (\<lambda>sql.
       cbind (ado_select e sql b) (\<lambda>ok.
       if \<not> ok then ErrorInfo e [] b 0
       else ado_reply_one e (ParserKhData e) b)))))))))))"

text \<open>The statement that counts a customer's cards, with the names it gives the columns.\<close>

definition count_sql :: "string \<Rightarrow> string \<Rightarrow> string \<Rightarrow> string \<Rightarrow> string" where
  "count_sql c15 c1 d1 d15 =
     (sq ''SELECT a.*,b.jlxm,b.lxfs FROM (SELECT COUNT(*) AS `sim_total`,'') @
     (sq ''SUM(CASE WHEN zt=`'' @ [CHR 0xD4, CHR 0xDA, CHR 0xD3, CHR 0xC3] @ sq ''` THEN 1 ELSE 0 END) AS `sim_using`,'') @
     (sq ''SUM(CASE WHEN dqrq>CURDATE() AND dqrq<DATE_ADD(CURDATE(),INTERVAL 15 DAY) THEN 1 ELSE 0 END) AS `'') @ c15 @
     (sq ''`,SUM(CASE WHEN dqrq>CURDATE() AND dqrq<DATE_ADD(CURDATE(),INTERVAL 1 MONTH) THEN 1 ELSE 0 END) AS `'') @ c1 @
     (sq ''`,SUM(CASE WHEN dqrq<CURDATE() AND dqrq>DATE_SUB(CURDATE(),INTERVAL 1 MONTH) THEN 1 ELSE 0 END) AS `'') @ d1 @
     (sq ''`,SUM(CASE WHEN dqrq<CURDATE() AND dqrq>DATE_SUB(CURDATE(),INTERVAL 15 DAY) THEN 1 ELSE 0 END) AS `'') @ d15 @
     (sq ''` FROM sim_tbl WHERE khmc=`%s`) a LEFT JOIN kh_tbl b ON b.khmc=`%s`'')"

definition KH_COUNT :: "ext \<Rightarrow> mobj list \<Rightarrow> nat \<Rightarrow> (world, bool) cm" where
  "KH_COUNT e ms b = (cbind (rd_row ms) (\<lambda>(d, r).
     cbind (rd_str e d) (\<lambda>(strKhmc, d).
     cbind (sprintf_s e 1024 (count_sql ''use_15d'' ''use_1m'' ''due_1m'' ''due_15d'') [FS strKhmc, FS strKhmc]) (\<lambda>sql.
     cbind (ado_select e sql b) (\<lambda>ok.
     if \<not> ok then ErrorInfo e [] b 0
     else ado_reply_one e (ParserKhSimCount e strKhmc) b)))))"

definition KH_QUERY :: "ext \<Rightarrow> mobj list \<Rightarrow> nat \<Rightarrow> (world, bool) cm" where
  "KH_QUERY e ms b = (cbind (rd_int e ms) (\<lambda>(nTag, ms).
     cbind (rd_int e ms) (\<lambda>(nPage, ms).
     cbind (rd_row ms) (\<lambda>(d, r).
     cbind (rd_str e d) (\<lambda>(strKhmc, d).
     ado_list e (sprintf_s e 256
         (sq ''SELECT xsrq,COUNT(*) num FROM sim_tbl WHERE khmc=`%s` GROUP BY xsrq'')
         [FS strKhmc])
       (ParserXsrqData e) nPage nTag b)))))"

text \<open>
  \<open>KH_LIST\<close>: with user type 1 the statement is never copied to \<open>sql\<close>, which stays empty; with another
  one the first argument for the single \<open>%u\<close> is the text \<open>USER_ITEM\<close>.
\<close>

definition KH_LIST_sql :: "ext \<Rightarrow> int \<Rightarrow> nat \<Rightarrow> (world, string) cm" where
  "KH_LIST_sql e nUsertype nId =
     (if nUsertype = 1 then ret ''''
      else sprintf_s e 256
        (sq ''SELECT id,Khmc,Userid,Usertype,Fatherid,Jlxm,Dj,Lxfs,Ssdq FROM kh_tbl WHERE nFatherid=%u'')
        [FS USER_ITEM, FU nId])"

definition KH_LIST :: "ext \<Rightarrow> mobj list \<Rightarrow> nat \<Rightarrow> (world, bool) cm" where
  "KH_LIST e ms b = (cbind (rd_int e ms) (\<lambda>(nTag, ms).
     cbind (rd_int e ms) (\<lambda>(nPage, ms).
     cbind (rd_row ms) (\<lambda>(d, r).
     cbind (rd_uint e d) (\<lambda>(nId, d).
     cbind (rd_int e d) (\<lambda>(nUsertype, d).
     my_list e (KH_LIST_sql e nUsertype nId) (ParserKh e) nPage nTag b))))))"

definition KH_SIM_LIST :: "ext \<Rightarrow> mobj list \<Rightarrow> nat \<Rightarrow> (world, bool) cm" where
  "KH_SIM_LIST e ms b = (cbind (rd_int e ms) (\<lambda>(nTag, ms).
     cbind (rd_int e ms) (\<lambda>(nPage, ms).
     cbind (rd_row ms) (\<lambda>(d, r).
     cbind (rd_str e d) (\<lambda>(strKhmc, d).
     ado_list e (sprintf_s e 256
         ((sq ''SELECT '') @ SIM_ITEM @ (sq '' FROM sim_tbl where khmc=`%s`''))
         [FS strKhmc])
       (ParserSimData e) nPage nTag b)))))"

definition KH_SIM_XSRQ :: "ext \<Rightarrow> mobj list \<Rightarrow> nat \<Rightarrow> (world, bool) cm" where
  "KH_SIM_XSRQ e ms b = (cbind (rd_int e ms) (\<lambda>(nTag, ms).
     cbind (rd_int e ms) (\<lambda>(nPage, ms).
     cbind (rd_row ms) (\<lambda>(d, r).
     cbind (rd_str e d) (\<lambda>(strKhmc, d).
     cbind (rd_str e d) (\<lambda>(strXsrq, d).
     ado_list e (sprintf_s e 256
         ((sq ''SELECT '') @ SIM_ITEM @ (sq '' FROM sim_tbl where khmc=`%s` and xsrq=`%s`''))
         [FS strKhmc, FS strXsrq])
       (ParserSimData e) nPage nTag b))))))"

definition KH_SIM_USING :: "ext \<Rightarrow> mobj list \<Rightarrow> nat \<Rightarrow> (world, bool) cm" where
  "KH_SIM_USING e ms b = (cbind (rd_int e ms) (\<lambda>(nTag, ms).
     cbind (rd_int e ms) (\<lambda>(nPage, ms).
     cbind (rd_row ms) (\<lambda>(d, r).
     cbind (rd_str e d) (\<lambda>(strKhmc, d).
     ado_list e (sprintf_s e 256
         ((sq ''SELECT '') @ SIM_ITEM @ (sq '' FROM sim_tbl WHERE khmc=`%s` AND zt=`'' @ [CHR 0xD4, CHR 0xDA, CHR 0xD3, CHR 0xC3] @ sq ''`''))
         [FS strKhmc])
       (ParserSimData e) nPage nTag b)))))"

definition KH_SIM_U15D :: "ext \<Rightarrow> mobj list \<Rightarrow> nat \<Rightarrow> (world, bool) cm" where
  "KH_SIM_U15D e ms b = (cbind (rd_int e ms) (\<lambda>(nTag, ms).
     cbind (rd_int e ms) (\<lambda>(nPage, ms).
     cbind (rd_row ms) (\<lambda>(d, r).
     cbind (rd_str e d) (\<lambda>(strKhmc, d).
     ado_list e (sprintf_s e 256
         ((sq ''SELECT '') @ SIM_ITEM @ (sq '' FROM sim_tbl WHERE khmc=`%s` AND dqrq>CURDATE() AND dqrq<DATE_ADD(CURDATE(),INTERVAL 15 DAY)''))
         [FS strKhmc])
       (ParserSimData e) nPage nTag b)))))"

definition KH_SIM_U1M :: "ext \<Rightarrow> mobj list \<Rightarrow> nat \<Rightarrow> (world, bool) cm" where
  "KH_SIM_U1M e ms b = (cbind (rd_int e ms) (\<lambda>(nTag, ms).
     cbind (rd_int e ms) (\<lambda>(nPage, ms).
     cbind (rd_row ms) (\<lambda>(d, r).
     cbind (rd_str e d) (\<lambda>(strKhmc, d).
     ado_list e (sprintf_s e 256
         ((sq ''SELECT '') @ SIM_ITEM @ (sq '' FROM sim_tbl WHERE khmc=`%s` AND dqrq>CURDATE() AND dqrq<DATE_ADD(CURDATE(),INTERVAL 1 MONTH)''))
         [FS strKhmc])
       (ParserSimData e) nPage nTag b)))))"

definition KH_SIM_D1M :: "ext \<Rightarrow> mobj list \<Rightarrow> nat \<Rightarrow> (world, bool) cm" where
  "KH_SIM_D1M e ms b = (cbind (rd_int e ms) (\<lambda>(nTag, ms).
     cbind (rd_int e ms) (\<lambda>(nPage, ms).
     cbind (rd_row ms) (\<lambda>(d, r).
     cbind (rd_str e d) (\<lambda>(strKhmc, d).
     ado_list e (sprintf_s e 256
         ((sq ''SELECT '') @ SIM_ITEM @ (sq '' FROM sim_tbl WHERE khmc=`%s` AND dqrq<CURDATE() AND dqrq>DATE_SUB(CURDATE(),INTERVAL 1 MONTH)''))
         [FS strKhmc])
       (ParserSimData e) nPage nTag b)))))"

definition KH_SIM_D15D :: "ext \<Rightarrow> mobj list \<Rightarrow> nat \<Rightarrow> (world, bool) cm" where
  "KH_SIM_D15D e ms b = (cbind (rd_int e ms) (\<lambda>(nTag, ms).
     cbind (rd_int e ms) (\<lambda>(nPage, ms).
     cbind (rd_row ms) (\<lambda>(d, r).
     cbind (rd_str e d) (\<lambda>(strKhmc, d).
     ado_list e (sprintf_s e 256
         ((sq ''SELECT '') @ SIM_ITEM @ (sq '' FROM sim_tbl WHERE khmc=`%s` AND dqrq<CURDATE() AND dqrq>DATE_SUB(CURDATE(),INTERVAL 15 DAY)''))
         [FS strKhmc])
       (ParserSimData e) nPage nTag b)))))"

definition doKhData :: "ext \<Rightarrow> mobj list \<Rightarrow> nat \<Rightarrow> (world, bool) cm" where
  "doKhData e args b = (cbind (sub_cmd e args b) (\<lambda>(cmd, ms).
     if cmd = 1 then KH_ADD e ms b
     else if cmd = 2 then KH_COUNT e ms b
     else if cmd = 3 then KH_QUERY e ms b
     else if cmd = 4 then KH_LIST e ms b
     else if cmd = 5 then KH_SIM_LIST e ms b
     else if cmd = 6 then KH_SIM_XSRQ e ms b
     else if cmd = 7 then KH_SIM_USING e ms b
     else if cmd = 8 then KH_SIM_U15D e ms b
     else if cmd = 9 then KH_SIM_U1M e ms b
     else if cmd = 10 then KH_SIM_D1M e ms b
     else if cmd = 11 then KH_SIM_D15D e ms b
     else ret True))"

section \<open>\<open>OnTimer\<close>\<close>

text \<open>One row of the customer list: what is done with it, before the next row is fetched.\<close>

definition OnTimer_row :: "ext \<Rightarrow> nat \<Rightarrow> string option list option \<Rightarrow> (world, unit) cm" where
  "OnTimer_row e h row = (cbind (lift_fault (row_str row 1)) (\<lambda>khmc.
     cbind (sprintf_s e 256 (count_sql ''On15'' ''On1'' ''Du1'' ''Du15'') [FS khmc, FS khmc]) (\<lambda>sql.
     cbind (with_mysql (mysql_real_query e h sql)) (\<lambda>ok.
     if \<not> ok then ret ()
     else (cbind (with_mysql (mcall (my_store e))) (\<lambda>subres.
       case subres of
         None \<Rightarrow> ret ()
       | Some sub \<Rightarrow> (let subrow = fst (my_fetch e sub) in
         cbind (lift_fault (row_str row 0)) (\<lambda>s0.
         cbind (lift_fault (c_scan_u s0 0)) (\<lambda>nId.
         cbind (lift_fault (row_str subrow 2)) (\<lambda>s2.
         cbind (lift_fault (c_scan_u s2 0)) (\<lambda>nOn15.
         cbind (lift_fault (row_str subrow 3)) (\<lambda>s3.
         cbind (lift_fault (c_scan_u s3 0)) (\<lambda>nOn1.
         cbind (lift_fault (row_str subrow 4)) (\<lambda>s4.
         cbind (lift_fault (c_scan_u s4 0)) (\<lambda>nDu1.
         cbind (lift_fault (row_str subrow 5)) (\<lambda>s5.
         cbind (lift_fault (c_scan_u s5 0)) (\<lambda>nDu15.
         cbind (sprintf_s e 256 (sq ''UPDATE TABLE kh_tbl set On15=%u,On1=%u,Du1=%u,Du15=%u WHERE id=%u'')
           [FU nOn15, FU nOn1, FU nDu1, FU nDu15, FU nId]) (\<lambda>sql.
         cbind (with_mysql (mysql_real_query e h sql)) (\<lambda>ok.
         ret ())))))))))))))))))))"

fun OnTimer_rows :: "ext \<Rightarrow> nat \<Rightarrow> nat \<Rightarrow> nat \<Rightarrow> (world, unit) cm" where
  "OnTimer_rows e h 0 res = throw Hang"
| "OnTimer_rows e h (Suc n) res = (case my_fetch e res of
     (None, res') \<Rightarrow> ret ()
   | (Some row, res') \<Rightarrow> cbind (OnTimer_row e h (Some row)) (\<lambda>_. OnTimer_rows e h n res'))"

text \<open>The first query is sent from the buffer \<open>sql\<close>, which is still empty.\<close>

definition OnTimer :: "ext \<Rightarrow> (world, bool) cm" where
  "OnTimer e = (cbind (mysql_alloc e) (\<lambda>rh.
     case rh of
       None \<Rightarrow> ret False
     | Some h \<Rightarrow> (cbind (with_mysql (mysql_real_query e h '''')) (\<lambda>ok.
       if \<not> ok then ret False
       else (cbind (with_mysql (mcall (my_store e))) (\<lambda>res.
         case res of
           None \<Rightarrow> (cbind (mysql_back h) (\<lambda>_. ret False))
         | Some r \<Rightarrow> (cbind (OnTimer_rows e h (Suc (my_num_rows e r)) r) (\<lambda>_.
           cbind (mysql_back h) (\<lambda>_.
           ret True)))))))))"

section \<open>Ownership\<close>

lemma settles_kh [settles_intros]:
  "settles b (KH_ADD e ms b)"
  "settles b (KH_COUNT e ms b)"
  "settles b (KH_QUERY e ms b)"
  "settles b (KH_LIST e ms b)"
  "settles b (KH_SIM_LIST e ms b)"
  "settles b (KH_SIM_XSRQ e ms b)"
  "settles b (KH_SIM_USING e ms b)"
  "settles b (KH_SIM_U15D e ms b)"
  "settles b (KH_SIM_U1M e ms b)"
  "settles b (KH_SIM_D1M e ms b)"
  "settles b (KH_SIM_D15D e ms b)"
  unfolding KH_ADD_def KH_COUNT_def KH_QUERY_def KH_LIST_def KH_SIM_LIST_def KH_SIM_XSRQ_def KH_SIM_USING_def KH_SIM_U15D_def KH_SIM_U1M_def KH_SIM_D1M_def KH_SIM_D15D_def KH_LIST_sql_def
  by (intro settles_intros quiet_intros; simp)+

lemma leaves_doKhData: "leaves b (doKhData e args b)"
  unfolding doKhData_def
  by (intro leaves_bind leaves_prod leaves_if settles_kh [THEN leaves_settles] leaves_quiet quiet_intros)

end
