(* ===== verification/KhjlData.thy ===== *)
theory KhjlData
  imports Requests
begin

text \<open>\<open>doKhjlData.cpp\<close>: the account managers, in \<open>khjl_tbl\<close>, and the lists of their customers and SIM cards.\<close>

definition KHJL_ADD :: "ext \<Rightarrow> mobj list \<Rightarrow> nat \<Rightarrow> (world, bool) cm" where
  "KHJL_ADD e ms b = (cbind (rd_row ms) (\<lambda>(d, r).
     cbind (rd_str e d) (\<lambda>(strJlxm, d).
     cbind (rd_str e d) (\<lambda>(strLxfs, d).
     cbind (rd_str e d) (\<lambda>(strBz, d).
     cbind (sprintf_s e 256 (sq ''INSERT INTO khjl_tbl (id,jlxm,lxfs,xgsj,bz) VALUES(null,`%s`,`%s`,now(),`%s`)'')
       [FS strJlxm, FS strLxfs, FS strBz]) (\<lambda>sql.
     cbind (ado_execute e sql) (\<lambda>ok.
     if \<not> ok then ErrorInfo e [] b 0
     else (cbind (sprintf_s e 256 (sq ''SELECT id,jlxm,lxfs,xgsj,bz FROM khjl_tbl WHERE jlxm=`%s`'') [FS strJlxm]) (\<lambda>sql.
       cbind (ado_select e sql b) (\<lambda>ok.
       if \<not> ok then ErrorInfo e [] b 0
       else ado_reply_one e (ParserKhjlData e) b))))))))))"

definition KHJL_KH :: "ext \<Rightarrow> mobj list \<Rightarrow> nat \<Rightarrow> (world, bool) cm" where
  "KHJL_KH e ms b = (cbind (rd_int e ms) (\<lambda>(nTag, ms).
     cbind (rd_int e ms) (\<lambda>(nPage, ms).
     cbind (rd_row ms) (\<lambda>(d, r).
     cbind (rd_str e d) (\<lambda>(strJlxm, d).
     ado_list e (sprintf_s e 256
         (sq ''SELECT id,khmc,lxfs,jlxm,xgsj,bz FROM kh_tbl WHERE jlxm=`%s`'')
         [FS strJlxm])
       (ParserKhData e) nPage nTag b)))))"

definition KHJL_QUERY :: "ext \<Rightarrow> mobj list \<Rightarrow> nat \<Rightarrow> (world, bool) cm" where
  "KHJL_QUERY e ms b = (cbind (rd_int e ms) (\<lambda>(nTag, ms).
     cbind (rd_int e ms) (\<lambda>(nPage, ms).
     cbind (rd_row ms) (\<lambda>(d, r).
     cbind (rd_str e d) (\<lambda>(strJlxm, d).
     ado_list e (sprintf_s e 256
         (sq ''SELECT xsrq,COUNT(*) num FROM sim_tbl WHERE jlxm=`%s` GROUP BY xsrq'')
         [FS strJlxm])
       (ParserXsrqData e) nPage nTag b)))))"

definition KHJL_LIST :: "ext \<Rightarrow> mobj list \<Rightarrow> nat \<Rightarrow> (world, bool) cm" where
  "KHJL_LIST e ms b = (cbind (rd_int e ms) (\<lambda>(k, ms).
     cbind (upd_buf b (\<lambda>o'. o'\<lparr>nSubSubCmd := k\<rparr>)) (\<lambda>_.
     cbind (rd_int e ms) (\<lambda>(nTag, ms).
     cbind (rd_int e ms) (\<lambda>(nPage, ms).
     ado_list e (ret (sq ''SELECT id,jlxm,lxfs,xgsj,bz FROM khjl_tbl''))
       (ParserKhjlData e) nPage nTag b)))))"

definition KHJL_SIM_XSRQ :: "ext \<Rightarrow> mobj list \<Rightarrow> nat \<Rightarrow> (world, bool) cm" where
  "KHJL_SIM_XSRQ e ms b = (cbind (rd_int e ms) (\<lambda>(nTag, ms).
     cbind (rd_int e ms) (\<lambda>(nPage, ms).
     cbind (rd_row ms) (\<lambda>(d, r).
     cbind (rd_str e d) (\<lambda>(strJlxm, d).
     cbind (rd_str e d) (\<lambda>(strXsrq, d).
     ado_list e (sprintf_s e 256
         ((sq ''SELECT '') @ SIM_ITEM @ (sq '' FROM sim_tbl where jlxm=`%s` and xsrq=`%s`''))
         [FS strJlxm, FS strXsrq])
       (ParserSimData e) nPage nTag b))))))"

definition doKhjlData :: "ext \<Rightarrow> mobj list \<Rightarrow> nat \<Rightarrow> (world, bool) cm" where
  "doKhjlData e args b = (cbind (sub_cmd e args b) (\<lambda>(cmd, ms).
     if cmd = 1 then KHJL_ADD e ms b
     else if cmd = 2 then KHJL_KH e ms b
     else if cmd = 3 then KHJL_QUERY e ms b
     else if cmd = 4 then KHJL_LIST e ms b
     else if cmd = 5 then KHJL_SIM_XSRQ e ms b
     else ret True))"

lemma settles_khjl [settles_intros]:
  "settles b (KHJL_ADD e ms b)"
  "settles b (KHJL_KH e ms b)"
  "settles b (KHJL_QUERY e ms b)"
  "settles b (KHJL_LIST e ms b)"
  "settles b (KHJL_SIM_XSRQ e ms b)"
  unfolding KHJL_ADD_def KHJL_KH_def KHJL_QUERY_def KHJL_LIST_def KHJL_SIM_XSRQ_def
  by (intro settles_intros quiet_intros; simp)+

lemma leaves_doKhjlData: "leaves b (doKhjlData e args b)"
  unfolding doKhjlData_def
  by (intro leaves_bind leaves_prod leaves_if settles_khjl [THEN leaves_settles] leaves_quiet quiet_intros)

end
