(* ===== verification/TableData.thy ===== *)
theory TableData
  imports Requests
begin

text \<open>
  \<open>doLlcData.cpp\<close>, \<open>doLltcData.cpp\<close>, \<open>doDxzhData.cpp\<close>, \<open>doSsdqData.cpp\<close>: the tables of flow pools, tariffs,
  telecom accounts and areas. Each has a command that inserts a row and returns it, and a command
  that lists the table page by page.
\<close>

section \<open>\<open>doLlcData.cpp\<close>\<close>

definition LLC_ADD :: "ext \<Rightarrow> mobj list \<Rightarrow> nat \<Rightarrow> (world, bool) cm" where
  "LLC_ADD e ms b = (cbind (rd_row ms) (\<lambda>(d, r).
     cbind (rd_str e d) (\<lambda>(strLlchm, d).
     cbind (rd_str e d) (\<lambda>(strLlclx, d).
     cbind (rd_str e d) (\<lambda>(strDxzh, d).
     cbind (rd_str e d) (\<lambda>(strBz, d).
     cbind (sprintf_s e 256 (sq ''INSERT INTO llc_tbl (id,llchm,llclx,dxzh,bz,xgsj) VALUES(null,`%s`,`%s`,`%s`,`%s`,now())'')
       [FS strLlchm, FS strLlclx, FS strDxzh, FS strBz]) (\<lambda>sql.
     cbind (ado_execute e sql) (\<lambda>ok.
     if \<not> ok then ErrorInfo e [] b 0
     else (cbind (sprintf_s e 256 (sq ''SELECT id,llchm,llclx,dxzh,bz,xgsj FROM llc_tbl WHERE llchm=`%s`'') [FS strLlchm]) (\<lambda>sql.
       cbind (ado_select e sql b) (\<lambda>ok.
       if \<not> ok then ErrorInfo e [] b 0
       else ado_reply_one e (ParserLlcData e) b)))))))))))"

definition LLC_LIST :: "ext \<Rightarrow> mobj list \<Rightarrow> nat \<Rightarrow> (world, bool) cm" where
  "LLC_LIST e ms b = (cbind (rd_int e ms) (\<lambda>(k, ms).
     cbind (upd_buf b (\<lambda>o'. o'\<lparr>nSubSubCmd := k\<rparr>)) (\<lambda>_.
     cbind (rd_int e ms) (\<lambda>(nTag, ms).
     cbind (rd_int e ms) (\<lambda>(nPage, ms).
     ado_list e (ret (sq ''SELECT id,llchm,llclx,dxzh,bz,xgsj FROM llc_tbl ''))
       (ParserLlcData e) nPage nTag b)))))"

definition doLlcData :: "ext \<Rightarrow> mobj list \<Rightarrow> nat \<Rightarrow> (world, bool) cm" where
  "doLlcData e args b = (cbind (sub_cmd e args b) (\<lambda>(cmd, ms).
     if cmd = 1 then LLC_ADD e ms b
     else if cmd = 2 then LLC_LIST e ms b
     else ret True))"

lemma settles_llc [settles_intros]: "settles b (LLC_ADD e ms b)" "settles b (LLC_LIST e ms b)"
  unfolding LLC_ADD_def LLC_LIST_def by (intro settles_intros quiet_intros; simp)+

lemma leaves_doLlcData: "leaves b (doLlcData e args b)"
  unfolding doLlcData_def
  by (intro leaves_bind leaves_prod leaves_if leaves_settles [OF settles_llc(1)]
      leaves_settles [OF settles_llc(2)] leaves_quiet quiet_intros)

section \<open>\<open>doLltcData.cpp\<close>\<close>

definition LLTC_ADD :: "ext \<Rightarrow> mobj list \<Rightarrow> nat \<Rightarrow> (world, bool) cm" where
  "LLTC_ADD e ms b = (cbind (rd_row ms) (\<lambda>(d, r).
     cbind (rd_str e d) (\<lambda>(strTcmc, d).
     cbind (rd_str e d) (\<lambda>(strTcfl, d).
     cbind (sprintf_s e 256 (sq ''INSERT INTO lltc_tbl (id,tcmc,tcfl,xgsj) VALUES(null,`%s`,`%s`,now())'')
       [FS strTcmc, FS strTcfl]) (\<lambda>sql.
     cbind (ado_execute e sql) (\<lambda>ok.
     if \<not> ok then ErrorInfo e [] b 0
     else (cbind (sprintf_s e 256 (sq ''SELECT id,tcmc,tcfl,xgsj FROM lltc_tbl WHERE tcmc=`%s`'') [FS strTcmc]) (\<lambda>sql.
       cbind (ado_select e sql b) (\<lambda>ok.
       if \<not> ok then ErrorInfo e [] b 0
       else ado_reply_one e (ParserLltcData e) b)))))))))"

definition LLTC_LIST :: "ext \<Rightarrow> mobj list \<Rightarrow> nat \<Rightarrow> (world, bool) cm" where
  "LLTC_LIST e ms b = (cbind (rd_int e ms) (\<lambda>(k, ms).
     cbind (upd_buf b (\<lambda>o'. o'\<lparr>nSubSubCmd := k\<rparr>)) (\<lambda>_.
     cbind (rd_int e ms) (\<lambda>(nTag, ms).
     cbind (rd_int e ms) (\<lambda>(nPage, ms).
     ado_list e (ret (sq ''SELECT id,tcmc,tcfl,xgsj FROM lltc_tbl ''))
       (ParserLltcData e) nPage nTag b)))))"

definition doLltcData :: "ext \<Rightarrow> mobj list \<Rightarrow> nat \<Rightarrow> (world, bool) cm" where
  "doLltcData e args b = (cbind (sub_cmd e args b) (\<lambda>(cmd, ms).
     if cmd = 1 then LLTC_ADD e ms b
     else if cmd = 2 then LLTC_LIST e ms b
     else ret True))"

lemma settles_lltc [settles_intros]: "settles b (LLTC_ADD e ms b)" "settles b (LLTC_LIST e ms b)"
  unfolding LLTC_ADD_def LLTC_LIST_def by (intro settles_intros quiet_intros; simp)+

lemma leaves_doLltcData: "leaves b (doLltcData e args b)"
  unfolding doLltcData_def
  by (intro leaves_bind leaves_prod leaves_if leaves_settles [OF settles_lltc(1)]
      leaves_settles [OF settles_lltc(2)] leaves_quiet quiet_intros)

section \<open>\<open>doDxzhData.cpp\<close>\<close>

definition DXZH_ADD :: "ext \<Rightarrow> mobj list \<Rightarrow> nat \<Rightarrow> (world, bool) cm" where
  "DXZH_ADD e ms b = (cbind (rd_row ms) (\<lambda>(d, r).
     cbind (rd_str e d) (\<lambda>(strDxzh, d).
     cbind (rd_str e d) (\<lambda>(strUserID, d).
     cbind (rd_str e d) (\<lambda>(strPwd, d).
     cbind (rd_str e d) (\<lambda>(strKey, d).
     cbind (rd_str e d) (\<lambda>(strtBz, d).
     cbind (sprintf_s e 256 (sq ''INSERT INTO dxzh_tbl (id,dxzh,userid,pwd,skey,bz,xgsj) VALUES(null,`%s`,`%s`,`%s`,`%s`,`%s`,now())'')
       [FS strDxzh, FS strUserID, FS strPwd, FS strKey, FS strtBz]) (\<lambda>sql.
     cbind (ado_execute e sql) (\<lambda>ok.
     if \<not> ok then ErrorInfo e [] b 0
     else (cbind (sprintf_s e 256 (sq ''SELECT id,dxzh,userid,pwd,skey,bz,xgsj FROM dxzh_tbl WHERE dxzh=`%s`'') [FS strDxzh]) (\<lambda>sql.
       cbind (ado_select e sql b) (\<lambda>ok.
       if \<not> ok then ErrorInfo e [] b 0
       else ado_reply_one e (ParserDxzhData e) b))))))))))))"

definition DXZH_LIST :: "ext \<Rightarrow> mobj list \<Rightarrow> nat \<Rightarrow> (world, bool) cm" where
  "DXZH_LIST e ms b = (cbind (rd_int e ms) (\<lambda>(k, ms).
     cbind (upd_buf b (\<lambda>o'. o'\<lparr>nSubSubCmd := k\<rparr>)) (\<lambda>_.
     cbind (rd_int e ms) (\<lambda>(nTag, ms).
     cbind (rd_int e ms) (\<lambda>(nPage, ms).
     ado_list e (ret (sq ''SELECT id,dxzh,userid,pwd,skey,xgsj,bz FROM dxzh_tbl ''))
       (ParserDxzhData e) nPage nTag b)))))"

definition doDxzhData :: "ext \<Rightarrow> mobj list \<Rightarrow> nat \<Rightarrow> (world, bool) cm" where
  "doDxzhData e args b = (cbind (sub_cmd e args b) (\<lambda>(cmd, ms).
     if cmd = 1 then DXZH_ADD e ms b
     else if cmd = 2 then DXZH_LIST e ms b
     else ret True))"

lemma settles_dxzh [settles_intros]: "settles b (DXZH_ADD e ms b)" "settles b (DXZH_LIST e ms b)"
  unfolding DXZH_ADD_def DXZH_LIST_def by (intro settles_intros quiet_intros; simp)+

lemma leaves_doDxzhData: "leaves b (doDxzhData e args b)"
  unfolding doDxzhData_def
  by (intro leaves_bind leaves_prod leaves_if leaves_settles [OF settles_dxzh(1)]
      leaves_settles [OF settles_dxzh(2)] leaves_quiet quiet_intros)

section \<open>\<open>doSsdqData.cpp\<close>\<close>

definition SSDQ_ADD :: "ext \<Rightarrow> mobj list \<Rightarrow> nat \<Rightarrow> (world, bool) cm" where
  "SSDQ_ADD e ms b = (cbind (rd_row ms) (\<lambda>(d, r).
     cbind (rd_str e d) (\<lambda>(strSsdq, d).
     cbind (sprintf_s e 256 (sq ''INSERT INTO ssdq_tbl (id,ssdq,xgsj) VALUES(null,`%s`,now())'')
       [FS strSsdq]) (\<lambda>sql.
     cbind (ado_execute e sql) (\<lambda>ok.
     if \<not> ok then ErrorInfo e [] b 0
     else (cbind (sprintf_s e 256 (sq ''SELECT id,ssdq,xgsj FROM ssdq_tbl WHERE ssdq=`%s`'') [FS strSsdq]) (\<lambda>sql.
       cbind (ado_select e sql b) (\<lambda>ok.
       if \<not> ok then ErrorInfo e [] b 0
       else ado_reply_one e (ParserSsdqData e) b))))))))"

definition SSDQ_LIST :: "ext \<Rightarrow> mobj list \<Rightarrow> nat \<Rightarrow> (world, bool) cm" where
  "SSDQ_LIST e ms b = (cbind (rd_int e ms) (\<lambda>(k, ms).
     cbind (upd_buf b (\<lambda>o'. o'\<lparr>nSubSubCmd := k\<rparr>)) (\<lambda>_.
     cbind (rd_int e ms) (\<lambda>(nTag, ms).
     cbind (rd_int e ms) (\<lambda>(nPage, ms).
     ado_list e (ret (sq ''SELECT id,ssdq,xgsj FROM ssdq_tbl''))
       (ParserSsdqData e) nPage nTag b)))))"

definition doSsdqData :: "ext \<Rightarrow> mobj list \<Rightarrow> nat \<Rightarrow> (world, bool) cm" where
  "doSsdqData e args b = (cbind (sub_cmd e args b) (\<lambda>(cmd, ms).
     if cmd = 1 then SSDQ_ADD e ms b
     else if cmd = 2 then SSDQ_LIST e ms b
     else ret True))"

lemma settles_ssdq [settles_intros]: "settles b (SSDQ_ADD e ms b)" "settles b (SSDQ_LIST e ms b)"
  unfolding SSDQ_ADD_def SSDQ_LIST_def by (intro settles_intros quiet_intros; simp)+

lemma leaves_doSsdqData: "leaves b (doSsdqData e args b)"
  unfolding doSsdqData_def
  by (intro leaves_bind leaves_prod leaves_if leaves_settles [OF settles_ssdq(1)]
      leaves_settles [OF settles_ssdq(2)] leaves_quiet quiet_intros)

end
