(* ===== verification/ExcelLoad.thy ===== *)
theory ExcelLoad
  imports Requests
begin

text \<open>
  \<open>ExcelLoad.cpp\<close>: the commands that write a whole spreadsheet into \<open>sim_tbl\<close> in one transaction. The
  ghost log of statements records the transaction calls too.
\<close>

section \<open>The transaction\<close>

definition excel_trans :: "ext \<Rightarrow> string \<Rightarrow> (world, unit) cm" where
  "excel_trans e what = with_ado ((cbind (acall (ado_trans e)) (\<lambda>ok.
     if ok then log_sql what else throw ComError)))"

definition excel_exec :: "ext \<Rightarrow> string \<Rightarrow> (world, unit) cm" where
  "excel_exec e sql = with_ado ((cbind (log_sql sql) (\<lambda>_.
     cbind (acall (\<lambda>n. ado_exec e n sql)) (\<lambda>ok.
     if ok then ret () else throw ComError))))"

text \<open>The loop over the rows; \<open>step\<close> builds the statement of one row.\<close>

fun excel_rows :: "ext \<Rightarrow> (mobj list \<Rightarrow> (world, string) cm) \<Rightarrow> mobj list \<Rightarrow> (world, unit) cm" where
  "excel_rows e step [] = ret ()"
| "excel_rows e step (m # ms) =
     cbind (of_opt Undefined (elems m)) (\<lambda>d.
     cbind (step d) (\<lambda>sql.
     cbind (excel_exec e sql) (\<lambda>_. excel_rows e step ms)))"

definition excel_reply :: "ext \<Rightarrow> nat \<Rightarrow> int \<Rightarrow> int \<Rightarrow> (world, unit) cm" where
  "excel_reply e b nTag code = (cbind (get_buf b) (\<lambda>o1.
     DealTail e [pack_array 4, TInt (nCmd o1), TInt (nSubCmd o1), TInt nTag, TInt code] b))"

text \<open>
  Only \<open>_com_error\<close> is caught: a row whose field has another type leaves by the exception, with the
  transaction open and the connection not returned.
\<close>

definition excel_body :: "ext \<Rightarrow> (mobj list \<Rightarrow> (world, string) cm) \<Rightarrow> mobj list \<Rightarrow> nat \<Rightarrow> (world, bool) cm" where
  "excel_body e step rows c =
     catch ((cbind (excel_rows e step rows) (\<lambda>_. cbind (excel_trans e ''COMMIT'') (\<lambda>_. ret True))))
       (\<lambda>f. f = ComError)
       ((cbind (excel_trans e ''ROLLBACK'') (\<lambda>_. cbind (with_ado (FreeConner c)) (\<lambda>_. ret False))))"

definition excel_import :: "ext \<Rightarrow> nat \<Rightarrow> int \<Rightarrow>
    (mobj list \<Rightarrow> (world, (mobj list \<Rightarrow> (world, string) cm) \<times> mobj list) cm) \<Rightarrow> mobj list \<Rightarrow> (world, bool) cm" where
  "excel_import e b nTag mk ms = (cbind (with_ado (AllocTransConner e)) (\<lambda>rc.
     case rc of
       None \<Rightarrow> (cthen (excel_reply e b nTag 1) ( ret False))
     | Some c \<Rightarrow> (cbind (excel_trans e ''BEGIN'') (\<lambda>_.
       cbind (mk ms) (\<lambda>(step, ms).
       cbind (rd_array ms) (\<lambda>(rows, r).
       cbind (excel_body e step rows c) (\<lambda>ok.
       if ok then (cbind (with_ado (FreeConner c)) (\<lambda>_.
         cthen (excel_reply e b nTag 0) (
         ret True)))
       else (cthen (excel_reply e b nTag 1) ( ret False)))))))))"

section \<open>The commands\<close>

definition EXCEL_SIM_step :: "ext \<Rightarrow> string \<Rightarrow> string \<Rightarrow> mobj list \<Rightarrow> (world, string) cm" where
  "EXCEL_SIM_step e llchm llclx d = (cbind (rd_str e d) (\<lambda>(strJrhm, d).
     cbind (rd_str e d) (\<lambda>(strIccid, d).
     cbind (rd_str e d) (\<lambda>(strDxzh, d).
     sprintf_s e 256 (sq ''insert into sim_tbl (id,jrhm,iccid,dxzh,llchm,llclx) value(null,`%s`,`%s`,`%s`,`%s`,`%s`) ON DUPLICATE KEY UPDATE iccid=`%s`'')
       [FS strJrhm, FS strIccid, FS strDxzh, FS llchm, FS llclx, FS strIccid]))))"

definition EXCEL_SIM :: "ext \<Rightarrow> nat \<Rightarrow> int \<Rightarrow> mobj list \<Rightarrow> (world, bool) cm" where
  "EXCEL_SIM e b nTag = excel_import e b nTag (\<lambda>ms. (cbind (rd_str e ms) (\<lambda>(llchm, ms).
     cbind (rd_str e ms) (\<lambda>(llclx, ms).
     ret (EXCEL_SIM_step e llchm llclx, ms)))))"

definition EXCEL_XSQD_step :: "ext \<Rightarrow> mobj list \<Rightarrow> (world, string) cm" where
  "EXCEL_XSQD_step e d = (cbind (rd_str e d) (\<lambda>(strJrhm, d).
     cbind (rd_str e d) (\<lambda>(strKhmc, d).
     cbind (rd_str e d) (\<lambda>(strXsrq, d).
     cbind (rd_str e d) (\<lambda>(strXsy, d).
     cbind (rd_str e d) (\<lambda>(strBz, d).
     sprintf_s e 256 (sq ''update sim_tbl set khmc=`%s`,xsrq=`%s`,jlxm=`%s`,bz=`%s` where jrhm=`%s`'')
       [FS strKhmc, FS strXsrq, FS strXsy, FS strBz, FS strJrhm]))))))"

definition EXCEL_XSQD :: "ext \<Rightarrow> nat \<Rightarrow> int \<Rightarrow> mobj list \<Rightarrow> (world, bool) cm" where
  "EXCEL_XSQD e b nTag = excel_import e b nTag (\<lambda>ms. ret (EXCEL_XSQD_step e, ms))"

definition EXCEL_ZTXX_step :: "ext \<Rightarrow> mobj list \<Rightarrow> (world, string) cm" where
  "EXCEL_ZTXX_step e d = (cbind (rd_str e d) (\<lambda>(strJrhm, d).
     cbind (rd_str e d) (\<lambda>(strJhrq, d).
     cbind (rd_str e d) (\<lambda>(strZt, d).
     sprintf_s e 256 (sq ''update sim_tbl set jhrq=`%s`,zt=`%s` where jrhm=`%s`'')
       [FS strJhrq, FS strZt, FS strJrhm]))))"

definition EXCEL_ZTXX :: "ext \<Rightarrow> nat \<Rightarrow> int \<Rightarrow> mobj list \<Rightarrow> (world, bool) cm" where
  "EXCEL_ZTXX e b nTag = excel_import e b nTag (\<lambda>ms. ret (EXCEL_ZTXX_step e, ms))"

definition EXCEL_XFQD_step :: "ext \<Rightarrow> mobj list \<Rightarrow> (world, string) cm" where
  "EXCEL_XFQD_step e d = (cbind (rd_str e d) (\<lambda>(strJrhm, d).
     cbind (rd_str e d) (\<lambda>(strXfrq, d).
     cbind (rd_int e d) (\<lambda>(nMonth, d).
     sprintf_s e 256 (sq ''update sim_tbl set dqrq=DATE_ADD(IF(`%s`>dqrq,`%s`,dqrq),INTERVAL %d MONTH),xfrq=`%s` where jrhm=`%s`'')
       [FS strXfrq, FS strXfrq, FD nMonth, FS strXfrq, FS strJrhm]))))"

definition EXCEL_XFQD :: "ext \<Rightarrow> nat \<Rightarrow> int \<Rightarrow> mobj list \<Rightarrow> (world, bool) cm" where
  "EXCEL_XFQD e b nTag = excel_import e b nTag (\<lambda>ms. ret (EXCEL_XFQD_step e, ms))"

definition EXCEL_TKQD_step :: "ext \<Rightarrow> mobj list \<Rightarrow> (world, string) cm" where
  "EXCEL_TKQD_step e d = (cbind (rd_str e d) (\<lambda>(strJrhm, d).
     sprintf_s e 256 (sq ''update sim_tbl khmc=``,xsrq=``,xsy=``,bz=`` where jrhm=`%s`'')
       [FS strJrhm]))"

definition EXCEL_TKQD :: "ext \<Rightarrow> nat \<Rightarrow> int \<Rightarrow> mobj list \<Rightarrow> (world, bool) cm" where
  "EXCEL_TKQD e b nTag = excel_import e b nTag (\<lambda>ms. ret (EXCEL_TKQD_step e, ms))"

definition EXCEL_ZXQD_step :: "ext \<Rightarrow> mobj list \<Rightarrow> (world, string) cm" where
  "EXCEL_ZXQD_step e d = (cbind (rd_str e d) (\<lambda>(strJrhm, d).
     cbind (rd_str e d) (\<lambda>(strZxrq, d).
     cbind (rd_str e d) (\<lambda>(strZt, d).
     sprintf_s e 256 (sq ''update sim_tbl set zxrq=`%s`,zt=`%s` where jrhm=`%s`'')
       [FS strZxrq, FS strZt, FS strJrhm]))))"

definition EXCEL_ZXQD :: "ext \<Rightarrow> nat \<Rightarrow> int \<Rightarrow> mobj list \<Rightarrow> (world, bool) cm" where
  "EXCEL_ZXQD e b nTag = excel_import e b nTag (\<lambda>ms. ret (EXCEL_ZXQD_step e, ms))"

definition doExcelLoad :: "ext \<Rightarrow> mobj list \<Rightarrow> nat \<Rightarrow> (world, bool) cm" where
  "doExcelLoad e args b = (cbind (sub_cmd e args b) (\<lambda>(cmd, ms).
     cbind (rd_int e ms) (\<lambda>(nTag, ms).
     if cmd = 1 then EXCEL_SIM e b nTag ms
     else if cmd = 2 then EXCEL_XSQD e b nTag ms
     else if cmd = 3 then EXCEL_ZTXX e b nTag ms
     else if cmd = 4 then EXCEL_XFQD e b nTag ms
     else if cmd = 5 then EXCEL_TKQD e b nTag ms
     else if cmd = 6 then EXCEL_ZXQD e b nTag ms
     else ret True)))"

section \<open>Ownership\<close>

lemma quiet_excel_trans [quiet_intros]: "quiet b (excel_trans e what)"
  and quiet_excel_exec [quiet_intros]: "quiet b (excel_exec e sql)"
  unfolding excel_trans_def excel_exec_def by (intro quiet_intros)+

lemma quiet_catch [quiet_intros]:
  assumes "quiet b m" "quiet b h" shows "quiet b (catch m p h)"
  unfolding quiet_def
proof
  fix w
  obtain r w1 where m: "m w = (r, w1)" by fastforce
  obtain r2 w2 where h: "h w1 = (r2, w2)" by fastforce
  have "qrel b w w1" "qrel b w1 w2" using quietD [OF assms(1) m] quietD [OF assms(2) h] by auto
  then show "qrel b w (snd (catch m p h w))"
    using m h by (auto simp: catch_def split: sum.split intro: qrel_trans)
qed

lemma quiet_excel_rows: "(\<And>d. quiet b (step d)) \<Longrightarrow> quiet b (excel_rows e step ms)"
  by (induction ms) (auto simp del: ret_app intro!: quiet_intros)

lemma quiet_excel_body [quiet_intros]:
  "(\<And>d. quiet b (step d)) \<Longrightarrow> quiet b (excel_body e step rows c)"
  unfolding excel_body_def by (intro quiet_intros quiet_excel_rows)

lemma settles_excel_reply [settles_intros]: "settles b (excel_reply e b nTag code)"
  unfolding excel_reply_def by (intro settles_intros quiet_intros)

text \<open>What \<open>mk\<close> returns builds its statements without touching connections.\<close>

definition quiet_mk :: "nat \<Rightarrow> (world, (mobj list \<Rightarrow> (world, string) cm) \<times> mobj list) cm \<Rightarrow> bool" where
  "quiet_mk b m \<longleftrightarrow> quiet b m \<and> (\<forall>w step ms w' d. m w = (Inr (step, ms), w') \<longrightarrow> quiet b (step d))"

lemma quiet_mk_ret: "(\<And>d. quiet b (step d)) \<Longrightarrow> quiet_mk b (ret (step, ms))"
  by (auto simp: quiet_mk_def quiet_ret)

lemma quiet_mk_bind: "quiet b m \<Longrightarrow> (\<And>x. quiet_mk b (f x)) \<Longrightarrow> quiet_mk b (cbind m f)"
proof -
  assume m: "quiet b m" and f: "\<And>x. quiet_mk b (f x)"
  have "quiet b (cbind m f)" using m f by (intro quiet_bind) (simp_all add: quiet_mk_def)
  moreover have "quiet b (step d)" if "cbind m f w = (Inr (step, ms), w')" for w step ms w' d
  proof -
    obtain x w1 where "f x w1 = (Inr (step, ms), w')"
      using \<open>cbind m f w = (Inr (step, ms), w')\<close> by (auto simp: cbind_def split: prod.splits sum.splits)
    then show ?thesis using f [of x] unfolding quiet_mk_def by blast
  qed
  ultimately show ?thesis by (auto simp: quiet_mk_def)
qed

lemma quiet_mk_prod: "(\<And>x y. p = (x, y) \<Longrightarrow> quiet_mk b (f x y)) \<Longrightarrow> quiet_mk b (case p of (x, y) \<Rightarrow> f x y)"
  by (cases p) simp

lemma settles_bind_mk:
  assumes m: "quiet_mk b m" and k: "\<And>step ms. (\<And>d. quiet b (step d)) \<Longrightarrow> settles b (f step ms)"
  shows "settles b (cbind m (\<lambda>(step, ms). f step ms))"
proof -
  have "hoare (own b c B S) m (\<lambda>x w. own b c B S w \<and> (\<forall>d. quiet b (fst x d))) (exn (own b c B S))" for c B S
  proof (rule hoareI)
    fix w x w' assume "own b c B S w" "m w = (Inr x, w')"
    moreover obtain step ms where "x = (step, ms)" by (cases x)
    ultimately show "own b c B S w' \<and> (\<forall>d. quiet b (fst x d))"
      using m hoareD_Inr [OF quiet_own, of b m c B S w x w'] unfolding quiet_mk_def by fastforce
  next
    fix w f w' assume "own b c B S w" "m w = (Inl f, w')"
    then show "exn (own b c B S) f w'" using m hoareD_Inl [OF quiet_exn] by (auto simp: quiet_mk_def)
  qed
  moreover have "hoare (\<lambda>w. own b c B S w \<and> (\<forall>d. quiet b (fst x d))) (case x of (step, ms) \<Rightarrow> f step ms)
      (\<lambda>_. winv B S) (exn (own b c B S))" for x c B S
  proof (cases "\<forall>d. quiet b (fst x d)")
    case True
    then have "settles b (case x of (step, ms) \<Rightarrow> f step ms)" using k by (cases x) auto
    then show ?thesis using True by (simp add: settles_def)
  next
    case False
    then show ?thesis by (auto simp: hoare_def)
  qed
  ultimately show ?thesis unfolding settles_def by (blast intro: hoare_bind)
qed

lemma settles_excel_import [settles_intros]:
  "(\<And>ms. quiet_mk b (mk ms)) \<Longrightarrow> settles b (excel_import e b nTag mk ms)"
  unfolding excel_import_def
  by (rule settles_bind, intro quiet_intros, rule settles_option,
      (intro settles_intros quiet_intros)[1],
      rule settles_bind, intro quiet_intros, rule settles_bind_mk, assumption,
      (intro settles_intros quiet_intros; assumption)[1])

lemma settles_excel:
  "settles b (EXCEL_SIM e b nTag ms)"
  "settles b (EXCEL_XSQD e b nTag ms)"
  "settles b (EXCEL_ZTXX e b nTag ms)"
  "settles b (EXCEL_XFQD e b nTag ms)"
  "settles b (EXCEL_TKQD e b nTag ms)"
  "settles b (EXCEL_ZXQD e b nTag ms)"
  unfolding EXCEL_SIM_def EXCEL_SIM_step_def EXCEL_XSQD_def EXCEL_XSQD_step_def EXCEL_ZTXX_def EXCEL_ZTXX_step_def EXCEL_XFQD_def EXCEL_XFQD_step_def EXCEL_TKQD_def EXCEL_TKQD_step_def EXCEL_ZXQD_def EXCEL_ZXQD_step_def
  by (intro settles_excel_import quiet_mk_ret quiet_mk_bind quiet_mk_prod quiet_intros)+

lemma leaves_doExcelLoad: "leaves b (doExcelLoad e args b)"
  unfolding doExcelLoad_def
  by (intro leaves_bind leaves_prod leaves_if settles_excel [THEN leaves_settles] leaves_quiet quiet_intros)

end
