(* ===== verification/ApiConn.thy ===== *)
theory ApiConn
  imports Requests
begin

text \<open>
  The connection part of \<open>doAPIResponse.cpp\<close>: the request to the telecom operator's server, made on a
  socket of its own (\<open>a\<close>) with the client's buffer (\<open>b\<close>), and the two short replies. \<open>checkconnectex\<close>, the
  thread that closes calls older than a minute, is never started by the program.
\<close>

section \<open>The table of calls under way\<close>

definition InsertConn :: "nat \<Rightarrow> (world, unit) cm" where
  "InsertConn a = (cbind (get_sobj a) (\<lambda>s.
     modify (\<lambda>w. w\<lparr>ConnMap := (ConnMap w)(nKey s \<mapsto> a)\<rparr>)))"

definition RemoveConn :: "nat \<Rightarrow> (world, unit) cm" where
  "RemoveConn a = (cbind (get_sobj a) (\<lambda>s.
     modify (\<lambda>w. w\<lparr>ConnMap := (ConnMap w)(nKey s := None)\<rparr>)))"

text \<open>One round of \<open>checkconnectex\<close> over the entries \<open>as\<close> of the table.\<close>

fun checkconnectex :: "32 word \<Rightarrow> nat list \<Rightarrow> (world, unit) cm" where
  "checkconnectex dwCurTick [] = ret ()"
| "checkconnectex dwCurTick (a # as) =
     cbind (get_sobj a) (\<lambda>s.
     cbind (if dwCurTick - dwTick s > 60 * 1000 then CSCloseSocket a else ret ()) (\<lambda>_.
     checkconnectex dwCurTick as))"

section \<open>Short replies\<close>

definition API_Failed :: "ext \<Rightarrow> nat \<Rightarrow> (world, unit) cm" where
  "API_Failed e b = (cbind (get_buf b) (\<lambda>o1.
     DealTail e [pack_array 5, TInt (nCmd o1), TInt (nSubCmd o1), TInt (nSubSubCmd o1), TInt 1,
       TStr (strJrhm o1)] b))"

definition API_Successed :: "ext \<Rightarrow> nat \<Rightarrow> (world, unit) cm" where
  "API_Successed e b = (cbind (get_buf b) (\<lambda>o1.
     DealTail e [pack_array 4, TInt (nCmd o1), TInt (nSubCmd o1), TInt 0, TStr (strJrhm o1)] b))"

section \<open>The call\<close>

text \<open>\<open>free_api\<close>: the API socket is closed and released, here and in the completion functions.\<close>

definition free_api :: "nat \<Rightarrow> (world, unit) cm" where
  "free_api a = (cbind (CSCloseSocket a) (\<lambda>_. freeSObj a))"

definition doApi_error :: "ext \<Rightarrow> nat \<Rightarrow> nat \<Rightarrow> (world, bool) cm" where
  "doApi_error e a b = (cbind (free_api a) (\<lambda>_.
     cthen (API_Failed e b) (
     ret False)))"

text \<open>\<open>ConnectEx\<close> sends the first \<open>dwRecvedCount\<close> bytes of the buffer with the connection request.\<close>

definition doApi_connect :: "ext \<Rightarrow> nat \<Rightarrow> nat \<Rightarrow> (world, bool) cm" where
  "doApi_connect e a b = (cbind (upd_buf b (SetIoRequestFunction API_ConnectComp)) (\<lambda>_.
     cbind (upd_sobj a (\<lambda>s. s\<lparr>pRelatedBObj := Some b\<rparr>)) (\<lambda>_.
     cbind (GetRand e) (\<lambda>key.
     cbind (ext_call (os_tick e)) (\<lambda>now.
     cbind (upd_sobj a (\<lambda>s. s\<lparr>nKey := key, dwTick := now\<rparr>)) (\<lambda>_.
     cbind (InsertConn a) (\<lambda>_.
     cbind (get_buf b) (\<lambda>o1.
     cbind (ext_call (os_connectex e)) (\<lambda>ok.
     if \<not> ok then (cbind (RemoveConn a) (\<lambda>_. doApi_error e a b))
     else if length (bdata o1) < unat (dwRecvedCount o1) then throw Undefined
     else (cbind (post b (KSock a) (IoConnect (take (unat (dwRecvedCount o1)) (bdata o1)))) (\<lambda>_.
       ret True)))))))))))"

definition doApi_some :: "ext \<Rightarrow> nat \<Rightarrow> nat \<Rightarrow> (world, bool) cm" where
  "doApi_some e a b = (cbind (ext_call (os_addrinfo e)) (\<lambda>ok.
     if \<not> ok then doApi_error e a b
     else (cbind (upd_sobj a (\<lambda>s. s\<lparr>sAddrInfo := Some 0\<rparr>)) (\<lambda>_.
       cbind (ext_call (os_socket e)) (\<lambda>s.
       cbind (upd_sobj a (\<lambda>x. x\<lparr>sock := s\<rparr>)) (\<lambda>_.
       if s = None then doApi_error e a b
       else (cbind (ext_call (os_bind e)) (\<lambda>bound.
         if \<not> bound then doApi_error e a b
         else (cbind (ext_call (os_iocp e)) (\<lambda>port.
           if \<not> port then doApi_error e a b
           else doApi_connect e a b))))))))))"

definition doApi :: "ext \<Rightarrow> nat \<Rightarrow> (world, bool) cm" where
  "doApi e b = (cbind (allocSObj e) (\<lambda>ra.
     case ra of
       None \<Rightarrow> (cthen (API_Failed e b) ( ret False))
     | Some a \<Rightarrow> doApi_some e a b))"

section \<open>Ownership\<close>

lemma settles_API_Failed [settles_intros]: "settles b (API_Failed e b)"
  unfolding API_Failed_def by (intro settles_intros quiet_intros)

text \<open>The handler holds the client's buffer and socket, and the API socket \<open>a\<close>.\<close>

definition own2 :: "nat \<Rightarrow> nat \<Rightarrow> nat \<Rightarrow> nat set \<Rightarrow> nat set \<Rightarrow> world \<Rightarrow> bool" where
  "own2 b c a B S w \<longleftrightarrow> own b c B (insert a S) w \<and> a \<notin> S"

lemma own2_keep:
  assumes "\<And>B S. hoare (own b c B S) m (\<lambda>_. own b c B S) (\<lambda>_. own b c B S)"
  shows "hoare (own2 b c a B S) m (\<lambda>_. own2 b c a B S) (\<lambda>_. own2 b c a B S)"
proof (rule hoareI)
  fix w x w' assume "own2 b c a B S w" "m w = (Inr x, w')"
  then show "own2 b c a B S w'" using hoareD_Inr [OF assms] by (auto simp: own2_def)
next
  fix w x w' assume "own2 b c a B S w" "m w = (Inl x, w')"
  then show "own2 b c a B S w'" using hoareD_Inl [OF assms] by (auto simp: own2_def)
qed

lemmas own2_quiet = own2_keep [OF quiet_own]
lemmas own2_upd_sobj = own2_keep [OF upd_sobj_own]

lemma ConnMap_winv: "winv B S (w\<lparr>ConnMap := m\<rparr>) = winv B S w"
  by (rule winv_same) simp_all

lemma own_conn: "hoare (own b c B S) (InsertConn a) (\<lambda>_. own b c B S) (\<lambda>_. own b c B S)"
  "hoare (own b c B S) (RemoveConn a) (\<lambda>_. own b c B S) (\<lambda>_. own b c B S)"
  unfolding InsertConn_def RemoveConn_def
  by (rule hoare_bind [OF quiet_own [OF quiet_get_sobj]], rule hoare_modify,
      simp add: own_def ConnMap_winv)+

lemma own2_start:
  "hoare (own b c B S) (allocSObj e) (\<lambda>r w. case r of None \<Rightarrow> own b c B S w
     | Some a \<Rightarrow> own2 b c a B S w) (\<lambda>_. own b c B S)"
proof (rule hoareI)
  fix w r w' assume o: "own b c B S w" and r: "allocSObj e w = (Inr r, w')"
  have bufs: "bufs w' = bufs w"
    using r by (auto simp: allocSObj_def take_SObj_def cbind_def of_opt_def upd_sobj_def get_sobj_def
      split: if_splits option.splits sum.splits prod.splits)
  have "case r of None \<Rightarrow> winv (insert b B) (insert c S) w'
     | Some a \<Rightarrow> a \<notin> insert c S \<and> winv (insert b B) (insert a (insert c S)) w'"
    using hoareD_Inr [OF allocSObj_winv _ r] o by (simp add: own_def)
  then show "case r of None \<Rightarrow> own b c B S w' | Some a \<Rightarrow> own2 b c a B S w'"
    using o bufs by (auto simp: own_def own2_def insert_commute split: option.splits)
next
  fix w f w' assume o: "own b c B S w" and r: "allocSObj e w = (Inl f, w')"
  then show "own b c B S w'" using hoareD_Inl [OF allocSObj_winv _ r, of "insert b B" "insert c S"]
    by (simp add: own_def)
qed

lemma free_api_own: "hoare (own2 b c a B S) (free_api a) (\<lambda>_. own b c B S) (\<lambda>_. own b c B S)"
proof (cases "a \<in> insert c S")
  case True
  then show ?thesis by (auto simp: hoare_def own2_def own_def)
next
  case False
  show ?thesis
  proof (rule hoareI)
    fix w r w' assume o: "own2 b c a B S w" and r: "free_api a w = (Inr r, w')"
    have bufs: "bufs w' = bufs w"
      using r by (auto simp: free_api_def CSCloseSocket_def freeSObj_def cbind_def of_opt_def upd_sobj_def
        get_sobj_def split: if_splits option.splits sum.splits prod.splits)
    have "hoare (winv (insert b B) (insert a (insert c S))) (free_api a)
        (\<lambda>_. winv (insert b B) (insert c S)) no_fault"
      unfolding free_api_def
      by (rule hoare_bind [OF CSCloseSocket_held], simp, rule freeSObj_winv [OF False])
    from hoareD_Inr [OF this _ r] o bufs show "own b c B S w'"
      by (auto simp: own_def own2_def insert_commute)
  next
    fix w f w' assume o: "own2 b c a B S w" and r: "free_api a w = (Inl f, w')"
    have "hoare (winv (insert b B) (insert a (insert c S))) (free_api a)
        (\<lambda>_. winv (insert b B) (insert c S)) no_fault"
      unfolding free_api_def
      by (rule hoare_bind [OF CSCloseSocket_held], simp, rule freeSObj_winv [OF False])
    from hoareD_Inl [OF this _ r] o show "own b c B S w'"
      by (auto simp: own_def own2_def insert_commute)
  qed
qed

lemma own_of_own2: "own2 b c a B S w \<Longrightarrow> own b c B (insert a S) w"
  by (simp add: own2_def)

lemma doApi_error_own2:
  "hoare (own2 b c a B S) (doApi_error e a b) (\<lambda>_. winv B S) (exn (own b c B S))"
  unfolding doApi_error_def
proof (rule hoare_bind)
  show "hoare (own2 b c a B S) (free_api a) (\<lambda>_. own b c B S) (exn (own b c B S))"
    by (rule hoare_post [OF free_api_own]) (auto intro: exnI)
  show "hoare (own b c B S) (cthen (API_Failed e b) (ret False)) (\<lambda>_. winv B S) (exn (own b c B S))"
    by (intro settlesD settles_intros)
qed

text \<open>Operations that raise no C++ exception and keep the ownership of the three objects.\<close>

definition keeps2 :: "(world, 'a) cm \<Rightarrow> bool" where
  "keeps2 m \<longleftrightarrow> (\<forall>B S. hoare (winv B S) m (\<lambda>_. winv B S) (\<lambda>f _. \<not> is_exception f)) \<and>
     (\<forall>w r w'. m w = (r, w') \<longrightarrow> bufs w' = bufs w)"

lemma keeps2_Inr: "keeps2 m \<Longrightarrow> winv B S w \<Longrightarrow> m w = (Inr x, w') \<Longrightarrow> winv B S w'"
  unfolding keeps2_def by (blast dest: hoareD_Inr)

lemma keeps2_Inl: "keeps2 m \<Longrightarrow> winv B S w \<Longrightarrow> m w = (Inl g, w') \<Longrightarrow> \<not> is_exception g"
  unfolding keeps2_def by (blast dest: hoareD_Inl)

lemma keeps2_bufs: "keeps2 m \<Longrightarrow> m w = (r, w') \<Longrightarrow> bufs w' = bufs w"
  unfolding keeps2_def by blast

lemma keeps2_own2:
  assumes "keeps2 m"
  shows "hoare (own2 b c a B S) m (\<lambda>_. own2 b c a B S) (exn P)"
proof (rule hoareI)
  fix w x w' assume o: "own2 b c a B S w" and r: "m w = (Inr x, w')"
  then show "own2 b c a B S w'"
    using keeps2_Inr [OF assms _ r] keeps2_bufs [OF assms r] by (auto simp: own2_def own_def)
next
  fix w f w' assume o: "own2 b c a B S w" and r: "m w = (Inl f, w')"
  then show "exn P f w'"
    using keeps2_Inl [OF assms _ r] by (auto simp: own2_def own_def exn_def)
qed

lemma keeps2_ready:
  assumes "keeps2 m"
  shows "hoare (ready b c f a B S) m (\<lambda>_. ready b c f a B S) (exn P)"
proof (rule hoareI)
  fix w x w' assume o: "ready b c f a B S w" and r: "m w = (Inr x, w')"
  then show "ready b c f a B S w'"
    using keeps2_Inr [OF assms _ r] keeps2_bufs [OF assms r] by (auto simp: ready_def)
next
  fix w g w' assume o: "ready b c f a B S w" and r: "m w = (Inl g, w')"
  then show "exn P g w'"
    using keeps2_Inl [OF assms _ r] by (auto simp: ready_def exn_def)
qed

lemma keeps2_ext_call: "keeps2 (ext_call h)"
proof -
  have "winv B S (w\<lparr>tick := n\<rparr>) = winv B S w" for B S w n by (rule winv_same) simp_all
  then show ?thesis by (simp add: keeps2_def hoare_def)
qed

lemma keeps2_upd_sobj: "keeps2 (upd_sobj x f)"
  unfolding keeps2_def
proof (intro conjI allI impI)
  fix B S
  show "hoare (winv B S) (upd_sobj x f) (\<lambda>_. winv B S) (\<lambda>f _. \<not> is_exception f)"
  proof (rule hoareI)
    fix w r w' assume "winv B S w" "upd_sobj x f w = (Inr r, w')"
    then show "winv B S w'" using hoareD_Inr [OF upd_sobj_winv] by blast
  next
    fix w g w' assume "upd_sobj x f w = (Inl g, w')"
    then show "\<not> is_exception g"
      by (auto simp: upd_sobj_def get_sobj_def cbind_def of_opt_def split: option.splits)
  qed
qed (auto dest: upd_sobj_bufs)

lemma keeps2_conn: "keeps2 (InsertConn x)" "keeps2 (RemoveConn x)"
  by (auto simp: keeps2_def InsertConn_def RemoveConn_def hoare_def get_sobj_def cbind_def of_opt_def
      ConnMap_winv split: option.splits)

lemma keeps2_get: "keeps2 (get_buf x)" "keeps2 (get_sobj y)"
  by (auto simp: keeps2_def hoare_def get_buf_def get_sobj_def cbind_def of_opt_def split: option.splits)

lemma own2_set_fn:
  "hoare (own2 b c a B S) (upd_buf b (SetIoRequestFunction f))
     (\<lambda>_ w. a \<noteq> c \<and> ready b c f a B S w) (exn P)"
proof (rule hoareI)
  fix w x w' assume o: "own2 b c a B S w" and r: "upd_buf b (SetIoRequestFunction f) w = (Inr x, w')"
  then have "ready b c f c B (insert a S) w'"
    using hoareD_Inr [OF own_set_fn _ r] by (simp add: own2_def)
  then show "a \<noteq> c \<and> ready b c f a B S w'"
    using o by (auto simp: ready_def own2_def own_def insert_commute)
next
  fix w g w' assume o: "own2 b c a B S w" and r: "upd_buf b (SetIoRequestFunction f) w = (Inl g, w')"
  then show "exn P g w'" by (auto simp: own2_def own_def)
qed

lemma ready_own2: "ready b c f a B S w \<Longrightarrow> a \<noteq> c \<Longrightarrow> own2 b c a B S w"
  by (auto simp: ready_def own2_def own_def insert_commute)

lemma doApi_connect_own2:
  "hoare (own2 b c a B S) (doApi_connect e a b) (\<lambda>_. winv B S) (exn (own b c B S))"
proof (cases "a = c")
  case True
  then show ?thesis by (auto simp: hoare_def own2_def own_def)
next
  case False
  let ?E = "exn (own b c B S)" and ?R = "ready b c API_ConnectComp a B S"
  have set_fn: "hoare (own2 b c a B S) (upd_buf b (SetIoRequestFunction API_ConnectComp)) (\<lambda>_. ?R) ?E"
    by (rule hoare_post [OF own2_set_fn [where P = "own b c B S"]]) auto
  have fail: "hoare ?R (cbind (RemoveConn a) (\<lambda>_. doApi_error e a b)) (\<lambda>_. winv B S) ?E"
    by (rule hoare_bind [OF keeps2_ready [OF keeps2_conn(2)]],
        rule hoare_pre [OF doApi_error_own2]) (simp add: ready_own2 False)
  have post: "hoare ?R (cbind (post b (KSock a) r) (\<lambda>_. ret True)) (\<lambda>_. winv B S) ?E" for r
    by (rule hoare_bind [OF post_winv]) (simp_all add: False hoare_ret)
  show ?thesis unfolding doApi_connect_def GetRand_def
    by (intro hoare_bind [OF set_fn] hoare_bind [OF keeps2_ready] keeps2_upd_sobj keeps2_ext_call
        keeps2_conn keeps2_get hoare_if fail post hoare_throw) (simp add: exn_def)
qed

lemma settles_doApi [settles_intros]: "settles b (doApi e b)"
  unfolding settles_def
proof (intro allI)
  fix c B S
  let ?E = "exn (own b c B S)"
  have start: "hoare (own b c B S) (allocSObj e) (\<lambda>r w. case r of None \<Rightarrow> own b c B S w
     | Some a \<Rightarrow> own2 b c a B S w) ?E"
    by (rule hoare_post [OF own2_start]) (auto intro: exnI)
  have none: "hoare (own b c B S) (cthen (API_Failed e b) (ret False)) (\<lambda>_. winv B S) ?E"
    by (intro settlesD settles_intros)
  have some: "hoare (own2 b c a B S) (doApi_some e a b) (\<lambda>_. winv B S) ?E" for a
    unfolding doApi_some_def
    by (intro hoare_bind [OF keeps2_own2] keeps2_ext_call keeps2_upd_sobj hoare_if doApi_error_own2
        doApi_connect_own2)
  have branch: "hoare (\<lambda>w. case r of None \<Rightarrow> own b c B S w | Some a \<Rightarrow> own2 b c a B S w)
      (case r of None \<Rightarrow> cthen (API_Failed e b) (ret False) | Some a \<Rightarrow> doApi_some e a b)
      (\<lambda>_. winv B S) ?E" for r
    by (cases r) (simp_all add: none some)
  show "hoare (own b c B S) (doApi e b) (\<lambda>_. winv B S) ?E"
    unfolding doApi_def by (rule hoare_bind [OF start branch])
qed

end
