(* ===== verification/ApiRequests.thy ===== *)
theory ApiRequests
  imports ApiConn
begin

text \<open>
  \<open>doDisabledNumber.cpp\<close>, \<open>doCardStatus.cpp\<close>, \<open>doServActive.cpp\<close>, \<open>doPay2.cpp\<close>, \<open>doPoolList.cpp\<close>: the commands that
  are answered by the telecom operator. Each looks up the account, encrypts and signs the request with the
  DES component, writes an HTTP request line over the client's request and starts the call.
\<close>

section \<open>What the commands share\<close>

text \<open>\<open>_variant_t v = bobj->pRecorder->GetCollect(name)\<close> and \<open>(const char*)(_bstr_t)v\<close>.\<close>

definition collect :: "ext \<Rightarrow> nat \<Rightarrow> string \<Rightarrow> (world, variant) cm" where
  "collect e b name = (cbind (recorder b) (\<lambda>h.
     of_opt ComError (ado_get e h name)))"

definition bstr :: "ext \<Rightarrow> variant \<Rightarrow> (world, string) cm" where
  "bstr e v = of_opt ComError (map_option c_str (var_bstr e v))"

text \<open>\<open>key.substr(pos, 3)\<close> throws \<open>std::out_of_range\<close> when \<open>pos\<close> is beyond the end.\<close>

definition substr3 :: "string \<Rightarrow> nat \<Rightarrow> (world, string) cm" where
  "substr3 s pos = (if pos > length s then throw OtherExn else ret (take 3 (drop pos s)))"

definition substrings :: "string \<Rightarrow> (world, string list) cm" where
  "substrings key = (cbind (substr3 key 0) (\<lambda>k1.
     cbind (substr3 key 3) (\<lambda>k2.
     cbind (substr3 key 6) (\<lambda>k3.
     ret [k1, k2, k3]))))"

definition des :: "ext \<Rightarrow> string \<Rightarrow> string list \<Rightarrow> (world, string) cm" where
  "des e name args = of_opt ComError (des_call e name args)"

definition des_open :: "ext \<Rightarrow> (world, unit) cm" where
  "des_open e = (cbind (ext_call (des_create e)) (\<lambda>ok.
     if ok then ret () else throw ComError))"

text \<open>\<open>_stprintf_s(bobj->data, bobj->datalen, ...)\<close>, then \<open>dwRecvedCount = strlen(bobj->data)\<close>.\<close>

definition data_printf :: "ext \<Rightarrow> nat \<Rightarrow> string \<Rightarrow> farg list \<Rightarrow> (world, unit) cm" where
  "data_printf e b fmt args = (cbind (get_buf b) (\<lambda>o1.
     cbind (lift_fault (stprintf_s (fmt_double e) (nat (datalen o1)) fmt args)) (\<lambda>t.
     cbind (write_data b 0 (bytes_of t @ [0])) (\<lambda>_.
     upd_buf b (\<lambda>o'. o'\<lparr>dwRecvedCount := of_nat (length (c_str t))\<rparr>)))))"

text \<open>
  The account: user id, password and key of a telecom account, the encrypted password and the parts
  of the key. \<open>None\<close>: the account is not found.
\<close>

record account =
  acc_userid :: variant
  acc_pwd :: string
  acc_enc :: string
  acc_keys :: "string list"

definition account :: "ext \<Rightarrow> string \<Rightarrow> string \<Rightarrow> nat \<Rightarrow> (world, account option) cm" where
  "account e pSql dxzh b = (cbind (sprintf_s e 256 pSql [FS dxzh]) (\<lambda>sql.
     cbind (ado_select e sql b) (\<lambda>ok.
     if \<not> ok then ret None
     else (cbind (collect e b ''userid'') (\<lambda>var_userid.
       cbind (collect e b ''pwd'') (\<lambda>var_pwd.
       cbind (collect e b ''skey'') (\<lambda>var_key.
       cbind (bstr e var_key) (\<lambda>key.
       cbind (des_open e) (\<lambda>_.
       cbind (substrings key) (\<lambda>keys.
       cbind (bstr e var_pwd) (\<lambda>pwd.
       cbind (des e ''strEnc'' (pwd # keys)) (\<lambda>varPwd.
       ret (Some \<lparr>acc_userid = var_userid, acc_pwd = pwd, acc_enc = varPwd, acc_keys = keys\<rparr>)))))))))))))"

definition ACCOUNT_LIKE :: string where
  "ACCOUNT_LIKE = (sq ''SELECT userid,pwd,skey FROM dxzh_tbl WHERE dxzh LIKE `%%%s%%`'')"

definition ACCOUNT_EQ :: string where
  "ACCOUNT_EQ = (sq ''SELECT userid,pwd,skey FROM dxzh_tbl WHERE dxzh=`%s`'')"

text \<open>
  The command with the account: \<open>sign\<close> makes the signature and \<open>request\<close> the arguments of the request line.
\<close>

definition api_command :: "ext \<Rightarrow> string \<Rightarrow> string \<Rightarrow> string \<Rightarrow>
    (account \<Rightarrow> string \<Rightarrow> (world, string) cm) \<Rightarrow> (string \<Rightarrow> string \<Rightarrow> string \<Rightarrow> farg list) \<Rightarrow> nat \<Rightarrow> (world, unit) cm" where
  "api_command e pSql dxzh pData sign request b = (cbind (account e pSql dxzh b) (\<lambda>ra.
     case ra of
       None \<Rightarrow> API_Failed e b
     | Some acc \<Rightarrow> (cbind (bstr e (acc_userid acc)) (\<lambda>userid.
       cbind (sign acc userid) (\<lambda>varSign.
       cbind (data_printf e b pData (request userid (acc_enc acc) varSign)) (\<lambda>_.
       cthen (doApi e b) (
       ret ())))))))"

text \<open>\<open>bobj->strJrhm\<close> and the account, the two fields of the number commands.\<close>

definition rd_number :: "ext \<Rightarrow> mobj list \<Rightarrow> nat \<Rightarrow> (world, string \<times> string) cm" where
  "rd_number e ms b = (cbind (rd_row ms) (\<lambda>(d, r).
     cbind (rd_str e d) (\<lambda>(jrhm, d).
     cbind (upd_buf b (\<lambda>o'. o'\<lparr>strJrhm := jrhm\<rparr>)) (\<lambda>_.
     cbind (rd_str e d) (\<lambda>(dxzh, d).
     ret (jrhm, dxzh))))))"

definition rd_two :: "ext \<Rightarrow> mobj list \<Rightarrow> nat \<Rightarrow> (world, int \<times> mobj list) cm" where
  "rd_two e args b = (cbind (sub_cmd e args b) (\<lambda>(cmd, ms).
     cbind (rd_int e ms) (\<lambda>(k, ms).
     cbind (upd_buf b (\<lambda>o'. o'\<lparr>nSubSubCmd := k\<rparr>)) (\<lambda>_.
     ret (cmd, ms)))))"

section \<open>\<open>doDisabledNumber.cpp\<close>\<close>

definition DoDisNumData :: "ext \<Rightarrow> mobj list \<Rightarrow> nat \<Rightarrow> string \<Rightarrow> string \<Rightarrow> (world, unit) cm" where
  "DoDisNumData e ms b pData orderTypeId = (cbind (rd_number e ms b) (\<lambda>(jrhm, dxzh).
     api_command e ACCOUNT_LIKE dxzh pData
       (\<lambda>acc userid. des e ''strEncSign6''
          ([c_str jrhm, userid, acc_pwd acc, ''disabledNumber'', '''', orderTypeId] @ acc_keys acc))
       (\<lambda>userid varPwd varSign. [FS userid, FS jrhm, FS varPwd, FS varSign]) b))"

definition DN_FORMAT :: "string \<Rightarrow> string" where
  "DN_FORMAT t = ''GET /m2m_ec/query.do?method=disabledNumber&user_id=%s&access_number=%s&acctCd=&passWord=%s&sign=%s&orderTypeId='' @
     t @ [CHR 0x0D, CHR 0x0A, CHR 0x0D, CHR 0x0A]"

definition doDisabledNumber :: "ext \<Rightarrow> mobj list \<Rightarrow> nat \<Rightarrow> (world, bool) cm" where
  "doDisabledNumber e args b = (cbind (rd_two e args b) (\<lambda>(cmd, ms).
     cbind (upd_buf b (\<lambda>o'. o'\<lparr>pfndoApiResponse := Some doDisNumberResponse\<rparr>)) (\<lambda>_.
     if cmd = 1 then (cthen (DoDisNumData e ms b (DN_FORMAT ''19'') ''19'') ( ret True))
     else if cmd = 2 then (cthen (DoDisNumData e ms b (DN_FORMAT ''20'') ''20'') ( ret True))
     else ret True)))"

section \<open>\<open>doCardStatus.cpp\<close> and \<open>doServActive.cpp\<close>\<close>

text \<open>
  Neither command is dispatched. Their request lines name the number (or the ICCID) first and the user
  second, the arguments come in the other order.
\<close>

definition DoCSData :: "ext \<Rightarrow> mobj list \<Rightarrow> nat \<Rightarrow> string \<Rightarrow> (world, unit) cm" where
  "DoCSData e ms b pData = (cbind (rd_number e ms b) (\<lambda>(jrhm, dxzh).
     api_command e ACCOUNT_LIKE dxzh pData
       (\<lambda>acc userid. des e ''strEncSign4''
          ([c_str jrhm, userid, acc_pwd acc, ''queryCardStatus''] @ acc_keys acc))
       (\<lambda>userid varPwd varSign. [FS userid, FS jrhm, FS varPwd, FS varSign]) b))"

definition CS_FORMAT :: "string \<Rightarrow> string" where
  "CS_FORMAT t = ''GET /m2m_ec/query.do?method=queryCardStatus&'' @ t @ ''=%s&user_id=%s&passWord=%s&sign=%s'' @
     [CHR 0x0D, CHR 0x0A, CHR 0x0D, CHR 0x0A]"

definition doCardStatus :: "ext \<Rightarrow> mobj list \<Rightarrow> nat \<Rightarrow> (world, bool) cm" where
  "doCardStatus e args b = (cbind (rd_two e args b) (\<lambda>(cmd, ms).
     cbind (upd_buf b (\<lambda>o'. o'\<lparr>pfndoApiResponse := Some doCardStatusResponse\<rparr>)) (\<lambda>_.
     if cmd = 1 then (cthen (DoCSData e ms b (CS_FORMAT ''access_number'')) ( ret True))
     else if cmd = 2 then (cthen (DoCSData e ms b (CS_FORMAT ''iccid'')) ( ret True))
     else ret True)))"

definition DoServActiveData :: "ext \<Rightarrow> mobj list \<Rightarrow> nat \<Rightarrow> string \<Rightarrow> (world, unit) cm" where
  "DoServActiveData e ms b pData = (cbind (rd_number e ms b) (\<lambda>(jrhm, dxzh).
     api_command e ACCOUNT_EQ dxzh pData
       (\<lambda>acc userid. des e ''strEncSign4''
          ([c_str jrhm, userid, acc_pwd acc, ''requestServActive''] @ acc_keys acc))
       (\<lambda>userid varPwd varSign. [FS userid, FS jrhm, FS varPwd, FS varSign]) b))"

definition SA_FORMAT :: "string \<Rightarrow> string" where
  "SA_FORMAT t = ''GET /m2m_ec/query.do?method=requestServActive&'' @ t @ ''=%s&user_id=%s&passWord=%s&sign=%s'' @
     [CHR 0x0D, CHR 0x0A, CHR 0x0D, CHR 0x0A]"

definition doServActive :: "ext \<Rightarrow> mobj list \<Rightarrow> nat \<Rightarrow> (world, bool) cm" where
  "doServActive e args b = (cbind (sub_cmd e args b) (\<lambda>(cmd, ms).
     cbind (upd_buf b (\<lambda>o'. o'\<lparr>pfndoApiResponse := Some doServActiveResponse\<rparr>)) (\<lambda>_.
     if cmd = 1 then (cthen (DoServActiveData e ms b (SA_FORMAT ''access_number'')) ( ret True))
     else if cmd = 2 then (cthen (DoServActiveData e ms b (SA_FORMAT ''iccid'')) ( ret True))
     else ret True)))"

section \<open>\<open>doPay2.cpp\<close>\<close>

text \<open>
  The payment command, not dispatched either: the bank, the amount, the kind of funds and the callback
  address are empty strings, and four arguments are given for the nine \<open>%s\<close> of the request line.
\<close>

definition order_number :: "ext \<Rightarrow> (world, string) cm" where
  "order_number e = (cbind (ext_call (os_time e)) (\<lambda>st.
     sprintf_s e 64 ''1025%04d%02d%02d%02d%02d%02d%03d%03d''
       [FD (int (wYear st)), FD (int (wMonth st)), FD (int (wDay st)), FD (int (wHour st)),
        FD (int (wMinute st)), FD (int (wSecond st)), FD (int (wMilliseconds st)), FD (int (wMilliseconds st))]))"

definition DoPay2Data :: "ext \<Rightarrow> mobj list \<Rightarrow> nat \<Rightarrow> string \<Rightarrow> (world, unit) cm" where
  "DoPay2Data e ms b pData = (cbind (rd_number e ms b) (\<lambda>(jrhm, dxzh).
     api_command e ACCOUNT_EQ dxzh pData
       (\<lambda>acc userid. (cbind (order_number e) (\<lambda>order.
          des e ''strEncSign9''
            ([c_str jrhm, userid, acc_pwd acc, ''pay2'', order, '''', '''', '''', ''''] @ acc_keys acc))))
       (\<lambda>userid varPwd varSign. [FS userid, FS jrhm, FS varPwd, FS varSign]) b))"

definition PAY2_FORMAT :: string where
  "PAY2_FORMAT = ''GET /m2m_ec/app/pay.do?method=pay2&user_id=%s&passWord=%s&sub_bank_id=%s&pay_money=%s&order_number=%s&funds_type=1&access_number=%s&sign=%s&callbackURL=%s&callURL=%s'' @
     [CHR 0x0D, CHR 0x0A, CHR 0x0D, CHR 0x0A]"

definition doPay2 :: "ext \<Rightarrow> mobj list \<Rightarrow> nat \<Rightarrow> (world, bool) cm" where
  "doPay2 e args b = (cbind (sub_cmd e args b) (\<lambda>(cmd, ms).
     cbind (upd_buf b (\<lambda>o'. o'\<lparr>pfndoApiResponse := None\<rparr>)) (\<lambda>_.
     if cmd = 1 then (cthen (DoPay2Data e ms b PAY2_FORMAT) ( ret True))
     else if cmd = 2 then (cthen (DoPay2Data e ms b (SA_FORMAT ''iccid'')) ( ret True))
     else ret True)))"

section \<open>\<open>doPoolList.cpp\<close>\<close>

definition PL_FORMAT :: "string \<Rightarrow> string \<Rightarrow> string" where
  "PL_FORMAT method rest = ''GET /m2m_ec/query.do?method='' @ method @ ''&user_id=%s&passWord=%s&sign=%s'' @ rest @
     [CHR 0x0D, CHR 0x0A, CHR 0x0D, CHR 0x0A]"

definition PL_GET_LIST :: "ext \<Rightarrow> mobj list \<Rightarrow> nat \<Rightarrow> (world, unit) cm" where
  "PL_GET_LIST e ms b = (cbind (upd_buf b (\<lambda>o'. o'\<lparr>pfndoApiResponse := Some doPoolList01Response\<rparr>)) (\<lambda>_.
     cbind (rd_row ms) (\<lambda>(d, r).
     cbind (rd_str e d) (\<lambda>(dxzh, d).
     api_command e ACCOUNT_EQ dxzh (PL_FORMAT ''getPoolList'' '''')
       (\<lambda>acc userid. des e ''strEncSign3'' ([userid, acc_pwd acc, ''getPoolList''] @ acc_keys acc))
       (\<lambda>userid varPwd varSign. [FS userid, FS varPwd, FS varSign]) b))))"

definition PL_LLC_INFO :: "ext \<Rightarrow> mobj list \<Rightarrow> nat \<Rightarrow> (world, unit) cm" where
  "PL_LLC_INFO e ms b = (cbind (upd_buf b (\<lambda>o'. o'\<lparr>pfndoApiResponse := Some doPoolList02Response\<rparr>)) (\<lambda>_.
     cbind (rd_row ms) (\<lambda>(d, r).
     cbind (rd_str e d) (\<lambda>(strLlchm, d).
     cbind (rd_str e d) (\<lambda>(strCurrentPage, d).
     cbind (rd_str e d) (\<lambda>(dxzh, d).
     api_command e ACCOUNT_EQ dxzh (PL_FORMAT ''getPoolMemberList'' ''&poolNbr=%s&currentPage=%s'')
       (\<lambda>acc userid. des e ''strEncSign5''
          ([userid, acc_pwd acc, ''getPoolMemberList'', c_str strLlchm, c_str strCurrentPage] @ acc_keys acc))
       (\<lambda>userid varPwd varSign. [FS userid, FS varPwd, FS varSign, FS strLlchm, FS strCurrentPage]) b))))))"

definition PL_LLC_POOLQRY :: "ext \<Rightarrow> mobj list \<Rightarrow> nat \<Rightarrow> (world, unit) cm" where
  "PL_LLC_POOLQRY e ms b = (cbind (upd_buf b (\<lambda>o'. o'\<lparr>pfndoApiResponse := Some doPoolList03Response\<rparr>)) (\<lambda>_.
     cbind (rd_row ms) (\<lambda>(d, r).
     cbind (rd_str e d) (\<lambda>(strLlchm, d).
     cbind (rd_str e d) (\<lambda>(dxzh, d).
     api_command e ACCOUNT_EQ dxzh (PL_FORMAT ''poolQry'' ''&poolNbr=%s'')
       (\<lambda>acc userid. des e ''strEncSign4'' ([userid, acc_pwd acc, ''poolQry'', c_str strLlchm] @ acc_keys acc))
       (\<lambda>userid varPwd varSign. [FS userid, FS varPwd, FS varSign, FS strLlchm]) b)))))"

definition doGetPoolList :: "ext \<Rightarrow> mobj list \<Rightarrow> nat \<Rightarrow> (world, bool) cm" where
  "doGetPoolList e args b = (cbind (rd_two e args b) (\<lambda>(cmd, ms).
     if cmd = 1 then (cthen (PL_GET_LIST e ms b) ( ret True))
     else if cmd = 2 then (cthen (PL_LLC_INFO e ms b) ( ret True))
     else if cmd = 3 then (cthen (PL_LLC_POOLQRY e ms b) ( ret True))
     else ret True))"

text \<open>\<open>DoPLData\<close>, the general form of \<open>PL_GET_LIST\<close>, whose only call is commented out.\<close>

definition DoPLData :: "ext \<Rightarrow> mobj list \<Rightarrow> nat \<Rightarrow> string \<Rightarrow> string \<Rightarrow> (world, unit) cm" where
  "DoPLData e ms b pData method = (cbind (rd_row ms) (\<lambda>(d, r).
     cbind (rd_str e d) (\<lambda>(dxzh, d).
     api_command e ACCOUNT_EQ dxzh pData
       (\<lambda>acc userid. des e ''strEncSign3'' ([userid, acc_pwd acc, c_str method] @ acc_keys acc))
       (\<lambda>userid varPwd varSign. [FS userid, FS varPwd, FS varSign]) b)))"

section \<open>Ownership\<close>

lemma quiet_api [quiet_intros]:
  "quiet b (collect e b' name)" "quiet b (bstr e v)" "quiet b (substr3 s pos)" "quiet b (substrings key)"
  "quiet b (des e name args)" "quiet b (des_open e)" "quiet b (order_number e)"
  unfolding collect_def bstr_def substr3_def substrings_def des_def des_open_def order_number_def
  by (intro quiet_intros)+

lemma quiet_data_printf [quiet_intros]: "quiet b (data_printf e b fmt args)"
  unfolding data_printf_def by (intro quiet_intros) simp

lemma quiet_account [quiet_intros]: "quiet b (account e pSql dxzh b)"
  unfolding account_def by (intro quiet_intros)

lemma quiet_rd_number [quiet_intros]: "quiet b (rd_number e ms b)" "quiet b (rd_two e ms b)"
  unfolding rd_number_def rd_two_def by (intro quiet_intros; simp)+

lemma settles_api_command [settles_intros]:
  "(\<And>acc userid. quiet b (sign acc userid)) \<Longrightarrow> settles b (api_command e pSql dxzh pData sign request b)"
  unfolding api_command_def by (intro settles_intros quiet_intros) assumption

lemma settles_api_commands [settles_intros]:
  "settles b (DoDisNumData e ms b pData orderTypeId)" "settles b (DoCSData e ms b pData)"
  "settles b (DoServActiveData e ms b pData)" "settles b (DoPay2Data e ms b pData)"
  "settles b (PL_GET_LIST e ms b)" "settles b (PL_LLC_INFO e ms b)" "settles b (PL_LLC_POOLQRY e ms b)"
  "settles b (DoPLData e ms b pData method)"
  unfolding DoDisNumData_def DoCSData_def DoServActiveData_def DoPay2Data_def PL_GET_LIST_def
    PL_LLC_INFO_def PL_LLC_POOLQRY_def DoPLData_def
  by (intro settles_intros quiet_intros; simp)+

lemma leaves_doDisabledNumber: "leaves b (doDisabledNumber e args b)"
  unfolding doDisabledNumber_def
  by (intro leaves_bind leaves_prod leaves_if leaves_settles [OF settles_cthen]
      settles_api_commands epilogue_ret leaves_quiet quiet_intros) simp

lemma leaves_doGetPoolList: "leaves b (doGetPoolList e args b)"
  unfolding doGetPoolList_def
  by (intro leaves_bind leaves_prod leaves_if leaves_settles [OF settles_cthen]
      settles_api_commands epilogue_ret leaves_quiet quiet_intros)

end
