(* ===== verification/ProcessCommand.thy ===== *)
theory ProcessCommand
  imports UserData SimData KhData KhjlData TableData ExcelLoad ApiRequests
begin

text \<open>
  \<open>ProcessCommand.cpp\<close>: a complete frame has been received; its payload is decoded and handed to the
  handler of its first element. Every C++ exception of a handler becomes the reply \<open>bb bb 0\<close>.
\<close>

section \<open>The dispatcher\<close>

text \<open>\<open>None\<close> is the jump to \<open>error\<close>: no object, or not an array.\<close>

definition request_args :: "ext \<Rightarrow> nat \<Rightarrow> (world, mobj list option) cm" where
  "request_args e b = (cbind (get_buf b) (\<lambda>o1.
     if length (bdata o1) < 6 + unat (dwRecvedCount o1) then throw Undefined
     else case mp_unpack e (take (unat (dwRecvedCount o1)) (drop 6 (bdata o1))) of
       UnpError \<Rightarrow> throw UnpackError
     | UnpMore \<Rightarrow> ret None
     | UnpObj m \<Rightarrow> ret (elems m)))"

definition dispatch :: "ext \<Rightarrow> int \<Rightarrow> mobj list \<Rightarrow> nat \<Rightarrow> (world, bool) cm" where
  "dispatch e cmd args b =
     (if cmd = 0x01 then doUserData e args b
      else if cmd = 0x02 then doSimData e args b
      else if cmd = 0x03 then doKhData e args b
      else if cmd = 0x04 then doKhjlData e args b
      else if cmd = 0x05 then doLlcData e args b
      else if cmd = 0x06 then doLltcData e args b
      else if cmd = 0x07 then doDxzhData e args b
      else if cmd = 0x08 then doExcelLoad e args b
      else if cmd = 0x09 then doSsdqData e args b
      else if cmd = 0x10 then doDisabledNumber e args b
      else if cmd = 0x12 then doGetPoolList e args b
      else ret True)"

definition run_command :: "ext \<Rightarrow> mobj list \<Rightarrow> nat \<Rightarrow> (world, bool) cm" where
  "run_command e args b = (cbind (rd_int e args) (\<lambda>(cmd, r).
     cbind (upd_buf b (\<lambda>o'. o'\<lparr>nCmd := cmd\<rparr>)) (\<lambda>_.
     dispatch e cmd args b)))"

definition try_command :: "ext \<Rightarrow> nat \<Rightarrow> (world, bool) cm" where
  "try_command e b = (cbind (request_args e b) (\<lambda>ra.
     case ra of
       None \<Rightarrow> ret False
     | Some args \<Rightarrow> (cthen (run_command e args b) ( ret True))))"

definition error_reply :: "ext \<Rightarrow> nat \<Rightarrow> (world, bool) cm" where
  "error_reply e b = (cbind (upd_buf b (\<lambda>o'. o'\<lparr>nCmd := 0xbb, nSubCmd := 0xbb\<rparr>)) (\<lambda>_.
     cthen (DealTail e [pack_array 3, TInt 0xbb, TInt 0xbb, TInt 0] b) (
     ret False)))"

definition ProcessCommand :: "ext \<Rightarrow> nat \<Rightarrow> (world, bool) cm" where
  "ProcessCommand e b = (cbind (catch (try_command e b) is_exception (ret False)) (\<lambda>ok.
     if ok then ret True else error_reply e b))"

section \<open>Which commands are answered\<close>

text \<open>The pairs of command and sub-command that have a handler and end with one reply.\<close>

definition answered :: "int \<Rightarrow> int \<Rightarrow> bool" where
  "answered cmd sub \<longleftrightarrow>
     (cmd, sub) \<in> {(1, 1), (1, 2), (1, 3), (2, 1), (2, 3)} \<or>
     cmd = 3 \<and> 1 \<le> sub \<and> sub \<le> 11 \<or> cmd = 4 \<and> 1 \<le> sub \<and> sub \<le> 5 \<or>
     cmd \<in> {5, 6, 7, 9} \<and> sub \<in> {1, 2} \<or> cmd = 8 \<and> 1 \<le> sub \<and> sub \<le> 6 \<or>
     cmd = 0x10 \<and> sub \<in> {1, 2} \<or> cmd = 0x12 \<and> 1 \<le> sub \<and> sub \<le> 3"

text \<open>A request as the decoder sees it in the buffer of a connection; the requests that are dropped without a
  reply; the list of the SIM cards, which replies twice.\<close>

definition request_of :: "ext \<Rightarrow> buf \<Rightarrow> mobj list option" where
  "request_of e o' = (case mp_unpack e (take (unat (dwRecvedCount o')) (drop 6 (bdata o'))) of
     UnpObj m \<Rightarrow> elems m | _ \<Rightarrow> None)"

definition commands :: "int list" where
  "commands = [1, 2, 3, 4, 5, 6, 7, 8, 9, 0x10, 0x12]"

definition no_reply :: "ext \<Rightarrow> buf \<Rightarrow> bool" where
  "no_reply e o' = (case request_of e o' of Some (m # ms) \<Rightarrow> (case mp_int e m of None \<Rightarrow> False
     | Some c \<Rightarrow> c \<notin> set commands \<or> (case ms of [] \<Rightarrow> False
     | x # _ \<Rightarrow> (case mp_int e x of None \<Rightarrow> False | Some s \<Rightarrow> \<not> answered c s))) | _ \<Rightarrow> False)"

definition sim_list :: "ext \<Rightarrow> buf \<Rightarrow> bool" where
  "sim_list e o' = (case request_of e o' of Some (m # x # _) \<Rightarrow> mp_int e m = Some 2 \<and> mp_int e x = Some 2
     | _ \<Rightarrow> False)"

section \<open>Ownership\<close>

lemma quiet_request_args [quiet_intros]: "quiet b (request_args e b)"
  unfolding request_args_def
  by (intro quiet_intros, auto split: unpack_result.split simp del: ret_app intro!: quiet_intros)

lemma settles_error_reply [settles_intros]: "settles b (error_reply e b)"
  unfolding error_reply_def by (intro settles_intros quiet_intros) simp

lemma settles_sub_cmd:
  assumes "1 < length args" "mp_int e (args ! 1) = Some s" "\<And>ms. settles b (f (s, ms))"
  shows "settles b (cbind (sub_cmd e args b) f)"
proof -
  have "drop 1 args = args ! 1 # drop 2 args"
    using assms(1) Cons_nth_drop_Suc [of 1 args] by (simp add: numeral_2_eq_2)
  then have "sub_cmd e args b = cbind (upd_buf b (\<lambda>o'. o'\<lparr>nSubCmd := s\<rparr>)) (\<lambda>_. ret (s, drop 2 args))"
    using assms(2) by (simp add: sub_cmd_def rd_int_def rd_def)
  then show ?thesis
    by (simp add: cbind_assoc) (intro settles_intros quiet_intros assms(3), simp)
qed

lemma settles_two:
  assumes "1 < length args" "mp_int e (args ! 1) = Some s" "\<And>ms. settles b (f (s, ms))"
  shows "settles b (cbind (rd_two e args b) f)"
proof -
  have "settles b (cbind (case x of (k, ms) \<Rightarrow> cbind (upd_buf b (nSubSubCmd_update (\<lambda>_. k)))
      (\<lambda>_. ret (s, ms))) f)" for x :: "int \<times> mobj list"
    by (cases x, simp add: cbind_assoc) (intro settles_bind quiet_intros assms(3), simp)
  then show ?thesis unfolding rd_two_def cbind_assoc
    by (intro settles_sub_cmd [OF assms(1,2)]) (simp add: cbind_assoc rd_int_def settles_bind quiet_rd)
qed

lemma settles_answered:
  assumes "1 < length args" "mp_int e (args ! 1) = Some s" "answered cmd s"
  shows "settles b (dispatch e cmd args b)"
proof -
  note unfold = doUserData_def doSimData_def doKhData_def doKhjlData_def doLlcData_def doLltcData_def
    doDxzhData_def doExcelLoad_def doSsdqData_def doDisabledNumber_def doGetPoolList_def
  consider "cmd = 1" "s \<in> {1, 2, 3}" | "cmd = 2" "s \<in> {1, 3}" | "cmd = 3" "1 \<le> s" "s \<le> 11"
    | "cmd = 4" "1 \<le> s" "s \<le> 5" | "cmd = 5" "s \<in> {1, 2}" | "cmd = 6" "s \<in> {1, 2}" | "cmd = 7" "s \<in> {1, 2}"
    | "cmd = 9" "s \<in> {1, 2}" | "cmd = 8" "1 \<le> s" "s \<le> 6" | "cmd = 0x10" "s \<in> {1, 2}"
    | "cmd = 0x12" "1 \<le> s" "s \<le> 3"
    using assms(3) by (auto simp: answered_def)
  then show ?thesis
  proof cases
    case 1
    then show ?thesis
      by (auto simp: dispatch_def doUserData_def intro!: settles_sub_cmd [OF assms(1,2)] settles_user)
  next
    case 2
    then show ?thesis
      by (auto simp: dispatch_def doSimData_def intro!: settles_sub_cmd [OF assms(1,2)] settles_sim)
  next
    case 3
    then have "s \<in> {1, 2, 3, 4, 5, 6, 7, 8, 9, 10, 11}" by (simp, presburger)
    with 3 show ?thesis
      by (auto simp: dispatch_def doKhData_def intro!: settles_sub_cmd [OF assms(1,2)] settles_kh)
  next
    case 4
    then have "s \<in> {1, 2, 3, 4, 5}" by (simp, presburger)
    with 4 show ?thesis
      by (auto simp: dispatch_def doKhjlData_def intro!: settles_sub_cmd [OF assms(1,2)] settles_khjl)
  next
    case 5
    then show ?thesis
      by (auto simp: dispatch_def doLlcData_def intro!: settles_sub_cmd [OF assms(1,2)] settles_llc)
  next
    case 6
    then show ?thesis
      by (auto simp: dispatch_def doLltcData_def intro!: settles_sub_cmd [OF assms(1,2)] settles_lltc)
  next
    case 7
    then show ?thesis
      by (auto simp: dispatch_def doDxzhData_def intro!: settles_sub_cmd [OF assms(1,2)] settles_dxzh)
  next
    case 8
    then show ?thesis
      by (auto simp: dispatch_def doSsdqData_def intro!: settles_sub_cmd [OF assms(1,2)] settles_ssdq)
  next
    case 9
    then have "s \<in> {1, 2, 3, 4, 5, 6}" by (simp, presburger)
    with 9 show ?thesis
      by (auto simp: dispatch_def doExcelLoad_def intro!: settles_sub_cmd [OF assms(1,2)] settles_bind
          quiet_intros settles_excel)
  next
    case 10
    then show ?thesis
      by (auto simp: dispatch_def doDisabledNumber_def intro!: settles_two [OF assms(1,2)] settles_bind
          quiet_intros settles_cthen epilogue_ret settles_api_commands)
  next
    case 11
    then have "s \<in> {1, 2, 3}" by (simp, presburger)
    with 11 show ?thesis
      by (auto simp: dispatch_def doGetPoolList_def intro!: settles_two [OF assms(1,2)]
          settles_cthen epilogue_ret settles_api_commands)
  qed
qed

text \<open>The state after the handler: the connection has been disposed of, or is still held, or a C++ exception
  left it held.\<close>

lemma settles_run_command:
  assumes "1 < length args" "mp_int e (args ! 0) = Some c" "mp_int e (args ! 1) = Some s" "answered c s"
  shows "settles b (run_command e args b)"
proof -
  obtain ms where "args = args ! 0 # ms" using assms(1) by (cases args) auto
  then have "rd_int e args = ret (c, ms)" using assms(2)
    by (metis (no_types, lifting) list.simps(5) option.simps(5) rd_def rd_int_def)
  then show ?thesis unfolding run_command_def
    by simp (intro settles_bind quiet_intros settles_answered [OF assms(1,3,4)], simp)
qed

lemma hoare_catch:
  assumes "hoare P m Q (\<lambda>f w. if p f then R w else E f w)" "hoare R h Q E"
  shows "hoare P (catch m p h) Q E"
proof -
  have "case catch m p h s of (Inl f, s') \<Rightarrow> E f s' | (Inr x, s') \<Rightarrow> Q x s'" if s: "P s" for s
  proof -
    obtain r s' where m: "m s = (r, s')" by fastforce
    show ?thesis
    proof (cases r)
      case (Inl f)
      then show ?thesis
        using m hoareD_Inl [OF assms(1) s] assms(2) by (cases "p f") (simp_all add: catch_def hoare_def)
    next
      case (Inr x)
      then show ?thesis using m hoareD_Inr [OF assms(1) s] by (simp add: catch_def)
    qed
  qed
  then show ?thesis by (simp add: hoare_def)
qed

lemma hoare_catch_settled:
  assumes "hoare P (try_command e b) (\<lambda>ok w. if ok then Q w else own b c B S w) (exn (own b c B S))"
  shows "hoare P (catch (try_command e b) is_exception (ret False))
     (\<lambda>ok w. if ok then Q w else own b c B S w) (exn (own b c B S))"
  by (rule hoare_catch [where R = "own b c B S"], rule hoare_post [OF assms])
    (auto simp: exn_def hoare_def)

lemma ProcessCommand_hoare:
  assumes "hoare P (try_command e b) (\<lambda>ok w. if ok then Q w else own b c B S w) (exn (own b c B S))"
    and "\<And>w. winv B S w \<Longrightarrow> Q w"
  shows "hoare P (ProcessCommand e b) (\<lambda>_. Q) (exn (own b c B S))"
  unfolding ProcessCommand_def
proof (rule hoare_bind [OF hoare_catch_settled [OF assms(1)]])
  fix ok :: bool
  have "hoare (own b c B S) (error_reply e b) (\<lambda>_. Q) (exn (own b c B S))"
    by (rule hoare_post [OF settlesD [OF settles_error_reply]]) (auto intro: assms(2))
  then show "hoare (\<lambda>w. if ok then Q w else own b c B S w) (if ok then ret True else error_reply e b)
      (\<lambda>_. Q) (exn (own b c B S))"
    by (cases ok) (simp_all add: hoare_ret)
qed

lemma request_args_run: "request_args e b w = (r, w') \<Longrightarrow> bufs w b = Some o' \<Longrightarrow>
     w' = w \<and> (\<forall>ra. r = Inr ra \<longrightarrow> ra = request_of e o')"
  by (auto simp: request_args_def get_buf_def cbind_def request_of_def split: if_splits unpack_result.splits)

lemma try_command_hoare:
  assumes run: "\<And>args. request_of e o' = Some args \<Longrightarrow>
     hoare (own b c B S) (run_command e args b) (\<lambda>_. Q) (exn (own b c B S))"
  shows "hoare (\<lambda>w. own b c B S w \<and> bufs w b = Some o') (try_command e b)
     (\<lambda>ok w. if ok then Q w else own b c B S w) (exn (own b c B S))"
  unfolding try_command_def
proof (rule hoare_bind)
  show "hoare (\<lambda>w. own b c B S w \<and> bufs w b = Some o') (request_args e b)
      (\<lambda>ra w. own b c B S w \<and> ra = request_of e o') (exn (own b c B S))"
    by (rule hoareI) (auto dest: request_args_run intro: exnI)
next
  fix ra
  show "hoare (\<lambda>w. own b c B S w \<and> ra = request_of e o')
      (case ra of None \<Rightarrow> ret False | Some args \<Rightarrow> cthen (run_command e args b) (ret True))
      (\<lambda>ok w. if ok then Q w else own b c B S w) (exn (own b c B S))"
  proof (cases "ra = request_of e o'")
    case False
    then show ?thesis by (simp add: hoare_def)
  next
    case True
    have "hoare (own b c B S) (cthen (run_command e args b) (ret True))
        (\<lambda>ok w. if ok then Q w else own b c B S w) (exn (own b c B S))" if "ra = Some args" for args
      unfolding cthen_def by (rule hoare_bind [OF run]) (use that True in \<open>simp_all add: hoare_ret\<close>)
    then show ?thesis by (cases ra) (simp_all add: True hoare_ret)
  qed
qed

lemma rd_int_cases:
  obtains "args = []" "rd_int e args = throw Undefined"
  | m ms where "args = m # ms" "mp_int e m = None" "rd_int e args = throw TypeError"
  | m ms c where "args = m # ms" "mp_int e m = Some c" "rd_int e args = ret (c, ms)"
proof (cases args)
  case (Cons m ms)
  then show ?thesis using that(2,3) by (cases "mp_int e m") (simp_all add: rd_int_def rd_def)
qed (simp add: rd_int_def rd_def that(1))

lemma settles_sub_error:
  assumes "length args \<le> 1 \<or> mp_int e (args ! 1) = None"
  shows "settles b (cbind (sub_cmd e args b) f)"
proof -
  have "sub_cmd e args b = throw Undefined \<or> sub_cmd e args b = throw TypeError"
    using assms unfolding sub_cmd_def
    by (cases args; cases "tl args") (auto simp: rd_int_def rd_def)
  then show ?thesis by (auto intro: settles_throw)
qed

lemma settles_dispatch_error:
  assumes "length args \<le> 1 \<or> mp_int e (args ! 1) = None" "c \<in> set commands"
  shows "settles b (dispatch e c args b)"
proof -
  note unfold = doUserData_def doSimData_def doKhData_def doKhjlData_def doLlcData_def doLltcData_def
    doDxzhData_def doExcelLoad_def doSsdqData_def doDisabledNumber_def doGetPoolList_def rd_two_def
  have "\<exists>f. dispatch e c args b = cbind (sub_cmd e args b) f"
    using assms(2) by (auto simp: commands_def dispatch_def unfold cbind_assoc)
  then show ?thesis using settles_sub_error [OF assms(1)] by metis
qed

lemma settles_run:
  assumes "request_of e o' = Some args" "\<not> no_reply e o'"
  shows "settles b (run_command e args b)"
proof (cases args rule: rd_int_cases [where e = e])
  case (3 m ms c)
  have "settles b (dispatch e c args b)"
  proof (cases "length args \<le> 1 \<or> mp_int e (args ! 1) = None")
    case True
    then show ?thesis using assms 3(1,2) by (intro settles_dispatch_error) (auto simp: no_reply_def)
  next
    case False
    then obtain x r s where "ms = x # r" "mp_int e x = Some s" using 3(1) by (cases ms) auto
    then show ?thesis using assms 3(1,2) by (intro settles_answered) (auto simp: no_reply_def)
  qed
  then show ?thesis unfolding run_command_def 3(3)
    by simp (intro settles_bind quiet_intros, simp)
qed (simp_all add: run_command_def settles_throw)

theorem ProcessCommand_settles:
  assumes "\<not> no_reply e o'"
  shows "hoare (\<lambda>w. own b c B S w \<and> bufs w b = Some o') (ProcessCommand e b) (\<lambda>_. winv B S) (exn (own b c B S))"
  by (rule ProcessCommand_hoare, rule try_command_hoare)
    (use settles_run [OF _ assms] in \<open>auto intro: settlesD\<close>)

lemma leaves_throw: "leaves b (throw f)"
  by (rule leaves_settles [OF settles_throw])

lemma leaves_doSimData:
  assumes "args = m # x # ms" "mp_int e x \<noteq> Some 2"
  shows "leaves b (doSimData e args b)"
proof (cases "mp_int e x")
  case None
  then show ?thesis using assms by (simp add: doSimData_def sub_cmd_def rd_int_def rd_def leaves_throw)
next
  case (Some s)
  then show ?thesis using assms unfolding doSimData_def sub_cmd_def rd_int_def rd_def
    by (simp add: cbind_assoc)
      (intro leaves_bind leaves_if conjI impI leaves_settles [OF settles_sim(1)] leaves_settles [OF settles_sim(2)]
        leaves_quiet quiet_intros; simp)
qed

lemma leaves_run:
  assumes "request_of e o' = Some args" "\<not> sim_list e o'"
  shows "leaves b (run_command e args b)"
proof (cases args rule: rd_int_cases [where e = e])
  case (3 m ms c)
  have "leaves b (dispatch e c args b)"
  proof (cases "c = 2")
    case False
    then show ?thesis unfolding dispatch_def
      by (simp, intro leaves_if impI conjI leaves_doUserData leaves_doKhData leaves_doKhjlData leaves_doLlcData
        leaves_doLltcData leaves_doDxzhData leaves_doExcelLoad leaves_doSsdqData leaves_doDisabledNumber
        leaves_doGetPoolList leaves_quiet quiet_intros)
  next
    case True
    show ?thesis
    proof (cases ms)
      case Nil
      then show ?thesis using True 3(1)
        by (intro leaves_settles settles_dispatch_error) (simp_all add: commands_def)
    next
      case (Cons x r)
      then show ?thesis using True 3(1,2) assms leaves_doSimData [OF 3(1) [unfolded Cons]]
        by (auto simp: sim_list_def dispatch_def)
    qed
  qed
  then show ?thesis unfolding run_command_def 3(3)
    by simp (intro leaves_bind quiet_intros, simp)
qed (simp_all add: run_command_def leaves_throw)

theorem ProcessCommand_leaves:
  assumes "\<not> sim_list e o'"
  shows "hoare (\<lambda>w. own b c B S w \<and> bufs w b = Some o') (ProcessCommand e b)
     (\<lambda>_ w. winv B S w \<or> own b c B S w) (exn (own b c B S))"
  by (rule ProcessCommand_hoare, rule try_command_hoare)
    (use leaves_run [OF _ assms] in \<open>auto simp: leaves_def\<close>)

end
