(* ===== verification/CJson.thy ===== *)
theory CJson
  imports Externals
begin

text \<open>
  \<open>cjson.c\<close>: the JSON library the server carries. A text is a list of characters without the terminating zero;
  a pointer into it is the list from that character on, and the empty list is the pointer to the
  terminator. A chain of \<open>next\<close> pointers is a list. Memory allocation succeeds; floating point is the
  parameter \<open>fpu\<close> of \<open>Externals\<close>.
\<close>

section \<open>Items\<close>

datatype cjson = Item (ctype: nat) (valuestring: "string option") (valueint: int) (valuedouble: "64 word")
  (cname: "string option") (child: "cjson list")

definition cJSON_False :: nat where "cJSON_False = 0"
definition cJSON_True :: nat where "cJSON_True = 1"
definition cJSON_NULL :: nat where "cJSON_NULL = 2"
definition cJSON_Number :: nat where "cJSON_Number = 3"
definition cJSON_String :: nat where "cJSON_String = 4"
definition cJSON_Array :: nat where "cJSON_Array = 5"
definition cJSON_Object :: nat where "cJSON_Object = 6"
definition cJSON_IsReference :: nat where "cJSON_IsReference = 256"

lemmas ctype_defs = cJSON_False_def cJSON_True_def cJSON_NULL_def cJSON_Number_def cJSON_String_def
  cJSON_Array_def cJSON_Object_def cJSON_IsReference_def

text \<open>\<open>cJSON_New_Item\<close>: all fields zero.\<close>

definition New_Item :: cjson where
  "New_Item = Item 0 None 0 0 None []"

definition set_name :: "string option \<Rightarrow> cjson \<Rightarrow> cjson" where
  "set_name s c = Item (ctype c) (valuestring c) (valueint c) (valuedouble c) s (child c)"

definition set_child :: "cjson list \<Rightarrow> cjson \<Rightarrow> cjson" where
  "set_child cs c = Item (ctype c) (valuestring c) (valueint c) (valuedouble c) (cname c) cs"

section \<open>Parsing\<close>

text \<open>
  The result of a parse function: an item and the pointer behind it, the null pointer, or an access outside
  the text or the output buffer. \<open>PFuel\<close> is the end of the fuel of the recursion.
\<close>

datatype pres = POk cjson string | PFail | PUndef | PFuel

definition skip :: "string \<Rightarrow> string" where
  "skip s = dropWhile (\<lambda>c. c \<noteq> CHR 0x00 \<and> (of_char c :: nat) \<le> 32) s"

definition skip_digits :: "string \<Rightarrow> string" where
  "skip_digits s = dropWhile is_digit s"

definition digits :: "fpu \<Rightarrow> 64 word \<Rightarrow> string \<Rightarrow> 64 word" where
  "digits fp n ds = foldl (\<lambda>n c. d_add fp (d_mul fp n (d_of_int fp 10)) (d_of_int fp (int (digit_val c)))) n ds"

text \<open>The three parts of a number: sign and integer, fraction, exponent, each with what is left of the text.\<close>

definition num_int :: "string \<Rightarrow> bool \<times> string \<times> string" where
  "num_int num =
     (let neg = (peek num = CHR ''-'');
          s1 = (if neg then drop 1 num else num);
          s2 = (if peek s1 = CHR ''0'' then drop 1 s1 else s1);
          ds = (if is_digit (peek s2) \<and> peek s2 \<noteq> CHR ''0'' then takeWhile is_digit s2 else [])
      in (neg, ds, drop (length ds) s2))"

definition num_frac :: "string \<Rightarrow> string \<times> string" where
  "num_frac s =
     (let fs = (if peek s = CHR ''.'' then takeWhile is_digit (drop 1 s) else [])
      in (fs, if fs = [] then s else drop (Suc (length fs)) s))"

definition num_exp :: "string \<Rightarrow> bool \<times> string \<times> string" where
  "num_exp s =
     (if peek s = CHR ''e'' \<or> peek s = CHR ''E'' then
        let esign = (peek (drop 1 s) = CHR ''-'');
            s2 = (if peek (drop 1 s) = CHR ''+'' \<or> esign then drop 2 s else drop 1 s);
            es = takeWhile is_digit s2
        in (esign, es, drop (length es) s2)
      else (False, [], s))"

definition parse_number :: "fpu \<Rightarrow> string \<Rightarrow> pres" where
  "parse_number fp num =
     (case num_int num of (neg, ds, s1) \<Rightarrow> case num_frac s1 of (fs, s2) \<Rightarrow> case num_exp s2 of (esign, es, r) \<Rightarrow>
        if int_max < int (dec_val es) then PUndef
        else let subscale = (if esign then - int (dec_val es) else int (dec_val es));
                 n = d_mul fp (d_mul fp (d_of_int fp (if neg then -1 else 1)) (digits fp (digits fp (d_of_int fp 0) ds) fs))
                       (d_pow10 fp (subscale - int (length fs)))
             in POk (Item cJSON_Number None (d_to_int fp n) n None []) r)"

text \<open>
  The first loop of \<open>parse_string\<close>: the size of the buffer. \<open>None\<close>: a backslash before the
  terminator takes the pointer over it.
\<close>

fun scan_len :: "string \<Rightarrow> nat option" where
  "scan_len [] = Some 0"
| "scan_len [c] = (if c = CHR 0x22 then Some 0 else if c = CHR 0x5C then None else Some 1)"
| "scan_len (c # d # cs) =
     (if c = CHR 0x22 then Some 0
      else if c = CHR 0x5C then map_option Suc (scan_len cs)
      else map_option Suc (scan_len (d # cs)))"

definition is_hex :: "char \<Rightarrow> bool" where
  "is_hex c \<longleftrightarrow> is_digit c \<or> (let n = (of_char c :: nat) in 65 \<le> n \<and> n \<le> 70 \<or> 97 \<le> n \<and> n \<le> 102)"

definition hex_digit_val :: "char \<Rightarrow> nat" where
  "hex_digit_val c = (let n = (of_char c :: nat) in if n \<le> 57 then n - 48 else if n \<le> 70 then n - 55 else n - 87)"

definition hex_val :: "string \<Rightarrow> nat" where
  "hex_val s = foldl (\<lambda>n c. 16 * n + hex_digit_val c) 0 s"

text \<open>\<open>sscanf(s, "%4x", &uc)\<close>: without a digit \<open>uc\<close> stays uninitialised.\<close>

definition scan_hex4 :: "string \<Rightarrow> 32 word option" where
  "scan_hex4 s =
     (let f = take 4 (dropWhile is_space s);
          neg = (peek f = CHR ''-'');
          f1 = (if neg \<or> peek f = CHR ''+'' then drop 1 f else f);
          f2 = (if take 2 f1 = ''0x'' \<or> take 2 f1 = ''0X'' then drop 2 f1 else f1);
          ds = takeWhile is_hex f2
      in if ds = [] then None else Some (if neg then - of_nat (hex_val ds) else of_nat (hex_val ds)))"

definition byte_char :: "32 word \<Rightarrow> char" where
  "byte_char x = char_of (unat x)"

definition cont_byte :: "32 word \<Rightarrow> char" where
  "cont_byte uc = byte_char ((uc OR 0x80) AND 0xBF)"

definition utf8 :: "32 word \<Rightarrow> string" where
  "utf8 uc =
     (if uc < 0x80 then [byte_char uc]
      else if uc < 0x800 then [byte_char (drop_bit 6 uc OR 0xC0), cont_byte uc]
      else if uc < 0x10000 then
        [byte_char (drop_bit 12 uc OR 0xE0), cont_byte (drop_bit 6 uc), cont_byte uc]
      else
        [byte_char (drop_bit 18 uc OR 0xF0), cont_byte (drop_bit 12 uc), cont_byte (drop_bit 6 uc),
         cont_byte uc])"

text \<open>
  One escape \<open>\\u\<close>; \<open>ds\<close> is the text behind the letter. The result is what is written and the text from which
  the loop goes on, \<open>None\<close> when the pointer has left the text or the number is uninitialised.
\<close>

definition unesc_u :: "string \<Rightarrow> (string \<times> string) option" where
  "unesc_u ds = (case scan_hex4 ds of
     None \<Rightarrow> None
   | Some uc \<Rightarrow>
       if length ds < 4 then None
       else let r = drop 4 ds in
       if 0xDC00 \<le> uc \<and> uc \<le> 0xDFFF \<or> uc = 0 then Some ([], r)
       else if 0xD800 \<le> uc \<and> uc \<le> 0xDBFF then
         (if peek r \<noteq> CHR 0x5C \<or> peek (drop 1 r) \<noteq> CHR ''u'' then Some ([], r)
          else (case scan_hex4 (drop 2 r) of
              None \<Rightarrow> None
            | Some uc2 \<Rightarrow>
                if length r < 6 then None
                else if uc2 < 0xDC00 \<or> uc2 > 0xDFFF then Some ([], drop 6 r)
                else Some (utf8 (0x10000 + (push_bit 10 (uc AND 0x3FF) OR (uc2 AND 0x3FF))), drop 6 r)))
       else Some (utf8 uc, r))"

lemma unesc_u_shorter: "unesc_u ds = Some (t, r) \<Longrightarrow> length r \<le> length ds"
  by (auto simp: unesc_u_def Let_def split: option.splits if_splits)

definition unesc_char :: "char \<Rightarrow> char" where
  "unesc_char c =
     (if c = CHR ''b'' then CHR 0x08 else if c = CHR ''f'' then CHR 0x0C else if c = CHR ''n'' then CHR 0x0A
      else if c = CHR ''r'' then CHR 0x0D else if c = CHR ''t'' then CHR 0x09 else c)"

text \<open>The second loop: the text written and the pointer where it stopped.\<close>

function unesc :: "string \<Rightarrow> (string \<times> string) option" where
  "unesc [] = Some ([], [])"
| "unesc (c # cs) =
     (if c = CHR 0x22 then Some ([], c # cs)
      else if c \<noteq> CHR 0x5C then map_option (\<lambda>(t, r). (c # t, r)) (unesc cs)
      else (case cs of
          [] \<Rightarrow> None
        | d # ds \<Rightarrow>
            if d = CHR ''u'' then (case unesc_u ds of
                None \<Rightarrow> None
              | Some (u, r) \<Rightarrow> map_option (\<lambda>(t, q). (u @ t, q)) (unesc r))
            else map_option (\<lambda>(t, r). (unesc_char d # t, r)) (unesc ds)))"
  by pat_completeness auto
termination
  by (relation "measure length") (auto dest: unesc_u_shorter)

text \<open>A write behind the allocated bytes is undefined, like a read behind the text.\<close>

definition parse_string :: "string \<Rightarrow> pres" where
  "parse_string str =
     (if peek str \<noteq> CHR 0x22 then PFail
      else case scan_len (drop 1 str) of
        None \<Rightarrow> PUndef
      | Some len \<Rightarrow> (case unesc (drop 1 str) of
            None \<Rightarrow> PUndef
          | Some (out, r) \<Rightarrow>
              if len < length out then PUndef
              else POk (Item cJSON_String (Some out) 0 0 None [])
                     (if peek r = CHR 0x22 then drop 1 r else r)))"

text \<open>
  The recursive part, with the fuel \<open>k\<close> that bounds the depth of the recursion and the length of each chain.
  \<open>pv\<close> is \<open>parse_value\<close> one level deeper.
\<close>

datatype lres = LOk "cjson list" string | LFail | LUndef | LFuel

fun parse_elems :: "(string \<Rightarrow> pres) \<Rightarrow> nat \<Rightarrow> string \<Rightarrow> lres" where
  "parse_elems pv 0 s = LFuel"
| "parse_elems pv (Suc k) s = (case pv (skip s) of
     PFail \<Rightarrow> LFail | PUndef \<Rightarrow> LUndef | PFuel \<Rightarrow> LFuel
   | POk c r \<Rightarrow>
       (if peek (skip r) = CHR '','' then (case parse_elems pv k (drop 1 (skip r)) of
           LOk cs q \<Rightarrow> LOk (c # cs) q | LFail \<Rightarrow> LFail | LUndef \<Rightarrow> LUndef | LFuel \<Rightarrow> LFuel)
       else LOk [c] (skip r)))"

definition parse_array :: "(string \<Rightarrow> pres) \<Rightarrow> nat \<Rightarrow> string \<Rightarrow> pres" where
  "parse_array pv k s =
     (let v = skip (drop 1 s) in
      if peek v = CHR '']'' then POk (Item cJSON_Array None 0 0 None []) (drop 1 v)
      else case parse_elems pv k v of
        LOk cs r \<Rightarrow> if peek r = CHR '']'' then POk (Item cJSON_Array None 0 0 None cs) (drop 1 r) else PFail
      | LFail \<Rightarrow> PFail | LUndef \<Rightarrow> PUndef | LFuel \<Rightarrow> PFuel)"

text \<open>One member of an object: the name, the colon and the value.\<close>

definition parse_member :: "(string \<Rightarrow> pres) \<Rightarrow> string \<Rightarrow> pres" where
  "parse_member pv s = (case parse_string (skip s) of
     POk name r \<Rightarrow>
       (if peek (skip r) \<noteq> CHR '':'' then PFail
        else case pv (skip (drop 1 (skip r))) of
          POk c q \<Rightarrow> POk (set_name (valuestring name) c) q
        | PFail \<Rightarrow> PFail | PUndef \<Rightarrow> PUndef | PFuel \<Rightarrow> PFuel)
   | PFail \<Rightarrow> PFail | PUndef \<Rightarrow> PUndef | PFuel \<Rightarrow> PFuel)"

definition parse_object :: "(string \<Rightarrow> pres) \<Rightarrow> nat \<Rightarrow> string \<Rightarrow> pres" where
  "parse_object pv k s =
     (let v = skip (drop 1 s) in
      if peek v = CHR 0x7D then POk (Item cJSON_Object None 0 0 None []) (drop 1 v)
      else case parse_elems (parse_member pv) k v of
        LOk cs r \<Rightarrow> if peek r = CHR 0x7D then POk (Item cJSON_Object None 0 0 None cs) (drop 1 r) else PFail
      | LFail \<Rightarrow> PFail | LUndef \<Rightarrow> PUndef | LFuel \<Rightarrow> PFuel)"

fun parse_value :: "fpu \<Rightarrow> nat \<Rightarrow> string \<Rightarrow> pres" where
  "parse_value fp 0 s = PFuel"
| "parse_value fp (Suc k) s =
     (if take 4 s = ''null'' then POk (Item cJSON_NULL None 0 0 None []) (drop 4 s)
      else if take 5 s = ''false'' then POk (Item cJSON_False None 0 0 None []) (drop 5 s)
      else if take 4 s = ''true'' then POk (Item cJSON_True None 1 0 None []) (drop 4 s)
      else if peek s = CHR 0x22 then parse_string s
      else if peek s = CHR ''-'' \<or> is_digit (peek s) then parse_number fp s
      else if peek s = CHR ''['' then parse_array (parse_value fp k) k s
      else if peek s = CHR 0x7B then parse_object (parse_value fp k) k s
      else PFail)"

text \<open>The fuel is one more than the length of the text, which is enough for every text.\<close>

definition cJSON_ParseWithOpts :: "fpu \<Rightarrow> bool \<Rightarrow> string \<Rightarrow> pres" where
  "cJSON_ParseWithOpts fp require_null_terminated value =
     (case parse_value fp (Suc (length value)) (skip value) of
        POk c e \<Rightarrow>
          (if require_null_terminated then (if skip e = [] then POk c (skip e) else PFail) else POk c e)
      | PFail \<Rightarrow> PFail | PUndef \<Rightarrow> PUndef | PFuel \<Rightarrow> PFuel)"

definition cJSON_Parse :: "fpu \<Rightarrow> string \<Rightarrow> pres" where
  "cJSON_Parse fp value = cJSON_ParseWithOpts fp False value"

section \<open>Printing\<close>

definition print_number :: "fpu \<Rightarrow> cjson \<Rightarrow> string" where
  "print_number fp c =
     (let d = valuedouble c in
      if d_is_int fp (valueint c) d then dec_int (valueint c)
      else if d_whole fp d then fmt_0f fp d
      else if d_extreme fp d then fmt_e fp d
      else fmt_f fp d)"

definition esc_char :: "char \<Rightarrow> string" where
  "esc_char c =
     (if (of_char c :: nat) > 31 \<and> c \<noteq> CHR 0x22 \<and> c \<noteq> CHR 0x5C then [c]
      else CHR 0x5C #
       (if c = CHR 0x5C \<or> c = CHR 0x22 then [c]
        else if c = CHR 0x08 then ''b'' else if c = CHR 0x0C then ''f'' else if c = CHR 0x0A then ''n''
        else if c = CHR 0x0D then ''r'' else if c = CHR 0x09 then ''t''
        else CHR ''u'' # zpad 4 (hex_nat (of_char c))))"

definition print_string_ptr :: "string option \<Rightarrow> string" where
  "print_string_ptr s = (case s of None \<Rightarrow> '''' | Some t \<Rightarrow> [CHR 0x22] @ concat (map esc_char t) @ [CHR 0x22])"

text \<open>The size \<open>print_string_ptr\<close> computes for its buffer, without the three bytes it adds.\<close>

definition print_string_len :: "string \<Rightarrow> nat" where
  "print_string_len s = (\<Sum>c\<leftarrow>s. 1 +
     (if c \<in> {CHR 0x22, CHR 0x5C, CHR 0x08, CHR 0x0C, CHR 0x0A, CHR 0x0D, CHR 0x09} then 1
      else if (of_char c :: nat) < 32 then 5 else 0))"

fun join :: "string \<Rightarrow> string list \<Rightarrow> string" where
  "join sep [] = []"
| "join sep [x] = x"
| "join sep (x # y # xs) = x @ sep @ join sep (y # xs)"

definition tabs :: "nat \<Rightarrow> string" where
  "tabs n = replicate n (CHR 0x09)"

text \<open>
  The text of an array from the texts \<open>es\<close> of its elements, and of an object from those of its members \<open>ch\<close>, with the
  number of bytes the functions allocate for it. \<open>written\<close>: a text that does not fit what has been allocated, with its
  terminating zero, is written behind the end of the buffer.
\<close>

definition written :: "nat \<Rightarrow> string \<Rightarrow> fault + string" where
  "written len t = (if len < length t + 1 then Inl Undefined else Inr t)"

definition array_text :: "bool \<Rightarrow> string list \<Rightarrow> string" where
  "array_text fmt es = ''['' @ join (if fmt then '', '' else '','') es @ '']''"

definition print_array_len :: "bool \<Rightarrow> string list \<Rightarrow> nat" where
  "print_array_len fmt es = (if es = [] then 3 else 5 + (\<Sum>e\<leftarrow>es. length e + 2 + (if fmt then 1 else 0)))"

definition print_array :: "bool \<Rightarrow> string list \<Rightarrow> fault + string" where
  "print_array fmt es = written (print_array_len fmt es) (array_text fmt es)"

definition object_text :: "nat \<Rightarrow> bool \<Rightarrow> cjson list \<Rightarrow> string list \<Rightarrow> string" where
  "object_text depth fmt ch es =
     (if ch = [] then
        (if fmt then [CHR 0x7B, CHR 0x0A] @ tabs (depth - 1) @ [CHR 0x7D] else [CHR 0x7B, CHR 0x7D])
      else
        (let ms = map2 (\<lambda>c e. (if fmt then tabs (Suc depth) else []) @ print_string_ptr (cname c) @
             '':'' @ (if fmt then [CHR 0x09] else []) @ e) ch es
         in [CHR 0x7B] @ (if fmt then [CHR 0x0A] else []) @
            join (if fmt then [CHR '','', CHR 0x0A] else '','') ms @
            (if fmt then [CHR 0x0A] @ tabs depth else []) @ [CHR 0x7D]))"

definition print_object_len :: "nat \<Rightarrow> bool \<Rightarrow> cjson list \<Rightarrow> string list \<Rightarrow> nat" where
  "print_object_len depth fmt ch es =
     (if ch = [] then (if fmt then depth + 3 else 3)
      else 7 + (if fmt then Suc depth else 0) +
        (\<Sum>(c, e)\<leftarrow>zip ch es. length e + length (print_string_ptr (cname c)) + 2 + (if fmt then 2 + Suc depth else 0)))"

definition print_object :: "nat \<Rightarrow> bool \<Rightarrow> cjson list \<Rightarrow> string list \<Rightarrow> fault + string" where
  "print_object depth fmt ch es = written (print_object_len depth fmt ch es) (object_text depth fmt ch es)"

text \<open>
  The texts of the elements of an array and of the members of an object. \<open>None\<close> is the null pointer that an unknown
  type gives: an array stops there, an object prints its other members first.
\<close>

fun array_entries :: "(fault + string option) list \<Rightarrow> fault + string list option" where
  "array_entries [] = Inr (Some [])"
| "array_entries (x # xs) = (case x of Inl f \<Rightarrow> Inl f | Inr None \<Rightarrow> Inr None
   | Inr (Some t) \<Rightarrow> map_sum id (map_option ((#) t)) (array_entries xs))"

fun object_entries :: "(fault + string option) list \<Rightarrow> fault + string list option" where
  "object_entries [] = Inr (Some [])"
| "object_entries (x # xs) = (case x of Inl f \<Rightarrow> Inl f
   | Inr r \<Rightarrow> map_sum id (\<lambda>ts. case r of None \<Rightarrow> None | Some t \<Rightarrow> map_option ((#) t) ts) (object_entries xs))"

text \<open>What is composed of the entries, unless one of them is null.\<close>

definition compose :: "(string list \<Rightarrow> fault + string) \<Rightarrow> fault + string list option \<Rightarrow> fault + string option" where
  "compose f r = (case r of Inl x \<Rightarrow> Inl x | Inr None \<Rightarrow> Inr None | Inr (Some es) \<Rightarrow> map_sum id Some (f es))"

fun print_value :: "fpu \<Rightarrow> nat \<Rightarrow> bool \<Rightarrow> cjson \<Rightarrow> fault + string option" where
  "print_value fp depth fmt (Item ty vs vi vd nm ch) =
     (let t = ty mod 256 in
      if t = cJSON_NULL then Inr (Some ''null'')
      else if t = cJSON_False then Inr (Some ''false'')
      else if t = cJSON_True then Inr (Some ''true'')
      else if t = cJSON_Number then Inr (Some (print_number fp (Item ty vs vi vd nm ch)))
      else if t = cJSON_String then Inr (Some (print_string_ptr vs))
      else if t = cJSON_Array then
        compose (print_array fmt) (array_entries (map (print_value fp (Suc depth) fmt) ch))
      else if t = cJSON_Object then
        compose (print_object depth fmt ch) (object_entries (map (print_value fp (Suc depth) fmt) ch))
      else Inr None)"

definition cJSON_Print :: "fpu \<Rightarrow> cjson \<Rightarrow> fault + string option" where
  "cJSON_Print fp c = print_value fp 0 True c"

definition cJSON_PrintUnformatted :: "fpu \<Rightarrow> cjson \<Rightarrow> fault + string option" where
  "cJSON_PrintUnformatted fp c = print_value fp 0 False c"

section \<open>Arrays and objects\<close>

definition tolower :: "char \<Rightarrow> char" where
  "tolower c = (let n = (of_char c :: nat) in if 65 \<le> n \<and> n \<le> 90 then char_of (n + 32) else c)"

text \<open>\<open>cJSON_strcasecmp(s1, s2) == 0\<close> with \<open>s2\<close> not null.\<close>

definition same_name :: "string option \<Rightarrow> string \<Rightarrow> bool" where
  "same_name s1 s2 \<longleftrightarrow> (case s1 of None \<Rightarrow> False | Some t \<Rightarrow> map tolower t = map tolower s2)"

definition cJSON_GetArraySize :: "cjson \<Rightarrow> nat" where
  "cJSON_GetArraySize a = length (child a)"

definition cJSON_GetArrayItem :: "cjson \<Rightarrow> int \<Rightarrow> cjson option" where
  "cJSON_GetArrayItem a i = (if nat i < length (child a) then Some (child a ! nat i) else None)"

definition cJSON_GetObjectItem :: "cjson \<Rightarrow> string \<Rightarrow> cjson option" where
  "cJSON_GetObjectItem a s = find (\<lambda>c. same_name (cname c) s) (child a)"

definition cJSON_AddItemToArray :: "cjson \<Rightarrow> cjson option \<Rightarrow> cjson" where
  "cJSON_AddItemToArray a it = (case it of None \<Rightarrow> a | Some c \<Rightarrow> set_child (child a @ [c]) a)"

definition cJSON_AddItemToObject :: "cjson \<Rightarrow> string \<Rightarrow> cjson option \<Rightarrow> cjson" where
  "cJSON_AddItemToObject a s it = (case it of None \<Rightarrow> a | Some c \<Rightarrow> cJSON_AddItemToArray a (Some (set_name (Some s) c)))"

text \<open>A reference has the type bit \<open>cJSON_IsReference\<close>; what it shares with the original is copied here.\<close>

definition create_reference :: "cjson \<Rightarrow> cjson" where
  "create_reference c = Item (or (ctype c) cJSON_IsReference) (valuestring c) (valueint c) (valuedouble c) None (child c)"

definition cJSON_AddItemReferenceToArray :: "cjson \<Rightarrow> cjson \<Rightarrow> cjson" where
  "cJSON_AddItemReferenceToArray a c = cJSON_AddItemToArray a (Some (create_reference c))"

definition cJSON_AddItemReferenceToObject :: "cjson \<Rightarrow> string \<Rightarrow> cjson \<Rightarrow> cjson" where
  "cJSON_AddItemReferenceToObject a s c = cJSON_AddItemToObject a s (Some (create_reference c))"

definition cJSON_DetachItemFromArray :: "cjson \<Rightarrow> int \<Rightarrow> cjson option \<times> cjson" where
  "cJSON_DetachItemFromArray a i =
     (if nat i < length (child a)
      then (Some (child a ! nat i), set_child (take (nat i) (child a) @ drop (Suc (nat i)) (child a)) a)
      else (None, a))"

definition cJSON_DeleteItemFromArray :: "cjson \<Rightarrow> int \<Rightarrow> cjson" where
  "cJSON_DeleteItemFromArray a i = snd (cJSON_DetachItemFromArray a i)"

definition name_index :: "cjson \<Rightarrow> string \<Rightarrow> nat" where
  "name_index a s = length (takeWhile (\<lambda>c. \<not> same_name (cname c) s) (child a))"

definition cJSON_DetachItemFromObject :: "cjson \<Rightarrow> string \<Rightarrow> cjson option \<times> cjson" where
  "cJSON_DetachItemFromObject a s =
     (if name_index a s < length (child a) then cJSON_DetachItemFromArray a (int (name_index a s)) else (None, a))"

definition cJSON_DeleteItemFromObject :: "cjson \<Rightarrow> string \<Rightarrow> cjson" where
  "cJSON_DeleteItemFromObject a s = snd (cJSON_DetachItemFromObject a s)"

definition cJSON_ReplaceItemInArray :: "cjson \<Rightarrow> int \<Rightarrow> cjson \<Rightarrow> cjson" where
  "cJSON_ReplaceItemInArray a i c =
     (if nat i < length (child a) then set_child ((child a)[nat i := c]) a else a)"

definition cJSON_ReplaceItemInObject :: "cjson \<Rightarrow> string \<Rightarrow> cjson \<Rightarrow> cjson" where
  "cJSON_ReplaceItemInObject a s c =
     (if name_index a s < length (child a)
      then cJSON_ReplaceItemInArray a (int (name_index a s)) (set_name (Some s) c) else a)"

section \<open>Construction and copies\<close>

definition cJSON_CreateNull :: cjson where "cJSON_CreateNull = Item cJSON_NULL None 0 0 None []"
definition cJSON_CreateTrue :: cjson where "cJSON_CreateTrue = Item cJSON_True None 0 0 None []"
definition cJSON_CreateFalse :: cjson where "cJSON_CreateFalse = Item cJSON_False None 0 0 None []"

definition cJSON_CreateBool :: "int \<Rightarrow> cjson" where
  "cJSON_CreateBool b = Item (if b \<noteq> 0 then cJSON_True else cJSON_False) None 0 0 None []"

definition cJSON_CreateNumber :: "fpu \<Rightarrow> 64 word \<Rightarrow> cjson" where
  "cJSON_CreateNumber fp d = Item cJSON_Number None (d_to_int fp d) d None []"

definition cJSON_CreateString :: "string \<Rightarrow> cjson" where
  "cJSON_CreateString s = Item cJSON_String (Some s) 0 0 None []"

definition cJSON_CreateArray :: cjson where "cJSON_CreateArray = Item cJSON_Array None 0 0 None []"
definition cJSON_CreateObject :: cjson where "cJSON_CreateObject = Item cJSON_Object None 0 0 None []"

definition cJSON_CreateIntArray :: "fpu \<Rightarrow> int list \<Rightarrow> cjson" where
  "cJSON_CreateIntArray fp xs = set_child (map (\<lambda>i. cJSON_CreateNumber fp (d_of_int fp i)) xs) cJSON_CreateArray"

definition cJSON_CreateDoubleArray :: "fpu \<Rightarrow> 64 word list \<Rightarrow> cjson" where
  "cJSON_CreateDoubleArray fp xs = set_child (map (cJSON_CreateNumber fp) xs) cJSON_CreateArray"

definition cJSON_CreateStringArray :: "string list \<Rightarrow> cjson" where
  "cJSON_CreateStringArray xs = set_child (map cJSON_CreateString xs) cJSON_CreateArray"

fun cJSON_Duplicate :: "bool \<Rightarrow> cjson \<Rightarrow> cjson" where
  "cJSON_Duplicate recurse (Item ty vs vi vd nm ch) =
     Item (unset_bit 8 ty) vs vi vd nm (if recurse then map (cJSON_Duplicate True) ch else [])"

end
