(* ===== verification/TinyXml.thy ===== *)
theory TinyXml
  imports Externals
begin

text \<open>
  \<open>tinyxml2.cpp\<close>: the parser of the XML library the server carries, from the text to the tree of nodes and the strings
  that its accessors return. A text is a list of characters without the terminating zero; a pointer into it is the list
  from that character on, and the null pointer is \<open>None\<close>. Memory allocation succeeds, and the line numbers, which only
  occur in the text of an error, are left out.
\<close>

section \<open>Characters (\<open>XMLUtil\<close>)\<close>

definition IsUTF8Continuation :: "char \<Rightarrow> bool" where
  "IsUTF8Continuation p \<longleftrightarrow> 128 \<le> (of_char p :: nat)"

definition IsWhiteSpace :: "char \<Rightarrow> bool" where
  "IsWhiteSpace p \<longleftrightarrow> \<not> IsUTF8Continuation p \<and> is_space p"

definition SkipWhiteSpace :: "string \<Rightarrow> string" where
  "SkipWhiteSpace p = dropWhile IsWhiteSpace p"

definition is_alpha :: "char \<Rightarrow> bool" where
  "is_alpha c \<longleftrightarrow> (let n = (of_char c :: nat) in 65 \<le> n \<and> n \<le> 90 \<or> 97 \<le> n \<and> n \<le> 122)"

definition IsNameStartChar :: "char \<Rightarrow> bool" where
  "IsNameStartChar ch \<longleftrightarrow> 128 \<le> (of_char ch :: nat) \<or> is_alpha ch \<or> ch = CHR '':'' \<or> ch = CHR ''_''"

definition IsNameChar :: "char \<Rightarrow> bool" where
  "IsNameChar ch \<longleftrightarrow> IsNameStartChar ch \<or> is_digit ch \<or> ch = CHR ''.'' \<or> ch = CHR ''-''"

definition ReadBOM :: "string \<Rightarrow> string" where
  "ReadBOM p = (if take 3 p = [CHR 0xEF, CHR 0xBB, CHR 0xBF] then drop 3 p else p)"

definition ConvertUTF32ToUTF8 :: "32 word \<Rightarrow> string" where
  "ConvertUTF32ToUTF8 input =
     (let c = (\<lambda>x. char_of (unat (x :: 32 word)) :: char); cont = (\<lambda>x. c ((x OR 0x80) AND 0xBF)) in
      if input < 0x80 then [c input]
      else if input < 0x800 then [c (drop_bit 6 input OR 0xC0), cont input]
      else if input < 0x10000 then [c (drop_bit 12 input OR 0xE0), cont (drop_bit 6 input), cont input]
      else if input < 0x200000 then
        [c (drop_bit 18 input OR 0xF0), cont (drop_bit 12 input), cont (drop_bit 6 input), cont input]
      else [])"

text \<open>
  The loops of \<open>GetCharacterRef\<close> over the digits, from the last one: \<open>ds\<close> is the reversed text, \<open>unsigned\<close>
  arithmetic wraps.
\<close>

definition ref_digit :: "bool \<Rightarrow> char \<Rightarrow> 32 word option" where
  "ref_digit hex q =
     (let n = (of_char q :: nat) in
      if 48 \<le> n \<and> n \<le> 57 then Some (of_nat (n - 48))
      else if hex \<and> 97 \<le> n \<and> n \<le> 102 then Some (of_nat (n - 97 + 10))
      else if hex \<and> 65 \<le> n \<and> n \<le> 70 then Some (of_nat (n - 65 + 10))
      else None)"

fun ref_value :: "bool \<Rightarrow> 32 word \<Rightarrow> 32 word \<Rightarrow> string \<Rightarrow> 32 word option" where
  "ref_value hex ucs mult [] = Some ucs"
| "ref_value hex ucs mult (q # qs) = (case ref_digit hex q of
     None \<Rightarrow> None
   | Some digit \<Rightarrow> ref_value hex (ucs + mult * digit) (mult * (if hex then 16 else 10)) qs)"

text \<open>
  \<open>p\<close> is the text from the ampersand on, followed by a hash sign. The result is the bytes of the character and the text
  behind the reference.
\<close>

definition GetCharacterRef :: "string \<Rightarrow> (string \<times> string) option" where
  "GetCharacterRef p =
     (let q = drop 2 p; hex = (peek q = CHR ''x''); t = takeWhile (\<lambda>c. c \<noteq> CHR '';'') q;
          start = (if hex then CHR ''x'' else CHR ''#'') in
      if q = [] then Some ([], drop 1 p)
      else if hex \<and> drop 1 q = [] then None
      else if t = q then None
      else map_option (\<lambda>ucs. (ConvertUTF32ToUTF8 ucs, drop (Suc (length t)) q))
             (ref_value hex 0 1 (takeWhile (\<lambda>c. c \<noteq> start) (rev t))))"

section \<open>Strings (\<open>StrPair\<close>)\<close>

text \<open>
  A string is a part of the text, with flags for what is still to be done when it is read for the first time.
\<close>

definition NEEDS_ENTITY_PROCESSING :: "32 word" where "NEEDS_ENTITY_PROCESSING = 0x01"
definition NEEDS_NEWLINE_NORMALIZATION :: "32 word" where "NEEDS_NEWLINE_NORMALIZATION = 0x02"
definition NEEDS_WHITESPACE_COLLAPSING :: "32 word" where "NEEDS_WHITESPACE_COLLAPSING = 0x04"
definition NEEDS_FLUSH :: "32 word" where "NEEDS_FLUSH = 0x100"
definition NEEDS_DELETE :: "32 word" where "NEEDS_DELETE = 0x200"

definition TEXT_ELEMENT :: "32 word" where "TEXT_ELEMENT = NEEDS_ENTITY_PROCESSING OR NEEDS_NEWLINE_NORMALIZATION"
definition TEXT_ELEMENT_LEAVE_ENTITIES :: "32 word" where "TEXT_ELEMENT_LEAVE_ENTITIES = NEEDS_NEWLINE_NORMALIZATION"
definition ATTRIBUTE_VALUE :: "32 word" where "ATTRIBUTE_VALUE = NEEDS_ENTITY_PROCESSING OR NEEDS_NEWLINE_NORMALIZATION"
definition ATTRIBUTE_VALUE_LEAVE_ENTITIES :: "32 word" where "ATTRIBUTE_VALUE_LEAVE_ENTITIES = NEEDS_NEWLINE_NORMALIZATION"
definition COMMENT :: "32 word" where "COMMENT = NEEDS_NEWLINE_NORMALIZATION"

lemmas flag_defs = NEEDS_ENTITY_PROCESSING_def NEEDS_NEWLINE_NORMALIZATION_def NEEDS_WHITESPACE_COLLAPSING_def
  NEEDS_FLUSH_def NEEDS_DELETE_def TEXT_ELEMENT_def TEXT_ELEMENT_LEAVE_ENTITIES_def ATTRIBUTE_VALUE_def
  ATTRIBUTE_VALUE_LEAVE_ENTITIES_def COMMENT_def

datatype strpair = StrPair (sp_flags: "32 word") (sp_text: string)

definition sp_Set :: "string \<Rightarrow> 32 word \<Rightarrow> strpair" where
  "sp_Set t flags = StrPair (flags OR NEEDS_FLUSH) t"

definition sp_SetStr :: "string \<Rightarrow> 32 word \<Rightarrow> strpair" where
  "sp_SetStr str flags = StrPair (flags OR NEEDS_DELETE) str"

definition sp_Empty :: "strpair option \<Rightarrow> bool" where
  "sp_Empty s \<longleftrightarrow> (case s of None \<Rightarrow> True | Some sp \<Rightarrow> sp_text sp = [])"

text \<open>\<open>ParseText\<close>: the text before the next \<open>endTag\<close> and what follows it.\<close>

fun ParseText :: "string \<Rightarrow> string \<Rightarrow> (string \<times> string) option" where
  "ParseText endTag [] = None"
| "ParseText endTag (c # p) =
     (if take (length endTag) (c # p) = endTag then Some ([], drop (length endTag) (c # p))
      else map_option (\<lambda>(t, r). (c # t, r)) (ParseText endTag p))"

definition ParseName :: "string \<Rightarrow> (string \<times> string) option" where
  "ParseName p =
     (if p = [] \<or> \<not> IsNameStartChar (peek p) then None
      else let t = takeWhile IsNameChar (drop 1 p) in Some (peek p # t, drop (Suc (length t)) p))"

text \<open>The entity at the text behind an ampersand: its character and the text behind its semicolon.\<close>

definition entities :: "(string \<times> char) list" where
  "entities = [(''quot'', CHR 0x22), (''amp'', CHR ''&''), (''apos'', CHR 0x27), (''lt'', CHR ''<''), (''gt'', CHR ''>'')]"

fun find_entity :: "(string \<times> char) list \<Rightarrow> string \<Rightarrow> (char \<times> string) option" where
  "find_entity [] p = None"
| "find_entity ((pattern, v) # es) p =
     (if take (length pattern) p = pattern \<and> peek (drop (length pattern) p) = CHR '';''
      then Some (v, drop (Suc (length pattern)) p) else find_entity es p)"

lemma ref_drop: "GetCharacterRef (c # p) = Some (t, r) \<Longrightarrow> length r \<le> length p"
  by (auto simp: GetCharacterRef_def Let_def split: if_splits)

lemma entity_drop: "find_entity es p = Some (v, r) \<Longrightarrow> length r \<le> length p"
  by (induction es p rule: find_entity.induct) (auto split: if_splits)

text \<open>
  The loop of \<open>GetStr\<close>, which works in place: \<open>orig\<close> is the string as it was, the second list what is still to be read,
  \<open>out\<close> what has been written at its front. An entity that is not known moves both pointers on without writing, which leaves
  the character that is at the place of the write pointer.
\<close>

function convert :: "bool \<Rightarrow> bool \<Rightarrow> string \<Rightarrow> string \<Rightarrow> string \<Rightarrow> string" where
  "convert ent nl orig [] out = out"
| "convert ent nl orig (c # p) out =
     (if nl \<and> c = CHR 0x0D then convert ent nl orig (if peek p = CHR 0x0A then drop 1 p else p) (out @ [CHR 0x0A])
      else if nl \<and> c = CHR 0x0A then convert ent nl orig (if peek p = CHR 0x0D then drop 1 p else p) (out @ [CHR 0x0A])
      else if ent \<and> c = CHR ''&'' then
        (if peek p = CHR ''#'' then (case GetCharacterRef (c # p) of
             None \<Rightarrow> convert ent nl orig p (out @ [c])
           | Some (buf, adjusted) \<Rightarrow> convert ent nl orig adjusted (out @ buf))
         else (case find_entity entities p of
             Some (v, r) \<Rightarrow> convert ent nl orig r (out @ [v])
           | None \<Rightarrow> convert ent nl orig p (out @ [orig ! length out])))
      else convert ent nl orig p (out @ [c]))"
  by pat_completeness auto
termination
  by (relation "measure (\<lambda>(ent, nl, orig, p, out). length p)") (auto dest: ref_drop entity_drop)

text \<open>\<open>CollapseWhitespace\<close>: the text is trimmed, and each run of blanks in it becomes one blank.\<close>

function collapse :: "string \<Rightarrow> string" where
  "collapse [] = []"
| "collapse (c # p) =
     (if IsWhiteSpace c then (if SkipWhiteSpace p = [] then [] else CHR '' '' # collapse (SkipWhiteSpace p))
      else c # collapse p)"
  by pat_completeness auto
termination
  by (relation "measure length") (auto simp: SkipWhiteSpace_def less_Suc_eq_le length_dropWhile_le)

definition CollapseWhitespace :: "string \<Rightarrow> string" where
  "CollapseWhitespace s = collapse (SkipWhiteSpace s)"

text \<open>The text behind a pointer to \<open>char\<close> ends at the first zero byte, also one that a reference has written.\<close>

definition GetStr :: "strpair \<Rightarrow> strpair" where
  "GetStr sp =
     (if sp_flags sp AND NEEDS_FLUSH = 0 then sp
      else
        let flags = sp_flags sp XOR NEEDS_FLUSH;
            t = (if flags = 0 then sp_text sp
                 else convert (flags AND NEEDS_ENTITY_PROCESSING \<noteq> 0) (flags AND NEEDS_NEWLINE_NORMALIZATION \<noteq> 0)
                        (sp_text sp) (sp_text sp) []);
            u = (if flags AND NEEDS_WHITESPACE_COLLAPSING \<noteq> 0 then CollapseWhitespace (c_str t) else t)
        in StrPair (flags AND NEEDS_DELETE) u)"

definition sp_str :: "strpair \<Rightarrow> string" where
  "sp_str sp = c_str (sp_text (GetStr sp))"

section \<open>Nodes\<close>

datatype xml_error = XML_ERROR_PARSING_ELEMENT | XML_ERROR_PARSING_ATTRIBUTE | XML_ERROR_PARSING_TEXT
  | XML_ERROR_PARSING_CDATA | XML_ERROR_PARSING_COMMENT | XML_ERROR_PARSING_DECLARATION | XML_ERROR_PARSING_UNKNOWN
  | XML_ERROR_EMPTY_DOCUMENT | XML_ERROR_MISMATCHED_ELEMENT | XML_ERROR_PARSING | XML_ELEMENT_DEPTH_EXCEEDED

datatype closing_type = OPEN | CLOSED | CLOSING

datatype xnode = XMLDeclaration strpair | XMLComment strpair | XMLText bool strpair | XMLUnknown strpair
  | XMLElement strpair closing_type "(strpair \<times> strpair) list" "xnode list"

datatype kind = KDeclaration | KComment | KCData | KUnknown | KElement | KText

text \<open>\<open>Identify\<close>: the kind of the next node and the text from which it is parsed.\<close>

definition Identify :: "string \<Rightarrow> (kind \<times> string) option" where
  "Identify start =
     (let p = SkipWhiteSpace start in
      if p = [] then None
      else if take 2 p = ''<?'' then Some (KDeclaration, drop 2 p)
      else if take 4 p = ''<!--'' then Some (KComment, drop 4 p)
      else if take 9 p = ''<![CDATA['' then Some (KCData, drop 9 p)
      else if take 2 p = ''<!'' then Some (KUnknown, drop 2 p)
      else if take 1 p = ''<'' then Some (KElement, drop 1 p)
      else Some (KText, start))"

text \<open>The flags of the document object; the server uses the default constructor.\<close>

record xdoc =
  processEntities :: bool
  collapseWhitespace :: bool

definition default_doc :: xdoc where
  "default_doc = \<lparr>processEntities = True, collapseWhitespace = False\<rparr>"

text \<open>
  What \<open>ParseDeep\<close> of a node returns: the node, the end tag it read for its own element and the text behind it, or the
  null pointer, with an error set or not.
\<close>

datatype parsed = Node xnode "strpair option" string | Null "xml_error option" | NoFuel

definition parse_value_node :: "(strpair \<Rightarrow> xnode) \<Rightarrow> string \<Rightarrow> 32 word \<Rightarrow> xml_error \<Rightarrow> string \<Rightarrow> parsed" where
  "parse_value_node mk endTag flags err p = (case ParseText endTag p of
     None \<Rightarrow> Null (Some err) | Some (t, r) \<Rightarrow> Node (mk (sp_Set t flags)) None r)"

definition XMLText_ParseDeep :: "xdoc \<Rightarrow> string \<Rightarrow> parsed" where
  "XMLText_ParseDeep d p =
     (let flags = (if processEntities d then TEXT_ELEMENT else TEXT_ELEMENT_LEAVE_ENTITIES) OR
        (if collapseWhitespace d then NEEDS_WHITESPACE_COLLAPSING else 0)
      in case ParseText ''<'' p of
        None \<Rightarrow> Null (Some XML_ERROR_PARSING_TEXT)
      | Some (t, r) \<Rightarrow> if r = [] then Null None else Node (XMLText False (sp_Set t flags)) None (CHR ''<'' # r))"

subsection \<open>Elements\<close>

definition XMLAttribute_ParseDeep :: "bool \<Rightarrow> string \<Rightarrow> ((strpair \<times> strpair) \<times> string) option" where
  "XMLAttribute_ParseDeep ents p = (case ParseName p of
     None \<Rightarrow> None
   | Some (name, p1) \<Rightarrow>
       if p1 = [] then None
       else let p2 = SkipWhiteSpace p1 in
       if peek p2 \<noteq> CHR ''='' then None
       else let p3 = SkipWhiteSpace (drop 1 p2) in
       if peek p3 \<noteq> CHR 0x22 \<and> peek p3 \<noteq> CHR 0x27 then None
       else map_option (\<lambda>(v, r). ((sp_Set name 0, sp_Set v (if ents then ATTRIBUTE_VALUE else ATTRIBUTE_VALUE_LEAVE_ENTITIES)), r))
              (ParseText [peek p3] (drop 1 p3)))"

definition FindAttribute :: "(strpair \<times> strpair) list \<Rightarrow> string \<Rightarrow> (strpair \<times> strpair) option" where
  "FindAttribute attrs name = find (\<lambda>a. sp_str (fst a) = name) attrs"

datatype attributes = Attributes closing_type "(strpair \<times> strpair) list" string | AttrError xml_error

lemma ParseText_shorter: "ParseText endTag p = Some (t, r) \<Longrightarrow> length r \<le> length p"
  by (induction endTag p arbitrary: t r rule: ParseText.induct) (auto split: if_splits)

lemma SkipWhiteSpace_length: "length (SkipWhiteSpace p) \<le> length p"
  by (simp add: SkipWhiteSpace_def length_dropWhile_le)

lemma ParseName_shorter: "ParseName p = Some (t, r) \<Longrightarrow> length r < length p"
  by (cases p) (auto simp: ParseName_def Let_def split: if_splits)

lemma XMLAttribute_shorter:
  assumes "XMLAttribute_ParseDeep ents p = Some (a, r)" shows "length r < length p"
proof -
  obtain name p1 where p1: "ParseName p = Some (name, p1)" using assms
    by (auto simp: XMLAttribute_ParseDeep_def split: option.splits)
  define p3 where "p3 = SkipWhiteSpace (drop 1 (SkipWhiteSpace p1))"
  obtain q t where "ParseText q (drop 1 p3) = Some (t, r)" using assms p1
    by (auto simp: XMLAttribute_ParseDeep_def p3_def Let_def split: if_splits)
  then have "length r \<le> length p3" using ParseText_shorter by fastforce
  also have "\<dots> \<le> length p1"
    unfolding p3_def using SkipWhiteSpace_length [of p1] SkipWhiteSpace_length [of "drop 1 (SkipWhiteSpace p1)"] by simp
  also have "\<dots> < length p" using ParseName_shorter [OF p1] .
  finally show ?thesis .
qed

function ParseAttributes :: "bool \<Rightarrow> closing_type \<Rightarrow> (strpair \<times> strpair) list \<Rightarrow> string \<Rightarrow> attributes" where
  "ParseAttributes ents ct attrs s =
     (let p = SkipWhiteSpace s in
      if p = [] then AttrError XML_ERROR_PARSING_ELEMENT
      else if IsNameStartChar (peek p) then (case XMLAttribute_ParseDeep ents p of
          None \<Rightarrow> AttrError XML_ERROR_PARSING_ATTRIBUTE
        | Some (a, r) \<Rightarrow>
            if FindAttribute attrs (sp_str (fst a)) \<noteq> None then AttrError XML_ERROR_PARSING_ATTRIBUTE
            else ParseAttributes ents ct (attrs @ [a]) r)
      else if peek p = CHR ''>'' then Attributes ct attrs (drop 1 p)
      else if peek p = CHR ''/'' \<and> peek (drop 1 p) = CHR ''>'' then Attributes CLOSED attrs (drop 2 p)
      else AttrError XML_ERROR_PARSING_ELEMENT)"
  by pat_completeness auto
termination
  using SkipWhiteSpace_length XMLAttribute_shorter
  by (relation "measure (\<lambda>(ents, ct, attrs, s). length s)") (auto, meson less_le_trans)

declare ParseAttributes.simps [simp del]

text \<open>What the loop over the children ends with: the end tag of the parent, the end of the text, or an error.\<close>

datatype level = Close strpair string "xnode list" | End "xnode list" | Error xml_error | LevelFuel

text \<open>\<open>children\<close> parses the children one level deeper.\<close>

definition XMLElement_ParseDeep :: "(string \<Rightarrow> level) \<Rightarrow> bool \<Rightarrow> string \<Rightarrow> parsed" where
  "XMLElement_ParseDeep children ents s =
     (let p = SkipWhiteSpace s; closing = (peek p = CHR ''/'') in
      case ParseName (if closing then drop 1 p else p) of
        None \<Rightarrow> Null None
      | Some (name, p1) \<Rightarrow> (case ParseAttributes ents (if closing then CLOSING else OPEN) [] p1 of
            AttrError err \<Rightarrow> Null (Some err)
          | Attributes ct attrs r \<Rightarrow>
              if r = [] \<or> ct \<noteq> OPEN then Node (XMLElement (sp_Set name 0) ct attrs []) None r
              else (case children r of
                  Close endTag q cs \<Rightarrow> Node (XMLElement (sp_Set name 0) ct attrs cs) (Some endTag) q
                | End cs \<Rightarrow> Null None
                | Error err \<Rightarrow> Null (Some err)
                | LevelFuel \<Rightarrow> NoFuel)))"

definition node_ParseDeep :: "(string \<Rightarrow> level) \<Rightarrow> xdoc \<Rightarrow> kind \<Rightarrow> string \<Rightarrow> parsed" where
  "node_ParseDeep children d k p = (case k of
     KDeclaration \<Rightarrow> parse_value_node XMLDeclaration ''?>'' NEEDS_NEWLINE_NORMALIZATION XML_ERROR_PARSING_DECLARATION p
   | KComment \<Rightarrow> parse_value_node XMLComment ''-->'' COMMENT XML_ERROR_PARSING_COMMENT p
   | KCData \<Rightarrow> parse_value_node (XMLText True) '']]>'' NEEDS_NEWLINE_NORMALIZATION XML_ERROR_PARSING_CDATA p
   | KUnknown \<Rightarrow> parse_value_node XMLUnknown ''>'' NEEDS_NEWLINE_NORMALIZATION XML_ERROR_PARSING_UNKNOWN p
   | KText \<Rightarrow> XMLText_ParseDeep d p
   | KElement \<Rightarrow> XMLElement_ParseDeep children (processEntities d) p)"

fun is_declaration :: "xnode \<Rightarrow> bool" where
  "is_declaration (XMLDeclaration v) \<longleftrightarrow> True"
| "is_declaration _ \<longleftrightarrow> False"

text \<open>The checks of \<open>XMLNode::ParseDeep\<close> on a node it has parsed: an error, the end tag of the parent, or neither.\<close>

datatype verdict = Insert | Reject xml_error | EndTag strpair

fun check_node :: "bool \<Rightarrow> xnode list \<Rightarrow> xnode \<Rightarrow> strpair option \<Rightarrow> verdict" where
  "check_node at_document seen (XMLDeclaration v) endTag =
     (if at_document \<and> list_all is_declaration seen then Insert else Reject XML_ERROR_PARSING_DECLARATION)"
| "check_node at_document seen (XMLElement name ct attrs cs) endTag =
     (if ct = CLOSING then EndTag name
      else if (if sp_Empty endTag then ct = OPEN else ct \<noteq> OPEN \<or> sp_str (the endTag) \<noteq> sp_str name)
      then Reject XML_ERROR_MISMATCHED_ELEMENT else Insert)"
| "check_node at_document seen _ endTag = Insert"

text \<open>
  \<open>XMLNode::ParseDeep\<close>, with the fuel \<open>k\<close> of the loop. \<open>pn\<close> parses one node.
\<close>

fun nodes :: "(kind \<Rightarrow> string \<Rightarrow> parsed) \<Rightarrow> bool \<Rightarrow> nat \<Rightarrow> xnode list \<Rightarrow> string \<Rightarrow> level" where
  "nodes pn at_document 0 seen s = LevelFuel"
| "nodes pn at_document (Suc k) seen s = (case Identify s of
     None \<Rightarrow> End seen
   | Some (kind, p) \<Rightarrow> (case pn kind p of
       NoFuel \<Rightarrow> LevelFuel
     | Null err \<Rightarrow> Error (case err of None \<Rightarrow> XML_ERROR_PARSING | Some e \<Rightarrow> e)
     | Node n endTag r \<Rightarrow> (case check_node at_document seen n endTag of
           Reject e \<Rightarrow> Error e
         | EndTag name \<Rightarrow> Close name r seen
         | Insert \<Rightarrow> nodes pn at_document k (seen @ [n]) r)))"

definition TINYXML2_MAX_ELEMENT_DEPTH :: nat where "TINYXML2_MAX_ELEMENT_DEPTH = 100"

text \<open>The first argument is the number of levels that \<open>PushDepth\<close> still admits.\<close>

fun XMLNode_ParseDeep :: "nat \<Rightarrow> xdoc \<Rightarrow> bool \<Rightarrow> string \<Rightarrow> level" where
  "XMLNode_ParseDeep 0 d at_document s = Error XML_ELEMENT_DEPTH_EXCEEDED"
| "XMLNode_ParseDeep (Suc n) d at_document s =
     nodes (node_ParseDeep (XMLNode_ParseDeep n d False) d) at_document (Suc (length s)) [] s"

section \<open>Documents\<close>

text \<open>
  \<open>XMLDocument::Parse\<close>: an error or the nodes of the document. An end tag at the outermost level ends the loop like the
  end of the text.
\<close>

definition XMLDocument_Parse :: "xdoc \<Rightarrow> string \<Rightarrow> xml_error + xnode list" where
  "XMLDocument_Parse d s =
     (let p = ReadBOM (SkipWhiteSpace s) in
      if s = [] \<or> p = [] then Inl XML_ERROR_EMPTY_DOCUMENT
      else case XMLNode_ParseDeep (TINYXML2_MAX_ELEMENT_DEPTH - 1) d True p of
        Error e \<Rightarrow> Inl e | End ns \<Rightarrow> Inr ns | Close name r ns \<Rightarrow> Inr ns | LevelFuel \<Rightarrow> Inl XML_ERROR_PARSING)"

fun Value :: "xnode \<Rightarrow> string" where
  "Value (XMLDeclaration v) = sp_str v"
| "Value (XMLComment v) = sp_str v"
| "Value (XMLText cdata v) = sp_str v"
| "Value (XMLUnknown v) = sp_str v"
| "Value (XMLElement name ct attrs cs) = sp_str name"

text \<open>\<open>GetText\<close>: the value of the first child, if it is a text.\<close>

fun GetText :: "xnode list \<Rightarrow> string option" where
  "GetText (XMLText cdata v # cs) = Some (sp_str v)"
| "GetText _ = None"

text \<open>
  The elements among a list of siblings, as \<open>FirstChildElement\<close> and \<open>NextSiblingElement\<close> reach them, each with its
  name, its text and its own child elements.
\<close>

fun elements :: "xnode list \<Rightarrow> xml list" where
  "elements [] = []"
| "elements (XMLElement name ct attrs cs # ns) = Elem (sp_str name) (GetText cs) (elements cs) # elements ns"
| "elements (XMLDeclaration v # ns) = elements ns"
| "elements (XMLComment v # ns) = elements ns"
| "elements (XMLText cdata v # ns) = elements ns"
| "elements (XMLUnknown v # ns) = elements ns"

text \<open>What the server asks of a document: whether it was parsed, and its root element.\<close>

definition xml_doc :: "string \<Rightarrow> xml option option" where
  "xml_doc s = (case XMLDocument_Parse default_doc s of
     Inl e \<Rightarrow> None
   | Inr ns \<Rightarrow> Some (case elements ns of [] \<Rightarrow> None | x # xs \<Rightarrow> Some x))"

end
