(* ===== verification/ApiResponse.thy ===== *)
theory ApiResponse
  imports ApiConn CJson TinyXml
begin

text \<open>
  The second half of \<open>doAPIResponse.cpp\<close>: what becomes of the operator's answer. A response function reads the
  document, replies to the client and returns \<open>true\<close>, or returns \<open>false\<close> and leaves the reply to \<open>DoReturnData\<close>.
\<close>

section \<open>Reading the document\<close>

definition Utf8ConvertAnsi :: "ext \<Rightarrow> nat \<Rightarrow> (world, string) cm" where
  "Utf8ConvertAnsi e b = (cbind (get_buf b) (\<lambda>o1.
     if length (bdata o1) < unat (dwRecvedCount o1) then throw Undefined
     else ret (c_str (utf8_ansi e (take (unat (dwRecvedCount o1)) (bdata o1))))))"

text \<open>\<open>doc.Parse(pResponData)\<close>: \<open>None\<close> for a parse error, otherwise \<open>doc.RootElement()\<close>.\<close>

definition parse_doc :: "ext \<Rightarrow> nat \<Rightarrow> (world, xml option option) cm" where
  "parse_doc e b = (cbind (Utf8ConvertAnsi e b) (\<lambda>t.
     ret (xml_doc t)))"

text \<open>
  A pointer to an element is the list of its siblings from it on, the null pointer the empty list.
  \<open>GetText\<close> returns null for an element whose first node is no text; the code copies it unchecked.
\<close>

definition elem_at :: "xml list \<Rightarrow> (world, xml) cm" where
  "elem_at xs = (case xs of [] \<Rightarrow> throw Undefined | x # r \<Rightarrow> ret x)"

definition get_text :: "xml list \<Rightarrow> (world, string) cm" where
  "get_text xs = (cbind (elem_at xs) (\<lambda>x.
     of_opt Undefined (map_option c_str (xtext x))))"

text \<open>The texts of \<open>n\<close> consecutive siblings.\<close>

fun get_texts :: "nat \<Rightarrow> xml list \<Rightarrow> (world, string list) cm" where
  "get_texts 0 xs = ret []"
| "get_texts (Suc n) xs =
     cbind (get_text xs) (\<lambda>t.
     cbind (get_texts n (drop 1 xs)) (\<lambda>ts. ret (t # ts)))"

text \<open>\<open>PostThreadMessage\<close>: the messages handed to the help thread, which the program never starts.\<close>

definition post_help :: "help_msg \<Rightarrow> (world, unit) cm" where
  "post_help m = modify (\<lambda>w. w\<lparr>helpq := helpq w @ [m]\<rparr>)"

section \<open>The answers in XML\<close>

definition doDisNumberResponse_fn :: "ext \<Rightarrow> nat \<Rightarrow> (world, bool) cm" where
  "doDisNumberResponse_fn e b = (cbind (parse_doc e b) (\<lambda>doc.
     case doc of
       None \<Rightarrow> ret False
     | Some r \<Rightarrow> (cbind (get_buf b) (\<lambda>o1.
       cbind (of_opt Undefined r) (\<lambda>root.
       cbind (get_texts 4 (xchildren root)) (\<lambda>ts.
       cbind (lift_fault (c_atoi (ts ! 0))) (\<lambda>n0.
       cbind (lift_fault (c_atoi (ts ! 1))) (\<lambda>n1.
       cthen (DealTail e [pack_array 6, TInt (nCmd o1), TInt (nSubCmd o1), TInt (nSubSubCmd o1), TInt 0, TStr (strJrhm o1),
         pack_array 1, pack_array 4, TInt n0, TInt n1, TStr (ts ! 2), TStr (ts ! 3)] b) (
       (cbind (post_help (MSG_DIS_NUMBER \<lparr>dn_Jrhm = strJrhm o1, dn_Rsptype = ts ! 0, dn_Result = ts ! 1,
           dn_ResultMsg = ts ! 2, dn_TRANSACTIONID = ts ! 3\<rparr>)) (\<lambda>_.
         ret True)))))))))))"

definition doCardStatusResponse_fn :: "ext \<Rightarrow> nat \<Rightarrow> (world, bool) cm" where
  "doCardStatusResponse_fn e b = (cbind (parse_doc e b) (\<lambda>doc.
     case doc of
       None \<Rightarrow> ret False
     | Some r \<Rightarrow> (cbind (get_buf b) (\<lambda>o1.
       cbind (of_opt Undefined r) (\<lambda>root.
       cbind (elem_at (xchildren root)) (\<lambda>response.
       let BasicInfo = xchildren response in
       cbind (elem_at BasicInfo) (\<lambda>info.
       cbind (get_texts 2 (xchildren info)) (\<lambda>res.
       let prodRecords = drop 1 BasicInfo in
       cbind (elem_at prodRecords) (\<lambda>records.
       cbind (elem_at (xchildren records)) (\<lambda>record1.
       cbind (elem_at (xchildren record1)) (\<lambda>productInfo.
       cbind (get_texts 3 (xchildren productInfo)) (\<lambda>prod.
       cbind (get_text (drop 1 prodRecords)) (\<lambda>number.
       cbind (get_text (drop 2 prodRecords)) (\<lambda>trans.
       cthen (DealTail e [pack_array 6, TInt (nCmd o1), TInt (nSubCmd o1), TInt (nSubSubCmd o1), TInt 0, TStr (strJrhm o1),
         pack_array 1, pack_array 6, TStr (res ! 0), TStr (res ! 1), TStr (prod ! 0), TStr (prod ! 1), TStr (prod ! 2),
         TStr trans] b) (
       (cbind (post_help (MSG_CARD_STATUS \<lparr>cs_Result = res ! 0, cs_ResultMsg = res ! 1, cs_ProductStatusCd = prod ! 0,
           cs_ProductStatusName = prod ! 1, cs_PservCreateDate = prod ! 2, cs_Number = number,
           cs_TRANSACTIONID = trans\<rparr>)) (\<lambda>_.
         ret True)))))))))))))))))"

text \<open>The pools are collected in a vector and packed from its end.\<close>

fun pool_texts :: "xml list \<Rightarrow> (world, string list list) cm" where
  "pool_texts [] = ret []"
| "pool_texts (p # ps) =
     cbind (get_texts 7 (xchildren p)) (\<lambda>ts.
     cbind (pool_texts ps) (\<lambda>r. ret (ts # r)))"

definition pool_toks :: "string list list \<Rightarrow> tok list" where
  "pool_toks ps = concat (map (\<lambda>ts. pack_array 7 # map TStr ts) (rev ps))"

text \<open>The header announces five values, four follow.\<close>

definition doPoolList01Response_fn :: "ext \<Rightarrow> nat \<Rightarrow> (world, bool) cm" where
  "doPoolList01Response_fn e b = (cbind (parse_doc e b) (\<lambda>doc.
     case doc of
       None \<Rightarrow> ret False
     | Some r \<Rightarrow> (cbind (get_buf b) (\<lambda>o1.
       cbind (of_opt Undefined r) (\<lambda>poollist.
       cbind (pool_texts (xchildren poollist)) (\<lambda>ps.
       cthen (DealTail e ([pack_array 5, TInt (nCmd o1), TInt (nSubCmd o1), TInt 0, pack_array (int (length ps))] @
         pool_toks ps) b) (
       ret True)))))))"

text \<open>\<open>doPoolList02Response\<close> returns \<open>true\<close> without a reply.\<close>

definition doPoolList02Response_fn :: "ext \<Rightarrow> nat \<Rightarrow> (world, bool) cm" where
  "doPoolList02Response_fn e b = (cbind (parse_doc e b) (\<lambda>doc.
     ret (doc \<noteq> None)))"

text \<open>\<open>pool_already\<close> is looked for below \<open>IRESULT\<close>, not beside it.\<close>

definition doPoolList03Response_fn :: "ext \<Rightarrow> nat \<Rightarrow> (world, bool) cm" where
  "doPoolList03Response_fn e b = (cbind (parse_doc e b) (\<lambda>doc.
     case doc of
       None \<Rightarrow> ret False
     | Some r \<Rightarrow> (cbind (of_opt Undefined r) (\<lambda>SvcCont.
       let IRESULT = xchildren SvcCont in
       cbind (elem_at IRESULT) (\<lambda>ires.
       let pool_already = xchildren ires in
       cbind (elem_at pool_already) (\<lambda>x.
       let pool_left = drop 1 pool_already in
       cbind (elem_at pool_left) (\<lambda>x.
       let pool_total = drop 1 pool_left in
       cbind (elem_at pool_total) (\<lambda>x.
       cbind (get_buf b) (\<lambda>o1.
       cbind (sprintf_s e 256 (sq ''SELECT COUNT(*) as num FROM sim_tbl WHERE llchm=`%s`'') [FS (strJrhm o1)]) (\<lambda>sql.
       cbind (ado_select e sql b) (\<lambda>ok.
       if \<not> ok then ret False
       else (cbind (recorder b) (\<lambda>h.
         cbind (of_opt ComError (ado_get e h ''num'')) (\<lambda>num.
         cbind (get_buf b) (\<lambda>o1.
         cbind (lift_fault (PackCollectDate e True num)) (\<lambda>n.
         cbind (get_text IRESULT) (\<lambda>t0.
         cbind (lift_fault (c_atoi t0)) (\<lambda>n0.
         cbind (get_texts 3 pool_already) (\<lambda>ts.
         cthen (DealTail e ([pack_array 4, TInt (nCmd o1), TInt (nSubCmd o1), TInt 0, pack_array 1, pack_array 5] @ n @
           [TInt n0, TStr (ts ! 0), TStr (ts ! 1), TStr (ts ! 2)]) b) (
         ret True))))))))))))))))))))"

section \<open>The answers in JSON\<close>

text \<open>\<open>cJSON_GetObjectItem(root, name)->valuestring\<close>, copied into a \<open>std::string\<close>.\<close>

definition json_text :: "cjson \<Rightarrow> string \<Rightarrow> (world, string) cm" where
  "json_text root name = (cbind (of_opt Undefined (cJSON_GetObjectItem root name)) (\<lambda>c.
     of_opt Undefined (valuestring c)))"

definition parse_json :: "ext \<Rightarrow> nat \<Rightarrow> (world, cjson option) cm" where
  "parse_json e b = (cbind (Utf8ConvertAnsi e b) (\<lambda>t.
     case cJSON_Parse (fpu_of e) t of
       POk c r \<Rightarrow> ret (Some c) | PFail \<Rightarrow> ret None | PUndef \<Rightarrow> throw Undefined | PFuel \<Rightarrow> throw Hang))"

definition json_reply :: "buf \<Rightarrow> string list \<Rightarrow> tok list" where
  "json_reply o' ts = [pack_array 5, TInt (nCmd o'), TInt (nSubCmd o'), TInt 0, TStr (strJrhm o'), pack_array 1,
     pack_array 3] @ map TStr ts"

definition doServActiveResponse_fn :: "ext \<Rightarrow> nat \<Rightarrow> (world, bool) cm" where
  "doServActiveResponse_fn e b = (cbind (parse_json e b) (\<lambda>rr.
     case rr of
       None \<Rightarrow> ret False
     | Some root \<Rightarrow> (cbind (get_buf b) (\<lambda>o1.
       cbind (json_text root ''RESULT'') (\<lambda>res.
       cbind (json_text root ''SMSG'') (\<lambda>smsg.
       cbind (json_text root ''GROUP_TRANSACTIONID'') (\<lambda>trans.
       cthen (DealTail e (json_reply o1 [res, smsg, trans]) b) (
       (cbind (post_help (MSG_SERV_ACTIVE \<lparr>sa_Jrhm = strJrhm o1, sa_Result = res, sa_Smsg = smsg, sa_TRANSACTIONID = trans\<rparr>)) (\<lambda>_.
         ret True))))))))))"

definition doPay2Response_fn :: "ext \<Rightarrow> nat \<Rightarrow> (world, bool) cm" where
  "doPay2Response_fn e b = (cbind (parse_json e b) (\<lambda>rr.
     case rr of
       None \<Rightarrow> ret False
     | Some root \<Rightarrow> (cbind (get_buf b) (\<lambda>o1.
       cbind (json_text root ''status'') (\<lambda>status.
       cbind (json_text root ''message'') (\<lambda>message.
       cbind (json_text root ''url'') (\<lambda>url.
       cthen (DealTail e (json_reply o1 [status, message, url]) b) (
       (cbind (post_help (MSG_PAY2 \<lparr>pp_Jrhm = strJrhm o1, pp_Status = status, pp_Message = message, pp_Url = url\<rparr>)) (\<lambda>_.
         ret True))))))))))"

section \<open>\<open>DoReturnData\<close>\<close>

fun api_response_fn :: "api_response \<Rightarrow> ext \<Rightarrow> nat \<Rightarrow> (world, bool) cm" where
  "api_response_fn doDisNumberResponse = doDisNumberResponse_fn"
| "api_response_fn doCardStatusResponse = doCardStatusResponse_fn"
| "api_response_fn doServActiveResponse = doServActiveResponse_fn"
| "api_response_fn doPay2Response = doPay2Response_fn"
| "api_response_fn doPoolList01Response = doPoolList01Response_fn"
| "api_response_fn doPoolList02Response = doPoolList02Response_fn"
| "api_response_fn doPoolList03Response = doPoolList03Response_fn"

definition DoReturnData :: "ext \<Rightarrow> nat \<Rightarrow> (world, unit) cm" where
  "DoReturnData e b = (cbind (get_buf b) (\<lambda>o1.
     cbind (of_opt Undefined (pfndoApiResponse o1)) (\<lambda>f.
     cbind (api_response_fn f e b) (\<lambda>ok.
     if \<not> ok then API_Failed e b else ret ()))))"

section \<open>Ownership\<close>

text \<open>A response function settles the connection when it returns \<open>true\<close>, and holds it otherwise.\<close>

definition responds :: "nat \<Rightarrow> (world, bool) cm \<Rightarrow> bool" where
  "responds b m \<longleftrightarrow> (\<forall>c B S. hoare (own b c B S) m
     (\<lambda>ok w. if ok then winv B S w else own b c B S w) (exn (own b c B S)))"

named_theorems responds_intros \<open>response functions\<close>

lemma responds_bind [responds_intros]:
  "quiet b m \<Longrightarrow> (\<And>x. responds b (f x)) \<Longrightarrow> responds b (cbind m f)"
  unfolding responds_def by (intro allI, rule hoare_bind [OF quiet_exn]) blast+

lemma responds_False [responds_intros]: "responds b (ret False)"
  by (simp add: responds_def hoare_def)

lemma responds_option [responds_intros]:
  "(r = None \<Longrightarrow> responds b m) \<Longrightarrow> (\<And>x. r = Some x \<Longrightarrow> responds b (f x)) \<Longrightarrow>
     responds b (case r of None \<Rightarrow> m | Some x \<Rightarrow> f x)"
  by (cases r) simp_all

lemma responds_if [responds_intros]:
  "(p \<Longrightarrow> responds b m) \<Longrightarrow> (\<not> p \<Longrightarrow> responds b n) \<Longrightarrow> responds b (if p then m else n)"
  by simp

lemma responds_True [responds_intros]:
  assumes "settles b m" shows "responds b (cthen m (ret True))"
  unfolding responds_def cthen_def
proof (intro allI)
  fix c B S
  show "hoare (own b c B S) (cbind m (\<lambda>_. ret True))
      (\<lambda>ok w. if ok then winv B S w else own b c B S w) (exn (own b c B S))"
    by (rule hoare_bind [OF settlesD [OF assms]], rule hoare_ret, simp)
qed

lemma helpq_winv: "winv B S (w\<lparr>helpq := q\<rparr>) = winv B S w"
  by (rule winv_same) simp_all

lemma responds_help [responds_intros]:
  assumes "settles b m" shows "responds b (cthen m (cbind (post_help h) (\<lambda>_. ret True)))"
  unfolding responds_def cthen_def
proof (intro allI)
  fix c B S
  have "hoare (winv B S) (cbind (post_help h) (\<lambda>_. ret True))
      (\<lambda>ok w. if ok then winv B S w else own b c B S w) (exn (own b c B S))"
    by (simp add: hoare_def post_help_def helpq_winv)
  then show "hoare (own b c B S) (cbind m (\<lambda>_. cbind (post_help h) (\<lambda>_. ret True)))
      (\<lambda>ok w. if ok then winv B S w else own b c B S w) (exn (own b c B S))"
    by (rule hoare_bind [OF settlesD [OF assms]])
qed

lemma quiet_Utf8 [quiet_intros]: "quiet b (Utf8ConvertAnsi e b)" "quiet b (parse_doc e b)" "quiet b (elem_at xs)"
    "quiet b (get_text xs)"
  unfolding parse_doc_def Utf8ConvertAnsi_def get_text_def elem_at_def
  by (intro quiet_intros, (cases xs; simp add: quiet_throw quiet_ret)?)+

lemma quiet_get_texts [quiet_intros]: "quiet b (get_texts n xs)"
  by (induction n arbitrary: xs) (auto simp del: ret_app intro!: quiet_intros)

lemma quiet_pool_texts [quiet_intros]: "quiet b (pool_texts ps)"
  by (induction ps) (auto simp del: ret_app get_texts.simps intro!: quiet_intros)

lemma quiet_json [quiet_intros]: "quiet b (json_text root name)" "quiet b (parse_json e b)"
  unfolding json_text_def parse_json_def
  by (intro quiet_intros, (auto simp del: ret_app split: pres.split intro!: quiet_intros)?)+

lemma responds_fns:
  "responds b (doDisNumberResponse_fn e b)" "responds b (doCardStatusResponse_fn e b)"
  "responds b (doServActiveResponse_fn e b)" "responds b (doPay2Response_fn e b)"
  "responds b (doPoolList01Response_fn e b)" "responds b (doPoolList03Response_fn e b)"
  unfolding doDisNumberResponse_fn_def doCardStatusResponse_fn_def doServActiveResponse_fn_def
    doPay2Response_fn_def doPoolList01Response_fn_def doPoolList03Response_fn_def Let_def
  by (intro responds_intros settles_DealTail quiet_intros)+

end
