(* ===== verification/NcData.thy ===== *)
theory NcData
  imports ApiResponse
begin

text \<open>
  \<open>doNcData.cpp\<close>: the operator's notifications, on the second port. The server acknowledges a message before
  it looks at it, and passes a completed order on to the help thread (\<open>theHelpThread.cpp\<close>), whose treatment of
  the messages is the second half of this theory.
\<close>

section \<open>The acknowledgement\<close>

definition dq :: "string \<Rightarrow> string" where
  "dq s = map (\<lambda>c. if c = CHR ''`'' then CHR 0x22 else c) s"

definition NC_RESPONSE :: string where
  "NC_RESPONSE = dq ''<?xml version = `1.0` encoding = `UTF8`?><ContractRoot><SUCCESS>true</SUCCESS><NOTIFY_CODE>000000</NOTIFY_CODE><RESULTMSG>'' @
     ([CHR 0xB5, CHR 0xF7, CHR 0xD3, CHR 0xC3, CHR 0xB3, CHR 0xC9, CHR 0xB9, CHR 0xA6]) @ ''</RESULTMSG></ContractRoot>''"

text \<open>\<open>memcpy_s\<close> ends the process when the destination is too small.\<close>

definition doNcResponse :: "ext \<Rightarrow> nat \<Rightarrow> (world, unit) cm" where
  "doNcResponse e b = (cbind (upd_buf b (\<lambda>o'. o'\<lparr>dwRecvedCount := of_nat (length NC_RESPONSE)\<rparr>)) (\<lambda>_.
     cbind (get_buf b) (\<lambda>o1.
     cbind ((if datalen o1 < int (length NC_RESPONSE) then throw Abort else ret ())) (\<lambda>_.
     cbind (write_data b 0 (bytes_of NC_RESPONSE)) (\<lambda>_.
     cbind (upd_buf b (SetIoRequestFunction NC_SendComp)) (\<lambda>_.
     cbind (related_sobj b) (\<lambda>c.
     cbind (PostSend e c b) (\<lambda>ok.
     if \<not> ok then close_and_free c b else ret ()))))))))"

section \<open>The message\<close>

definition DoNotifyContractRoot :: "xml \<Rightarrow> (world, bool) cm" where
  "DoNotifyContractRoot root = (cbind (get_texts 9 (xchildren root)) (\<lambda>ts.
     cbind (post_help (MSG_NOTIFY_CONTRACT_ROOT \<lparr>nc_Type = ts ! 0, nc_TRANSACTIONID = ts ! 1, nc_Statusinfo = ts ! 2,
       nc_Accnbr = ts ! 3, nc_Senddt = ts ! 4, nc_Accepttype = ts ! 5, nc_Acceptmsg = ts ! 6,
       nc_Statusdt = ts ! 7, nc_Resultmsg = ts ! 8\<rparr>)) (\<lambda>_.
     ret True)))"

text \<open>\<open>FirstChildElement(name)\<close> and \<open>NextSiblingElement(name)\<close>; the latter on a null element is undefined.\<close>

definition elem_named :: "string \<Rightarrow> xml list \<Rightarrow> xml list" where
  "elem_named name xs = dropWhile (\<lambda>x. xname x \<noteq> name) xs"

definition next_named :: "string \<Rightarrow> xml list \<Rightarrow> (world, xml list) cm" where
  "next_named name xs = (cbind (elem_at xs) (\<lambda>x.
     ret (elem_named name (drop 1 xs))))"

definition DoWanrningContractRoot :: "xml \<Rightarrow> (world, bool) cm" where
  "DoWanrningContractRoot root =
     (let pType = elem_named ''TYPE'' (xchildren root) in
      if pType = [] then ret False
      else (cbind (get_text pType) (\<lambda>pcType.
        cbind (lift_fault (c_atoi pcType)) (\<lambda>n.
        if n \<noteq> 2 then ret False
        else (cbind (next_named ''ACCNBR'' pType) (\<lambda>pAccnbr.
          cbind (next_named ''WARNINGTYPE'' pAccnbr) (\<lambda>pWarningtype.
          cbind (next_named ''WARNINGTYPEMSG'' pWarningtype) (\<lambda>pWarningtypemsg.
          ret True))))))))"

text \<open>The two comparisons have the same text. \<open>strcmp\<close> of a null pointer is undefined.\<close>

definition nc_message :: "xml option option \<Rightarrow> (world, bool) cm" where
  "nc_message doc = (case doc of
     None \<Rightarrow> ret False
   | Some r \<Rightarrow> (cbind (of_opt Undefined r) (\<lambda>RootElment.
       cbind (of_opt Undefined (map_option c_str (xtext RootElment))) (\<lambda>rootName.
       if rootName = ''NotifyContractRoot'' then DoNotifyContractRoot RootElment
       else if rootName = ''NotifyContractRoot'' then DoWanrningContractRoot RootElment
       else ret True))))"

definition doNcData :: "ext \<Rightarrow> nat \<Rightarrow> (world, bool) cm" where
  "doNcData e b = (cbind (parse_doc e b) (\<lambda>doc.
     cbind (doNcResponse e b) (\<lambda>_.
     nc_message doc)))"

section \<open>Ownership\<close>

text \<open>What runs after the tail call: it touches no connection and raises no C++ exception.\<close>

definition after_tail :: "(world, 'a) cm \<Rightarrow> bool" where
  "after_tail m \<longleftrightarrow> (\<forall>B S. hoare (winv B S) m (\<lambda>_. winv B S) (\<lambda>f _. \<not> is_exception f))"

lemma after_tail_ret: "after_tail (ret x)"
  by (simp add: after_tail_def hoare_def)

lemma after_tail_Undefined: "after_tail (throw Undefined)"
  by (simp add: after_tail_def hoare_def)

lemma after_tail_bind: "after_tail m \<Longrightarrow> (\<And>x. after_tail (f x)) \<Longrightarrow> after_tail (cbind m f)"
  unfolding after_tail_def by (intro allI, rule hoare_bind) blast+

lemma after_tail_of_opt: "after_tail (of_opt Undefined r)"
  by (cases r) (simp_all add: after_tail_ret after_tail_Undefined)

lemma after_tail_post_help: "after_tail (post_help m)"
  by (simp add: after_tail_def hoare_def post_help_def helpq_winv)

lemma after_tail_get_texts: "after_tail (get_texts n xs)"
proof (induction n arbitrary: xs)
  case (Suc n)
  have "after_tail (get_text xs)" for xs
    unfolding get_text_def elem_at_def
    by (cases xs) (auto simp del: ret_app intro!: after_tail_bind after_tail_of_opt after_tail_Undefined after_tail_ret)
  then show ?case using Suc
    by (auto simp del: ret_app intro!: after_tail_bind after_tail_ret)
qed (simp add: after_tail_ret del: ret_app)

lemma after_tail_atoi: "after_tail (lift_fault (c_atoi s))"
  by (auto simp: c_atoi_def Let_def after_tail_ret after_tail_Undefined simp del: ret_app split: prod.split)

lemma after_tail_nc_message: "after_tail (nc_message doc)"
  unfolding nc_message_def DoNotifyContractRoot_def
  by (cases doc) (auto simp del: ret_app intro!: after_tail_bind after_tail_ret after_tail_of_opt
      after_tail_get_texts after_tail_post_help)

lemma settles_after:
  assumes "settles b m" "\<And>x. after_tail (k x)"
  shows "settles b (cbind m k)"
  unfolding settles_def
proof (intro allI)
  fix c B S
  have "hoare (winv B S) (k x) (\<lambda>_. winv B S) (exn (own b c B S))" for x
    using assms(2) unfolding after_tail_def exn_def by (blast intro: hoare_post)
  then show "hoare (own b c B S) (cbind m k) (\<lambda>_. winv B S) (exn (own b c B S))"
    by (rule hoare_bind [OF settlesD [OF assms(1)]])
qed

lemma settles_send:
  assumes "\<not> accept_comp f" "\<not> api_comp f"
  shows "settles b (cbind (upd_buf b (SetIoRequestFunction f)) (\<lambda>_. cbind (related_sobj b) (\<lambda>c.
     cbind (PostSend e c b) (\<lambda>ok. if \<not> ok then close_and_free c b else ret ()))))"
proof (rule settlesI)
  fix c B S
  have "hoare (ready b c f c B S) (PostSend e c b)
      (\<lambda>ok w. if ok then winv B S w else own b c B S w) (\<lambda>_. own b c B S)"
    by (rule hoare_post [OF PostSend_ready]) (auto intro: ready_own simp: assms)
  moreover have "hoare (\<lambda>w. if ok then winv B S w else own b c B S w)
      (if \<not> ok then close_and_free c b else ret ()) (\<lambda>_. winv B S) (\<lambda>_. own b c B S)" for ok
    by (cases ok) (simp_all add: own_close_and_free hoare_ret)
  ultimately have "hoare (ready b c f c B S) (cbind (PostSend e c b)
      (\<lambda>ok. if \<not> ok then close_and_free c b else ret ())) (\<lambda>_. winv B S) (\<lambda>_. own b c B S)"
    by (rule hoare_bind)
  then have "hoare (\<lambda>w. x = c \<and> ready b c f c B S w) (cbind (PostSend e x b)
      (\<lambda>ok. if \<not> ok then close_and_free x b else ret ())) (\<lambda>_. winv B S) (\<lambda>_. own b c B S)" for x
    by (auto simp: hoare_def)
  then have "hoare (ready b c f c B S) (cbind (related_sobj b) (\<lambda>c. cbind (PostSend e c b)
      (\<lambda>ok. if \<not> ok then close_and_free c b else ret ()))) (\<lambda>_. winv B S) (\<lambda>_. own b c B S)"
    by (rule hoare_bind [OF ready_related])
  then show "hoare (own b c B S) (cbind (upd_buf b (SetIoRequestFunction f)) (\<lambda>_. cbind (related_sobj b) (\<lambda>c.
     cbind (PostSend e c b) (\<lambda>ok. if \<not> ok then close_and_free c b else ret ())))) (\<lambda>_. winv B S) (\<lambda>_. own b c B S)"
    by (rule hoare_bind [OF own_set_fn])
qed

lemma settles_doNcResponse: "settles b (doNcResponse e b)"
  unfolding doNcResponse_def
  by (intro settles_bind quiet_intros settles_send) simp_all

lemma settles_doNcData: "settles b (doNcData e b)"
  unfolding doNcData_def
  by (intro settles_bind quiet_intros settles_after [OF settles_doNcResponse] after_tail_nc_message)

section \<open>The help thread\<close>

definition set_state :: "ext \<Rightarrow> string \<Rightarrow> string \<Rightarrow> (world, unit) cm" where
  "set_state e fmt number = (cbind (sprintf_s e 256 fmt [FS number]) (\<lambda>sql.
     cbind (ado_execute e sql) (\<lambda>ok.
     ret ())))"

definition COMPLETED :: string where "COMPLETED = ([CHR 0xBF, CHR 0xA2, CHR 0xB9, CHR 0xA4])"
definition SQL_IN_USE :: string where "SQL_IN_USE = (sq ''UPDATE sim_tbl SET zt=`'' @ [CHR 0xD4, CHR 0xDA, CHR 0xD3, CHR 0xC3] @ sq ''` WHERE jrhm=`%s`'')"
definition SQL_STOPPED :: string where "SQL_STOPPED = (sq ''UPDATE sim_tbl SET zt=`'' @ [CHR 0xD3, CHR 0xC3, CHR 0xBB, CHR 0xA7, CHR 0xB1, CHR 0xA8, CHR 0xCD, CHR 0xA3] @ sq ''` WHERE jrhm=`%s`'')"

definition notify_contract :: "ext \<Rightarrow> notify_contract_root \<Rightarrow> (world, unit) cm" where
  "notify_contract e m = (cbind (lift_fault (c_atoi (nc_Accepttype m))) (\<lambda>nAccepttype.
     if nAccepttype = 7 \<and> nc_Statusinfo m = COMPLETED then set_state e SQL_IN_USE (nc_Accnbr m)
     else if nAccepttype = 8 \<and> nc_Statusinfo m = COMPLETED then set_state e SQL_STOPPED (nc_Accnbr m)
     else if nAccepttype = 9 \<and> nc_Statusinfo m = COMPLETED then set_state e SQL_IN_USE (nc_Accnbr m)
     else ret ()))"

fun help_message :: "ext \<Rightarrow> help_msg \<Rightarrow> (world, unit) cm" where
  "help_message e (MSG_DIS_NUMBER m) = ret ()"
| "help_message e (MSG_CARD_STATUS m) =
     cbind (sprintf_s e 256 (sq ''UPDATE sim_tbl SET zt=`%s` WHERE jrhm=`%s`'') [FS (cs_ProductStatusName m), FS (cs_Number m)]) (\<lambda>sql.
     cbind (ado_execute e sql) (\<lambda>_. ret ()))"
| "help_message e (MSG_SERV_ACTIVE m) = cbind (lift_fault (c_atoi (sa_Result m))) (\<lambda>_. ret ())"
| "help_message e (MSG_PAY2 m) = ret ()"
| "help_message e (MSG_NOTIFY_CONTRACT_ROOT m) = notify_contract e m"

text \<open>The message loop, for a queue of \<open>n\<close> messages; the thread then waits.\<close>

fun theHeperFunction :: "ext \<Rightarrow> nat \<Rightarrow> (world, unit) cm" where
  "theHeperFunction e 0 = ret ()"
| "theHeperFunction e (Suc n) = cbind (gets helpq) (\<lambda>q. case q of
     [] \<Rightarrow> ret ()
   | m # ms \<Rightarrow> cbind (modify (\<lambda>w. w\<lparr>helpq := ms\<rparr>)) (\<lambda>_.
       cbind (help_message e m) (\<lambda>_. theHeperFunction e n)))"

end
