(* ===== verification/Completion.thy ===== *)
theory Completion
  imports ProcessCommand NcData
begin

text \<open>
  \<open>RequestComplete.cpp\<close>, \<open>NC_RequestComplete.cpp\<close>, \<open>API_RequestComplete.cpp\<close>: what a worker thread runs when
  an overlapped request of a client, of the operator's notification service or of a call of the operator's API
  has ended. \<open>n\<close> is \<open>dwTranstion\<close>, the key is the listen object \<open>l\<close> or the socket object \<open>c\<close> (\<open>a\<close> for a call of
  the API).
\<close>

section \<open>What the handlers share\<close>

text \<open>\<open>SetIoRequestFunction(f); if (!Post...(c, b)) { close and free }\<close>.\<close>

definition post_or_close :: "comp \<Rightarrow> (world, bool) cm \<Rightarrow> nat \<Rightarrow> nat \<Rightarrow> (world, unit) cm" where
  "post_or_close f m c b = (cbind (upd_buf b (SetIoRequestFunction f)) (\<lambda>_.
     cbind m (\<lambda>ok.
     if \<not> ok then close_and_free c b else ret ())))"

definition wait_more :: "ext \<Rightarrow> comp \<Rightarrow> nat \<Rightarrow> nat \<Rightarrow> (world, unit) cm" where
  "wait_more e f c b = post_or_close f (PostZeroRecv e c b) c b"

definition count_received :: "nat \<Rightarrow> nat \<Rightarrow> (world, unit) cm" where
  "count_received n b = upd_buf b (\<lambda>o'. o'\<lparr>dwRecvedCount := dwRecvedCount o' + of_nat n\<rparr>)"

definition count_sent :: "nat \<Rightarrow> nat \<Rightarrow> (world, unit) cm" where
  "count_sent n b = upd_buf b (\<lambda>o'. o'\<lparr>dwSendedCount := dwSendedCount o' + of_nat n\<rparr>)"

definition reset_counts :: "nat \<Rightarrow> (world, unit) cm" where
  "reset_counts b = upd_buf b (\<lambda>o'. o'\<lparr>dwRecvedCount := 0, dwSendedCount := 0\<rparr>)"

section \<open>Clients\<close>

definition AcceptCompFailed :: "nat \<Rightarrow> nat \<Rightarrow> (world, unit) cm" where
  "AcceptCompFailed l b = (cbind (related_sobj b) (\<lambda>c.
     cbind (get_sobj c) (\<lambda>s.
     cbind (upd_lobj l (RemoveAcpt (nKey s))) (\<lambda>_.
     close_and_free c b))))"

text \<open>What follows \<open>CheckRecvdata\<close>, here and in \<open>RecvCompSuccess\<close>.\<close>

definition received :: "ext \<Rightarrow> nat \<Rightarrow> nat \<Rightarrow> (world, unit) cm" where
  "received e c b = (cbind (CheckRecvdata b) (\<lambda>r.
     if r = 0 then wait_more e RecvZeroComp c b
     else if r = -1 then close_and_free c b
     else (cbind (ProcessCommand e b) (\<lambda>ok. ret ()))))"

definition AcceptCompSuccess :: "ext \<Rightarrow> nat \<Rightarrow> nat \<Rightarrow> nat \<Rightarrow> (world, unit) cm" where
  "AcceptCompSuccess e n l b =
     (if n = 0 then AcceptCompFailed l b
      else (cbind (related_sobj b) (\<lambda>c.
        cbind (get_sobj c) (\<lambda>s.
        cbind (upd_lobj l (RemoveAcpt (nKey s))) (\<lambda>_.
        cbind (ext_call (os_iocp e)) (\<lambda>port.
        if \<not> port then close_and_free c b
        else (cbind (count_received n b) (\<lambda>_.
          received e c b))))))))"

definition RecvZeroCompFailed :: "nat \<Rightarrow> nat \<Rightarrow> (world, unit) cm" where
  "RecvZeroCompFailed c b = close_and_free c b"

definition RecvZeroCompSuccess :: "ext \<Rightarrow> nat \<Rightarrow> nat \<Rightarrow> nat \<Rightarrow> (world, unit) cm" where
  "RecvZeroCompSuccess e n c b = post_or_close RecvComp (PostRecv e c b) c b"

definition RecvCompFailed :: "nat \<Rightarrow> nat \<Rightarrow> (world, unit) cm" where
  "RecvCompFailed c b = close_and_free c b"

definition RecvCompSuccess :: "ext \<Rightarrow> nat \<Rightarrow> nat \<Rightarrow> nat \<Rightarrow> (world, unit) cm" where
  "RecvCompSuccess e n c b =
     (if n = 0 then RecvCompFailed c b
      else (cbind (count_received n b) (\<lambda>_.
        received e c b)))"

definition SendCompFailed :: "nat \<Rightarrow> nat \<Rightarrow> (world, unit) cm" where
  "SendCompFailed c b = close_and_free c b"

text \<open>\<open>f\<close> is the completion function of the next receive: \<open>RecvZeroComp\<close> or \<open>NC_RecvZeroComp\<close>.\<close>

definition sent :: "ext \<Rightarrow> comp \<Rightarrow> nat \<Rightarrow> nat \<Rightarrow> nat \<Rightarrow> (world, unit) cm" where
  "sent e f n c b = (cbind (count_sent n b) (\<lambda>_.
     cbind (get_buf b) (\<lambda>o1.
     if dwSendedCount o1 < dwRecvedCount o1 then (cbind (PostSend e c b) (\<lambda>ok.
       if \<not> ok then close_and_free c b else ret ()))
     else (cbind (reset_counts b) (\<lambda>_.
       wait_more e f c b)))))"

definition SendCompSuccess :: "ext \<Rightarrow> nat \<Rightarrow> nat \<Rightarrow> nat \<Rightarrow> (world, unit) cm" where
  "SendCompSuccess e n c b = (if n = 0 then SendCompFailed c b else sent e RecvZeroComp n c b)"

section \<open>Notifications\<close>

definition NC_AcceptCompFailed :: "nat \<Rightarrow> nat \<Rightarrow> (world, unit) cm" where
  "NC_AcceptCompFailed l b = (cbind (related_sobj b) (\<lambda>c.
     cbind (get_sobj c) (\<lambda>s.
     cbind (upd_lobj l (RemoveAcpt (nKey s))) (\<lambda>_.
     close_and_free c b))))"

text \<open>
  \<open>strstr(data, needle) != NULL\<close>: a search that finds nothing before the end of the buffer and meets no
  terminator reads on.
\<close>

definition occurs :: "string \<Rightarrow> string \<Rightarrow> bool" where
  "occurs needle s \<longleftrightarrow> (\<exists>i \<in> set [0..<Suc (length s)]. take (length needle) (drop i s) = needle)"

definition strstr :: "byte list \<Rightarrow> string \<Rightarrow> fault + bool" where
  "strstr d needle =
     (if occurs needle (c_str (string_of d)) then Inr True
      else if 0 \<in> set d then Inr False else Inl Undefined)"

definition nc_complete :: "byte list \<Rightarrow> fault + bool" where
  "nc_complete d = (case strstr d ''</NotifyContractRoot>'' of
     Inl f \<Rightarrow> Inl f
   | Inr True \<Rightarrow> Inr True
   | Inr False \<Rightarrow> strstr d ''</WanrningContractRoot>'')"

definition nc_received :: "ext \<Rightarrow> nat \<Rightarrow> nat \<Rightarrow> (world, unit) cm" where
  "nc_received e c b = (cbind (get_buf b) (\<lambda>o1.
     cbind (lift_fault (nc_complete (bdata o1))) (\<lambda>complete.
     if \<not> complete then wait_more e NC_RecvZeroComp c b
     else (cbind (doNcData e b) (\<lambda>ok. ret ())))))"

definition NC_AcceptCompSuccess :: "ext \<Rightarrow> nat \<Rightarrow> nat \<Rightarrow> nat \<Rightarrow> (world, unit) cm" where
  "NC_AcceptCompSuccess e n l b =
     (if n = 0 then NC_AcceptCompFailed l b
      else (cbind (related_sobj b) (\<lambda>c.
        cbind (get_sobj c) (\<lambda>s.
        cbind (upd_lobj l (RemoveAcpt (nKey s))) (\<lambda>_.
        cbind (ext_call (os_iocp e)) (\<lambda>port.
        if \<not> port then close_and_free c b
        else (cbind (count_received n b) (\<lambda>_.
          nc_received e c b))))))))"

definition NC_RecvZeroCompFailed :: "nat \<Rightarrow> nat \<Rightarrow> (world, unit) cm" where
  "NC_RecvZeroCompFailed c b = close_and_free c b"

definition NC_RecvZeroCompSuccess :: "ext \<Rightarrow> nat \<Rightarrow> nat \<Rightarrow> nat \<Rightarrow> (world, unit) cm" where
  "NC_RecvZeroCompSuccess e n c b = post_or_close NC_RecvComp (PostRecv e c b) c b"

definition NC_RecvCompFailed :: "nat \<Rightarrow> nat \<Rightarrow> (world, unit) cm" where
  "NC_RecvCompFailed c b = close_and_free c b"

definition NC_RecvCompSuccess :: "ext \<Rightarrow> nat \<Rightarrow> nat \<Rightarrow> nat \<Rightarrow> (world, unit) cm" where
  "NC_RecvCompSuccess e n c b =
     (if n = 0 then NC_RecvCompFailed c b
      else (cbind (count_received n b) (\<lambda>_.
        nc_received e c b)))"

definition NC_SendCompFailed :: "nat \<Rightarrow> nat \<Rightarrow> (world, unit) cm" where
  "NC_SendCompFailed c b = close_and_free c b"

definition NC_SendCompSuccess :: "ext \<Rightarrow> nat \<Rightarrow> nat \<Rightarrow> nat \<Rightarrow> (world, unit) cm" where
  "NC_SendCompSuccess e n c b = (if n = 0 then NC_SendCompFailed c b else sent e NC_RecvZeroComp n c b)"

section \<open>Calls of the API\<close>

text \<open>The call has ended without an answer: its socket goes, the client gets the failure reply.\<close>

definition api_fail :: "ext \<Rightarrow> nat \<Rightarrow> nat \<Rightarrow> (world, unit) cm" where
  "api_fail e a b = (cbind (free_api a) (\<lambda>_.
     API_Failed e b))"

definition api_post :: "ext \<Rightarrow> comp \<Rightarrow> (world, bool) cm \<Rightarrow> nat \<Rightarrow> nat \<Rightarrow> (world, unit) cm" where
  "api_post e f m a b = (cbind (upd_buf b (SetIoRequestFunction f)) (\<lambda>_.
     cbind m (\<lambda>ok.
     if \<not> ok then api_fail e a b else ret ())))"

definition API_ConnectCompFailed :: "ext \<Rightarrow> nat \<Rightarrow> nat \<Rightarrow> (world, unit) cm" where
  "API_ConnectCompFailed e a b = (cbind (RemoveConn a) (\<lambda>_.
     api_fail e a b))"

definition API_ConnectCompSuccess :: "ext \<Rightarrow> nat \<Rightarrow> nat \<Rightarrow> nat \<Rightarrow> (world, unit) cm" where
  "API_ConnectCompSuccess e n a b =
     (if n = 0 then API_ConnectCompFailed e a b
      else (cbind (RemoveConn a) (\<lambda>_.
        cbind (count_sent n b) (\<lambda>_.
        cbind (get_buf b) (\<lambda>o1.
        if dwSendedCount o1 < dwRecvedCount o1 then api_post e API_SendComp (PostSend e a b) a b
        else (cbind (write_data b 0 (replicate (unat (dwRecvedCount o1)) 0)) (\<lambda>_.
          cbind (reset_counts b) (\<lambda>_.
          api_post e API_RecvZeroComp (PostZeroRecv e a b) a b))))))))"

definition API_SendCompFailed :: "ext \<Rightarrow> nat \<Rightarrow> nat \<Rightarrow> (world, unit) cm" where
  "API_SendCompFailed e a b = api_fail e a b"

definition API_SendCompSuccess :: "ext \<Rightarrow> nat \<Rightarrow> nat \<Rightarrow> nat \<Rightarrow> (world, unit) cm" where
  "API_SendCompSuccess e n a b =
     (if n = 0 then API_SendCompFailed e a b
      else (cbind (count_sent n b) (\<lambda>_.
        cbind (get_buf b) (\<lambda>o1.
        if dwSendedCount o1 < dwRecvedCount o1 then (cbind (PostSend e a b) (\<lambda>ok.
          if \<not> ok then api_fail e a b else ret ()))
        else (cbind (reset_counts b) (\<lambda>_.
          api_post e API_RecvZeroComp (PostZeroRecv e a b) a b))))))"

definition API_RecvZeroCompFailed :: "ext \<Rightarrow> nat \<Rightarrow> nat \<Rightarrow> (world, unit) cm" where
  "API_RecvZeroCompFailed e a b = api_fail e a b"

definition API_RecvZeroCompSuccess :: "ext \<Rightarrow> nat \<Rightarrow> nat \<Rightarrow> nat \<Rightarrow> (world, unit) cm" where
  "API_RecvZeroCompSuccess e n a b = api_post e API_RecvComp (PostRecv e a b) a b"

definition API_RecvCompFailed :: "ext \<Rightarrow> nat \<Rightarrow> nat \<Rightarrow> (world, unit) cm" where
  "API_RecvCompFailed e a b = api_fail e a b"

text \<open>The test \<open>dwTransion < 0\<close> of an unsigned number is never true. No bytes: the operator has closed, the answer is
  complete.\<close>

definition API_RecvCompSuccess :: "ext \<Rightarrow> nat \<Rightarrow> nat \<Rightarrow> nat \<Rightarrow> (world, unit) cm" where
  "API_RecvCompSuccess e n a b =
     (if n = 0 then (cbind (free_api a) (\<lambda>_.
        DoReturnData e b))
      else (cbind (count_received n b) (\<lambda>_.
        api_post e API_RecvZeroComp (PostZeroRecv e a b) a b)))"

section \<open>The worker thread (\<open>IoWorkerThread.cpp\<close>)\<close>

text \<open>
  \<open>bobj->pfnSuccess(dwTranstion, key, bobj)\<close> and \<open>bobj->pfnFailed(key, bobj)\<close>. A key that is not of the kind the
  function expects would be read as another structure.
\<close>

definition pfnSuccess_call :: "ext \<Rightarrow> comp \<Rightarrow> nat \<Rightarrow> ckey \<Rightarrow> nat \<Rightarrow> (world, unit) cm" where
  "pfnSuccess_call e f n k b = (case k of
     KListen l \<Rightarrow> (case f of
         AcceptComp \<Rightarrow> AcceptCompSuccess e n l b
       | NC_AcceptComp \<Rightarrow> NC_AcceptCompSuccess e n l b
       | _ \<Rightarrow> throw Undefined)
   | KSock c \<Rightarrow> (case f of
         RecvZeroComp \<Rightarrow> RecvZeroCompSuccess e n c b
       | RecvComp \<Rightarrow> RecvCompSuccess e n c b
       | SendComp \<Rightarrow> SendCompSuccess e n c b
       | NC_RecvZeroComp \<Rightarrow> NC_RecvZeroCompSuccess e n c b
       | NC_RecvComp \<Rightarrow> NC_RecvCompSuccess e n c b
       | NC_SendComp \<Rightarrow> NC_SendCompSuccess e n c b
       | API_ConnectComp \<Rightarrow> API_ConnectCompSuccess e n c b
       | API_SendComp \<Rightarrow> API_SendCompSuccess e n c b
       | API_RecvZeroComp \<Rightarrow> API_RecvZeroCompSuccess e n c b
       | API_RecvComp \<Rightarrow> API_RecvCompSuccess e n c b
       | _ \<Rightarrow> throw Undefined))"

definition pfnFailed_call :: "ext \<Rightarrow> comp \<Rightarrow> ckey \<Rightarrow> nat \<Rightarrow> (world, unit) cm" where
  "pfnFailed_call e f k b = (case k of
     KListen l \<Rightarrow> (case f of
         AcceptComp \<Rightarrow> AcceptCompFailed l b
       | NC_AcceptComp \<Rightarrow> NC_AcceptCompFailed l b
       | _ \<Rightarrow> throw Undefined)
   | KSock c \<Rightarrow> (case f of
         RecvZeroComp \<Rightarrow> RecvZeroCompFailed c b
       | RecvComp \<Rightarrow> RecvCompFailed c b
       | SendComp \<Rightarrow> SendCompFailed c b
       | NC_RecvZeroComp \<Rightarrow> NC_RecvZeroCompFailed c b
       | NC_RecvComp \<Rightarrow> NC_RecvCompFailed c b
       | NC_SendComp \<Rightarrow> NC_SendCompFailed c b
       | API_ConnectComp \<Rightarrow> API_ConnectCompFailed e c b
       | API_SendComp \<Rightarrow> API_SendCompFailed e c b
       | API_RecvZeroComp \<Rightarrow> API_RecvZeroCompFailed e c b
       | API_RecvComp \<Rightarrow> API_RecvCompFailed e c b
       | _ \<Rightarrow> throw Undefined))"

text \<open>One round of \<open>completionRoution\<close>: the completion status of the buffer \<open>b\<close> has been dequeued.\<close>

definition completion_round :: "ext \<Rightarrow> bool \<Rightarrow> nat \<Rightarrow> ckey \<Rightarrow> nat \<Rightarrow> (world, unit) cm" where
  "completion_round e bSuccess n k b = (cbind (get_buf b) (\<lambda>o1.
     if \<not> bSuccess then (cbind (of_opt Undefined (pfnFailed o1)) (\<lambda>f.
       pfnFailed_call e f k b))
     else (cbind (of_opt Undefined (pfnSuccess o1)) (\<lambda>f.
       pfnSuccess_call e f n k b))))"

section \<open>Ownership\<close>

text \<open>Every object has at most one owner; \<open>B\<close> and \<open>S\<close> are objects no one will ever release.\<close>

definition safe :: "world \<Rightarrow> bool" where
  "safe w \<longleftrightarrow> (\<exists>B S. winv B S w)"

text \<open>Nothing is claimed of the state after a fault that ends the thread.\<close>

abbreviation any_fault :: "fault \<Rightarrow> world \<Rightarrow> bool" where
  "any_fault \<equiv> (\<lambda>_ _. True)"

definition ends :: "(world \<Rightarrow> bool) \<Rightarrow> (world, 'a) cm \<Rightarrow> bool" where
  "ends P m \<longleftrightarrow> hoare P m (\<lambda>_. safe) any_fault"

named_theorems ends_intros \<open>handlers that end in a safe state\<close>

lemma winv_safe: "winv B S w \<Longrightarrow> safe w"
  by (auto simp: safe_def)

lemma own_safe: "own b c B S w \<Longrightarrow> safe w"
  by (auto simp: own_def safe_def)

lemma ends_winv: "hoare P m (\<lambda>_. winv B S) E \<Longrightarrow> ends P m"
  unfolding ends_def by (erule hoare_post) (auto intro: winv_safe)

lemma ends_settles [ends_intros]: "settles b m \<Longrightarrow> ends (own b c B S) m"
  by (rule ends_winv [OF settlesD])

lemma ends_bind:
  assumes "hoare P m R E" "\<And>x. ends (R x) (f x)"
  shows "ends P (cbind m f)"
proof -
  have "hoare P m R any_fault" by (rule hoare_post [OF assms(1)]) simp_all
  then show ?thesis using assms(2) unfolding ends_def by (rule hoare_bind)
qed

lemma ends_quiet [ends_intros]:
  "quiet b m \<Longrightarrow> (\<And>x. ends (own b c B S) (f x)) \<Longrightarrow> ends (own b c B S) (cbind m f)"
  by (rule ends_bind [OF quiet_own])

lemma ends_if [ends_intros]: "(p \<Longrightarrow> ends P m) \<Longrightarrow> (\<not> p \<Longrightarrow> ends P n) \<Longrightarrow> ends P (if p then m else n)"
  by simp

lemma ends_pre: "ends P' m \<Longrightarrow> (\<And>w. P w \<Longrightarrow> P' w) \<Longrightarrow> ends P m"
  by (auto simp: ends_def intro: hoare_pre)

lemma ends_close [ends_intros]: "ends (own b c B S) (close_and_free c b)"
  by (rule ends_winv [OF own_close_and_free])

lemma ends_throw [ends_intros]: "ends P (throw f)"
  by (simp add: ends_def hoare_def)

lemma ends_ret_unit: "ends P m \<Longrightarrow> ends P (cbind m (\<lambda>_. ret x))"
  unfolding ends_def by (rule hoare_bind) (auto intro: hoare_ret)

lemma ends_ret: "(\<And>w. P w \<Longrightarrow> safe w) \<Longrightarrow> ends P (ret x)"
  by (simp add: ends_def hoare_def)

lemma upd_lobj_own: "hoare (own b c B S) (upd_lobj l f) (\<lambda>_. own b c B S) (\<lambda>_. own b c B S)"
proof -
  have "winv B' S' (w\<lparr>lobjs := (lobjs w)(l \<mapsto> x)\<rparr>) = winv B' S' w" if "lobjs w l = Some y" for B' S' w x y
    by (rule winv_same) (use that in auto)
  then show ?thesis
    by (auto simp: hoare_def upd_lobj_def get_lobj_def cbind_def of_opt_def own_def split: option.splits)
qed

lemma own_of_related:
  assumes "ends (own b c B S) (f c)" shows "ends (own b c B S) (cbind (related_sobj b) f)"
proof (rule ends_bind [OF own_related])
  show "ends (\<lambda>w. x = c \<and> own b c B S w) (f x)" for x
    using assms by (auto simp: ends_def hoare_def)
qed

lemma ends_accept_failed [ends_intros]:
  "ends (own b c B S) (AcceptCompFailed l b)" "ends (own b c B S) (NC_AcceptCompFailed l b)"
  unfolding AcceptCompFailed_def NC_AcceptCompFailed_def
  by (intro own_of_related ends_quiet quiet_intros ends_bind [OF upd_lobj_own] ends_close)+

lemma ends_post_tail:
  assumes "hoare (ready b c f c B S) m (\<lambda>ok w. if ok then winv B S w else ready b c f c B S w) E"
  shows "ends (ready b c f c B S) (cbind m (\<lambda>ok. if \<not> ok then close_and_free c b else ret ()))"
proof (rule ends_bind [OF assms])
  fix ok :: bool
  show "ends (\<lambda>w. if ok then winv B S w else ready b c f c B S w) (if \<not> ok then close_and_free c b else ret ())"
    by (cases ok) (simp_all add: ends_ret winv_safe ends_pre [OF ends_close ready_own] del: ret_app)
qed

lemma ends_post_or_close:
  assumes "hoare (ready b c f c B S) m (\<lambda>ok w. if ok then winv B S w else ready b c f c B S w) E"
  shows "ends (own b c B S) (post_or_close f m c b)"
  unfolding post_or_close_def by (rule ends_bind [OF own_set_fn ends_post_tail [OF assms]])

lemma ends_wait_more [ends_intros]:
  "\<not> accept_comp f \<Longrightarrow> \<not> api_comp f \<Longrightarrow> ends (own b c B S) (wait_more e f c b)"
  unfolding wait_more_def by (rule ends_post_or_close [OF PostZeroRecv_ready]) simp_all

lemma ends_recv_zero [ends_intros]:
  "ends (own b c B S) (RecvZeroCompSuccess e n c b)" "ends (own b c B S) (NC_RecvZeroCompSuccess e n c b)"
  unfolding RecvZeroCompSuccess_def NC_RecvZeroCompSuccess_def
  by (rule ends_post_or_close [OF PostRecv_ready]; simp)+

lemma quiet_counts [quiet_intros]:
  "quiet b (count_received n b)" "quiet b (count_sent n b)" "quiet b (reset_counts b)"
  unfolding count_received_def count_sent_def reset_counts_def by (intro quiet_intros; simp)+

text \<open>The buffer has the completion function it was posted with.\<close>

definition own_fn :: "comp \<Rightarrow> nat \<Rightarrow> nat \<Rightarrow> nat set \<Rightarrow> nat set \<Rightarrow> world \<Rightarrow> bool" where
  "own_fn f b c B S w \<longleftrightarrow> ready b c f c B S w"

lemma ready_quiet_upd:
  assumes "\<And>o'. pRelatedSObj (g o') = pRelatedSObj o'" "\<And>o'. pfnSuccess (g o') = pfnSuccess o'"
    "\<And>o'. pfnFailed (g o') = pfnFailed o'" "\<And>x. ends (ready b c f a B S) (k x)"
  shows "ends (ready b c f a B S) (cbind (upd_buf b g) k)"
  by (rule ends_bind [OF ready_upd_buf [OF assms(1,2,3)]]) (rule assms(4))

lemma ends_sent:
  assumes "\<not> accept_comp f" "\<not> api_comp f" "\<not> accept_comp g" "\<not> api_comp g"
  shows "ends (ready b c f c B S) (sent e g n c b)"
  unfolding sent_def count_sent_def reset_counts_def
  by (intro ready_quiet_upd ends_bind [OF ready_get_buf] ends_if ends_post_tail [OF PostSend_ready]
      ends_pre [OF ends_wait_more ready_own]) (simp_all add: assms)

lemma ends_failed [ends_intros]:
  "ends (own b c B S) (RecvZeroCompFailed c b)" "ends (own b c B S) (RecvCompFailed c b)"
  "ends (own b c B S) (SendCompFailed c b)" "ends (own b c B S) (NC_RecvZeroCompFailed c b)"
  "ends (own b c B S) (NC_RecvCompFailed c b)" "ends (own b c B S) (NC_SendCompFailed c b)"
  unfolding RecvZeroCompFailed_def RecvCompFailed_def SendCompFailed_def NC_RecvZeroCompFailed_def
    NC_RecvCompFailed_def NC_SendCompFailed_def by (rule ends_close)+

lemma ends_send [ends_intros]:
  "ends (ready b c SendComp c B S) (SendCompSuccess e n c b)"
  "ends (ready b c NC_SendComp c B S) (NC_SendCompSuccess e n c b)"
  unfolding SendCompSuccess_def NC_SendCompSuccess_def
  by (intro ends_if ends_sent ends_pre [OF ends_failed(3) ready_own] ends_pre [OF ends_failed(6) ready_own]; simp)+

lemma ends_nc_received [ends_intros]: "ends (own b c B S) (nc_received e c b)"
  unfolding nc_received_def
  by (intro ends_quiet quiet_intros ends_if ends_wait_more ends_ret_unit ends_settles settles_doNcData) simp_all

lemma ends_nc_recv [ends_intros]:
  "ends (own b c B S) (NC_RecvCompSuccess e n c b)" "ends (own b c B S) (NC_AcceptCompSuccess e n l b)"
  unfolding NC_RecvCompSuccess_def NC_AcceptCompSuccess_def
  by (intro ends_if ends_quiet quiet_intros ends_failed ends_accept_failed own_of_related
      ends_bind [OF upd_lobj_own] ends_close ends_nc_received)+

text \<open>Receiving for the client protocol: the buffer matters, because of the command that replies twice.\<close>

definition own_at :: "nat \<Rightarrow> nat \<Rightarrow> nat set \<Rightarrow> nat set \<Rightarrow> buf \<Rightarrow> world \<Rightarrow> bool" where
  "own_at b c B S o' w \<longleftrightarrow> own b c B S w \<and> bufs w b = Some o'"

lemma own_at_upd:
  assumes "\<And>o'. pRelatedSObj (g o') = pRelatedSObj o'"
  shows "hoare (own_at b c B S o') (upd_buf b g) (\<lambda>_. own_at b c B S (g o')) E"
proof (rule hoareI)
  fix w x w' assume o: "own_at b c B S o' w" and r: "upd_buf b g w = (Inr x, w')"
  have "own b c B S w'"
    using hoareD_Inr [OF quiet_own [OF quiet_upd_buf [OF assms]] _ r] o by (simp add: own_at_def)
  then show "own_at b c B S (g o') w'" using o r by (auto simp: own_at_def)
next
  fix w f w' assume "own_at b c B S o' w" "upd_buf b g w = (Inl f, w')"
  then show "E f w'" by (auto simp: own_at_def)
qed

definition checked :: "buf \<Rightarrow> buf" where
  "checked o' = (case check_frame (bdata o') (dwRecvedCount o') of
     Inr (r, n) \<Rightarrow> o'\<lparr>dwRecvedCount := n\<rparr> | _ \<Rightarrow> o')"

lemma CheckRecvdata_own_at:
  "hoare (own_at b c B S o') (CheckRecvdata b) (\<lambda>_. own_at b c B S (checked o')) any_fault"
proof (rule hoareI)
  fix w x w' assume o: "own_at b c B S o' w" and r: "CheckRecvdata b w = (Inr x, w')"
  then have b: "bufs w b = Some o'" by (simp add: own_at_def)
  obtain y n where c: "check_frame (bdata o') (dwRecvedCount o') = Inr (y, n)"
    using r b by (auto simp: CheckRecvdata_def get_buf_def cbind_def lift_fault_def split: sum.splits)
  have u: "upd_buf b (\<lambda>x. x\<lparr>dwRecvedCount := n\<rparr>) w = (Inr (), w')"
    using r b c by (auto simp: CheckRecvdata_def get_buf_def cbind_def split: sum.splits prod.splits)
  from hoareD_Inr [OF own_at_upd [of "\<lambda>x. x\<lparr>dwRecvedCount := n\<rparr>"] o u] c
  show "own_at b c B S (checked o') w'" by (simp add: checked_def)
qed simp

lemma ends_received:
  assumes "\<not> sim_list e (checked o')"
  shows "ends (own_at b c B S o') (received e c b)"
proof -
  have at: "own_at b c B S o2 w \<Longrightarrow> own b c B S w" for o2 w by (simp add: own_at_def)
  have "ends (own_at b c B S (checked o')) (ProcessCommand e b)"
    unfolding ends_def own_at_def
    by (rule hoare_post [OF ProcessCommand_leaves [OF assms]]) (auto intro: winv_safe own_safe)
  then show ?thesis unfolding received_def
    by (intro ends_bind [OF CheckRecvdata_own_at] ends_if ends_pre [OF ends_wait_more at]
        ends_pre [OF ends_close at] ends_ret_unit) simp_all
qed

definition arrived :: "nat \<Rightarrow> buf \<Rightarrow> buf" where
  "arrived n o' = o'\<lparr>dwRecvedCount := dwRecvedCount o' + of_nat n\<rparr>"

lemma ends_arrived:
  assumes "\<not> sim_list e (checked (arrived n o'))"
  shows "ends (own_at b c B S o') (cbind (count_received n b) (\<lambda>_. received e c b))"
proof (rule ends_bind)
  show "hoare (own_at b c B S o') (count_received n b) (\<lambda>_. own_at b c B S (arrived n o')) any_fault"
    unfolding count_received_def by (rule hoare_post [OF own_at_upd]) (auto simp: arrived_def)
qed (rule ends_received [OF assms])

lemma ends_recv [ends_intros]:
  assumes "\<not> sim_list e (checked (arrived n o'))"
  shows "ends (own_at b c B S o') (RecvCompSuccess e n c b)"
  unfolding RecvCompSuccess_def
proof (intro ends_if ends_arrived [OF assms])
  show "ends (own_at b c B S o') (RecvCompFailed c b)"
    by (rule ends_pre [OF ends_failed(2) [of b c B S]]) (simp add: own_at_def)
qed

lemma own_at_keeps:
  assumes "\<And>w r w'. m w = (r, w') \<Longrightarrow> bufs w' = bufs w" "hoare (own b c B S) m (\<lambda>_. own b c B S) E"
  shows "hoare (own_at b c B S o') m (\<lambda>_. own_at b c B S o') any_fault"
proof (rule hoareI)
  fix w x w' assume o: "own_at b c B S o' w" and r: "m w = (Inr x, w')"
  then show "own_at b c B S o' w'"
    using hoareD_Inr [OF assms(2) _ r] assms(1) [OF r] by (simp add: own_at_def)
qed simp

lemma upd_lobj_bufs: "upd_lobj l f w = (r, w') \<Longrightarrow> bufs w' = bufs w"
  by (auto simp: upd_lobj_def get_lobj_def cbind_def of_opt_def split: option.splits)

lemma ends_accept [ends_intros]:
  assumes "\<not> sim_list e (checked (arrived n o'))"
  shows "ends (own_at b c B S o') (AcceptCompSuccess e n l b)"
proof -
  have at: "own_at b c B S o' w \<Longrightarrow> own b c B S w" for w by (simp add: own_at_def)
  have sock: "hoare (own_at b c B S o') (get_sobj c) (\<lambda>_. own_at b c B S o') any_fault"
    by (rule own_at_keeps [OF _ quiet_own [OF quiet_get_sobj]])
      (auto simp: get_sobj_def cbind_def of_opt_def split: option.splits)
  have call: "hoare (own_at b c B S o') (ext_call h) (\<lambda>_. own_at b c B S o') any_fault" for h :: "nat \<Rightarrow> bool"
    by (rule own_at_keeps [OF _ quiet_own [OF quiet_ext_call]]) auto
  have lobj: "hoare (own_at b c B S o') (upd_lobj l f) (\<lambda>_. own_at b c B S o') any_fault" for f
    by (rule own_at_keeps [OF upd_lobj_bufs upd_lobj_own])
  have related: "hoare (own_at b c B S o') (related_sobj b) (\<lambda>x w. x = c \<and> own_at b c B S o' w) any_fault"
    by (rule hoareI) (auto simp: own_at_def own_def related_sobj_def cbind_def)
  have "ends (own_at b c B S o') (cbind (get_sobj c) (\<lambda>s. cbind (upd_lobj l (RemoveAcpt (nKey s))) (\<lambda>_.
      cbind (ext_call (os_iocp e)) (\<lambda>port. if \<not> port then close_and_free c b
        else cbind (count_received n b) (\<lambda>_. received e c b)))))"
    by (intro ends_bind [OF sock] ends_bind [OF lobj] ends_bind [OF call] ends_if ends_arrived [OF assms]
        ends_pre [OF ends_close at])
  then have "ends (\<lambda>w. x = c \<and> own_at b c B S o' w) (cbind (get_sobj x) (\<lambda>s. cbind (upd_lobj l (RemoveAcpt (nKey s))) (\<lambda>_.
      cbind (ext_call (os_iocp e)) (\<lambda>port. if \<not> port then close_and_free x b
        else cbind (count_received n b) (\<lambda>_. received e x b)))))" for x
    by (auto simp: ends_def hoare_def)
  then show ?thesis unfolding AcceptCompSuccess_def
    by (intro ends_if ends_bind [OF related] ends_pre [OF ends_accept_failed(1) at])
qed

text \<open>The handlers of a call of the API hold a second socket.\<close>

lemma ends_api_fail [ends_intros]: "ends (own2 b c a B S) (api_fail e a b)"
  unfolding api_fail_def by (intro ends_bind [OF free_api_own] ends_settles settles_API_Failed)

lemma ends_quiet2 [ends_intros]:
  "quiet b m \<Longrightarrow> (\<And>x. ends (own2 b c a B S) (f x)) \<Longrightarrow> ends (own2 b c a B S) (cbind m f)"
  by (rule ends_bind [OF own2_quiet])

lemma ends_api_tail:
  assumes "hoare (ready b c f a B S) m (\<lambda>ok w. if ok then winv B S w else ready b c f a B S w) E" "a \<noteq> c"
  shows "ends (ready b c f a B S) (cbind m (\<lambda>ok. if \<not> ok then api_fail e a b else ret ()))"
proof (rule ends_bind [OF assms(1)])
  fix ok :: bool
  show "ends (\<lambda>w. if ok then winv B S w else ready b c f a B S w) (if \<not> ok then api_fail e a b else ret ())"
    using assms(2)
    by (cases ok) (simp_all add: ends_ret winv_safe ends_pre [OF ends_api_fail ready_own2] del: ret_app)
qed

lemma ends_api_post:
  assumes "\<And>B S. a \<noteq> c \<Longrightarrow> hoare (ready b c f a B S) m
     (\<lambda>ok w. if ok then winv B S w else ready b c f a B S w) (\<lambda>_. ready b c f a B S)"
  shows "ends (own2 b c a B S) (api_post e f m a b)"
proof (cases "a = c")
  case True
  then show ?thesis by (auto simp: ends_def hoare_def own2_def own_def)
next
  case False
  have "ends (\<lambda>w. a \<noteq> c \<and> ready b c f a B S w) (cbind m (\<lambda>ok. if \<not> ok then api_fail e a b else ret ()))"
    by (rule ends_pre [OF ends_api_tail [OF assms [OF False, of B S] False]]) simp
  then show ?thesis unfolding api_post_def by (rule ends_bind [OF own2_set_fn])
qed

lemma ends_api_zero [ends_intros]:
  "ends (own2 b c a B S) (api_post e API_RecvZeroComp (PostZeroRecv e a b) a b)"
  by (rule ends_api_post, rule PostZeroRecv_ready) simp_all

lemma ends_api_failed [ends_intros]:
  "ends (own2 b c a B S) (API_ConnectCompFailed e a b)" "ends (own2 b c a B S) (API_SendCompFailed e a b)"
  "ends (own2 b c a B S) (API_RecvZeroCompFailed e a b)" "ends (own2 b c a B S) (API_RecvCompFailed e a b)"
  unfolding API_ConnectCompFailed_def API_SendCompFailed_def API_RecvZeroCompFailed_def API_RecvCompFailed_def
  by (intro ends_bind [OF own2_keep [OF own_conn(2)]] ends_api_fail)+

lemma ends_api_connect [ends_intros]: "ends (own2 b c a B S) (API_ConnectCompSuccess e n a b)"
  unfolding API_ConnectCompSuccess_def
  by (intro ends_if ends_api_failed ends_bind [OF own2_keep [OF own_conn(2)]] ends_quiet2 quiet_intros ends_api_zero
      ends_api_post PostSend_ready) simp_all

lemma ends_api_send [ends_intros]:
  assumes "a \<noteq> c"
  shows "ends (ready b c API_SendComp a B S) (API_SendCompSuccess e n a b)"
proof -
  have send: "hoare (ready b c API_SendComp a B S) (PostSend e a b)
      (\<lambda>ok w. if ok then winv B S w else ready b c API_SendComp a B S w) (\<lambda>_. ready b c API_SendComp a B S)"
    by (rule PostSend_ready) (simp_all add: assms)
  have own2: "ready b c API_SendComp a B S w \<Longrightarrow> own2 b c a B S w" for w by (rule ready_own2 [OF _ assms])
  show ?thesis unfolding API_SendCompSuccess_def count_sent_def reset_counts_def
    by (intro ends_if ready_quiet_upd ends_bind [OF ready_get_buf] ends_api_tail [OF send assms]
      ends_pre [OF ends_api_failed(2) own2] ends_pre [OF ends_api_zero own2]) simp_all
qed

lemma ends_api_recv_zero [ends_intros]: "ends (own2 b c a B S) (API_RecvZeroCompSuccess e n a b)"
  unfolding API_RecvZeroCompSuccess_def
  by (rule ends_api_post, rule PostRecv_ready) simp_all

lemma ends_responds:
  assumes "responds b m"
  shows "ends (own b c B S) (cbind m (\<lambda>ok. if \<not> ok then API_Failed e b else ret ()))"
proof (rule ends_bind)
  show "hoare (own b c B S) m (\<lambda>ok w. if ok then winv B S w else own b c B S w) (exn (own b c B S))"
    using assms by (simp add: responds_def)
  fix ok :: bool
  show "ends (\<lambda>w. if ok then winv B S w else own b c B S w) (if \<not> ok then API_Failed e b else ret ())"
    by (cases ok) (simp_all add: ends_ret winv_safe ends_settles settles_API_Failed del: ret_app)
qed

lemma ends_api_response:
  "ends (own b c B S) (cbind (api_response_fn f e b) (\<lambda>ok. if \<not> ok then API_Failed e b else ret ()))"
proof (cases f)
  case doPoolList02Response
  have "quiet b (doPoolList02Response_fn e b)"
    unfolding doPoolList02Response_fn_def by (intro quiet_intros)
  then show ?thesis unfolding doPoolList02Response api_response_fn.simps
    by (intro ends_quiet ends_if ends_settles settles_API_Failed ends_ret own_safe)
qed (simp_all add: ends_responds responds_fns)

lemma ends_DoReturnData [ends_intros]: "ends (own b c B S) (DoReturnData e b)"
  unfolding DoReturnData_def by (intro ends_quiet quiet_intros ends_api_response)

lemma ends_api_recv [ends_intros]: "ends (own2 b c a B S) (API_RecvCompSuccess e n a b)"
  unfolding API_RecvCompSuccess_def
  by (intro ends_if ends_bind [OF free_api_own] ends_DoReturnData ends_quiet2 quiet_intros ends_api_zero)

end
