(* ===== verification/DatabaseMap.thy ===== *)
theory DatabaseMap
  imports ApiRequests
begin

text \<open>
  \<open>Database_map.cpp\<close>: copies of three tables in memory (\<open>maps\<close>), with the SIM cards of each customer and the customers
  of each account manager. The server clears the maps at start-up; nothing calls the functions that fill them.
\<close>

definition InitDatabase_map :: "(world, unit) cm" where
  "InitDatabase_map = modify (\<lambda>w. w\<lparr>maps := empty_maps\<rparr>)"

section \<open>Filling the maps\<close>

text \<open>
  The loop over a record set: \<open>f\<close> is what the code does with a row. It ends after at most as many rows as the
  record set reports.
\<close>

fun each_row :: "ext \<Rightarrow> (nat \<Rightarrow> (world, unit) cm) \<Rightarrow> nat \<Rightarrow> nat \<Rightarrow> (world, unit) cm" where
  "each_row e f 0 h = (if ado_eof e h then ret () else throw Hang)"
| "each_row e f (Suc n) h = (if ado_eof e h then ret ()
     else cbind (f h) (\<lambda>_.
       cbind (of_opt ComError (ado_next e h)) (\<lambda>h. each_row e f n h)))"

definition select_rows :: "ext \<Rightarrow> string \<Rightarrow> (nat \<Rightarrow> (world, unit) cm) \<Rightarrow> (world, bool) cm" where
  "select_rows e sql f = (cbind (with_ado (Select_From_Tbl e sql None)) (\<lambda>(ok, r).
     if \<not> ok then ret False
     else (cbind (of_opt ComError r) (\<lambda>h.
       cbind (each_row e f (nat (ado_count e h)) h) (\<lambda>_.
       ret True)))))"

text \<open>\<open>(unsigned int)var\<close> and \<open>(const TCHAR*)(_bstr_t)var\<close>; \<open>uint_of\<close> is the conversion of \<open>_variant_t\<close>.\<close>

definition row_id :: "ext \<Rightarrow> (variant \<Rightarrow> nat option) \<Rightarrow> nat \<Rightarrow> (world, nat) cm" where
  "row_id e uint_of h = (cbind (of_opt ComError (ado_get e h ''id'')) (\<lambda>v.
     of_opt ComError (uint_of v)))"

definition row_text :: "ext \<Rightarrow> nat \<Rightarrow> string \<Rightarrow> (world, string) cm" where
  "row_text e h name = (cbind (of_opt ComError (ado_get e h name)) (\<lambda>v.
     bstr e v))"

definition upd_maps :: "(db_maps \<Rightarrow> db_maps) \<Rightarrow> (world, unit) cm" where
  "upd_maps f = modify (\<lambda>w. w\<lparr>maps := f (maps w)\<rparr>)"

definition Select_From_Sim :: "ext \<Rightarrow> (variant \<Rightarrow> nat option) \<Rightarrow> (world, bool) cm" where
  "Select_From_Sim e uint_of = select_rows e ''SELECT * FROM sim_tbl'' (\<lambda>h. (cbind (row_id e uint_of h) (\<lambda>n.
     cbind (row_text e h ''jrhm'') (\<lambda>jrhm.
     upd_maps (\<lambda>d. d\<lparr>map_sim := (map_sim d)(n \<mapsto> \<lparr>ts_id = n, ts_jrhm = jrhm, ts_khmc = ''''\<rparr>)\<rparr>)))))"

text \<open>The entries of a map that belong to a name.\<close>

definition members :: "('a \<Rightarrow> string) \<Rightarrow> string \<Rightarrow> (nat \<Rightarrow> 'a option) \<Rightarrow> nat \<Rightarrow> 'a option" where
  "members key name m = (\<lambda>i. case m i of None \<Rightarrow> None | Some x \<Rightarrow> if key x = name then Some x else None)"

definition Select_From_Kh :: "ext \<Rightarrow> (variant \<Rightarrow> nat option) \<Rightarrow> (world, bool) cm" where
  "Select_From_Kh e uint_of = select_rows e ''SELECT * FROM kh_tbl'' (\<lambda>h. (cbind (row_id e uint_of h) (\<lambda>n.
     cbind (row_text e h ''khmc'') (\<lambda>khmc.
     upd_maps (\<lambda>d. d\<lparr>map_kh := (map_kh d)(n \<mapsto> \<lparr>tk_id = n, tk_khmc = khmc, tk_jlxm = '''',
       tk_sim = members ts_khmc khmc (map_sim d)\<rparr>)\<rparr>)))))"

definition Select_From_Khjl :: "ext \<Rightarrow> (variant \<Rightarrow> nat option) \<Rightarrow> (world, bool) cm" where
  "Select_From_Khjl e uint_of = select_rows e ''SELECT * FROM khjl_tbl'' (\<lambda>h. (cbind (row_id e uint_of h) (\<lambda>n.
     cbind (row_text e h ''jlxm'') (\<lambda>jlxm.
     upd_maps (\<lambda>d. d\<lparr>map_khjl := (map_khjl d)(n \<mapsto> \<lparr>tj_id = n, tj_jlxm = jlxm,
       tj_kh = members tk_jlxm jlxm (map_kh d)\<rparr>)\<rparr>)))))"

section \<open>What the maps say\<close>

text \<open>The rows never carry the name of a customer or a manager: neither function reads that column.\<close>

definition names_missing :: "db_maps \<Rightarrow> bool" where
  "names_missing d \<longleftrightarrow> (\<forall>i x. map_sim d i = Some x \<longrightarrow> ts_khmc x = '''') \<and>
     (\<forall>i x. map_kh d i = Some x \<longrightarrow> tk_jlxm x = '''' \<and> (tk_khmc x \<noteq> '''' \<longrightarrow> tk_sim x = (\<lambda>_. None))) \<and>
     (\<forall>i x. map_khjl d i = Some x \<longrightarrow> tj_jlxm x \<noteq> '''' \<longrightarrow> tj_kh x = (\<lambda>_. None))"

lemma members_missing:
  "(\<And>i x. m i = Some x \<Longrightarrow> key x = '''') \<Longrightarrow> name \<noteq> '''' \<Longrightarrow> members key name m = (\<lambda>_. None)"
  by (fastforce simp: members_def split: option.split)

text \<open>An operation that keeps the names missing, whether or not it fails.\<close>

definition nameless :: "(world, 'a) cm \<Rightarrow> bool" where
  "nameless m \<longleftrightarrow> (\<forall>w. names_missing (maps w) \<longrightarrow> names_missing (maps (snd (m w))))"

lemma nameless_bind: "nameless m \<Longrightarrow> (\<And>x. nameless (f x)) \<Longrightarrow> nameless (cbind m f)"
  by (auto simp: nameless_def cbind_def split: prod.splits sum.splits)

lemma nameless_base:
  "nameless (ret x)" "nameless (throw g)" "nameless (of_opt g y)" "nameless (with_ado a)" "nameless (row_id e u h)"
  "nameless (row_text e h name)"
  by (auto simp: nameless_def of_opt_def with_ado_def row_id_def row_text_def bstr_def cbind_def split: option.splits prod.splits)

lemma nameless_if: "nameless m \<Longrightarrow> nameless n \<Longrightarrow> nameless (if p then m else n)"
  by simp

lemma nameless_prod: "(\<And>x y. nameless (f x y)) \<Longrightarrow> nameless (case p of (x, y) \<Rightarrow> f x y)"
  by (cases p) simp

lemma nameless_upd: "(\<And>d. names_missing d \<Longrightarrow> names_missing (f d)) \<Longrightarrow> nameless (upd_maps f)"
  by (simp add: nameless_def upd_maps_def)

lemma nameless_rows: "(\<And>h. nameless (f h)) \<Longrightarrow> nameless (each_row e f n h)"
proof (induction n arbitrary: h)
  case (Suc n)
  show ?case unfolding each_row.simps by (intro nameless_if nameless_bind nameless_base Suc.prems Suc.IH)
qed (unfold each_row.simps, intro nameless_if nameless_base)

lemma nameless_select: "(\<And>h. nameless (f h)) \<Longrightarrow> nameless (select_rows e sql f)"
  unfolding select_rows_def by (intro nameless_bind nameless_prod nameless_if nameless_base nameless_rows)

lemma nameless_loads:
  "nameless (Select_From_Sim e u)" "nameless (Select_From_Kh e u)" "nameless (Select_From_Khjl e u)"
  unfolding Select_From_Sim_def Select_From_Kh_def Select_From_Khjl_def
  by (intro nameless_select nameless_bind nameless_base nameless_upd; simp add: names_missing_def members_missing)+

text \<open>The three loads, one after the other.\<close>

definition load_maps :: "ext \<Rightarrow> (variant \<Rightarrow> nat option) \<Rightarrow> (world, unit) cm" where
  "load_maps e uint_of = (cbind InitDatabase_map (\<lambda>_.
     cbind (Select_From_Sim e uint_of) (\<lambda>ok1.
     cbind (Select_From_Kh e uint_of) (\<lambda>ok2.
     cbind (Select_From_Khjl e uint_of) (\<lambda>ok3.
     ret ())))))"

text \<open>
  The maps never connect a named customer with its SIM cards or a named account manager with
  its customers: \<open>Select_From_Sim\<close> does not read the customer of a card and \<open>Select_From_Kh\<close> does not read the
  manager of a customer, so the comparisons of the loading functions only succeed for an empty name.
\<close>

theorem maps_never_join: "names_missing (maps (snd (load_maps e uint_of w)))"
proof -
  let ?m = "cbind (Select_From_Sim e uint_of) (\<lambda>ok1. cbind (Select_From_Kh e uint_of) (\<lambda>ok2.
      cbind (Select_From_Khjl e uint_of) (\<lambda>ok3. ret ())))"
  have m: "nameless ?m" by (intro nameless_bind nameless_loads nameless_base)
  have init: "names_missing empty_maps" by (simp add: names_missing_def empty_maps_def)
  have "load_maps e uint_of w = ?m (w\<lparr>maps := empty_maps\<rparr>)"
    by (simp add: load_maps_def InitDatabase_map_def cbind_def)
  then show ?thesis using m init by (simp add: nameless_def)
qed

end
