(* ===== verification/Server.thy ===== *)
theory Server
  imports Completion DatabaseMap
begin

text \<open>
  \<open>CDBServer.cpp\<close>: start-up, the loop that keeps accept requests outstanding, and the process as a transition
  system. A step is one round of that loop or one completed request handled by a worker thread; the steps are
  atomic. The theorem of this theory is the ownership invariant: whatever the clients, the operator and the
  libraries do, no connection object is ever owned twice.
\<close>

section \<open>Start-up\<close>

definition POST_COUNT :: nat where "POST_COUNT = 10"
definition MAX_PENDING_ACCEPT :: nat where "MAX_PENDING_ACCEPT = 200"

text \<open>The listen object of a port, at the index \<open>l\<close> of \<open>LSock_Array\<close>. On an error the object is deleted.\<close>

definition lobj_error :: "nat \<Rightarrow> (world, bool) cm" where
  "lobj_error l = (cbind (modify (\<lambda>w. w\<lparr>lobjs := (lobjs w)(l := None)\<rparr>)) (\<lambda>_.
     ret False))"

definition zero_lobj :: lobj where
  "zero_lobj = lobj_init \<lparr>sListenSock = None, hPostAcceptExEvent = None, AcptMap = (\<lambda>_. None)\<rparr>"

definition InitListenSObj :: "ext \<Rightarrow> nat \<Rightarrow> (world, bool) cm" where
  "InitListenSObj e l = (cbind (modify (\<lambda>w. w\<lparr>lobjs := (lobjs w)(l \<mapsto> zero_lobj)\<rparr>)) (\<lambda>_.
     cbind (ext_call (os_socket e)) (\<lambda>s.
     cbind (upd_lobj l (\<lambda>x. x\<lparr>sListenSock := s\<rparr>)) (\<lambda>_.
     if s = None then lobj_error l
     else (cbind (ext_call (os_bind e)) (\<lambda>bound.
       if \<not> bound then lobj_error l
       else (cbind (ext_call (os_event e)) (\<lambda>ev.
         cbind (upd_lobj l (\<lambda>x. x\<lparr>hPostAcceptExEvent := ev\<rparr>)) (\<lambda>_.
         if ev = None then lobj_error l
         else (cbind (ext_call (os_startup e)) (\<lambda>sel.
           if \<not> sel then lobj_error l
           else (cbind (ext_call (os_iocp e)) (\<lambda>port.
             if \<not> port then lobj_error l
             else (cbind (ext_call (os_listen e)) (\<lambda>lis.
               if \<not> lis then lobj_error l else ret True)))))))))))))))"

text \<open>\<open>POST_COUNT\<close> accept requests; the results are not looked at.\<close>

fun post_accepts :: "ext \<Rightarrow> nat \<Rightarrow> nat \<Rightarrow> (world, unit) cm" where
  "post_accepts e l 0 = ret ()"
| "post_accepts e l (Suc n) = cbind (PostAcceptEx e l l) (\<lambda>_. post_accepts e l n)"

text \<open>
  \<open>InitWinsock.cpp\<close>: the start of Winsock, and the three extension functions, which are asked for over a socket of their own. The
  model has no state for what the system releases in \<open>closesocket\<close> of that socket and in \<open>WSACleanup\<close>.
\<close>

definition InitWinsock2 :: "ext \<Rightarrow> (world, bool) cm" where
  "InitWinsock2 e = (cbind (ext_call (os_startup e)) (\<lambda>rt.
     if \<not> rt then ret False else ret True))"

definition GetExtensionFunctionPointer :: "ext \<Rightarrow> (world, bool) cm" where
  "GetExtensionFunctionPointer e = (cbind (ext_call (os_socket e)) (\<lambda>sTemp.
     if sTemp = None then ret False
     else (cbind (ext_call (os_startup e)) (\<lambda>sockaddrs.
       if \<not> sockaddrs then ret False
       else (cbind (ext_call (os_startup e)) (\<lambda>accept.
         if \<not> accept then ret False
         else (cbind (ext_call (os_startup e)) (\<lambda>connect.
           if \<not> connect then ret False else ret True))))))))"

text \<open>
  The worker threads: each one that is asked for is counted when the completion port exists. The handle of the thread is not
  looked at.
\<close>

fun start_threads :: "ext \<Rightarrow> bool \<Rightarrow> nat \<Rightarrow> int \<Rightarrow> (world, int) cm" where
  "start_threads e hCompPort 0 nThreadCount = ret nThreadCount"
| "start_threads e hCompPort (Suc k) nThreadCount = cbind (ext_call (os_thread e)) (\<lambda>hThread.
     start_threads e hCompPort k (if hCompPort then nThreadCount + 1 else nThreadCount))"

text \<open>
  \<open>main\<close> up to its loop. \<open>already\<close> and \<open>can_create\<close> are the outcome of the guard against a second instance,
  \<open>page\<close> and \<open>cpus\<close> are the page size and the number of processors of the system.
\<close>

definition main_init :: "ext \<Rightarrow> bool \<Rightarrow> bool \<Rightarrow> 32 word \<Rightarrow> 32 word \<Rightarrow> (world, bool) cm" where
  "main_init e already can_create page cpus = (cbind (UniqueInstance already can_create) (\<lambda>unique.
     if \<not> unique then ret False
     else (cbind (InitWinsock2 e) (\<lambda>winsock.
       if \<not> winsock then ret False
       else (cbind (GetExtensionFunctionPointer e) (\<lambda>funs.
         if \<not> funs then ret False
         else (cbind (with_ado (InitAdoMysql e)) (\<lambda>db.
           if \<not> db then ret False
           else (cbind InitDatabase_map (\<lambda>_.
             cbind InitMemPool (\<lambda>_.
             cbind (with_mysql (Mysql_InitConnectionPool e 10 20)) (\<lambda>my.
             cbind (with_mysql (CreateUserTbl e)) (\<lambda>tbl.
             if \<not> tbl then ret False
             else (cbind (modify (\<lambda>w. w\<lparr>g_dwPageSize := unat (page * 8)\<rparr>)) (\<lambda>_.
               cbind (ext_call (os_iocp e)) (\<lambda>port.
               if \<not> port then ret False
               else (cbind (start_threads e port (unat (cpus * 2)) 0) (\<lambda>nThreadCount.
                 if nThreadCount \<le> 0 then ret False
                 else (cbind (InitListenSObj e 0) (\<lambda>ok.
                   if \<not> ok then ret False
                   else (cbind (InitListenSObj e 1) (\<lambda>ok.
                     if \<not> ok then ret False
                     else (cbind (post_accepts e 0 POST_COUNT) (\<lambda>_.
                       cbind (post_accepts e 1 POST_COUNT) (\<lambda>_.
                       ret True)))))))))))))))))))))))))"

section \<open>The accept loop\<close>

text \<open>
  The connections accepted but silent: \<open>es\<close> is the table \<open>AcptMap\<close> in the order of its iterator. A socket that
  has been connected for more than a minute is closed; \<open>SO_CONNECT_TIME\<close> is \<open>0xffffffff\<close> for one that is not
  connected yet.
\<close>

fun close_silent :: "ext \<Rightarrow> nat list \<Rightarrow> (world, unit) cm" where
  "close_silent e [] = ret ()"
| "close_silent e (c # cs) =
     cbind (get_sobj c) (\<lambda>_.
     cbind (ext_call (os_conntime e)) (\<lambda>t.
     cbind (case t of None \<Rightarrow> ret ()
       | Some optval \<Rightarrow> if optval \<noteq> -1 \<and> optval > 60 then CSCloseSocket c else ret ()) (\<lambda>_.
     close_silent e cs)))"

definition accept_round :: "ext \<Rightarrow> nat \<Rightarrow> nat list \<Rightarrow> (world, unit) cm" where
  "accept_round e l es = (cbind (post_accepts e l POST_COUNT) (\<lambda>_.
     if length es > MAX_PENDING_ACCEPT then close_silent e es else ret ()))"

section \<open>The transition system\<close>

text \<open>
  The system fills the buffer and reports the number of bytes. \<open>AcceptEx\<close> writes the two addresses behind the
  data. \<open>transfer\<close> is the data of the request, its result \<open>dwTranstion\<close>.
\<close>

definition fits :: "buf \<Rightarrow> io_req \<Rightarrow> byte list \<Rightarrow> byte list \<Rightarrow> bool" where
  "fits o' r bs addr = (case r of
      IoAccept \<Rightarrow> int (length bs) \<le> datalen o' - 64 \<and> length addr = 64
    | IoRecv off n \<Rightarrow> length bs \<le> n
    | IoZeroRecv \<Rightarrow> bs = []
    | IoSend d \<Rightarrow> bs = take (length bs) d
    | IoConnect d \<Rightarrow> bs = take (length bs) d)"

definition transfer :: "nat \<Rightarrow> io_req \<Rightarrow> byte list \<Rightarrow> byte list \<Rightarrow> (world, nat) cm" where
  "transfer b r bs addr = (case r of
      IoAccept \<Rightarrow> (cbind (write_data b 0 bs) (\<lambda>_.
        cbind (get_buf b) (\<lambda>o1.
        cbind (write_data b (nat (datalen o1 - 64)) addr) (\<lambda>_.
        ret (length bs)))))
    | IoRecv off n \<Rightarrow> (cbind (write_data b off bs) (\<lambda>_.
        ret (length bs)))
    | _ \<Rightarrow> ret (length bs))"

definition complete :: "ext \<Rightarrow> bool \<Rightarrow> byte list \<Rightarrow> byte list \<Rightarrow> nat \<Rightarrow> ckey \<Rightarrow> io_req \<Rightarrow> (world, unit) cm" where
  "complete e bSuccess bs addr b k r = (cbind ((if bSuccess then transfer b r bs addr else ret 0)) (\<lambda>n.
     completion_round e bSuccess n k b))"

text \<open>
  The buffer as the handler of a client's request finds it; \<open>twice\<close> says that it holds the request for the SIM
  list, to which the server replies twice.
\<close>

definition put :: "nat \<Rightarrow> byte list \<Rightarrow> buf \<Rightarrow> buf" where
  "put off bs o' = o'\<lparr>bdata := take off (bdata o') @ bs @ drop (off + length bs) (bdata o')\<rparr>"

definition filled :: "io_req \<Rightarrow> byte list \<Rightarrow> byte list \<Rightarrow> buf \<Rightarrow> buf" where
  "filled r bs addr o' = (case r of
      IoAccept \<Rightarrow> put (nat (datalen o' - 64)) addr (put 0 bs o')
    | IoRecv off n \<Rightarrow> put off bs o'
    | _ \<Rightarrow> o')"

definition twice :: "ext \<Rightarrow> io_req \<Rightarrow> byte list \<Rightarrow> byte list \<Rightarrow> buf \<Rightarrow> bool" where
  "twice e r bs addr o' \<longleftrightarrow> pfnSuccess o' \<in> {Some AcceptComp, Some RecvComp} \<and>
     sim_list e (checked (arrived (length bs) (filled r bs addr o')))"

inductive server_step :: "ext \<Rightarrow> world \<Rightarrow> world \<Rightarrow> bool" for e :: ext where
  completed: "pending w = ps @ (b, k, r) # qs \<Longrightarrow> bufs w b = Some o' \<Longrightarrow> fits o' r bs addr \<Longrightarrow>
     \<not> twice e r bs addr o' \<Longrightarrow>
     complete e True bs addr b k r (w\<lparr>pending := ps @ qs\<rparr>) = (Inr (), w') \<Longrightarrow> server_step e w w'"
| failed: "pending w = ps @ (b, k, r) # qs \<Longrightarrow>
     complete e False [] [] b k r (w\<lparr>pending := ps @ qs\<rparr>) = (Inr (), w') \<Longrightarrow> server_step e w w'"
| accepting: "accept_round e l es w = (Inr (), w') \<Longrightarrow> server_step e w w'"

inductive_cases server_stepE: "server_step e w w'"

inductive reach :: "ext \<Rightarrow> world \<Rightarrow> bool" for e :: ext where
  started: "main_init e already can_create page cpus world0 = (Inr True, w) \<Longrightarrow> reach e w"
| step: "reach e w \<Longrightarrow> server_step e w w' \<Longrightarrow> reach e w'"

section \<open>A completed request\<close>

lemma endsD: "ends P m \<Longrightarrow> P w \<Longrightarrow> m w = (Inr x, w') \<Longrightarrow> safe w'"
  unfolding ends_def by (rule hoareD_Inr)

text \<open>The dequeued request hands its objects to the worker thread.\<close>

lemma unpost:
  assumes inv: "winv B S w" and p: "pending w = ps @ (b, k, r) # qs"
  obtains o' c f where "bufs w b = Some o'" "pRelatedSObj o' = Some c" "pfnSuccess o' = Some f" "pfnFailed o' = Some f"
    "key_ok w f c k" "winv (insert b B) (({c} \<union> key_socks k) \<union> S) (w\<lparr>pending := ps @ qs\<rparr>)" "b \<notin> B"
    "({c} \<union> key_socks k) \<inter> S = {}"
proof -
  have "pend_ok w (b, k, r)" using inv p by (simp add: winv_def)
  then obtain o' c f where o': "bufs w b = Some o'" "pRelatedSObj o' = Some c" "pfnSuccess o' = Some f"
      "pfnFailed o' = Some f" "key_ok w f c k"
    by (auto split: option.splits)
  then have X: "pend_socks w (b, k, r) = {c} \<union> key_socks k" by (simp add: buf_sock_def)
  let ?w = "w\<lparr>pending := ps @ qs\<rparr>"
  have same: "pend_ok ?w q = pend_ok w q" "pend_socks ?w q = pend_socks w q" for q
    by (rule pend_cong; simp)+
  have parts: "parts B S (map fst ps @ b # map fst qs)
      (map (pend_socks w) ps @ ({c} \<union> key_socks k) # map (pend_socks w) qs)
      (vctBObj w) (vctSObj w) (dom (bufs w)) (dom (socks w)) (nextObj w)"
    using parts_of [OF inv] unfolding p by (simp add: X del: pend_socks.simps)
  have u: "b \<notin> B \<and> ({c} \<union> key_socks k) \<inter> S = {} \<and> parts (insert b B) (({c} \<union> key_socks k) \<union> S)
      (map fst ps @ map fst qs) (map (pend_socks w) ps @ map (pend_socks w) qs) (vctBObj w) (vctSObj w)
      (dom (bufs w)) (dom (socks w)) (nextObj w)"
    by (rule parts_unpost) (rule parts)
  have "winv (insert b B) (({c} \<union> key_socks k) \<union> S) ?w"
    using u pend_ok_of [OF inv] unfolding winv_def
    by (simp add: p same del: pend_socks.simps pend_ok.simps cong: map_cong)
  then show thesis using that o' u by blast
qed

lemma ready_qrel:
  assumes "qrel b w w'" "ready b c f a B S w" "bufs w' b = Some o'" "pfnSuccess o' = Some f" "pfnFailed o' = Some f"
  shows "ready b c f a B S w'"
proof -
  have "winv (insert b B) ({c, a} \<union> S) w'"
    using qrel_winv [OF assms(1)] assms(2) by (simp add: ready_def)
  moreover have "pRelatedSObj o' = Some c"
    using assms(1,2,3) by (auto simp: qrel_def ready_def)
  ultimately show ?thesis using assms(2-5) by (auto simp: ready_def)
qed

lemma own_qrel_at: "qrel b w w' \<Longrightarrow> own b c B S w \<Longrightarrow> bufs w' b = Some o' \<Longrightarrow> own_at b c B S o' w'"
  by (simp add: own_at_def qrel_own)

lemma transfer_run:
  assumes "transfer b r bs addr w = (Inr n, w')" "bufs w b = Some o'"
  shows "n = length bs \<and> bufs w' b = Some (filled r bs addr o') \<and> qrel b w w'"
proof -
  have "quiet b (transfer b r bs addr)"
    unfolding transfer_def by (cases r) (auto simp del: ret_app intro!: quiet_intros)
  from quietD [OF this assms(1)] have "qrel b w w'" .
  moreover have "n = length bs \<and> bufs w' b = Some (filled r bs addr o')"
    using assms by (cases r) (auto simp: transfer_def write_data_def filled_def put_def upd_buf_def get_buf_def cbind_def of_opt_def split: if_splits)
  ultimately show ?thesis by blast
qed

lemma filled_same [simp]: "pfnSuccess (filled r bs addr o') = pfnSuccess o'" "pfnFailed (filled r bs addr o') = pfnFailed o'"
  by (cases r; simp add: filled_def put_def)+

text \<open>The handler of each completion function, from what it holds.\<close>

lemma listen_success:
  assumes "key_ok w0 f c (KListen l)" "own_at b c B S o' w" "pfnSuccess o' = Some f"
    "f = AcceptComp \<longrightarrow> \<not> sim_list e (checked (arrived n o'))"
    "pfnSuccess_call e f n (KListen l) b w = (Inr x, w')"
  shows "safe w'"
proof -
  have o: "own b c B S w" using assms(2) by (simp add: own_at_def)
  consider "f = AcceptComp" | "f = NC_AcceptComp" using assms(1) by (cases f) (auto simp: key_ok_def)
  then show ?thesis
  proof cases
    case 1
    then show ?thesis using endsD [OF ends_accept assms(2)] assms(4,5) by (simp add: pfnSuccess_call_def)
  next
    case 2
    then show ?thesis using endsD [OF ends_nc_recv(2) o] assms(5) by (simp add: pfnSuccess_call_def)
  qed
qed

lemma client_success:
  assumes "\<not> accept_comp f" "\<not> api_comp f" "ready b c f c B S w" "bufs w b = Some o'"
    "f = RecvComp \<longrightarrow> \<not> sim_list e (checked (arrived n o'))"
    "pfnSuccess_call e f n (KSock c) b w = (Inr x, w')"
  shows "safe w'"
proof -
  have o: "own b c B S w" by (rule ready_own [OF assms(3)])
  have at: "own_at b c B S o' w" using o assms(4) by (simp add: own_at_def)
  show ?thesis
    using assms(1,2,3,5,6) endsD [OF ends_recv_zero(1) o] endsD [OF ends_recv_zero(2) o] endsD [OF ends_recv at]
      endsD [OF ends_nc_recv(1) o] endsD [OF ends_send(1)] endsD [OF ends_send(2)]
    by (cases f) (auto simp: pfnSuccess_call_def)
qed

lemma api_success:
  assumes "api_comp f" "ready b c f a B S w" "a \<noteq> c" "pfnSuccess_call e f n (KSock a) b w = (Inr x, w')"
  shows "safe w'"
proof -
  have o: "own2 b c a B S w" by (rule ready_own2 [OF assms(2,3)])
  show ?thesis
    using assms endsD [OF ends_api_connect o] endsD [OF ends_api_send [OF assms(3)]] endsD [OF ends_api_recv_zero o]
      endsD [OF ends_api_recv o]
    by (cases f) (auto simp: pfnSuccess_call_def)
qed

lemma listen_failed:
  assumes "key_ok w0 f c (KListen l)" "own b c B S w" "pfnFailed_call e f (KListen l) b w = (Inr x, w')"
  shows "safe w'"
  using assms(1,3) endsD [OF ends_accept_failed(1) assms(2)] endsD [OF ends_accept_failed(2) assms(2)]
  by (cases f) (auto simp: key_ok_def pfnFailed_call_def)

lemma client_failed:
  assumes "\<not> accept_comp f" "\<not> api_comp f" "own b c B S w" "pfnFailed_call e f (KSock c) b w = (Inr x, w')"
  shows "safe w'"
  using assms(1,2,4) endsD [OF ends_failed(1) assms(3)] endsD [OF ends_failed(2) assms(3)]
    endsD [OF ends_failed(3) assms(3)] endsD [OF ends_failed(4) assms(3)] endsD [OF ends_failed(5) assms(3)]
    endsD [OF ends_failed(6) assms(3)]
  by (cases f) (auto simp: pfnFailed_call_def)

lemma api_failed:
  assumes "api_comp f" "own2 b c a B S w" "pfnFailed_call e f (KSock a) b w = (Inr x, w')"
  shows "safe w'"
  using assms(1,3) endsD [OF ends_api_failed(1) assms(2)] endsD [OF ends_api_failed(2) assms(2)]
    endsD [OF ends_api_failed(3) assms(2)] endsD [OF ends_api_failed(4) assms(2)]
  by (cases f) (auto simp: pfnFailed_call_def)

lemma complete_success:
  assumes inv: "winv B S w" and p: "pending w = ps @ (b, k, r) # qs" and b: "bufs w b = Some o'"
    and t: "\<not> twice e r bs addr o'"
    and run: "complete e True bs addr b k r (w\<lparr>pending := ps @ qs\<rparr>) = (Inr (), w')"
  shows "safe w'"
proof -
  let ?w1 = "w\<lparr>pending := ps @ qs\<rparr>" and ?o2 = "filled r bs addr o'"
  obtain c f where f: "pRelatedSObj o' = Some c" "pfnSuccess o' = Some f" "pfnFailed o' = Some f" "key_ok w f c k"
      "winv (insert b B) (({c} \<union> key_socks k) \<union> S) ?w1" "b \<notin> B" "({c} \<union> key_socks k) \<inter> S = {}"
    using unpost [OF inv p] b by (metis option.inject)
  from run obtain n w2 where tr: "transfer b r bs addr ?w1 = (Inr n, w2)"
    and rd: "completion_round e True n k b w2 = (Inr (), w')"
    by (auto simp: complete_def cbind_def split: sum.splits prod.splits)
  have n: "n = length bs" and b2: "bufs w2 b = Some ?o2" and q: "qrel b ?w1 w2"
    using transfer_run [OF tr] b by simp_all
  have call: "pfnSuccess_call e f n k b w2 = (Inr (), w')"
    using rd b2 f(2) by (simp add: completion_round_def get_buf_def cbind_def)
  have list: "f = AcceptComp \<or> f = RecvComp \<longrightarrow> \<not> sim_list e (checked (arrived n ?o2))"
    using t f(2) n by (auto simp: twice_def)
  show ?thesis
  proof (cases k)
    case (KListen l)
    have "own b c B S ?w1" using f b KListen by (auto simp: own_def)
    then have "own_at b c B S ?o2 w2" using own_qrel_at [OF q _ b2] by simp
    then show ?thesis using listen_success [OF f(4) [unfolded KListen] _ _ _ call [unfolded KListen]] f(2) list by simp
  next
    case (KSock a)
    have "ready b c f a B S ?w1" using f b KSock by (auto simp: ready_def insert_commute)
    then have rdy: "ready b c f a B S w2" using ready_qrel [OF q _ b2] f by simp
    show ?thesis
    proof (cases "api_comp f")
      case True
      then show ?thesis using api_success [OF True rdy _ call [unfolded KSock]] f(4) KSock by (simp add: key_ok_def)
    next
      case False
      then have "a = c" "\<not> accept_comp f" using f(4) KSock by (auto simp: key_ok_def)
      then show ?thesis using client_success [OF _ False, of b c B S w2] rdy b2 list call KSock by blast
    qed
  qed
qed

lemma complete_failed:
  assumes inv: "winv B S w" and p: "pending w = ps @ (b, k, r) # qs"
    and run: "complete e False bs addr b k r (w\<lparr>pending := ps @ qs\<rparr>) = (Inr (), w')"
  shows "safe w'"
proof -
  let ?w1 = "w\<lparr>pending := ps @ qs\<rparr>"
  obtain o' c f where f: "bufs w b = Some o'" "pRelatedSObj o' = Some c" "pfnFailed o' = Some f" "key_ok w f c k"
      "winv (insert b B) (({c} \<union> key_socks k) \<union> S) ?w1" "b \<notin> B" "({c} \<union> key_socks k) \<inter> S = {}"
    by (rule unpost [OF inv p])
  have call: "pfnFailed_call e f k b ?w1 = (Inr (), w')"
    using run f(1,3) by (simp add: complete_def completion_round_def get_buf_def cbind_def)
  show ?thesis
  proof (cases k)
    case (KListen l)
    have "own b c B S ?w1" using f KListen by (auto simp: own_def)
    then show ?thesis using listen_failed [OF f(4) [unfolded KListen]] call KListen by blast
  next
    case (KSock a)
    show ?thesis
    proof (cases "api_comp f")
      case True
      then have "own2 b c a B S ?w1" using f KSock by (auto simp: own2_def own_def key_ok_def insert_commute)
      then show ?thesis using api_failed [OF True] call KSock by blast
    next
      case False
      then have "a = c" "\<not> accept_comp f" using f(4) KSock by (auto simp: key_ok_def)
      moreover then have "own b c B S ?w1" using f KSock by (auto simp: own_def)
      ultimately show ?thesis using client_failed [OF _ False] call KSock by blast
    qed
  qed
qed

section \<open>Accepting\<close>

text \<open>A buffer that no request uses may change in any way.\<close>

lemma upd_any: "hoare (winv (insert b B) S) (upd_buf b g) (\<lambda>_. winv (insert b B) S) any_fault"
proof (rule hoareI)
  fix w x w' assume inv: "winv (insert b B) S w" and r: "upd_buf b g w = (Inr x, w')"
  then obtain o' where w': "bufs w b = Some o'" "w' = w\<lparr>bufs := (bufs w)(b \<mapsto> g o')\<rparr>"
    by (auto simp: upd_buf_def get_buf_def cbind_def of_opt_def split: option.splits)
  have b: "b \<notin> fst ` set (pending w)" using winv_held(1) [OF inv] by simp
  have "dom (bufs w') = dom (bufs w)" using w' by auto
  moreover have "bufs w' x = bufs w x" if "x \<in> fst ` set (pending w)" for x using b w' that by auto
  ultimately have "winv (insert b B) S w' \<longleftrightarrow> winv (insert b B) S w"
    using winv_cong [of w' w "insert b B" S] w'(2) by (simp add: winv_def [of _ _ w])
  then show "winv (insert b B) S w'" using inv by simp
qed simp

lemma winv_tick: "winv B S (w\<lparr>tick := n\<rparr>) = winv B S w"
  by (rule winv_same) simp_all

lemma ext_call_winv: "hoare (winv B S) (ext_call h) (\<lambda>_. winv B S) E"
  by (simp add: hoare_def winv_tick)

lemma take_BObj_winv:
  "hoare (winv B S) (take_BObj e m) (\<lambda>r w. case r of None \<Rightarrow> winv B S w
     | Some b \<Rightarrow> b \<notin> B \<and> winv (insert b B) S w) E"
proof (rule hoareI)
  fix w r w' assume inv: "winv B S w" and t: "take_BObj e m w = (Inr r, w')"
  note p = parts_of [OF inv]
  show "case r of None \<Rightarrow> winv B S w' | Some b \<Rightarrow> b \<notin> B \<and> winv (insert b B) S w'"
  proof (cases "vctBObj w = []")
    case False
    then obtain V b where V: "vctBObj w = V @ [b]" by (metis rev_exhaust)
    have w': "r = Some b" "w' = w\<lparr>vctBObj := V\<rparr>" using t V by (auto simp: take_BObj_def)
    have "winv (insert b B) S w' \<longleftrightarrow> parts (insert b B) S (map fst (pending w)) (map (pend_socks w) (pending w))
       V (vctSObj w) (dom (bufs w)) (dom (socks w)) (nextObj w) \<and> (\<forall>p \<in> set (pending w). pend_ok w p)"
      using winv_cong [of w' w "insert b B" S] w' by simp
    then show ?thesis using parts_pop_buf [OF p[unfolded V]] pend_ok_of [OF inv] w'(1) by simp
  next
    case True
    show ?thesis
    proof (cases "heap_ok e (tick w)")
      case False
      then have "r = None" "w' = w\<lparr>tick := Suc (tick w)\<rparr>" using t True by (auto simp: take_BObj_def cbind_def)
      then show ?thesis using inv by (simp add: winv_tick)
    next
      case ok: True
      let ?n = "nextObj w"
      have w': "r = Some ?n" "w' = w\<lparr>tick := Suc (tick w), bufs := (bufs w)(?n \<mapsto> zero_buf (m - bobj_hdr e)),
          nextObj := Suc ?n\<rparr>"
        using t True ok by (auto simp: take_BObj_def cbind_def)
      have "\<forall>x \<in> fst ` set (pending w). x < ?n" using p unfolding parts_def by simp
      then have fresh: "?n \<notin> fst ` set (pending w)" by blast
      have "bufs w' x = bufs w x" if "x \<in> fst ` set (pending w)" for x
      proof -
        have "x \<noteq> ?n" using fresh that by blast
        then show ?thesis using w'(2) by simp
      qed
      then have "winv (insert ?n B) S w' \<longleftrightarrow> parts (insert ?n B) S (map fst (pending w)) (map (pend_socks w) (pending w))
         (vctBObj w) (vctSObj w) (insert ?n (dom (bufs w))) (dom (socks w)) (Suc ?n) \<and>
         (\<forall>p \<in> set (pending w). pend_ok w p)"
        using winv_cong [of w' w "insert ?n B" S] w'(2) by simp
      then show ?thesis using parts_new_buf [OF p] pend_ok_of [OF inv] w'(1) by simp
    qed
  qed
qed (auto simp: take_BObj_def cbind_def split: if_splits)

lemma allocBObj_winv:
  "hoare (winv B S) (allocBObj e m) (\<lambda>r w. case r of None \<Rightarrow> winv B S w
     | Some b \<Rightarrow> b \<notin> B \<and> winv (insert b B) S w) any_fault"
  unfolding allocBObj_def
proof (rule hoare_bind [OF take_BObj_winv])
  fix r
  show "hoare (\<lambda>w. case r of None \<Rightarrow> winv B S w | Some b \<Rightarrow> b \<notin> B \<and> winv (insert b B) S w)
     (case r of None \<Rightarrow> ret None | Some b \<Rightarrow> cbind (get_buf b) (\<lambda>o'. if length (bdata o') < m - bobj_hdr e
        then throw Undefined else cbind (upd_buf b (buf_init (m - bobj_hdr e))) (\<lambda>_. ret (Some b))))
     (\<lambda>r w. case r of None \<Rightarrow> winv B S w | Some b \<Rightarrow> b \<notin> B \<and> winv (insert b B) S w) any_fault"
  proof (cases r)
    case (Some b)
    have "hoare (winv (insert b B) S) (upd_buf b (buf_init (m - bobj_hdr e))) (\<lambda>_. winv (insert b B) S) any_fault"
      by (rule upd_any)
    then show ?thesis unfolding Some
      by (cases "b \<in> B") (auto simp: hoare_def cbind_def get_buf_def of_opt_def split: prod.splits sum.splits
          option.splits)
  qed (simp add: hoare_ret)
qed

text \<open>Freeing what \<open>PostAcceptEx\<close> has allocated.\<close>

lemma free_both:
  assumes "b \<notin> B" "c \<notin> S"
  shows "hoare (winv (insert b B) (insert c S)) (cbind (freeBObj b) (\<lambda>_. cbind (freeSObj c) (\<lambda>_. ret False)))
     (\<lambda>_. winv B S) any_fault"
  by (rule hoare_bind [OF freeBObj_winv [OF assms(1)]], rule hoare_bind [OF freeSObj_winv [OF assms(2)]],
      rule hoare_ret)

lemma held_own:
  assumes "b \<notin> B" "c \<notin> S"
  shows "hoare (winv (insert b B) (insert c S)) (upd_buf b (\<lambda>o'. o'\<lparr>pRelatedSObj := Some c\<rparr>))
     (\<lambda>_. own b c B S) any_fault"
proof (rule hoareI)
  fix w x w' assume "winv (insert b B) (insert c S) w" "upd_buf b (\<lambda>o'. o'\<lparr>pRelatedSObj := Some c\<rparr>) w = (Inr x, w')"
  then show "own b c B S w'"
    using hoareD_Inr [OF upd_any] assms
    by (auto simp: own_def upd_buf_def get_buf_def cbind_def of_opt_def split: option.splits)
qed simp

definition listening :: "nat \<Rightarrow> world \<Rightarrow> bool" where
  "listening l w \<longleftrightarrow> lobjs w l \<noteq> None"

lemma upd_lobj_ready:
  "hoare (ready b c f c B S) (upd_lobj l g) (\<lambda>_ w. ready b c f c B S w \<and> listening l w) any_fault"
proof (rule hoareI)
  fix w x w' assume r: "ready b c f c B S w" and u: "upd_lobj l g w = (Inr x, w')"
  then obtain y where w': "lobjs w l = Some y" "w' = w\<lparr>lobjs := (lobjs w)(l \<mapsto> g y)\<rparr>"
    by (auto simp: upd_lobj_def get_lobj_def cbind_def of_opt_def split: option.splits)
  have "winv B' S' w' = winv B' S' w" for B' S'
    by (rule winv_same) (use w' in auto)
  then show "ready b c f c B S w' \<and> listening l w'" using r w' by (simp add: ready_def listening_def)
qed simp

lemma post_accept:
  assumes "accept_comp f"
  shows "hoare (\<lambda>w. ready b c f c B S w \<and> listening l w) (post b (KListen l) IoAccept) (\<lambda>_. winv B S) any_fault"
  unfolding post_def
proof (rule hoare_modify)
  fix w assume rd: "ready b c f c B S w \<and> listening l w"
  then obtain o' where o': "bufs w b = Some o'" "pRelatedSObj o' = Some c" "pfnSuccess o' = Some f"
      "pfnFailed o' = Some f" and inv: "winv (insert b B) ({c} \<union> S) w" and b: "b \<notin> B" "{c} \<inter> S = {}"
    by (auto simp: ready_def)
  let ?p = "(b, KListen l, IoAccept)" and ?w' = "w\<lparr>pending := pending w @ [(b, KListen l, IoAccept)]\<rparr>"
  have same: "pend_ok ?w' p = pend_ok w p" "pend_socks ?w' p = pend_socks w p" for p
    by (rule pend_cong; simp)+
  have X: "pend_socks w ?p = {c}" using o' by (auto simp: buf_sock_def)
  have ok: "pend_ok w ?p" using o' assms rd by (simp add: key_ok_def listening_def)
  show "winv B S ?w'"
    using parts_post [OF parts_of [OF inv] b] pend_ok_of [OF inv] X ok
    by (simp add: winv_def same del: pend_socks.simps pend_ok.simps cong: map_cong)
qed

lemma ready_held: "ready b c f c B S w \<Longrightarrow> winv (insert b B) (insert c S) w"
  by (simp add: ready_def)

lemma hoare_opt:
  "hoare P m Q E \<Longrightarrow> (\<And>x. hoare (R x) (f x) Q E) \<Longrightarrow>
     hoare (\<lambda>w. case r of None \<Rightarrow> P w | Some x \<Rightarrow> R x w) (case r of None \<Rightarrow> m | Some x \<Rightarrow> f x) Q E"
  by (cases r) simp_all

lemma hoare_fact: "(A \<Longrightarrow> hoare P m Q E) \<Longrightarrow> hoare (\<lambda>w. A \<and> P w) m Q E"
  by (cases A) (simp_all add: hoare_def)

lemma allocSObj_any:
  "hoare (winv B S) (allocSObj e) (\<lambda>r w. case r of None \<Rightarrow> winv B S w
     | Some c \<Rightarrow> c \<notin> S \<and> winv B (insert c S) w) any_fault"
  by (rule hoare_post [OF allocSObj_winv]) simp_all

lemma PostAcceptEx_winv: "hoare (winv B S) (PostAcceptEx e l nIndex) (\<lambda>_. winv B S) any_fault"
proof -
  let ?f = "if nIndex = 0 then AcceptComp else NC_AcceptComp"
  let ?R = "\<lambda>b c. ready b c ?f c B S"
  let ?H = "\<lambda>b c. winv (insert b B) (insert c S)"
  let ?accept = "\<lambda>b c. cbind (ext_call (os_socket e)) (\<lambda>s. cbind (upd_sobj c (\<lambda>x. x\<lparr>sock := s\<rparr>)) (\<lambda>_.
      if s = None then cbind (freeBObj b) (\<lambda>_. cbind (freeSObj c) (\<lambda>_. ret False))
      else
      cbind (upd_sobj c (\<lambda>x. x\<lparr>pRelatedBObj := Some b\<rparr>)) (\<lambda>_.
      cbind (upd_buf b (\<lambda>o'. o'\<lparr>pRelatedSObj := Some c\<rparr>)) (\<lambda>_.
      cbind (upd_buf b (SetIoRequestFunction ?f)) (\<lambda>_.
      cbind (GetRand e) (\<lambda>key.
      cbind (upd_sobj c (\<lambda>x. x\<lparr>nKey := key\<rparr>)) (\<lambda>_.
      cbind (upd_lobj l (InsertAcpt key c)) (\<lambda>_.
      cbind (ext_call (os_acceptex e)) (\<lambda>ok.
      if ok then cbind (post b (KListen l) IoAccept) (\<lambda>_. ret True)
      else
        cbind (upd_lobj l (RemoveAcpt key)) (\<lambda>_.
        cbind (CSCloseSocket c) (\<lambda>_.
        cbind (freeBObj b) (\<lambda>_.
        cbind (freeSObj c) (\<lambda>_. ret False)))))))))))))"
  have clean: "hoare (?H b c) (cbind (CSCloseSocket c) (\<lambda>_. cbind (freeBObj b) (\<lambda>_. cbind (freeSObj c) (\<lambda>_. ret False))))
      (\<lambda>_. winv B S) any_fault" if "b \<notin> B" "c \<notin> S" for b c
    by (rule hoare_bind [OF CSCloseSocket_held], simp, rule free_both [OF that])
  have undo: "hoare (\<lambda>w. ?R b c w \<and> listening l w) (cbind (upd_lobj l (RemoveAcpt key)) (\<lambda>_. cbind (CSCloseSocket c) (\<lambda>_.
      cbind (freeBObj b) (\<lambda>_. cbind (freeSObj c) (\<lambda>_. ret False))))) (\<lambda>_. winv B S) any_fault"
    if "b \<notin> B" "c \<notin> S" for b c key
  proof (rule hoare_bind)
    show "hoare (\<lambda>w. ?R b c w \<and> listening l w) (upd_lobj l (RemoveAcpt key)) (\<lambda>_. ?H b c) any_fault"
      by (rule hoare_post [OF hoare_pre [OF upd_lobj_ready]]) (auto intro: ready_held)
  qed (rule clean [OF that])
  have submit: "hoare (\<lambda>w. ?R b c w \<and> listening l w) (cbind (ext_call (os_acceptex e)) (\<lambda>ok.
      if ok then cbind (post b (KListen l) IoAccept) (\<lambda>_. ret True)
      else cbind (upd_lobj l (RemoveAcpt key)) (\<lambda>_. cbind (CSCloseSocket c) (\<lambda>_.
        cbind (freeBObj b) (\<lambda>_. cbind (freeSObj c) (\<lambda>_. ret False)))))) (\<lambda>_. winv B S) any_fault"
    if "b \<notin> B" "c \<notin> S" for b c key
  proof (rule hoare_bind)
    show "hoare (\<lambda>w. ?R b c w \<and> listening l w) (ext_call (os_acceptex e)) (\<lambda>_ w. ?R b c w \<and> listening l w) any_fault"
      by (simp add: hoare_def ready_def listening_def winv_tick)
    show "hoare (\<lambda>w. ?R b c w \<and> listening l w) (if ok then cbind (post b (KListen l) IoAccept) (\<lambda>_. ret True)
        else cbind (upd_lobj l (RemoveAcpt key)) (\<lambda>_. cbind (CSCloseSocket c) (\<lambda>_.
          cbind (freeBObj b) (\<lambda>_. cbind (freeSObj c) (\<lambda>_. ret False))))) (\<lambda>_. winv B S) any_fault" for ok
      by (rule hoare_if, rule hoare_bind [OF post_accept], simp, rule hoare_ret, assumption, rule undo [OF that])
  qed
  have sock: "hoare (?R b c) (upd_sobj c g) (\<lambda>_. ?R b c) any_fault" for b c g
    by (rule hoare_post [OF keeps2_ready [OF keeps2_upd_sobj]]) simp_all
  have both: "hoare (?H b c) (?accept b c) (\<lambda>_. winv B S) any_fault"
    if "b \<notin> B" "c \<notin> S" for b c
    unfolding GetRand_def
    by (rule hoare_bind [OF ext_call_winv], rule hoare_bind [OF upd_sobj_held], simp, rule hoare_if,
        rule free_both [OF that], rule hoare_bind [OF upd_sobj_held], simp, rule hoare_bind [OF held_own [OF that]],
        rule hoare_bind [OF own_set_fn], rule hoare_bind [OF ready_ext_call], rule hoare_bind [OF sock],
        rule hoare_bind [OF upd_lobj_ready], rule submit [OF that])
  show ?thesis
    unfolding PostAcceptEx_def
  proof (rule hoare_bind)
    show "hoare (winv B S) (gets g_dwPageSize) (\<lambda>_. winv B S) any_fault" by (simp add: hoare_def)
  next
    fix page
    show "hoare (winv B S) (cbind (allocBObj e page) (\<lambda>rb. case rb of
        None \<Rightarrow> ret False
      | Some b \<Rightarrow> cbind (allocSObj e) (\<lambda>rs. case rs of
          None \<Rightarrow> cbind (freeBObj b) (\<lambda>_. ret False)
        | Some c \<Rightarrow> ?accept b c))) (\<lambda>_. winv B S) any_fault"
      by (rule hoare_bind [OF allocBObj_winv], rule hoare_opt, rule hoare_ret, assumption, rule hoare_fact,
          rule hoare_bind [OF allocSObj_any], rule hoare_opt, rule hoare_bind [OF freeBObj_winv], assumption,
          rule hoare_ret, assumption, rule hoare_fact, rule both)
  qed
qed

lemma post_accepts_winv: "hoare (winv B S) (post_accepts e l n) (\<lambda>_. winv B S) any_fault"
  by (induction n) (auto simp del: ret_app intro!: hoare_ret hoare_bind [OF PostAcceptEx_winv])

lemma upd_sobj_any: "hoare (winv B S) (upd_sobj c f) (\<lambda>_. winv B S) any_fault"
  by (rule hoare_post [OF upd_sobj_winv]) simp_all

lemma close_silent_winv: "hoare (winv B S) (close_silent e es) (\<lambda>_. winv B S) any_fault"
proof (induction es)
  case (Cons c es)
  have close: "hoare (winv B S) (case t of None \<Rightarrow> ret ()
      | Some optval \<Rightarrow> if optval \<noteq> -1 \<and> optval > 60 then CSCloseSocket c else ret ()) (\<lambda>_. winv B S) any_fault"
    for t :: "int option"
    unfolding CSCloseSocket_def by (intro hoare_option hoare_if upd_sobj_any hoare_ret)
  have get: "hoare (winv B S) (get_sobj c) (\<lambda>_. winv B S) any_fault"
    by (auto simp: hoare_def get_sobj_def cbind_def of_opt_def split: option.split)
  show ?case unfolding close_silent.simps
    by (rule hoare_bind [OF get], rule hoare_bind [OF ext_call_winv], rule hoare_bind [OF close], rule Cons.IH)
qed (simp add: hoare_ret del: ret_app)

lemma accept_round_winv: "hoare (winv B S) (accept_round e l es) (\<lambda>_. winv B S) any_fault"
  unfolding accept_round_def
  by (intro hoare_bind [OF post_accepts_winv] hoare_if close_silent_winv hoare_ret)

section \<open>Start-up is safe\<close>

text \<open>Before the first accept request there are no objects.\<close>

definition calm :: "world \<Rightarrow> bool" where
  "calm w \<longleftrightarrow> bufs w = (\<lambda>_. None) \<and> socks w = (\<lambda>_. None) \<and> pending w = [] \<and> vctBObj w = [] \<and> vctSObj w = []"

lemma calm_winv: "calm w \<Longrightarrow> winv {} {} w"
  by (simp add: calm_def winv_def parts_def MAX_POOL_def)

definition starts :: "(world, bool) cm \<Rightarrow> bool" where
  "starts m \<longleftrightarrow> hoare calm m (\<lambda>_. winv {} {}) any_fault"

definition keeps_calm :: "(world, 'a) cm \<Rightarrow> bool" where
  "keeps_calm m \<longleftrightarrow> hoare calm m (\<lambda>_. calm) any_fault"

lemma starts_bind: "keeps_calm m \<Longrightarrow> (\<And>x. starts (f x)) \<Longrightarrow> starts (cbind m f)"
  unfolding starts_def keeps_calm_def by (rule hoare_bind)

lemma starts_if: "(p \<Longrightarrow> starts m) \<Longrightarrow> (\<not> p \<Longrightarrow> starts n) \<Longrightarrow> starts (if p then m else n)"
  by simp

lemma starts_ret: "starts (ret x)"
  by (simp add: starts_def hoare_def calm_winv)

lemma calm_bind: "keeps_calm m \<Longrightarrow> (\<And>x. keeps_calm (f x)) \<Longrightarrow> keeps_calm (cbind m f)"
  unfolding keeps_calm_def by (rule hoare_bind)

lemma calm_if: "(p \<Longrightarrow> keeps_calm m) \<Longrightarrow> (\<not> p \<Longrightarrow> keeps_calm n) \<Longrightarrow> keeps_calm (if p then m else n)"
  by simp

lemma keeps_calm_base:
  "keeps_calm (ret x)" "keeps_calm (ext_call h)" "keeps_calm (with_ado m)" "keeps_calm (with_mysql m')"
  "keeps_calm InitMemPool" "keeps_calm InitDatabase_map" "keeps_calm (UniqueInstance p q)" "keeps_calm (upd_lobj l f)"
  "keeps_calm (modify (\<lambda>w. w\<lparr>lobjs := g w\<rparr>))" "keeps_calm (modify (\<lambda>w. w\<lparr>g_dwPageSize := k\<rparr>))"
  by (auto simp: keeps_calm_def hoare_def calm_def with_ado_def with_mysql_def InitMemPool_def InitDatabase_map_def
      UniqueInstance_def upd_lobj_def get_lobj_def cbind_def of_opt_def split: prod.split sum.split option.split)

lemma keeps_calm_listen: "keeps_calm (InitListenSObj e l)"
  unfolding InitListenSObj_def lobj_error_def by (intro calm_bind calm_if keeps_calm_base)

lemma starts_post: "starts (cbind (post_accepts e l n) (\<lambda>_. cbind (post_accepts e l' n') (\<lambda>_. ret True)))"
  unfolding starts_def
  by (rule hoare_pre [where P' = "winv {} {}"],
      intro hoare_bind [OF post_accepts_winv] hoare_ret) (simp_all add: calm_winv)

lemma keeps_calm_winsock: "keeps_calm (InitWinsock2 e)" "keeps_calm (GetExtensionFunctionPointer e)"
  unfolding InitWinsock2_def GetExtensionFunctionPointer_def by (intro calm_bind calm_if keeps_calm_base)+

lemma keeps_calm_threads: "keeps_calm (start_threads e p k n)"
proof (induction k arbitrary: n)
  case (Suc k)
  then show ?case unfolding start_threads.simps by (intro calm_bind keeps_calm_base)
qed (simp only: start_threads.simps keeps_calm_base)

lemma starts_main: "starts (main_init e already can_create page cpus)"
  unfolding main_init_def
  by (intro starts_bind starts_if starts_ret keeps_calm_base keeps_calm_threads keeps_calm_winsock keeps_calm_listen starts_post)

section \<open>The server is safe\<close>

lemma step_safe: "server_step e w w' \<Longrightarrow> safe w \<Longrightarrow> safe w'"
proof (induction rule: server_step.induct)
  case (completed w ps b k r qs o' bs addr w')
  then show ?case using complete_success by (auto simp: safe_def)
next
  case (failed w ps b k r qs w')
  then show ?case using complete_failed by (auto simp: safe_def)
next
  case (accepting l es w w')
  then obtain B S where "winv B S w" by (auto simp: safe_def)
  from hoareD_Inr [OF accept_round_winv this accepting(1)] show ?case by (rule winv_safe)
qed

lemma reach_safe: "reach e w \<Longrightarrow> safe w"
proof (induction rule: reach.induct)
  case (started already can_create page cpus w)
  have "calm world0" by (simp add: calm_def world0_def)
  from hoareD_Inr [OF starts_main [unfolded starts_def] this started] show ?case by (rule winv_safe)
next
  case (step w w')
  then show ?case by (blast intro: step_safe)
qed

text \<open>
  C1: in every state the running server reaches, whatever the clients, the operator and the libraries do
  (requests that fail or transfer part of the data, malformed requests, failed allocations and posts; the one
  exception is the SIM list request, which replies twice), no two outstanding requests share a buffer or a socket
  object, no pooled object belongs to an outstanding request or is in the pool twice, every pooled or posted
  object is allocated, and each pool holds at most 1000 objects: nothing is released twice or used after its release.
\<close>

theorem server_ownership:
  assumes "reach e w"
  shows "distinct (map (\<lambda>(b, k, r). b) (pending w) @ vctBObj w) \<and>
    disjoint_list (map (pend_socks w) (pending w)) \<and> distinct (vctSObj w) \<and>
    (\<Union>p \<in> set (pending w). pend_socks w p) \<inter> set (vctSObj w) = {} \<and>
    set (map (\<lambda>(b, k, r). b) (pending w) @ vctBObj w) \<subseteq> dom (bufs w) \<and>
    (\<Union>p \<in> set (pending w). pend_socks w p) \<union> set (vctSObj w) \<subseteq> dom (socks w) \<and>
    length (vctBObj w) \<le> 1000 \<and> length (vctSObj w) \<le> 1000"
proof -
  have fst: "(\<lambda>(b, k, r). b) = (fst :: nat \<times> ckey \<times> io_req \<Rightarrow> nat)" by auto
  obtain B S where "winv B S w" using reach_safe [OF assms] by (auto simp: safe_def)
  from parts_of [OF this] show ?thesis unfolding parts_def fst MAX_POOL_def
    by (simp add: Un_subset_iff) blast
qed

text \<open>A start-up in which every call succeeds.\<close>

lemma ado_start: "fst (InitAdoMysql ext0 p) = Inr True"
proof -
  have "fst (InitConnerPool_loop ext0 n p) = Inr True" for n p
    by (induction n arbitrary: p)
      (simp_all add: new_conner_def CreateConner_def ConnectDatabase_def cbind_def ext0_def)
  then show ?thesis
    by (simp add: InitAdoMysql_def InitConnerPool_def del: InitConnerPool_loop.simps)
qed

lemma mysql_loop_start: "set (vctMysql p) \<subseteq> mylive p \<Longrightarrow>
   \<exists>p'. Mysql_InitConnectionPool_loop ext0 n p = (Inr (), p') \<and> set (vctMysql p') \<subseteq> mylive p' \<and>
     length (vctMysql p') = length (vctMysql p) + n"
proof (induction n arbitrary: p)
  case (Suc n)
  let ?c = "nextMysql p"
  let ?p = "p\<lparr>mylive := insert ?c (mylive p), nextMysql := Suc ?c, mcalls := Suc (Suc (mcalls p)),
    vctMysql := vctMysql p @ [?c], g_nCurrentNumber := g_nCurrentNumber p + 1\<rparr>"
  have "Mysql_InitConnectionPool_loop ext0 (Suc n) p = Mysql_InitConnectionPool_loop ext0 n ?p"
    by (simp add: Mysql_ConnectDB_def mysql_init_def mcall_def cbind_def ext0_def)
  moreover have "set (vctMysql ?p) \<subseteq> mylive ?p" using Suc.prems by auto
  ultimately show ?case using Suc.IH [of ?p] by auto
qed simp

lemma mysql_start:
  "\<exists>p p'. Mysql_InitConnectionPool ext0 10 20 my0 = (Inr True, p) \<and> CreateUserTbl ext0 p = (Inr True, p')"
proof -
  let ?p = "my0\<lparr>vctMysql := [], hWaitMysql := False, g_nMinConnection := 10, g_nMaxConnection := 20\<rparr>"
  obtain p where p: "Mysql_InitConnectionPool_loop ext0 10 ?p = (Inr (), p)" "set (vctMysql p) \<subseteq> mylive p"
      "length (vctMysql p) = 10"
    using mysql_loop_start [of ?p 10] by auto
  then have "vctMysql p \<noteq> []" by auto
  then have "last (vctMysql p) \<in> mylive p" using p(2) last_in_set by blast
  then have "\<exists>p'. CreateUserTbl ext0 (p\<lparr>bMyInitial := False\<rparr>) = (Inr True, p')"
    using \<open>vctMysql p \<noteq> []\<close>
    by (simp add: CreateUserTbl_def create_tbl_def Mysql_AllocConnection_def Mysql_CheckConnection_def Mysql_TakeConnection_def
        mysql_real_query_def Mysql_BackToPool_app mcall_def cbind_def ext0_def)
  moreover have "Mysql_InitConnectionPool ext0 10 20 my0 = (Inr True, p\<lparr>bMyInitial := False\<rparr>)"
    using p(1) by (simp add: Mysql_InitConnectionPool_def my0_def cbind_def)
  ultimately show ?thesis by blast
qed

lemma accept_ext0:
  assumes "listening l w" "vctBObj w = []" "vctSObj w = []"
  shows "\<exists>w'. PostAcceptEx ext0 l i w = (Inr True, w') \<and> (\<forall>l. listening l w' \<longleftrightarrow> listening l w) \<and> vctBObj w' = [] \<and>
    vctSObj w' = [] \<and> length (pending w') = Suc (length (pending w))"
  using assms
  by (auto simp: PostAcceptEx_def allocBObj_def take_BObj_def allocSObj_def take_SObj_def GetRand_def post_def
      listening_def upd_lobj_def get_lobj_def cbind_def ext0_def zero_buf_def split: if_splits)

lemma accepts_ext0:
  assumes "listening l w" "vctBObj w = []" "vctSObj w = []"
  shows "\<exists>w'. post_accepts ext0 l n w = (Inr (), w') \<and> (\<forall>l. listening l w' \<longleftrightarrow> listening l w) \<and> vctBObj w' = [] \<and>
    vctSObj w' = [] \<and> length (pending w') = length (pending w) + n"
  using assms
proof (induction n arbitrary: w)
  case (Suc n)
  from accept_ext0 [OF Suc.prems, of l] obtain w1 where w1: "PostAcceptEx ext0 l l w = (Inr True, w1)"
    "\<forall>l. listening l w1 \<longleftrightarrow> listening l w" "vctBObj w1 = []" "vctSObj w1 = []"
    "length (pending w1) = Suc (length (pending w))" by blast
  from Suc.IH [of w1] w1 Suc.prems(1) show ?case by (auto simp: cbind_def)
qed simp

lemma listen_ext0: "\<exists>w'. InitListenSObj ext0 l w = (Inr True, w') \<and> (\<forall>i. listening i w' \<longleftrightarrow> i = l \<or> listening i w) \<and>
    vctBObj w' = vctBObj w \<and> vctSObj w' = vctSObj w \<and> pending w' = pending w"
  by (auto simp: InitListenSObj_def upd_lobj_def get_lobj_def cbind_def ext0_def listening_def)

lemma threads_ext0: "start_threads ext0 True k n w = (Inr (n + int k), w\<lparr>tick := tick w + k\<rparr>)"
  by (induction k arbitrary: n w) (simp_all add: cbind_def)

lemma main_init_ext0: "\<exists>w. main_init ext0 False True 4096 2 world0 = (Inr True, w) \<and> length (pending w) = 20"
proof -
  obtain a where ado: "InitAdoMysql ext0 ado0 = (Inr True, a)" by (metis ado_start prod.collapse)
  obtain p p' where my: "Mysql_InitConnectionPool ext0 10 20 my0 = (Inr True, p)" "CreateUserTbl ext0 p = (Inr True, p')"
    using mysql_start by blast
  let ?w = "world0\<lparr>uniqueInstance := True, tick := 10, ado := a, mysql := p', g_dwPageSize := 32768\<rparr>"
  obtain w1 where w1: "InitListenSObj ext0 0 ?w = (Inr True, w1)" "listening 0 w1" "vctBObj w1 = []" "vctSObj w1 = []"
      "pending w1 = []"
    using listen_ext0 [of 0 ?w] by (auto simp: world0_def)
  obtain w2 where w2: "InitListenSObj ext0 1 w1 = (Inr True, w2)" "listening 0 w2" "listening 1 w2" "vctBObj w2 = []"
      "vctSObj w2 = []" "pending w2 = []"
    using listen_ext0 [of 1 w1] w1 by auto
  obtain w3 where w3: "post_accepts ext0 0 POST_COUNT w2 = (Inr (), w3)" "listening 1 w3" "vctBObj w3 = []"
      "vctSObj w3 = []" "length (pending w3) = 10"
    using accepts_ext0 [of 0 w2 POST_COUNT] w2 by (auto simp: POST_COUNT_def)
  obtain w4 where w4: "post_accepts ext0 1 POST_COUNT w3 = (Inr (), w4)" "length (pending w4) = 20"
    using accepts_ext0 [of 1 w3 POST_COUNT] w3 by (auto simp: POST_COUNT_def)
  have sys: "os_startup ext0 n" "os_iocp ext0 n" "os_socket ext0 n = Some n" for n by (simp_all add: ext0_def)
  have "main_init ext0 False True 4096 2 world0 = (Inr True, w4)"
    using ado my w1(1) w2(1) w3(1) w4(1)
    by (simp add: main_init_def threads_ext0 InitDatabase_map_def empty_maps_def InitWinsock2_def GetExtensionFunctionPointer_def cbind_def UniqueInstance_def with_ado_def with_mysql_def InitMemPool_def sys
        world0_def)
  then show ?thesis using w4(2) by blast
qed

theorem server_ownership_witness:
  "\<exists>w. reach ext0 w \<and> length (pending w) = 20 \<and> distinct (map (\<lambda>(b, k, r). b) (pending w) @ vctBObj w)"
proof -
  obtain w where w: "main_init ext0 False True 4096 2 world0 = (Inr True, w)" "length (pending w) = 20"
    using main_init_ext0 by blast
  have r: "reach ext0 w" by (rule reach.started [OF w(1)])
  show ?thesis using server_ownership [OF r] r w(2) by blast
qed

end
