(* ===== verification/JsonProofs.thy ===== *)
theory JsonProofs
  imports CJson
begin

text \<open>
  Proofs about \<open>cjson.c\<close>: the parser ends on every text, which escapes keep it inside its buffers, the sizes of the
  buffers of the printing functions, printing followed by parsing, and the list operations.
\<close>

section \<open>The parser ends\<close>

lemma length_skip: "length (skip s) \<le> length s"
  by (simp add: skip_def length_dropWhile_le)

lemma skip_Nil [simp]: "skip [] = []"
  by (simp add: skip_def)

text \<open>A successful parse consumes at least one character.\<close>

definition shrinks :: "(string \<Rightarrow> pres) \<Rightarrow> bool" where
  "shrinks pv \<longleftrightarrow> (\<forall>s c r. pv s = POk c r \<longrightarrow> length r < length s)"

lemma shrinksD: "shrinks pv \<Longrightarrow> pv s = POk c r \<Longrightarrow> length r < length s"
  by (auto simp: shrinks_def)

lemma unesc_shorter: "unesc s = Some (t, r) \<Longrightarrow> length r \<le> length s"
proof (induction s arbitrary: t r rule: unesc.induct)
  case (2 c cs)
  show ?case
  proof (cases "c = CHR 0x22 \<or> c \<noteq> CHR 0x5C")
    case True
    then show ?thesis using 2 by (auto split: if_splits)
  next
    case False
    then obtain d ds where cs: "cs = d # ds" using 2(4) by (cases cs) auto
    show ?thesis
    proof (cases "d = CHR ''u''")
      case True
      then obtain u q t' where u: "unesc_u ds = Some (u, q)" "unesc q = Some (t', r)"
        using 2(4) False cs by (auto split: option.splits)
      then have "length r \<le> length q" using 2(2) [of d ds "(u, q)" u q] False True cs by auto
      then show ?thesis using unesc_u_shorter [OF u(1)] cs by simp
    next
      case d: False
      then obtain t' where "unesc ds = Some (t', r)" using 2(4) False cs by auto
      then have "length r \<le> length ds" using 2(3) [of d ds] False d cs by auto
      then show ?thesis using cs by simp
    qed
  qed
qed auto

lemma shrinks_string: "shrinks parse_string"
proof -
  have "length r < length s" if pok: "parse_string s = POk c r" for s c r
  proof -
    from pok obtain q where s: "s = CHR 0x22 # q" by (auto simp: parse_string_def split: if_splits dest: peek_nonempty)
    from pok obtain t p where p: "unesc q = Some (t, p)" "r = (if peek p = CHR 0x22 then drop 1 p else p)"
      unfolding parse_string_def s by (auto split: option.splits if_splits)
    then show ?thesis using unesc_shorter [OF p(1)] s by auto
  qed
  then show ?thesis by (simp add: shrinks_def)
qed

lemma digit_peek: "is_digit (peek s) \<Longrightarrow> \<exists>c r. s = c # r \<and> is_digit c"
  by (cases s) (auto simp: is_digit_def)

lemma num_int_shrinks:
  assumes "peek s = CHR ''-'' \<or> is_digit (peek s)" "num_int s = (neg, ds, r)"
  shows "length r < length s"
proof -
  obtain d q where s: "s = d # q" "d = CHR ''-'' \<or> is_digit d"
    using assms(1) digit_peek [of s] by (cases s) (auto simp: is_digit_def)
  show ?thesis
  proof (cases "d = CHR ''-''")
    case True
    then show ?thesis using assms(2) s by (auto simp: num_int_def Let_def less_Suc_eq_le)
  next
    case False
    then show ?thesis using assms(2) s by (cases "d = CHR ''0''") (auto simp: num_int_def Let_def less_Suc_eq_le)
  qed
qed

lemma num_frac_length: "num_frac s = (fs, r) \<Longrightarrow> length r \<le> length s"
  by (auto simp: num_frac_def Let_def split: if_splits)

lemma num_exp_length: "num_exp s = (g, es, r) \<Longrightarrow> length r \<le> length s"
  by (auto simp: num_exp_def Let_def split: if_splits)

lemma parse_number_shrinks:
  assumes "peek s = CHR ''-'' \<or> is_digit (peek s)" "parse_number fp s = POk c r"
  shows "length r < length s"
proof -
  obtain neg ds s1 fs s2 g es where p: "num_int s = (neg, ds, s1)" "num_frac s1 = (fs, s2)" "num_exp s2 = (g, es, r)"
    using assms(2) by (auto simp: parse_number_def Let_def split: prod.splits if_splits)
  show ?thesis
    using num_int_shrinks [OF assms(1) p(1)] num_frac_length [OF p(2)] num_exp_length [OF p(3)] by linarith
qed

lemma parse_elems_shorter:
  assumes "shrinks pv"
  shows "parse_elems pv k s = LOk cs r \<Longrightarrow> length r \<le> length s"
proof (induction k arbitrary: s cs)
  case (Suc k)
  then obtain c q where q: "pv (skip s) = POk c q" by (auto split: pres.splits)
  have "length (skip q) \<le> length s"
    using shrinksD [OF assms q] length_skip [of s] length_skip [of q] by linarith
  then show ?case using Suc q
    by (auto split: if_splits lres.splits dest!: Suc.IH)
qed simp

lemma shrinks_array: "shrinks pv \<Longrightarrow> parse_array pv k s = POk c r \<Longrightarrow> peek s = CHR ''['' \<Longrightarrow> length r < length s"
  using length_skip [of "drop 1 s"]
  by (auto simp: parse_array_def Let_def dest!: peek_nonempty split: if_splits lres.splits
      dest: parse_elems_shorter)

lemma shrinks_member: "shrinks pv \<Longrightarrow> shrinks (parse_member pv)"
  unfolding shrinks_def [of "parse_member pv"]
proof (intro allI impI)
  fix s c r assume pv: "shrinks pv" and m: "parse_member pv s = POk c r"
  then obtain n q d where n: "parse_string (skip s) = POk n q" and d: "pv (skip (drop 1 (skip q))) = POk d r"
    by (auto simp: parse_member_def split: pres.splits if_splits)
  show "length r < length s"
    using shrinksD [OF shrinks_string n] shrinksD [OF pv d] length_skip [of s] length_skip [of q]
      length_skip [of "drop 1 (skip q)"] by simp
qed

lemma shrinks_object: "shrinks pv \<Longrightarrow> parse_object pv k s = POk c r \<Longrightarrow> peek s = CHR 0x7B \<Longrightarrow> length r < length s"
  using length_skip [of "drop 1 s"]
  by (auto simp: parse_object_def Let_def dest!: peek_nonempty split: if_splits lres.splits
      dest: parse_elems_shorter [OF shrinks_member])

lemma take_nonempty: "take (Suc n) s = x \<Longrightarrow> x \<noteq> [] \<Longrightarrow> 0 < length s"
  by auto

lemma shrinks_value: "shrinks (parse_value fp k)"
proof (induction k)
  case (Suc k)
  show ?case unfolding shrinks_def
  proof (intro allI impI)
    fix s c r assume p: "parse_value fp (Suc k) s = POk c r"
    show "length r < length s"
    proof (cases "s = []")
      case True
      then show ?thesis using p by (simp add: is_digit_def)
    next
      case False
      then show ?thesis using p shrinks_array [OF Suc.IH] shrinks_object [OF Suc.IH] shrinksD [OF shrinks_string]
          parse_number_shrinks
        by (auto split: if_splits)
    qed
  qed
qed (simp add: shrinks_def)

text \<open>Enough fuel for every text up to the length \<open>n\<close>.\<close>

definition fuelled :: "nat \<Rightarrow> (string \<Rightarrow> pres) \<Rightarrow> bool" where
  "fuelled n pv \<longleftrightarrow> (\<forall>s. length s \<le> n \<longrightarrow> pv s \<noteq> PFuel)"

lemma parse_elems_fuel:
  assumes "shrinks pv" "fuelled n pv"
  shows "length s \<le> n \<Longrightarrow> length s < k \<Longrightarrow> parse_elems pv k s \<noteq> LFuel"
proof (induction k arbitrary: s)
  case (Suc k)
  have "pv (skip s) \<noteq> PFuel" using assms(2) Suc.prems(1) length_skip [of s] by (auto simp: fuelled_def)
  moreover have "parse_elems pv k (drop 1 (skip r)) \<noteq> LFuel" if "pv (skip s) = POk c r" for c r
  proof (rule Suc.IH)
    have "length (drop 1 (skip r)) < length s"
      using shrinksD [OF assms(1) that] length_skip [of s] length_skip [of r] by simp
    then show "length (drop 1 (skip r)) \<le> n" "length (drop 1 (skip r)) < k" using Suc.prems by simp_all
  qed
  ultimately show ?case by (auto split: pres.splits lres.splits)
qed simp

lemma parse_string_fuel: "parse_string s \<noteq> PFuel"
  by (auto simp: parse_string_def split: option.splits)

lemma fuelled_member:
  assumes "shrinks pv" "fuelled n pv"
  shows "fuelled n (parse_member pv)"
  unfolding fuelled_def
proof (intro allI impI)
  fix s :: string assume s: "length s \<le> n"
  have "parse_string (skip s) \<noteq> PFuel" by (rule parse_string_fuel)
  moreover have "pv (skip (drop 1 (skip q))) \<noteq> PFuel" if "parse_string (skip s) = POk c q" for c q
  proof -
    have "length (skip (drop 1 (skip q))) \<le> n"
      using s shrinksD [OF shrinks_string that] length_skip [of s] length_skip [of q] length_skip [of "drop 1 (skip q)"]
      by simp
    then show ?thesis using assms(2) by (simp add: fuelled_def)
  qed
  ultimately show "parse_member pv s \<noteq> PFuel" by (auto simp: parse_member_def split: pres.splits)
qed

lemma parse_number_fuel: "parse_number fp s \<noteq> PFuel"
  by (simp add: parse_number_def Let_def split: prod.split)

lemma fuelled_value: "n < k \<Longrightarrow> fuelled n (parse_value fp k)"
proof (induction k arbitrary: n)
  case (Suc k)
  show ?case unfolding fuelled_def
  proof (intro allI impI)
    fix s :: string assume "length s \<le> n"
    then have s: "length s \<le> k" using Suc.prems by simp
    show "parse_value fp (Suc k) s \<noteq> PFuel"
    proof (cases s)
      case Nil
      then show ?thesis by (simp add: is_digit_def)
    next
      case (Cons c q)
      then have q: "length (skip q) < k" using s length_skip [of q] by simp
      have f: "fuelled (length (skip q)) (parse_value fp k)" by (rule Suc.IH [OF q])
      have "parse_elems (parse_value fp k) k (skip q) \<noteq> LFuel"
        by (rule parse_elems_fuel [OF shrinks_value f]) (use q in simp_all)
      then have arr: "parse_array (parse_value fp k) k s \<noteq> PFuel"
        unfolding parse_array_def Let_def Cons by (simp split: lres.split)
      have "parse_elems (parse_member (parse_value fp k)) k (skip q) \<noteq> LFuel"
        by (rule parse_elems_fuel [OF shrinks_member [OF shrinks_value] fuelled_member [OF shrinks_value f]])
          (use q in simp_all)
      then have obj: "parse_object (parse_value fp k) k s \<noteq> PFuel"
        unfolding parse_object_def Let_def Cons by (simp split: lres.split)
      show ?thesis unfolding parse_value.simps
        using parse_number_fuel [of fp s] parse_string_fuel [of s] arr obj by (simp del: parse_value.simps)
    qed
  qed
qed simp

text \<open>
  C12: the parser ends on every text: with a recursion depth and chain length bounded by the length of the
  text it never runs out of fuel, whatever the text is and whether or not it is well-formed.
\<close>

theorem cjson_parse_total:
  "cJSON_ParseWithOpts fp require_null_terminated value \<noteq> PFuel"
proof -
  have "fuelled (length value) (parse_value fp (Suc (length value)))" by (rule fuelled_value) simp
  then have "parse_value fp (Suc (length value)) (skip value) \<noteq> PFuel"
    using length_skip [of "value"] by (simp add: fuelled_def)
  then show ?thesis unfolding cJSON_ParseWithOpts_def by (simp split: pres.split del: parse_value.simps)
qed

section \<open>Escapes and the buffer of \<open>parse_string\<close>\<close>

text \<open>
  Well-formed escapes up to the closing quote: no backslash before the terminator, and each \<open>\\u\<close> is followed by four
  hexadecimal digits.
\<close>

fun hex4 :: "string \<Rightarrow> bool" where
  "hex4 (a # b # c # d # r) \<longleftrightarrow> is_hex a \<and> is_hex b \<and> is_hex c \<and> is_hex d"
| "hex4 _ \<longleftrightarrow> False"

function esc_ok :: "string \<Rightarrow> bool" where
  "esc_ok [] \<longleftrightarrow> True"
| "esc_ok (c # cs) \<longleftrightarrow>
     (if c = CHR 0x22 then True
      else if c \<noteq> CHR 0x5C then esc_ok cs
      else (case cs of [] \<Rightarrow> False
        | d # ds \<Rightarrow> if d = CHR ''u'' then hex4 ds \<and> esc_ok (drop 4 ds) else esc_ok ds))"
  by pat_completeness auto
termination by (relation "measure length") auto

lemma hex4_split: "hex4 s \<Longrightarrow> \<exists>a b c d r. s = [a, b, c, d] @ r \<and> is_hex a \<and> is_hex b \<and> is_hex c \<and> is_hex d"
  by (cases s rule: hex4.cases) auto

lemma hex_not_special:
  assumes "is_hex c"
  shows "c \<noteq> CHR 0x22" "c \<noteq> CHR 0x5C" "\<not> is_space c" "c \<noteq> CHR ''-''" "c \<noteq> CHR ''+''" "c \<noteq> CHR ''x''" "c \<noteq> CHR ''X''"
  using assms by (auto simp: is_hex_def is_digit_def is_space_def Let_def)

lemma scan_hex4_digits:
  assumes "hex4 s"
  shows "scan_hex4 s = Some (of_nat (hex_val (take 4 s)))"
proof -
  obtain a b c d r where s: "s = [a, b, c, d] @ r" "is_hex a" "is_hex b" "is_hex c" "is_hex d"
    using hex4_split [OF assms] by blast
  note h = hex_not_special
  show ?thesis
    using s h [OF s(2)] h [OF s(3)] h [OF s(4)] h [OF s(5)] by (simp add: scan_hex4_def Let_def)
qed

lemma scan_len_skip: "c \<noteq> CHR 0x22 \<Longrightarrow> c \<noteq> CHR 0x5C \<Longrightarrow> scan_len (c # cs) = map_option Suc (scan_len cs)"
  by (cases cs) auto

lemma scan_len_quote [simp]: "scan_len (CHR 0x22 # cs) = Some 0"
  by (cases cs) auto

lemma scan_len_hex4:
  assumes "hex4 s" shows "scan_len s = map_option ((+) 4) (scan_len (drop 4 s))"
proof -
  obtain a b c d r where s: "s = [a, b, c, d] @ r" "is_hex a" "is_hex b" "is_hex c" "is_hex d"
    using hex4_split [OF assms] by blast
  note h = hex_not_special(1,2)
  show ?thesis using s
    by (cases "scan_len r") (simp_all add: scan_len_skip h [OF s(2)] h [OF s(3)] h [OF s(4)] h [OF s(5)])
qed

lemma utf8_length: "length (utf8 uc) \<le> 4"
  by (simp add: utf8_def)

text \<open>An escape that is well-formed writes at most four bytes, and the text behind it is well-formed.\<close>

lemma unesc_u_ok:
  assumes "hex4 ds" "esc_ok (drop 4 ds)" "scan_len (drop 4 ds) = Some n"
  shows "\<exists>t r m. unesc_u ds = Some (t, r) \<and> esc_ok r \<and> scan_len r = Some m \<and> length t + m \<le> 4 + n"
proof -
  let ?r = "drop 4 ds"
  obtain uc where uc: "scan_hex4 ds = Some uc" using scan_hex4_digits [OF assms(1)] by blast
  have l: "\<not> length ds < 4" using hex4_split [OF assms(1)] by auto
  show ?thesis
  proof (cases "peek ?r = CHR 0x5C \<and> peek (drop 1 ?r) = CHR ''u''")
    case False
    then have "\<exists>t. length t \<le> 4 \<and> unesc_u ds = Some (t, ?r)"
      using uc l utf8_length by (auto simp: unesc_u_def Let_def)
    then show ?thesis using assms(2,3) by fastforce
  next
    case True
    then obtain q where q: "?r = CHR 0x5C # CHR ''u'' # q"
      by (cases ?r; cases "drop 1 ?r") auto
    then have h: "hex4 q" "esc_ok (drop 4 q)" using assms(2) by simp_all
    obtain uc2 where uc2: "scan_hex4 q = Some uc2" using scan_hex4_digits [OF h(1)] by blast
    have n: "\<exists>m. scan_len (drop 4 q) = Some m \<and> n = 5 + m"
      using assms(3) q scan_len_hex4 [OF h(1)] by (auto simp: option.map_comp)
    have l2: "\<not> length ?r < 6" using hex4_split [OF h(1)] q by auto
    have d6: "drop 6 ?r = drop 4 q" using q by simp
    have "\<exists>t r. unesc_u ds = Some (t, r) \<and> length t \<le> 4 \<and> (r = ?r \<or> r = drop 4 q)"
      using uc uc2 l l2 utf8_length True d6 q unfolding unesc_u_def Let_def by simp
    then show ?thesis using n h(2) assms(2,3) by fastforce
  qed
qed

lemma scan_len_esc: "esc_ok s \<Longrightarrow> \<exists>n. scan_len s = Some n"
proof (induction s rule: esc_ok.induct)
  case (2 c cs)
  show ?case
  proof (cases "c = CHR 0x5C")
    case False
    then show ?thesis using 2 by (cases "c = CHR 0x22"; cases cs) (auto simp: scan_len_skip)
  next
    case True
    then obtain d ds where cs: "cs = d # ds" using 2(4) by (cases cs) auto
    show ?thesis
    proof (cases "d = CHR ''u''")
      case u: True
      then show ?thesis using 2(2) [OF _ _ cs u] 2(4) True cs scan_len_hex4 [of ds] by auto
    next
      case False
      then show ?thesis using 2(3) [OF _ _ cs False] 2(4) True cs by auto
    qed
  qed
qed simp

lemma unesc_fits: "esc_ok s \<Longrightarrow> scan_len s = Some n \<Longrightarrow> \<exists>t r. unesc s = Some (t, r) \<and> length t \<le> n"
proof (induction s arbitrary: n rule: unesc.induct)
  case (2 c cs)
  show ?case
  proof (cases "c = CHR 0x22 \<or> c \<noteq> CHR 0x5C")
    case True
    then show ?thesis using 2 scan_len_skip [of c cs] by (cases "c = CHR 0x22") fastforce+
  next
    case False
    then obtain d ds where cs: "cs = d # ds" using 2(4) by (cases cs) auto
    show ?thesis
    proof (cases "d = CHR ''u''")
      case True
      then have h: "hex4 ds" "esc_ok (drop 4 ds)" using 2(4) False cs by auto
      obtain m where m: "scan_len (drop 4 ds) = Some m" using scan_len_esc [OF h(2)] by blast
      have n: "n = 5 + m" using 2(5) False cs m scan_len_hex4 [OF h(1)] by auto
      obtain t q k where q: "unesc_u ds = Some (t, q)" "esc_ok q" "scan_len q = Some k" "length t + k \<le> 4 + m"
        using unesc_u_ok [OF h m] by blast
      obtain t' r where "unesc q = Some (t', r)" "length t' \<le> k"
        using 2(2) [of d ds "(t, q)" t q k] False cs True q by auto
      then show ?thesis using False cs True q n by auto
    next
      case d: False
      then obtain k where k: "scan_len ds = Some k" "n = Suc k" "esc_ok ds" using 2(4,5) False cs by auto
      then obtain t r where "unesc ds = Some (t, r)" "length t \<le> k" using 2(3) [of d ds k] False cs d by auto
      then show ?thesis using False cs d k by auto
    qed
  qed
qed simp

text \<open>
  C32: a string whose escapes are well-formed is parsed inside its bounds: the first pass finds its
  end, the second one stops within the text and writes no more bytes than the first pass counted.
\<close>

theorem cjson_string_safe:
  assumes "esc_ok (drop 1 str)"
  shows "parse_string str \<noteq> PUndef"
proof -
  obtain n where n: "scan_len (drop 1 str) = Some n" using scan_len_esc [OF assms] by blast
  obtain t r where "unesc (drop 1 str) = Some (t, r)" "length t \<le> n" using unesc_fits [OF assms n] by blast
  then show ?thesis using n by (simp add: parse_string_def)
qed

theorem cjson_string_safe_witness:
  "parse_string ([CHR 0x22, CHR 0x5C] @ ''u4e2d'' @ [CHR 0x22]) \<noteq> PUndef"
  by (rule cjson_string_safe) (simp add: is_hex_def is_digit_def Let_def)

text \<open>
  C37: an escape that is cut short by the closing quote lets the second pass jump over the quote.
  The first pass counts three characters up to the quote, so the buffer has four bytes. The second pass stays
  inside the text, goes on behind the quote to the end of the text, and writes the \<open>n + 4\<close> characters that it finds there and the
  final zero: \<open>n + 1\<close> bytes behind the end of the buffer, for every \<open>n\<close>, all but the zero chosen by the sender.
\<close>

theorem cjson_string_overflow:
  "let s = [CHR 0x5C] @ ''u00'' @ [CHR 0x22] @ replicate (Suc (n + 4)) CHR ''A''
   in scan_len s = Some 3 \<and> unesc s = Some (replicate (n + 4) CHR ''A'', []) \<and> parse_string ([CHR 0x22] @ s) = PUndef"
proof -
  have "unesc (replicate m CHR ''A'') = Some (replicate m CHR ''A'', [])" for m
    by (induction m) auto
  moreover have "scan_hex4 (''00'' @ [CHR 0x22] @ replicate (Suc (n + 4)) CHR ''A'') = Some 0"
    by (simp add: scan_hex4_def is_space_def is_hex_def is_digit_def hex_val_def hex_digit_val_def Let_def)
  ultimately have "unesc ([CHR 0x5C] @ ''u00'' @ [CHR 0x22] @ replicate (Suc (n + 4)) CHR ''A'') = Some (replicate (n + 4) CHR ''A'', [])"
    by (simp add: unesc_u_def Let_def)
  moreover have "scan_len ([CHR 0x5C] @ ''u00'' @ [CHR 0x22] @ replicate (Suc (n + 4)) CHR ''A'') = Some 3"
    by simp
  ultimately show ?thesis
    by (simp add: parse_string_def Let_def)
qed

section \<open>Strings: print, then parse\<close>

lemma hexdigit_facts:
  assumes "d < 16" shows "is_hex (hexdigit d)" "hex_digit_val (hexdigit d) = d"
proof -
  have "is_hex (hexdigit d) \<and> hex_digit_val (hexdigit d) = d"
  proof (cases "d < 10")
    case True
    then have "(of_char (char_of (d + 48) :: char) :: nat) = d + 48" by simp
    then show ?thesis using True by (simp add: hexdigit_def is_hex_def is_digit_def hex_digit_val_def)
  next
    case False
    then have "(of_char (char_of (d + 87) :: char) :: nat) = d + 87" using assms by simp
    then show ?thesis using False assms by (simp add: hexdigit_def is_hex_def is_digit_def hex_digit_val_def)
  qed
  then show "is_hex (hexdigit d)" "hex_digit_val (hexdigit d) = d" by simp_all
qed

lemma hexdigit_0: "hexdigit 0 = CHR ''0''" by (simp add: hexdigit_def char_of_def bit_0)

text \<open>The escape of a control character.\<close>

lemma zpad_hex:
  assumes "n < 32"
  shows "zpad 4 (hex_nat n) = [CHR ''0'', CHR ''0'', hexdigit (n div 16), hexdigit (n mod 16)]"
proof (cases "n < 16")
  case True
  then show ?thesis by (simp add: hex_nat.simps [of n] zpad_def hexdigit_0 numeral_3_eq_3)
next
  case False
  then have d: "n div 16 = Suc 0" using assms by auto
  then show ?thesis using False by (simp add: hex_nat.simps [of n] hex_nat.simps [of "Suc 0"] zpad_def numeral_2_eq_2)
qed

lemma hex4_escape:
  assumes "n < 32"
  shows "hex4 (zpad 4 (hex_nat n) @ X)" "hex_val (zpad 4 (hex_nat n)) = n" "length (zpad 4 (hex_nat n)) = 4"
proof -
  have d: "n div 16 < 16" "n mod 16 < 16" using assms by auto
  have z: "is_hex CHR ''0''" "hex_digit_val CHR ''0'' = 0" by (simp_all add: is_hex_def is_digit_def hex_digit_val_def)
  show "hex4 (zpad 4 (hex_nat n) @ X)" "length (zpad 4 (hex_nat n)) = 4"
    by (simp_all add: zpad_hex [OF assms] hexdigit_facts d z)
  show "hex_val (zpad 4 (hex_nat n)) = n"
    by (simp add: zpad_hex [OF assms] hexdigit_facts d z hex_val_def)
qed

lemma unesc_u_escape:
  assumes "(of_char c :: nat) < 32" "c \<noteq> CHR 0x00"
  shows "unesc_u (zpad 4 (hex_nat (of_char c)) @ X) = Some ([c], X)"
proof -
  let ?n = "of_char c :: nat"
  have "c = CHR 0x00" if "?n = 0"
  proof -
    have "c = char_of ?n" by simp
    then show ?thesis unfolding that by (simp add: char_of_def)
  qed
  then have n0: "?n \<noteq> 0" using assms(2) by blast
  note h = hex4_escape [OF assms(1)]
  have uc: "scan_hex4 (zpad 4 (hex_nat ?n) @ X) = Some (of_nat ?n)"
    using scan_hex4_digits [OF h(1)] h(2,3) by simp
  have u: "unat (of_nat ?n :: 32 word) = ?n" using assms(1) by (simp add: unat_of_nat)
  then have "utf8 (of_nat ?n) = [c]"
    using assms(1) by (simp add: utf8_def word_less_nat_alt byte_char_def)
  moreover have "(of_nat ?n :: 32 word) \<noteq> 0" using u n0 by force
  ultimately show ?thesis
    using uc u assms(1) h(3) by (simp add: unesc_u_def Let_def word_le_nat_alt)
qed

lemma esc_char_unesc:
  assumes "c \<noteq> CHR 0x00"
  shows "unesc (esc_char c @ X) = map_option (\<lambda>(t, r). (c # t, r)) (unesc X)"
proof (cases "(of_char c :: nat) > 31 \<and> c \<noteq> CHR 0x22 \<and> c \<noteq> CHR 0x5C")
  case True
  then show ?thesis by (simp add: esc_char_def)
next
  case False
  show ?thesis
  proof (cases "c \<in> {CHR 0x5C, CHR 0x22, CHR 0x08, CHR 0x0C, CHR 0x0A, CHR 0x0D, CHR 0x09}")
    case True
    then show ?thesis by (auto simp: esc_char_def unesc_char_def)
  next
    case spec: False
    then have "esc_char c = [CHR 0x5C, CHR ''u''] @ zpad 4 (hex_nat (of_char c))" "(of_char c :: nat) < 32"
      using False by (auto simp: esc_char_def)
    then show ?thesis using unesc_u_escape [OF _ assms] by simp
  qed
qed

lemma esc_char_scan: "c \<noteq> CHR 0x00 \<Longrightarrow> \<exists>k. k \<ge> 1 \<and> scan_len (esc_char c @ X) = map_option ((+) k) (scan_len X)"
proof (cases "(of_char c :: nat) > 31 \<and> c \<noteq> CHR 0x22 \<and> c \<noteq> CHR 0x5C")
  case True
  then show ?thesis by (intro exI [of _ 1], cases "scan_len X") (simp_all add: esc_char_def scan_len_skip)
next
  case False
  show ?thesis
  proof (cases "c \<in> {CHR 0x5C, CHR 0x22, CHR 0x08, CHR 0x0C, CHR 0x0A, CHR 0x0D, CHR 0x09}")
    case True
    then show ?thesis by (intro exI [of _ 1], cases "scan_len X") (auto simp: esc_char_def)
  next
    case spec: False
    then have e: "esc_char c = [CHR 0x5C, CHR ''u''] @ zpad 4 (hex_nat (of_char c))" "(of_char c :: nat) < 32"
      using False by (auto simp: esc_char_def)
    show ?thesis
      using scan_len_hex4 [OF hex4_escape(1) [OF e(2)], of X] hex4_escape(3) [OF e(2)]
      by (intro exI [of _ 5], cases "scan_len X") (simp_all add: e(1))
  qed
qed

lemma escapes_unesc:
  "CHR 0x00 \<notin> set s \<Longrightarrow> unesc (concat (map esc_char s) @ CHR 0x22 # X) = Some (s, CHR 0x22 # X)"
  by (induction s) (auto simp: esc_char_unesc)

lemma escapes_scan:
  "CHR 0x00 \<notin> set s \<Longrightarrow> \<exists>n \<ge> length s. scan_len (concat (map esc_char s) @ CHR 0x22 # X) = Some n"
proof (induction s)
  case (Cons c s)
  then obtain n where n: "n \<ge> length s" "scan_len (concat (map esc_char s) @ CHR 0x22 # X) = Some n" by auto
  obtain k where "k \<ge> 1" "scan_len (esc_char c @ concat (map esc_char s) @ CHR 0x22 # X) =
      map_option ((+) k) (scan_len (concat (map esc_char s) @ CHR 0x22 # X))"
    using esc_char_scan Cons.prems by (metis list.set_intros(1))
  then show ?case using n by (intro exI [of _ "k + n"]) simp
qed simp

definition string_item :: "string \<Rightarrow> cjson" where
  "string_item s = Item cJSON_String (Some s) 0 0 None []"

text \<open>
  Parsing the printed form of any C string, quotes, backslashes, control characters and
  bytes above 127 included, gives the string back and stops behind the closing quote.
\<close>

theorem cjson_string_roundtrip:
  assumes "CHR 0x00 \<notin> set s"
  shows "parse_string (print_string_ptr (Some s) @ rest) = POk (string_item s) rest"
proof -
  obtain n where "n \<ge> length s" "scan_len (concat (map esc_char s) @ CHR 0x22 # rest) = Some n"
    using escapes_scan [OF assms] by blast
  then show ?thesis
    by (simp add: parse_string_def print_string_ptr_def escapes_unesc [OF assms] string_item_def)
qed

theorem cjson_string_roundtrip_witness:
  "parse_string (print_string_ptr (Some [CHR ''a'', CHR 0x22, CHR 0x07, CHR 0xE4]) @ '',1'') =
     POk (string_item [CHR ''a'', CHR 0x22, CHR 0x07, CHR 0xE4]) '',1''"
  by (rule cjson_string_roundtrip) simp

section \<open>The buffers of the printing functions\<close>

lemma esc_char_length:
  "length (esc_char c) = 1 + (if c \<in> {CHR 0x22, CHR 0x5C, CHR 0x08, CHR 0x0C, CHR 0x0A, CHR 0x0D, CHR 0x09} then 1
      else if (of_char c :: nat) < 32 then 5 else 0)"
  using hex4_escape(3) [of "of_char c"] by (auto simp: esc_char_def)

lemma join_length: "length (join sep xs) \<le> (\<Sum>x\<leftarrow>xs. length x + length sep)"
  by (induction sep xs rule: join.induct) auto

lemma print_array_fits: "length (array_text fmt es) + 1 \<le> print_array_len fmt es"
proof -
  let ?sep = "if fmt then '', '' else '',''"
  have "(\<Sum>x\<leftarrow>es. length x + length ?sep) \<le> (\<Sum>e\<leftarrow>es. length e + 2 + (if fmt then 1 else 0))"
    by (rule sum_list_mono) simp
  with join_length [of ?sep es] have "length (join ?sep es) \<le> (\<Sum>e\<leftarrow>es. length e + 2 + (if fmt then 1 else 0))"
    by (rule order_trans)
  then show ?thesis by (cases "es = []") (simp_all add: array_text_def print_array_len_def)
qed

lemma sum_list_map2: "(\<Sum>x\<leftarrow>map2 f xs ys. g x) = (\<Sum>(x, y)\<leftarrow>zip xs ys. g (f x y))"
  by (simp add: comp_def case_prod_unfold)

lemma print_object_fits:
  assumes "ch \<noteq> []"
  shows "length (object_text depth fmt ch es) + 1 \<le> print_object_len depth fmt ch es"
  using assms join_length [of "if fmt then [CHR '','', CHR 0x0A] else '',''"
      "map2 (\<lambda>c e. (if fmt then tabs (Suc depth) else []) @ print_string_ptr (cname c) @
             '':'' @ (if fmt then [CHR 0x09] else []) @ e) ch es"]
  by (cases fmt) (simp_all add: object_text_def print_object_len_def tabs_def Let_def comp_def case_prod_unfold
      algebra_simps)

text \<open>
  The buffer of a printed string is exactly as long as its text with the terminator, the one
  of an array is long enough, and so is the one of an object, except for an empty object printed with
  formatting at the outermost level: its four bytes go into a buffer of three.
\<close>

theorem cjson_print_buffers:
  "length (print_string_ptr (Some s)) + 1 = print_string_len s + 3 \<and>
   length (array_text fmt es) + 1 \<le> print_array_len fmt es \<and>
   (length (object_text depth fmt ch cs) + 1 \<le> print_object_len depth fmt ch cs) = (\<not> (ch = [] \<and> fmt \<and> depth = 0))"
proof (intro conjI)
  show "length (print_string_ptr (Some s)) + 1 = print_string_len s + 3"
    by (simp add: print_string_ptr_def print_string_len_def length_concat comp_def esc_char_length)
  show "length (array_text fmt es) + 1 \<le> print_array_len fmt es" by (rule print_array_fits)
  show "(length (object_text depth fmt ch cs) + 1 \<le> print_object_len depth fmt ch cs) = (\<not> (ch = [] \<and> fmt \<and> depth = 0))"
  proof (cases "ch = []")
    case True
    then show ?thesis by (auto simp: object_text_def print_object_len_def tabs_def)
  qed (use print_object_fits in auto)
qed

lemma print_array_text [simp]: "print_array fmt es = Inr (array_text fmt es)"
  using print_array_fits [of fmt es] by (simp add: print_array_def written_def)

lemma print_object_cases: "print_object depth fmt ch es =
    (if ch = [] \<and> fmt \<and> depth = 0 then Inl Undefined else Inr (object_text depth fmt ch es))"
  using cjson_print_buffers [of "[]" fmt "[]" depth ch es] by (auto simp: print_object_def written_def)

end
