(* ===== verification/JsonTree.thy ===== *)
theory JsonTree
  imports JsonProofs
begin

text \<open>
  Whole JSON values: the text that \<open>cJSON_Print\<close> and \<open>cJSON_PrintUnformatted\<close> give for a value is parsed back to the
  same value.
\<close>

section \<open>Values\<close>

text \<open>
  Arithmetic of \<open>double\<close> on integers: sums and products up to \<open>2^53\<close> are exact, and a product of zero has the sign of
  its factors.
\<close>

definition exact_ints :: "fpu \<Rightarrow> bool" where
  "exact_ints fp \<longleftrightarrow>
     (\<forall>a b. \<bar>a\<bar> < 2 ^ 53 \<and> \<bar>b\<bar> < 2 ^ 53 \<and> \<bar>a + b\<bar> < 2 ^ 53 \<longrightarrow> d_add fp (d_of_int fp a) (d_of_int fp b) = d_of_int fp (a + b)) \<and>
     (\<forall>a b. \<bar>a\<bar> < 2 ^ 53 \<and> \<bar>b\<bar> < 2 ^ 53 \<and> \<bar>a * b\<bar> < 2 ^ 53 \<and> (a * b = 0 \<longrightarrow> 0 \<le> a \<and> 0 \<le> b) \<longrightarrow>
        d_mul fp (d_of_int fp a) (d_of_int fp b) = d_of_int fp (a * b)) \<and>
     d_pow10 fp 0 = d_of_int fp 1 \<and>
     (\<forall>i. int_min \<le> i \<and> i \<le> int_max \<longrightarrow> d_to_int fp (d_of_int fp i) = i \<and> d_is_int fp i (d_of_int fp i))"

lemma exact_add: "exact_ints fp \<Longrightarrow> \<bar>a\<bar> < 2 ^ 53 \<Longrightarrow> \<bar>b\<bar> < 2 ^ 53 \<Longrightarrow> \<bar>a + b\<bar> < 2 ^ 53 \<Longrightarrow>
    d_add fp (d_of_int fp a) (d_of_int fp b) = d_of_int fp (a + b)"
  by (simp add: exact_ints_def)

lemma exact_mul: "exact_ints fp \<Longrightarrow> \<bar>a\<bar> < 2 ^ 53 \<Longrightarrow> \<bar>b\<bar> < 2 ^ 53 \<Longrightarrow> \<bar>a * b\<bar> < 2 ^ 53 \<Longrightarrow> (a * b = 0 \<Longrightarrow> 0 \<le> a \<and> 0 \<le> b) \<Longrightarrow>
    d_mul fp (d_of_int fp a) (d_of_int fp b) = d_of_int fp (a * b)"
  unfolding exact_ints_def by blast

lemma exact_int: "exact_ints fp \<Longrightarrow> int_min \<le> i \<Longrightarrow> i \<le> int_max \<Longrightarrow> d_to_int fp (d_of_int fp i) = i \<and> d_is_int fp i (d_of_int fp i)"
  by (simp add: exact_ints_def)

lemma exact_fpu0: "exact_ints fpu0"
proof -
  have "sint (word_of_int i :: 64 word) = i" if "int_min \<le> i" "i \<le> int_max" for i
    using that by (simp add: sint_sbintrunc' int_min_def int_max_def signed_take_bit_int_eq_self)
  then show ?thesis by (simp add: exact_ints_def fpu0_def)
qed

text \<open>A C string, and the values a program can hold: the fields that a type does not use are zero.\<close>

definition c_string :: "string option \<Rightarrow> bool" where
  "c_string s \<longleftrightarrow> (case s of None \<Rightarrow> False | Some t \<Rightarrow> CHR 0x00 \<notin> set t)"

fun json_value :: "fpu \<Rightarrow> cjson \<Rightarrow> bool" where
  "json_value fp (Item ty vs vi vd nm ch) \<longleftrightarrow>
     (if ty = cJSON_NULL \<or> ty = cJSON_False then vs = None \<and> vi = 0 \<and> vd = 0 \<and> ch = []
      else if ty = cJSON_True then vs = None \<and> vi = 1 \<and> vd = 0 \<and> ch = []
      else if ty = cJSON_Number then vs = None \<and> int_min \<le> vi \<and> vi \<le> int_max \<and> vd = d_of_int fp vi \<and> ch = []
      else if ty = cJSON_String then c_string vs \<and> vi = 0 \<and> vd = 0 \<and> ch = []
      else if ty = cJSON_Array then vs = None \<and> vi = 0 \<and> vd = 0 \<and> (\<forall>c \<in> set ch. cname c = None \<and> json_value fp c)
      else ty = cJSON_Object \<and> vs = None \<and> vi = 0 \<and> vd = 0 \<and> (\<forall>c \<in> set ch. c_string (cname c) \<and> json_value fp c))"

lemma json_type: "json_value fp c \<Longrightarrow> ctype c \<in> {cJSON_NULL, cJSON_False, cJSON_True, cJSON_Number, cJSON_String,
    cJSON_Array, cJSON_Object}"
  by (cases c) (auto split: if_splits)

section \<open>Separators\<close>

text \<open>What may follow a value: nothing, a separator, a closing bracket or the line end before one.\<close>

definition delim :: "string \<Rightarrow> bool" where
  "delim X \<longleftrightarrow> peek X \<in> {CHR 0x00, CHR '','', CHR '']'', CHR 0x7D, CHR 0x0A}"

definition blank :: "char \<Rightarrow> bool" where
  "blank c \<longleftrightarrow> c \<noteq> CHR 0x00 \<and> (of_char c :: nat) \<le> 32"

lemma blank_chars [simp]: "blank CHR 0x09" "blank CHR 0x0A" "blank CHR '' ''"
  by (simp_all add: blank_def)

lemma skip_blanks [simp]: "list_all blank ws \<Longrightarrow> skip (ws @ s) = skip s"
  by (induction ws) (auto simp: skip_def blank_def)

lemma skip_solid: "\<not> blank c \<Longrightarrow> skip (c # s) = c # s"
  by (auto simp: skip_def blank_def)

lemma skip_skip [simp]: "skip (skip s) = skip s"
proof -
  have "dropWhile P (dropWhile P xs) = dropWhile P xs" for P and xs :: string
    by (induction xs) auto
  then show ?thesis by (simp add: skip_def)
qed

lemma blank_tabs [simp]: "list_all blank (tabs n)"
  by (simp add: tabs_def blank_def list_all_iff)

lemma skip_blank [simp]: "blank c \<Longrightarrow> skip (c # s) = skip s"
  by (simp add: skip_def blank_def)

lemma parse_elems_blanks: "list_all blank ws \<Longrightarrow> parse_elems pv k (ws @ s) = parse_elems pv k s"
  by (cases k) simp_all

text \<open>\<open>pv\<close> reads the text \<open>e\<close>, with blanks before it, as \<open>c\<close>.\<close>

definition reads :: "(string \<Rightarrow> pres) \<Rightarrow> string \<Rightarrow> cjson \<Rightarrow> bool" where
  "reads pv e c \<longleftrightarrow> (\<forall>X. delim X \<longrightarrow> pv (skip (e @ X)) = POk c X)"

lemma readsD: "reads pv e c \<Longrightarrow> delim X \<Longrightarrow> pv (skip (e @ X)) = POk c X"
  by (simp add: reads_def)

lemma parse_elems_reads:
  assumes "list_all blank ws" "delim X" "peek (skip X) \<noteq> CHR '',''"
  shows "list_all2 (reads pv) es cs \<Longrightarrow> es \<noteq> [] \<Longrightarrow> length es \<le> k \<Longrightarrow>
    parse_elems pv k (join (CHR '','' # ws) es @ X) = LOk cs (skip X)"
proof (induction "CHR '','' # ws" es arbitrary: cs k rule: join.induct)
  case (2 e)
  then obtain c j where "cs = [c]" "reads pv e c" "k = Suc j" by (cases k) (auto simp: list_all2_Cons1)
  then show ?case using readsD [OF _ assms(2), of pv e c] assms(3) by simp
next
  case (3 e e' es)
  then obtain c cs' j where c: "cs = c # cs'" "reads pv e c" "list_all2 (reads pv) (e' # es) cs'" "k = Suc j"
    by (cases k) (auto simp: list_all2_Cons1)
  let ?Y = "ws @ join (CHR '','' # ws) (e' # es) @ X"
  have "pv (skip (e @ CHR '','' # ?Y)) = POk c (CHR '','' # ?Y)"
    by (rule readsD [OF c(2)]) (simp add: delim_def)
  moreover have "parse_elems pv j ?Y = LOk cs' (skip X)"
    using parse_elems_blanks [OF assms(1)] 3(1) [OF c(3)] 3(4) c(4) by simp
  ultimately show ?case using c by (simp add: skip_solid blank_def)
qed simp

lemma join_length_ge: "(\<And>x. x \<in> set xs \<Longrightarrow> x \<noteq> []) \<Longrightarrow> length xs \<le> length (join sep xs)"
proof (induction sep xs rule: join.induct)
  case (3 sep x y xs)
  then have "Suc 0 \<le> length x" by (simp add: Suc_le_eq)
  moreover have "length (y # xs) \<le> length (join sep (y # xs))" using 3 by simp
  ultimately show ?case by simp
qed (auto simp: Suc_le_eq)

lemma join_length_mem: "x \<in> set xs \<Longrightarrow> length x \<le> length (join sep xs)"
  by (induction sep xs rule: join.induct) auto

lemma entries_map:
  assumes "\<forall>c \<in> set ch. p c = Inr (Some (f c))"
  shows "array_entries (map p ch) = Inr (Some (map f ch))" "object_entries (map p ch) = Inr (Some (map f ch))"
  using assms by (induction ch) simp_all

section \<open>Numbers\<close>

lemma dec_nat_digits: "\<forall>c \<in> set (dec_nat n). is_digit c"
proof (induction n rule: dec_nat.induct)
  case (1 n)
  then show ?case by (subst dec_nat.simps) (auto simp: is_digit_def)
qed

lemma dec_nat_first: "0 < n \<Longrightarrow> \<exists>c r. dec_nat n = c # r \<and> is_digit c \<and> c \<noteq> CHR ''0''"
proof (induction n rule: dec_nat.induct)
  case (1 n)
  show ?case
  proof (cases "n < 10")
    case True
    have "char_of (n + 48) \<noteq> CHR ''0''"
    proof
      assume "char_of (n + 48) = CHR ''0''"
      then have "(of_char (char_of (n + 48) :: char) :: nat) = of_char CHR ''0''" by simp
      then show False using True 1(2) by simp
    qed
    then show ?thesis using True by (simp add: dec_nat.simps [of n] is_digit_def)
  next
    case False
    then have "0 < n div 10" by auto
    then show ?thesis using 1(1) [OF False] False by (subst dec_nat.simps) auto
  qed
qed

lemma dec_nat_0: "dec_nat 0 = ''0''"
  by (simp add: dec_nat.simps char_of_def bit_0)

lemma digits_dec_nat:
  assumes fp: "exact_ints fp" shows "n < 2 ^ 53 \<Longrightarrow> digits fp (d_of_int fp 0) (dec_nat n) = d_of_int fp (int n)"
proof (induction n rule: dec_nat.induct)
  case (1 n)
  show ?case
  proof (cases "n < 10")
    case True
    have "d_mul fp (d_of_int fp 0) (d_of_int fp 10) = d_of_int fp 0"
      using exact_mul [OF fp, of 0 10] by simp
    moreover have "d_add fp (d_of_int fp 0) (d_of_int fp (int n)) = d_of_int fp (int n)"
      using exact_add [OF fp, of 0 "int n"] True by simp
    ultimately show ?thesis using True by (simp add: dec_nat.simps [of n] digits_def digit_val_def)
  next
    case False
    have n: "int (n div 10) * 10 + int (n mod 10) = int n"
      using div_mult_mod_eq [of n 10] by (metis of_nat_add of_nat_mult of_nat_numeral)
    have N: "int n < 2 ^ 53" using 1(2) by simp
    have b: "int (n div 10) * 10 < 2 ^ 53" "int (n div 10) < 2 ^ 53"
      using n N of_nat_0_le_iff [of "n div 10"] of_nat_0_le_iff [of "n mod 10"] by linarith+
    have "d_mul fp (d_of_int fp (int (n div 10))) (d_of_int fp 10) = d_of_int fp (int (n div 10) * 10)"
      by (rule exact_mul [OF fp]) (use b in simp_all)
    moreover have "d_add fp (d_of_int fp (int (n div 10) * 10)) (d_of_int fp (int (n mod 10))) = d_of_int fp (int n)"
      unfolding n [symmetric] by (rule exact_add [OF fp]) (use b n N in \<open>simp_all add: abs_if\<close>)
    moreover have "digits fp (d_of_int fp 0) (dec_nat (n div 10)) = d_of_int fp (int (n div 10))"
      by (rule 1(1) [OF False]) (use 1(2) in simp)
    ultimately show ?thesis using False by (simp add: dec_nat.simps [of n] digits_def digit_val_def)
  qed
qed

lemma takeWhile_digits:
  assumes "\<forall>c \<in> set ds. is_digit c" "\<not> is_digit (peek X)" shows "takeWhile is_digit (ds @ X) = ds"
proof -
  have "takeWhile is_digit X = []" using assms(2) by (cases X) simp_all
  then show ?thesis using assms(1) by (induction ds) auto
qed

lemma num_int_dec:
  assumes "\<not> is_digit (peek X)"
  shows "num_int (dec_int i @ X) = (i < 0, if i = 0 then [] else dec_nat (nat \<bar>i\<bar>), X)"
proof (cases "i = 0")
  case True
  then show ?thesis using assms by (simp add: num_int_def dec_int_def dec_nat_0)
next
  case False
  then obtain c r where c: "dec_nat (nat \<bar>i\<bar>) = c # r" "is_digit c" "c \<noteq> CHR ''0''"
    using dec_nat_first [of "nat \<bar>i\<bar>"] by auto
  then have "takeWhile is_digit (c # r @ X) = c # r" "c \<noteq> CHR ''-''"
    using takeWhile_digits [OF _ assms, of "c # r"] dec_nat_digits [of "nat \<bar>i\<bar>"] by (auto simp: is_digit_def)
  then show ?thesis using c False by (cases "i < 0") (simp_all add: num_int_def dec_int_def abs_if Let_def)
qed

lemma delim_number: "delim X \<Longrightarrow> \<not> is_digit (peek X) \<and> num_frac X = ([], X) \<and> num_exp X = (False, [], X)"
  by (auto simp: delim_def is_digit_def num_frac_def num_exp_def)

lemma parse_number_dec:
  assumes fp: "exact_ints fp" and i: "int_min \<le> i" "i \<le> int_max" and X: "delim X"
  shows "parse_number fp (dec_int i @ X) = POk (Item cJSON_Number None i (d_of_int fp i) None []) X"
proof -
  let ?s = "if i < 0 then -1 else 1 :: int"
  have a: "\<bar>i\<bar> < 2 ^ 53" using i by (auto simp: int_min_def int_max_def abs_if)
  have d: "digits fp (d_of_int fp 0) (if i = 0 then [] else dec_nat (nat \<bar>i\<bar>)) = d_of_int fp \<bar>i\<bar>"
    using digits_dec_nat [OF fp, of "nat \<bar>i\<bar>"] a by (auto simp: digits_def)
  have "d_mul fp (d_of_int fp ?s) (d_of_int fp \<bar>i\<bar>) = d_of_int fp (?s * \<bar>i\<bar>)"
    by (rule exact_mul [OF fp]) (use a in \<open>auto simp: abs_if\<close>)
  moreover have "?s * \<bar>i\<bar> = i" by simp
  moreover have "d_mul fp (d_of_int fp i) (d_of_int fp 1) = d_of_int fp i"
    using exact_mul [OF fp, of i 1] a by simp
  moreover have "d_pow10 fp 0 = d_of_int fp 1" using fp by (simp add: exact_ints_def)
  ultimately show ?thesis
    using num_int_dec [of X i] delim_number [OF X] d exact_int [OF fp i]
    by (simp add: parse_number_def digits_def dec_val_def int_max_def)
qed

section \<open>Print, then parse\<close>

text \<open>The text starts a value: blanks, then a character that closes nothing.\<close>

definition opens :: "string \<Rightarrow> bool" where
  "opens e \<longleftrightarrow> e \<noteq> [] \<and> (\<forall>Y. peek (skip (e @ Y)) \<noteq> CHR '']'' \<and> peek (skip (e @ Y)) \<noteq> CHR 0x7D)"

definition solid :: "string \<Rightarrow> bool" where
  "solid e \<longleftrightarrow> (\<exists>d r. e = d # r \<and> \<not> blank d \<and> d \<noteq> CHR '']'' \<and> d \<noteq> CHR 0x7D)"

lemma solid_opens: "solid e \<Longrightarrow> opens e"
  by (auto simp: solid_def opens_def skip_solid)

lemma solid_skip: "solid e \<Longrightarrow> skip (e @ X) = e @ X"
  by (auto simp: solid_def skip_solid)

lemma opens_join: "opens e \<Longrightarrow> opens (join sep (e # es))"
  by (cases es) (auto simp: opens_def)

lemma c_stringD: "c_string s \<Longrightarrow> \<exists>t. s = Some t \<and> CHR 0x00 \<notin> set t"
  by (simp add: c_string_def split: option.splits)

lemma parse_name:
  assumes "c_string s"
  shows "parse_string (print_string_ptr s @ X) = POk (Item cJSON_String s 0 0 None []) X"
proof -
  obtain t where t: "s = Some t" "CHR 0x00 \<notin> set t" using c_stringD [OF assms] by blast
  obtain n where "n \<ge> length t" "scan_len (concat (map esc_char t) @ CHR 0x22 # X) = Some n"
    using escapes_scan [OF t(2)] by blast
  then show ?thesis using t by (simp add: parse_string_def print_string_ptr_def escapes_unesc)
qed

lemma solid_string: "c_string s \<Longrightarrow> solid (print_string_ptr s)"
  by (auto dest!: c_stringD simp: print_string_ptr_def solid_def blank_def)

lemma dec_int_first: "\<exists>c r. dec_int i = c # r \<and> (c = CHR ''-'' \<or> is_digit c)"
proof (cases "i = 0")
  case False
  then show ?thesis using dec_nat_first [of "nat \<bar>i\<bar>"] by (cases "i < 0") (auto simp: dec_int_def abs_if)
qed (simp add: dec_int_def dec_nat_0 is_digit_def)

lemma solid_int: "solid (dec_int i)"
  using dec_int_first [of i] by (auto simp: solid_def blank_def is_digit_def)

text \<open>The dispatch of \<open>parse_value\<close> on the first character.\<close>

lemma parse_value_array: "parse_value fp (Suc k) (CHR ''['' # s) = parse_array (parse_value fp k) k (CHR ''['' # s)"
  by (simp add: is_digit_def)

lemma parse_value_object: "parse_value fp (Suc k) (CHR 0x7B # s) = parse_object (parse_value fp k) k (CHR 0x7B # s)"
  by (simp add: is_digit_def)

lemma parse_value_number: "c = CHR ''-'' \<or> is_digit c \<Longrightarrow> parse_value fp (Suc k) (c # s) = parse_number fp (c # s)"
  by (auto simp: is_digit_def)

lemma set_name_same [simp]: "set_name (cname c) (set_name n c) = c" "cname c = None \<Longrightarrow> set_name None c = c"
  by (cases c; simp add: set_name_def)+

lemma delim_close: "delim (CHR '']'' # X)" "delim (CHR 0x7D # X)" "delim (CHR '','' # X)" "delim (CHR 0x0A # X)" "delim []"
  by (simp_all add: delim_def)

lemma parse_elems_skip: "parse_elems pv k (skip s) = parse_elems pv k s"
  by (cases k) simp_all

lemma parse_array_print:
  assumes es: "list_all2 (reads pv) es cs" "length es \<le> k" "\<And>e. e \<in> set es \<Longrightarrow> opens e"
  shows "parse_array pv k (array_text fmt es @ X) = POk (Item cJSON_Array None 0 0 None cs) X"
proof (cases es)
  case Nil
  then show ?thesis using es by (simp add: parse_array_def array_text_def skip_solid blank_def)
next
  case (Cons e es')
  define ws where "ws = (if fmt then '' '' else [])"
  let ?s = "join (CHR '','' # ws) es @ CHR '']'' # X"
  have p: "parse_elems pv k ?s = LOk cs (CHR '']'' # X)"
    using parse_elems_reads [of ws "CHR '']'' # X" pv es cs k] es Cons
    by (simp add: ws_def delim_close skip_solid blank_def [of "CHR '']''"])
  moreover have "peek (skip ?s) \<noteq> CHR '']''"
    using opens_join [of e] es(3) Cons by (simp add: opens_def)
  moreover have "array_text fmt es @ X = CHR ''['' # ?s" by (simp add: array_text_def ws_def)
  ultimately show ?thesis by (simp add: parse_array_def Let_def parse_elems_skip)
qed

text \<open>A member of an object.\<close>

definition member_text :: "bool \<Rightarrow> nat \<Rightarrow> cjson \<Rightarrow> string \<Rightarrow> string" where
  "member_text fmt depth c e = (if fmt then tabs (Suc depth) else []) @ print_string_ptr (cname c) @ '':'' @
     (if fmt then [CHR 0x09] else []) @ e"

lemma member_text_skip: "c_string (cname c) \<Longrightarrow> skip (member_text fmt depth c e @ X) =
    print_string_ptr (cname c) @ CHR '':'' # (if fmt then [CHR 0x09] else []) @ e @ X"
  using solid_skip [OF solid_string] by (simp add: member_text_def)

lemma opens_member: "c_string (cname c) \<Longrightarrow> opens (member_text fmt depth c e)"
  using solid_string [of "cname c"] member_text_skip [of c fmt depth e] by (auto simp: opens_def solid_def) (simp_all add: member_text_def)

lemma reads_member:
  assumes "c_string (cname c)" "reads pv e (set_name None c)"
  shows "reads (parse_member pv) (member_text fmt depth c e) c"
  unfolding reads_def
proof (intro allI impI)
  fix X assume X: "delim X"
  let ?t = "(if fmt then [CHR 0x09] else []) @ e @ X"
  have "skip ?t = skip (e @ X)" by simp
  then have "pv (skip ?t) = POk (set_name None c) X" using readsD [OF assms(2) X] by simp
  then show "parse_member pv (skip (member_text fmt depth c e @ X)) = POk c X"
    by (simp add: parse_member_def member_text_skip [OF assms(1)] parse_name [OF assms(1)] solid_skip [OF solid_string [OF assms(1)]]
        skip_solid blank_def)
qed

lemma parse_object_print:
  assumes es: "list_all2 (\<lambda>e c. reads pv e (set_name None c)) es cs" "length es \<le> k" "\<And>c. c \<in> set cs \<Longrightarrow> c_string (cname c)"
  shows "parse_object pv k (object_text depth fmt cs es @ X) = POk (Item cJSON_Object None 0 0 None cs) X"
proof (cases cs)
  case Nil
  have "skip (CHR 0x7D # X) = CHR 0x7D # X" by (simp add: skip_solid blank_def)
  then show ?thesis using Nil es by (simp add: parse_object_def object_text_def skip_solid blank_def)
next
  case (Cons c cs')
  define ws where "ws = (if fmt then [CHR 0x0A] else [])"
  define ms where "ms = map2 (member_text fmt depth) cs es"
  define Y where "Y = ws @ (if fmt then tabs depth else []) @ CHR 0x7D # X"
  have l: "length es = length cs" using es(1) list_all2_lengthD by blast
  have Y: "delim Y" "skip Y = CHR 0x7D # X"
    by (simp_all add: Y_def ws_def delim_close skip_solid blank_def [of "CHR 0x7D"])
  have "list_all2 (reads (parse_member pv)) ms cs"
    using es l by (auto simp: ms_def list_all2_conv_all_nth intro!: reads_member)
  then have p: "parse_elems (parse_member pv) k (join (CHR '','' # ws) ms @ Y) = LOk cs (CHR 0x7D # X)"
    using parse_elems_reads [of ws Y "parse_member pv" ms cs k] Y l es(2) Cons
    by (cases es) (auto simp: ws_def ms_def)
  obtain m ms' where m: "ms = m # ms'" "opens m"
    using l Cons es(3) opens_member by (cases es) (auto simp: ms_def)
  have "peek (skip (join (CHR '','' # ws) ms @ Y)) \<noteq> CHR 0x7D"
    using opens_join [OF m(2)] m(1) by (simp add: opens_def)
  moreover have "object_text depth fmt cs es @ X = CHR 0x7B # ws @ join (CHR '','' # ws) ms @ Y"
    using Cons by (simp add: object_text_def ms_def ws_def Y_def member_text_def [abs_def] Let_def)
  moreover have "skip (ws @ s) = skip s" for s
    by (simp add: ws_def)
  ultimately show ?thesis using p by (simp add: parse_object_def Let_def parse_elems_skip)
qed

section \<open>Whole values\<close>

text \<open>The fuel is enough for the elements of a value between brackets.\<close>

lemma fuel_children:
  assumes "length (pre @ join sep es @ post) < Suc k" "pre \<noteq> []" "\<forall>e \<in> set es. e \<noteq> []"
  shows "length es \<le> k" "e \<in> set es \<Longrightarrow> length e < k"
proof -
  have l: "length (join sep es) < k" using assms(1,2) by (cases pre) simp_all
  show "length es \<le> k" using join_length_ge [of es sep] assms(3) l by auto
  show "e \<in> set es \<Longrightarrow> length e < k" using join_length_mem [of e es sep] l by simp
qed

text \<open>\<open>t\<close> is a text of \<open>c\<close>: it starts a value, and the parser reads it as \<open>c\<close> without its name.\<close>

definition text_of :: "fpu \<Rightarrow> cjson \<Rightarrow> string \<Rightarrow> bool" where
  "text_of fp c t \<longleftrightarrow> solid t \<and> (\<forall>k X. length t < k \<longrightarrow> delim X \<longrightarrow> parse_value fp k (t @ X) = POk (set_name None c) X)"

lemma text_of_reads: "text_of fp c t \<Longrightarrow> length t < k \<Longrightarrow> reads (parse_value fp k) t (set_name None c)"
  by (simp add: text_of_def reads_def solid_skip)

lemma text_ofI:
  assumes "solid t" "\<And>k X. length t < Suc k \<Longrightarrow> delim X \<Longrightarrow> parse_value fp (Suc k) (t @ X) = POk (set_name None c) X"
  shows "text_of fp c t"
  unfolding text_of_def
proof (intro conjI allI impI)
  fix k X assume "length t < k" "delim X"
  then show "parse_value fp k (t @ X) = POk (set_name None c) X" using assms(2) [of "k - 1" X] by (cases k) simp_all
qed (rule assms(1))

lemma text_of_array:
  assumes "list_all2 (text_of fp) cs es" "\<forall>c \<in> set cs. cname c = None"
  shows "text_of fp (Item cJSON_Array None 0 0 nm cs) (array_text fmt es)"
proof (rule text_ofI)
  show "solid (array_text fmt es)" by (simp add: solid_def array_text_def blank_def)
  fix k X assume l: "length (array_text fmt es) < Suc k"
  have t: "text_of fp (cs ! i) (es ! i)" if "i < length es" for i
    using assms(1) that by (simp add: list_all2_conv_all_nth)
  have n: "\<forall>e \<in> set es. e \<noteq> []" using t by (fastforce simp: in_set_conv_nth text_of_def solid_def)
  note k = fuel_children [OF l [unfolded array_text_def] _ n, simplified]
  have "reads (parse_value fp k) (es ! i) (cs ! i)" if "i < length es" for i
    using text_of_reads [OF t [OF that] k(2)] assms that by (simp add: list_all2_conv_all_nth)
  then have "list_all2 (reads (parse_value fp k)) es cs"
    using assms(1) by (simp add: list_all2_conv_all_nth)
  moreover have "e \<in> set es \<Longrightarrow> opens e" for e using t by (auto simp: in_set_conv_nth text_of_def solid_opens)
  ultimately have "parse_array (parse_value fp k) k (array_text fmt es @ X) = POk (Item cJSON_Array None 0 0 None cs) X"
    using k(1) by (intro parse_array_print)
  then show "parse_value fp (Suc k) (array_text fmt es @ X) = POk (set_name None (Item cJSON_Array None 0 0 nm cs)) X"
    using parse_value_array by (simp add: array_text_def set_name_def del: parse_value.simps)
qed

lemma object_text_split:
  assumes "cs \<noteq> []"
  shows "\<exists>sep post. object_text depth fmt cs es =
    ([CHR 0x7B] @ (if fmt then [CHR 0x0A] else [])) @ join sep (map2 (member_text fmt depth) cs es) @ post"
  using assms by (intro exI [of _ "if fmt then [CHR '','', CHR 0x0A] else '',''"] exI [of _ "(if fmt then [CHR 0x0A] @ tabs depth else []) @ [CHR 0x7D]"])
    (simp add: object_text_def member_text_def [abs_def] Let_def)

lemma text_of_object:
  assumes "list_all2 (text_of fp) cs es" "\<forall>c \<in> set cs. c_string (cname c)"
  shows "text_of fp (Item cJSON_Object None 0 0 nm cs) (object_text depth fmt cs es)"
proof (rule text_ofI)
  have hd: "\<exists>r. object_text depth fmt cs es = CHR 0x7B # r" by (simp add: object_text_def Let_def)
  then show "solid (object_text depth fmt cs es)" by (auto simp: solid_def blank_def)
  fix k X assume l: "length (object_text depth fmt cs es) < Suc k"
  have len: "length cs = length es" using assms(1) by (rule list_all2_lengthD)
  let ?ms = "map2 (member_text fmt depth) cs es"
  have n: "\<forall>m \<in> set ?ms. m \<noteq> []" by (auto simp: member_text_def)
  have k: "length es \<le> k \<and> (\<forall>i < length es. length (es ! i) < k)"
  proof (cases "cs = []")
    case True
    then show ?thesis using len by simp
  next
    case False
    then obtain sep post where "object_text depth fmt cs es = ([CHR 0x7B] @ (if fmt then [CHR 0x0A] else [])) @ join sep ?ms @ post"
      using object_text_split by blast
    note m = fuel_children [OF l [unfolded this] _ n]
    have "length (es ! i) < k" if i: "i < length es" for i
    proof -
      have "?ms ! i \<in> set ?ms" using i len by (intro nth_mem) simp
      then have "length (?ms ! i) < k" using m(2) by simp
      then show ?thesis using i len by (simp add: member_text_def)
    qed
    then show ?thesis using m(1) len by simp
  qed
  have "reads (parse_value fp k) (es ! i) (set_name None (cs ! i))" if "i < length es" for i
    using assms(1) k that by (intro text_of_reads) (simp_all add: list_all2_conv_all_nth)
  then have "list_all2 (\<lambda>e c. reads (parse_value fp k) e (set_name None c)) es cs"
    using len by (simp add: list_all2_conv_all_nth)
  then have "parse_object (parse_value fp k) k (object_text depth fmt cs es @ X) = POk (Item cJSON_Object None 0 0 None cs) X"
    using k assms(2) by (intro parse_object_print) auto
  then show "parse_value fp (Suc k) (object_text depth fmt cs es @ X) = POk (set_name None (Item cJSON_Object None 0 0 nm cs)) X"
    using parse_value_object hd by (auto simp: set_name_def simp del: parse_value.simps)
qed

lemma text_of_number:
  assumes fp: "exact_ints fp" and i: "int_min \<le> i" "i \<le> int_max"
  shows "text_of fp (Item cJSON_Number None i (d_of_int fp i) nm []) (dec_int i)"
proof (rule text_ofI)
  fix k X assume "delim X"
  then show "parse_value fp (Suc k) (dec_int i @ X) = POk (set_name None (Item cJSON_Number None i (d_of_int fp i) nm [])) X"
    using parse_number_dec [OF fp i] dec_int_first [of i] parse_value_number [of _ fp k]
    by (auto simp: set_name_def simp del: parse_value.simps)
qed (rule solid_int)

lemma text_of_string: "c_string s \<Longrightarrow> text_of fp (Item cJSON_String s 0 0 nm []) (print_string_ptr s)"
  using parse_name [of s]
  by (intro text_ofI solid_string) (auto dest!: c_stringD simp: print_string_ptr_def set_name_def)

text \<open>The empty object is the one value whose indented text does not fit its buffer at the outermost level.\<close>

definition empty_object :: "cjson \<Rightarrow> bool" where
  "empty_object c \<longleftrightarrow> ctype c = cJSON_Object \<and> child c = []"

lemma text_of_value:
  assumes fp: "exact_ints fp"
  shows "json_value fp c \<Longrightarrow> \<not> (fmt \<and> depth = 0 \<and> empty_object c) \<Longrightarrow> \<exists>t. print_value fp depth fmt c = Inr (Some t) \<and> text_of fp c t"
proof (induction c arbitrary: depth)
  case (Item ty vs vi vd nm ch)
  have lits: "text_of fp (Item cJSON_NULL None 0 0 nm []) ''null''" "text_of fp (Item cJSON_False None 0 0 nm []) ''false''"
      "text_of fp (Item cJSON_True None 1 0 nm []) ''true''"
    by (auto intro!: text_ofI simp: solid_def blank_def set_name_def)
  have kids: "\<exists>es. array_entries (map (print_value fp (Suc depth) fmt) ch) = Inr (Some es) \<and>
      object_entries (map (print_value fp (Suc depth) fmt) ch) = Inr (Some es) \<and> list_all2 (text_of fp) ch es"
    if "\<forall>c \<in> set ch. json_value fp c"
  proof -
    from that Item.IH have "\<exists>f. \<forall>c \<in> set ch. print_value fp (Suc depth) fmt c = Inr (Some (f c)) \<and> text_of fp c (f c)"
      by (intro bchoice) auto
    then obtain f where f: "\<forall>c \<in> set ch. print_value fp (Suc depth) fmt c = Inr (Some (f c))" "\<forall>c \<in> set ch. text_of fp c (f c)"
      by blast
    then show ?thesis using entries_map [OF f(1)]
      by (intro exI [of _ "map f ch"]) (simp add: list_all2_conv_all_nth)
  qed
  consider (lit) "ty \<in> {cJSON_NULL, cJSON_False, cJSON_True}" | (num) "ty = cJSON_Number" | (str) "ty = cJSON_String"
    | (arr) "ty = cJSON_Array" | (obj) "ty = cJSON_Object"
    using json_type [OF Item.prems(1)] by auto
  then show ?case
  proof cases
    case lit
    then show ?thesis using Item.prems(1) lits by (auto simp: ctype_defs)
  next
    case num
    then show ?thesis using Item.prems(1) text_of_number [OF fp] exact_int [OF fp, of vi]
      by (auto simp: ctype_defs print_number_def)
  next
    case str
    then show ?thesis using Item.prems(1) text_of_string [of vs fp nm] by (auto simp: ctype_defs)
  next
    case arr
    then show ?thesis using Item.prems(1) kids text_of_array [of fp ch _ nm fmt] by (auto simp: ctype_defs compose_def)
  next
    case obj
    then have "ch = [] \<Longrightarrow> \<not> (fmt \<and> depth = 0)" using Item.prems(2) by (auto simp: empty_object_def)
    then show ?thesis using obj Item.prems(1) kids text_of_object [of fp ch _ nm depth fmt]
      by (auto simp: ctype_defs compose_def print_object_cases)
  qed
qed

lemma print_empty_object: "json_value fp c \<Longrightarrow> empty_object c \<Longrightarrow> cJSON_Print fp c = Inl Undefined"
  by (cases c) (auto simp: empty_object_def cJSON_Print_def ctype_defs compose_def print_object_cases split: if_splits)

lemma text_of_parse: "text_of fp c t \<Longrightarrow> cname c = None \<Longrightarrow> cJSON_Parse fp t = POk c []"
proof -
  assume t: "text_of fp c t" and c: "cname c = None"
  then have "skip t = t" using solid_skip [of t "[]"] by (simp add: text_of_def)
  moreover have "parse_value fp (Suc (length t)) (t @ []) = POk (set_name None c) []"
    using t delim_close(5) by (simp add: text_of_def del: parse_value.simps append_Nil2)
  ultimately show ?thesis using c by (simp add: cJSON_Parse_def cJSON_ParseWithOpts_def del: parse_value.simps)
qed

text \<open>
  C9: a JSON value whose numbers are integers of 32 bits and whose strings are C strings is printed,
  and the parser reads its text back to the same value and consumes all of it. This holds for the compact text of every
  such value and for the indented text of every one but the empty object, which overruns its buffer, whatever control characters or quotes
  the strings contain. It is assumed that sums and products of integers up to \<open>2^53\<close> are exact. The
  stack of the recursion has no bound in the model; in the program the depth of a value is limited by it.
\<close>

theorem cjson_tree_roundtrip:
  assumes "exact_ints fp" "json_value fp c" "cname c = None"
  shows "(\<exists>u. cJSON_PrintUnformatted fp c = Inr (Some u) \<and> cJSON_Parse fp u = POk c []) \<and>
    (if ctype c = cJSON_Object \<and> child c = [] then cJSON_Print fp c = Inl Undefined
     else \<exists>t. cJSON_Print fp c = Inr (Some t) \<and> cJSON_Parse fp t = POk c [])"
  using text_of_value [OF assms(1,2), of False 0] text_of_value [OF assms(1,2), of True 0] text_of_parse [OF _ assms(3)]
    print_empty_object [OF assms(2)]
  unfolding cJSON_Print_def cJSON_PrintUnformatted_def empty_object_def by force

text \<open>A value with a number, a name that is a quote, and nested arrays and objects.\<close>

definition json_example :: cjson where
  "json_example = Item cJSON_Object None 0 0 None [Item cJSON_Number None (-12) (-12) (Some ''a'') [],
     Item cJSON_Array None 0 0 (Some [CHR 0x22]) [Item cJSON_True None 1 0 None [], Item cJSON_Object None 0 0 None []]]"

theorem cjson_tree_roundtrip_witness:
  "(\<exists>u. cJSON_PrintUnformatted fpu0 json_example = Inr (Some u) \<and> cJSON_Parse fpu0 u = POk json_example []) \<and>
   (\<exists>t. cJSON_Print fpu0 json_example = Inr (Some t) \<and> cJSON_Parse fpu0 t = POk json_example [])"
  using cjson_tree_roundtrip [OF exact_fpu0, of json_example]
  by (simp add: json_example_def ctype_defs c_string_def int_min_def int_max_def fpu0_def
)

end
