(* ===== verification/Paging.thy ===== *)
theory Paging
  imports UserData KhData TableData
begin

text \<open>
  The list commands: which rows a page consists of, and whether the reply is one well-formed value. What the database
  libraries do with a result is stated as a hypothesis: a result is a sequence of rows with a cursor.
\<close>

section \<open>Pages of an ADO record set\<close>



text \<open>The abstract list: the rows of page \<open>nTag\<close> when a page has \<open>nPage\<close> rows, and the first of them.\<close>

definition first_row :: "int \<Rightarrow> int \<Rightarrow> nat" where
  "first_row nPage nTag = nat ((nTag - 1) * nPage)"

definition page :: "'a list \<Rightarrow> int \<Rightarrow> int \<Rightarrow> 'a list" where
  "page xs nPage nTag = take (nat nPage) (drop (first_row nPage nTag) xs)"

definition page_header :: "buf \<Rightarrow> int \<Rightarrow> int \<Rightarrow> tok list" where
  "page_header o' nTag k =
     [TArr 7, TInt (nCmd o'), TInt (nSubCmd o'), TInt (nSubSubCmd o'), TInt nTag, TInt 0, TInt (nRecSetCount o'), TArr (nat k)]"




lemma list_header_in:
  assumes "1 \<le> nTag" "0 < nPage" "nPage < 2 ^ 31" "first_row nPage nTag \<le> n" "n < 2 ^ 31" "nRecSetCount o' = int n"
  shows "wrap32 ((nTag - 1) * nPage) = int (first_row nPage nTag)"
    "list_header o' nPage nTag = page_header o' nTag (min nPage (int n - int (first_row nPage nTag)))"
proof -
  have s: "(nTag - 1) * nPage = int (first_row nPage nTag)" using assms(1,2) by (simp add: first_row_def)
  then show w: "wrap32 ((nTag - 1) * nPage) = int (first_row nPage nTag)" using assms(4,5) by (simp add: wrap32_def)
  have "wrap32 (int n - int (first_row nPage nTag)) = int n - int (first_row nPage nTag)"
    using assms(4,5) by (simp add: wrap32_def)
  then show "list_header o' nPage nTag = page_header o' nTag (min nPage (int n - int (first_row nPage nTag)))"
    unfolding list_header_def w using assms by (auto simp: Let_def page_header_def min_def)
qed


lemma page_value_iff: "nvalues m ts \<Longrightarrow> one_value (page_header o' nTag k @ ts) \<longleftrightarrow> nat k = m"
  by (auto simp: page_header_def one_value_array values_Cons eval_nat_numeral dest: values_unique)


lemma length_page:
  "1 \<le> nTag \<Longrightarrow> 0 < nPage \<Longrightarrow> first_row nPage nTag \<le> length xs \<Longrightarrow>
     int (length (page xs nPage nTag)) = min nPage (int (length xs) - int (first_row nPage nTag))"
  by (simp add: page_def min_def) linarith



text \<open>A record set of three areas whose columns are all null, and a connection that has it open.\<close>

definition ext_rows :: ext where
  "ext_rows = ext0\<lparr>ado_eof := (\<lambda>h. h = 3), ado_move := (\<lambda>h k. Some (min (nat k) 3)), ado_next := (\<lambda>h. Some (Suc h)),
     my_fetch := (\<lambda>h. if h < 3 then (Some (replicate 11 (Some ''7'')), Suc h) else (None, h)), my_num_rows := (\<lambda>h. 3),
     my_seek := (\<lambda>h k. min (nat k) 3)\<rparr>"

definition listing :: world where
  "listing = (conn0 [])\<lparr>bufs := [0 \<mapsto> (zero_buf 512)\<lparr>pRelatedSObj := Some 1, pRecorder := Some 0, bres := Some 0, nRecSetCount := 3\<rparr>]\<rparr>"




lemma listing_buf: "bufs listing 0 = Some ((zero_buf 512)\<lparr>pRelatedSObj := Some 1, pRecorder := Some 0, bres := Some 0, nRecSetCount := 3\<rparr>)"
  "socks listing 1 = Some (zero_sobj\<lparr>sock := Some 7, pRelatedBObj := Some 0\<rparr>)" "os_send ext_rows (tick listing)"
  by (simp_all add: listing_def conn0_def ext_rows_def ext0_def)

section \<open>A page behind the end\<close>






section \<open>Lists read through the MySQL client\<close>

text \<open>
  A stored result as the MySQL client documents it: \<open>H i\<close> is the result with its cursor on row \<open>i\<close>, fetching gives
  the row and moves on, and behind the last of the \<open>n\<close> rows it gives the null pointer.
\<close>

definition resultset :: "ext \<Rightarrow> (nat \<Rightarrow> nat) \<Rightarrow> (nat \<Rightarrow> string option list) \<Rightarrow> nat \<Rightarrow> bool" where
  "resultset e H row n \<longleftrightarrow>
     (\<forall>i \<le> n. my_num_rows e (H i) = n \<and> (\<forall>k. my_seek e (H i) (int k) = H (min k n))) \<and>
     (\<forall>i < n. my_fetch e (H i) = (Some (row i), H (Suc i))) \<and> my_fetch e (H n) = (None, H n)"

text \<open>Each row is packed as \<open>m\<close> values.\<close>

definition my_packs :: "nat \<Rightarrow> (string option list option \<Rightarrow> fault + tok list) \<Rightarrow> (nat \<Rightarrow> string option list) \<Rightarrow> tok list list \<Rightarrow> bool" where
  "my_packs m parse row R \<longleftrightarrow> (\<forall>j < length R. parse (Some (row j)) = Inr (R ! j) \<and> nvalues m (R ! j))"

lemma my_rows_run:
  assumes rs: "resultset e H row (length R)" and p: "my_packs m parse row R"
  shows "i \<le> length R \<Longrightarrow> length R - i < k \<Longrightarrow>
    my_rows e parse k (H i) w = (Inr (concat (drop i R), H (length R)), w)"
proof (induction k arbitrary: i)
  case (Suc k)
  show ?case
  proof (cases "i = length R")
    case True
    then show ?thesis using rs by (simp add: resultset_def)
  next
    case False
    then have i: "i < length R" using Suc.prems(1) by simp
    have "my_rows e parse k (H (Suc i)) w = (Inr (concat (drop (Suc i) R), H (length R)), w)"
      using Suc.IH [of "Suc i"] i Suc.prems(2) by simp
    then show ?thesis
      using i rs p by (simp add: resultset_def my_packs_def cbind_def flip: Cons_nth_drop_Suc)
  qed
qed simp

lemma values_concat_mult:
  assumes "\<And>x. x \<in> set xs \<Longrightarrow> nvalues m x"
  shows "nvalues (m * length xs) (concat xs)"
  using assms
proof (induction xs)
  case (Cons x xs)
  then have "nvalues (m + m * length xs) (x @ concat xs)" by (intro values_append) auto
  then show ?case by simp
qed simp

text \<open>The reply to a page request, with all rows up to the end of the result.\<close>

definition my_page_toks :: "buf \<Rightarrow> tok list list \<Rightarrow> int \<Rightarrow> int \<Rightarrow> tok list" where
  "my_page_toks o' R nPage nTag =
     page_header o' nTag (int (length (page R nPage nTag))) @ concat (drop (first_row nPage nTag) R)"

lemma my_page_toks_value:
  assumes "my_packs m parse row R" "1 \<le> nTag" "0 < nPage" "first_row nPage nTag \<le> length R"
  shows "one_value (my_page_toks o' R nPage nTag) \<longleftrightarrow>
    length (page R nPage nTag) = m * (length R - first_row nPage nTag)"
proof -
  let ?i = "first_row nPage nTag"
  have "x \<in> set (drop ?i R) \<Longrightarrow> nvalues m x" for x
    using assms(1) by (auto simp: my_packs_def in_set_conv_nth dest!: in_set_dropD)
  then have "nvalues (m * (length R - ?i)) (concat (drop ?i R))"
    using values_concat_mult [of "drop ?i R" m] by simp
  then show ?thesis unfolding my_page_toks_def by (simp add: page_value_iff)
qed

lemma my_list_run:
  assumes rs: "resultset e H row (length R)" and p: "my_packs m parse row R" and n: "length R < 2 ^ 31"
    and b: "bufs w b = Some o'" "pRelatedSObj o' = Some c" "socks w c = Some s" "dwSendedCount o' = 0"
    and h: "bres o' = Some (H i)" "i \<le> length R" "nRecSetCount o' = int (length R)"
    and pg: "1 \<le> nTag" "0 < nPage" "nPage < 2 ^ 31" "first_row nPage nTag \<le> length R"
    and fits: "reply_fits e (my_page_toks o' R nPage nTag) o'" "os_send e (tick w)"
  shows "\<exists>w'. my_list e mk_sql parse nPage nTag b w = (Inr True, w') \<and>
     pending w' = pending w @ [(b, KSock c, IoSend (frame_of (payload e (my_page_toks o' R nPage nTag))))]"
proof -
  let ?n = "length R" and ?st = "first_row nPage nTag" and ?toks = "my_page_toks o' R nPage nTag"
  let ?o1 = "o'\<lparr>bres := Some (H ?st)\<rparr>" and ?w1 = "w\<lparr>bufs := (bufs w)(b \<mapsto> o'\<lparr>bres := Some (H ?st)\<rparr>)\<rparr>"
  let ?o2 = "o'\<lparr>bres := Some (H ?n)\<rparr>" and ?w2 = "w\<lparr>bufs := (bufs w)(b \<mapsto> o'\<lparr>bres := Some (H ?n)\<rparr>)\<rparr>"
  have lh: "wrap32 ((nTag - 1) * nPage) = int ?st"
      "list_header o' nPage nTag = page_header o' nTag (int (length (page R nPage nTag)))"
    using list_header_in [OF pg n h(3)] length_page [OF pg(1,2,4)] by simp_all
  have init: "InitMsgpack e b nPage nTag w = (Inr (page_header o' nTag (int (length (page R nPage nTag)))), ?w1)"
    using b(1) h(1,2) pg(4) rs lh by (simp add: InitMsgpack_def cbind_def resultset_def)
  have rows: "my_rows e parse (Suc (my_num_rows e (H ?st))) (H ?st) ?w1 = (Inr (concat (drop ?st R), H ?n), ?w1)"
    using my_rows_run [OF rs p pg(4)] rs pg(4) by (simp add: resultset_def del: my_rows.simps)
  have reply: "my_list_reply e parse nPage nTag b w = (Inr ?toks, ?w2)"
    using init rows unfolding my_list_reply_def by (simp add: cbind_def my_page_toks_def del: my_rows.simps)
  have "\<exists>w'. DealTail e ?toks b ?w2 = (Inr (), w') \<and>
      pending w' = pending ?w2 @ [(b, KSock c, IoSend (drop (unat (dwSendedCount ?o2)) (frame_of (payload e ?toks))))] \<and>
      vctBObj w' = vctBObj ?w2 \<and> vctSObj w' = vctSObj ?w2 \<and> socks w' = socks ?w2"
    using b fits by (intro DealTail_posts [of _ _ _ c s]) (simp_all add: reply_fits_def)
  then obtain w' where "DealTail e ?toks b ?w2 = (Inr (), w')"
      "pending w' = pending w @ [(b, KSock c, IoSend (frame_of (payload e ?toks)))]"
    using b(4) by auto
  then show ?thesis using reply b(1) h(1)
    by (simp add: my_list_def my_list_query_def cbind_def cthen_def)
qed

text \<open>
  C30: a request for a page of the user list, whose result is open, is answered with all the rows from the
  first of the page to the end of the result: the row loop has no page bound. The header announces the rows of the
  page, so the reply is one well-formed value exactly when the page is the last one. The page is numbered from 1, has a positive
  number of rows and starts within the list; the reply has to fit the buffers and the send to be accepted, and nothing may be
  left of an earlier send.
\<close>

theorem mysql_page_reply:
  assumes "resultset e H row (length R)" "my_packs 1 (ParserUser e) row R" "length R < 2 ^ 31"
    and "bufs w b = Some o'" "pRelatedSObj o' = Some c" "socks w c = Some s" "dwSendedCount o' = 0"
    and "bres o' = Some (H i)" "i \<le> length R" "nRecSetCount o' = int (length R)"
    and "1 \<le> nTag" "0 < nPage" "nPage < 2 ^ 31" "first_row nPage nTag \<le> length R"
    and "reply_fits e (my_page_toks o' R nPage nTag) o'" "os_send e (tick w)"
  shows "(\<exists>w'. my_list e mk_sql (ParserUser e) nPage nTag b w = (Inr True, w') \<and>
      pending w' = pending w @ [(b, KSock c, IoSend (frame_of (payload e (my_page_toks o' R nPage nTag))))]) \<and>
    one_value (my_page_toks o' R nPage nTag) = (int (length R) \<le> int (first_row nPage nTag) + nPage)"
  using my_list_run [OF assms] my_page_toks_value [OF assms(2,11,12,14)] length_page [OF assms(11,12,14)] assms(14)
  by auto

abbreviation user_row :: "tok list" where
  "user_row \<equiv> [TArr 8, TInt 7, TStr ''7'', TStr ''7'', TInt 7, TInt 7, TInt 7, TDouble 0, TStr ''7'']"

abbreviation seven_row :: "string option list" where
  "seven_row \<equiv> replicate 11 (Some ''7'')"

lemma resultset_ext: "resultset ext_rows (\<lambda>i. i) (\<lambda>_. seven_row) 3"
  by (auto simp: resultset_def ext_rows_def ext0_def)

lemma seven: "c_scan_u ''7'' 0 = Inr 7" "c_atoi ''7'' = Inr 7" "c_str ''7'' = ''7''"
proof -
  have c: "c_str ''7'' = ''7''" by (simp add: c_str_def)
  have n: "num_prefix ''7'' = (False, ''7'')" "dec_val ''7'' = 7"
    by (simp_all add: num_prefix_def is_space_def is_digit_def dec_val_def digit_val_def)
  show "c_scan_u ''7'' 0 = Inr 7" "c_atoi ''7'' = Inr 7" "c_str ''7'' = ''7''"
    by (simp_all add: c_scan_u_def c_atoi_def c n int_min_def int_max_def)
qed

lemma row_str_seven: "i < 11 \<Longrightarrow> row_str (Some seven_row) i = Inr ''7''"
  by (simp add: row_str_def seven)

lemma user_row_ext: "ParserUser ext_rows (Some seven_row) = Inr user_row"
  by (simp add: ParserUser_def row_str_seven seven pack_array_def) (simp add: ext_rows_def ext0_def)

lemma packs_user: "my_packs 1 (ParserUser ext_rows) (\<lambda>_. seven_row) (replicate 3 user_row)"
proof -
  have "nvalues 1 user_row" using ParserUser_value [OF user_row_ext] .
  then show ?thesis by (simp add: my_packs_def user_row_ext)
qed

theorem mysql_page_reply_witness:
  "(\<exists>w'. my_list ext_rows (ret []) (ParserUser ext_rows) 2 1 0 listing = (Inr True, w') \<and>
      pending w' = pending listing @
        [(0, KSock 1, IoSend (frame_of (payload ext_rows (my_page_toks (the (bufs listing 0)) (replicate 3 user_row) 2 1))))]) \<and>
    one_value (my_page_toks (the (bufs listing 0)) (replicate 3 user_row) 2 1) =
      (int (length (replicate 3 user_row)) \<le> int (first_row 2 1) + 2)"
proof (rule mysql_page_reply [where H = "\<lambda>i. i" and row = "\<lambda>_. seven_row" and i = 0
      and s = "zero_sobj\<lparr>sock := Some 7, pRelatedBObj := Some 0\<rparr>"])
  show "resultset ext_rows (\<lambda>i. i) (\<lambda>_. seven_row) (length (replicate 3 user_row))"
    using resultset_ext by (simp only: length_replicate)
  show "reply_fits ext_rows (my_page_toks (the (bufs listing 0)) (replicate 3 user_row) 2 1) (the (bufs listing 0))"
    by (simp add: listing_buf my_page_toks_def page_def first_row_def page_header_def reply_fits_def payload_def ext_rows_def ext0_def
        PDATA_SIZE_def zero_buf_def bytes_of_def numeral_3_eq_3)
qed (rule packs_user, simp_all add: listing_buf listing_buf(2) [simplified] first_row_def zero_buf_def)

text \<open>
  The customer list can never be read by a client: every row announces eight values and packs
  eleven, so a page with at least one row has too many values for its header, whatever the page is.
\<close>

theorem customer_list_malformed:
  assumes "resultset e H row (length R)" "\<And>j. j < length R \<Longrightarrow> ParserKh e (Some (row j)) = Inr (R ! j)" "length R < 2 ^ 31"
    and "bufs w b = Some o'" "pRelatedSObj o' = Some c" "socks w c = Some s" "dwSendedCount o' = 0"
    and "bres o' = Some (H i)" "i \<le> length R" "nRecSetCount o' = int (length R)"
    and "1 \<le> nTag" "0 < nPage" "nPage < 2 ^ 31" "first_row nPage nTag < length R"
    and "reply_fits e (my_page_toks o' R nPage nTag) o'" "os_send e (tick w)"
  shows "(\<exists>w'. my_list e mk_sql (ParserKh e) nPage nTag b w = (Inr True, w') \<and>
      pending w' = pending w @ [(b, KSock c, IoSend (frame_of (payload e (my_page_toks o' R nPage nTag))))]) \<and>
    \<not> one_value (my_page_toks o' R nPage nTag)"
proof -
  have p: "my_packs 4 (ParserKh e) row R"
    using assms(2) ParserKh_values by (auto simp: my_packs_def)
  have st: "first_row nPage nTag \<le> length R" using assms(14) by simp
  show ?thesis
    using my_list_run [OF assms(1) p assms(3-13) st assms(15,16)] my_page_toks_value [OF p assms(11,12) st]
      length_page [OF assms(11,12) st] assms(14) by auto
qed

abbreviation kh_row :: "tok list" where
  "kh_row \<equiv> [TArr 8, TInt 7, TStr ''7'', TInt 7, TInt 0, TInt 7, TInt 7, TInt 0, TStr ''7'', TDouble 0, TStr ''7'', TStr ''7'']"

lemma kh_row_ext: "ParserKh ext_rows (Some seven_row) = Inr kh_row"
  by (simp add: ParserKh_def row_str_seven seven pack_array_def) (simp add: ext_rows_def ext0_def)

theorem customer_list_malformed_witness:
  "(\<exists>w'. my_list ext_rows (ret []) (ParserKh ext_rows) 2 2 0 listing = (Inr True, w') \<and>
      pending w' = pending listing @
        [(0, KSock 1, IoSend (frame_of (payload ext_rows (my_page_toks (the (bufs listing 0)) (replicate 3 kh_row) 2 2))))]) \<and>
    \<not> one_value (my_page_toks (the (bufs listing 0)) (replicate 3 kh_row) 2 2)"
proof (rule customer_list_malformed [where H = "\<lambda>i. i" and row = "\<lambda>_. seven_row" and i = 0
      and s = "zero_sobj\<lparr>sock := Some 7, pRelatedBObj := Some 0\<rparr>"])
  show "resultset ext_rows (\<lambda>i. i) (\<lambda>_. seven_row) (length (replicate 3 kh_row))"
    using resultset_ext by (simp only: length_replicate)
  show "ParserKh ext_rows (Some seven_row) = Inr (replicate 3 kh_row ! j)" if "j < length (replicate 3 kh_row)" for j
    using that by (simp only: kh_row_ext length_replicate nth_replicate)
  show "reply_fits ext_rows (my_page_toks (the (bufs listing 0)) (replicate 3 kh_row) 2 2) (the (bufs listing 0))"
    by (simp add: listing_buf my_page_toks_def page_def first_row_def page_header_def reply_fits_def payload_def ext_rows_def ext0_def
        PDATA_SIZE_def zero_buf_def bytes_of_def numeral_3_eq_3)
qed (simp_all add: listing_buf listing_buf(2) [simplified] first_row_def zero_buf_def)

end
