(* ===== verification/Observe.thy ===== *)
theory Observe
  imports Requests
begin

text \<open>
  Two observations of an operation: that no C++ exception leaves it (\<open>no_exn\<close>), and that it leaves a part \<open>f\<close> of the
  state alone whether or not it fails (\<open>keeps f\<close>).
\<close>

named_theorems no_exn_intros \<open>operations that no exception leaves\<close>
named_theorems keeps_intros \<open>operations that leave a part of the state alone\<close>

section \<open>No exception\<close>

definition no_exn :: "(world, 'a) cm \<Rightarrow> bool" where
  "no_exn m \<longleftrightarrow> (\<forall>w. case fst (m w) of Inl f \<Rightarrow> \<not> is_exception f | Inr x \<Rightarrow> True)"

lemma no_exnD: "no_exn m \<Longrightarrow> m w = (Inl f, w') \<Longrightarrow> \<not> is_exception f"
  unfolding no_exn_def by (drule spec [of _ w]) simp

lemma no_exn_bind [no_exn_intros]: "no_exn m \<Longrightarrow> (\<And>x. no_exn (f x)) \<Longrightarrow> no_exn (cbind m f)"
proof -
  assume m: "no_exn m" and f: "\<And>x. no_exn (f x)"
  have "case fst (cbind m f w) of Inl g \<Rightarrow> \<not> is_exception g | Inr x \<Rightarrow> True" for w
  proof (cases "fst (m w)")
    case (Inl g)
    then show ?thesis using m [unfolded no_exn_def, rule_format, of w] by (cases "m w") (simp add: cbind_def)
  next
    case (Inr x)
    then show ?thesis using f [unfolded no_exn_def, rule_format, of x "snd (m w)"] by (cases "m w") (simp add: cbind_def)
  qed
  then show ?thesis by (simp add: no_exn_def)
qed

lemma no_exn_base [no_exn_intros]:
  "no_exn (ret x)" "no_exn (upd_buf b g)" "no_exn (get_buf b)" "no_exn (get_sobj c)" "no_exn (upd_sobj c h)"
  "no_exn (related_sobj b)" "no_exn (write_data b off bs)" "no_exn (lift_fault (tail_frame e sb))"
  "no_exn (modify k)" "no_exn (ext_call q)" "no_exn (throw Undefined)"
  by (auto simp: no_exn_def upd_buf_def get_buf_def get_sobj_def upd_sobj_def related_sobj_def write_data_def cbind_def
      of_opt_def lift_fault_def tail_frame_def Let_def split: option.splits sum.splits)

lemma no_exn_if [no_exn_intros]: "no_exn m \<Longrightarrow> no_exn n \<Longrightarrow> no_exn (if p then m else n)"
  by simp

lemma no_exn_DealTail [no_exn_intros]: "no_exn (DealTail e toks b)"
  unfolding DealTail_def DealTail_sbuf_def PostSend_def close_and_free_def CSCloseSocket_def freeSObj_def freeBObj_def
    post_def Let_def
  by (intro no_exn_intros)

section \<open>Parts of the state that are left alone\<close>

definition keeps :: "(world \<Rightarrow> 's) \<Rightarrow> (world, 'a) cm \<Rightarrow> bool" where
  "keeps f m \<longleftrightarrow> (\<forall>w. f (snd (m w)) = f w)"

lemma keepsD: "keeps f m \<Longrightarrow> m w = (r, w') \<Longrightarrow> f w' = f w"
  unfolding keeps_def by (drule spec [of _ w]) simp

lemma keeps_bind [keeps_intros]: "keeps f m \<Longrightarrow> (\<And>x. keeps f (k x)) \<Longrightarrow> keeps f (cbind m k)"
  by (auto simp: keeps_def cbind_def split: prod.splits sum.splits) (metis snd_conv)+

lemma keeps_if [keeps_intros]: "keeps f m \<Longrightarrow> keeps f n \<Longrightarrow> keeps f (if p then m else n)"
  by simp

lemma keeps_option [keeps_intros]:
  "keeps f m \<Longrightarrow> (\<And>y. keeps f (k y)) \<Longrightarrow> keeps f (case x of None \<Rightarrow> m | Some y \<Rightarrow> k y)"
  by (cases x) simp_all

lemma keeps_prod [keeps_intros]: "(\<And>x y. keeps f (k x y)) \<Longrightarrow> keeps f (case p of (x, y) \<Rightarrow> k x y)"
  by (cases p) simp

lemma keeps_pure [keeps_intros]: "keeps f (ret x)" "keeps f (throw g)" "keeps f (get_buf b)" "keeps f (get_sobj c)"
  "keeps f (related_sobj b)" "keeps f (lift_fault r)" "keeps f (of_opt g y)"
  by (auto simp: keeps_def get_buf_def get_sobj_def related_sobj_def cbind_def of_opt_def lift_fault_def
      split: option.splits sum.splits)

lemma keeps_modify: "(\<And>w. f (k w) = f w) \<Longrightarrow> keeps f (modify k)"
  by (simp add: keeps_def)

text \<open>
  An observation that does not depend on the connection objects, the calls to the system and the outstanding requests:
  all that a reply changes.
\<close>

locale observation =
  fixes f :: "world \<Rightarrow> 's"
  assumes bufs: "f (w\<lparr>bufs := x\<rparr>) = f w" and socks: "f (w\<lparr>socks := y\<rparr>) = f w" and tick: "f (w\<lparr>tick := n\<rparr>) = f w"
    and pending: "f (w\<lparr>pending := ps\<rparr>) = f w" and vctBObj: "f (w\<lparr>vctBObj := bs\<rparr>) = f w"
    and vctSObj: "f (w\<lparr>vctSObj := ss\<rparr>) = f w"
begin

lemmas same = bufs socks tick pending vctBObj vctSObj

lemma keeps_local [keeps_intros]:
  "keeps f (upd_buf b g)" "keeps f (upd_sobj c h)" "keeps f (write_data b off bs)" "keeps f (ext_call q)"
    "keeps f (post b' k r)"
  by (auto simp: keeps_def same upd_buf_def get_buf_def get_sobj_def upd_sobj_def write_data_def post_def cbind_def
      of_opt_def split: option.splits)

lemma keeps_pools [keeps_intros]: "keeps f (freeSObj c)" "keeps f (freeBObj b)"
  unfolding freeSObj_def freeBObj_def by (intro keeps_intros keeps_modify; simp add: same)+

lemma keeps_DealTail [keeps_intros]: "keeps f (DealTail e toks b)"
  unfolding DealTail_def DealTail_sbuf_def PostSend_def close_and_free_def CSCloseSocket_def Let_def
  by (intro keeps_intros)

lemma keeps_replies [keeps_intros]: "keeps f (error_info e b fmt args)" "keeps f (ErrorInfo e toks b nTag)"
  unfolding error_info_def ErrorInfo_def by (intro keeps_intros)+

end

interpretation ado_pool: observation ado
  by unfold_locales simp_all

abbreviation my_log :: "world \<Rightarrow> string list" where
  "my_log w \<equiv> mylog (mysql w)"

interpretation mysql_log: observation my_log
  by unfold_locales simp_all

lemma keeps_sprintf [keeps_intros]: "keeps f (sprintf_s e n fmt args)"
  unfolding sprintf_s_def by (intro keeps_intros)

lemma keeps_rd [keeps_intros]: "keeps f (rd conv g ms)" "keeps f (rd_array ms)" "keeps f (rd_int e ms)" "keeps f (rd_str e ms)"
  unfolding rd_array_def rd_int_def rd_str_def rd_def by (auto simp: keeps_def split: list.splits option.splits)

end
