(* ===== verification/Accounts.thy ===== *)
theory Accounts
  imports UserData Observe
begin

text \<open>
  The login command: the statement it sends to the database, the length of user name and password at which it ends the
  process, and what happens when no account matches.
\<close>

section \<open>The statement\<close>

definition login_text :: "string \<Rightarrow> string \<Rightarrow> string" where
  "login_text u p = ''SELECT '' @ USER_ITEM @ '' FROM user_tbl WHERE User='' @ [CHR 0x27] @ u @
     [CHR 0x27] @ '' AND Password='' @ [CHR 0x27] @ p @ [CHR 0x27]"

lemma login_format:
  "cformat ff (sq ''SELECT %s FROM user_tbl WHERE User=`%s` AND Password=`%s`'') [FS USER_ITEM, FS u, FS p] =
     Some (login_text (c_str u) (c_str p))"
proof -
  have "c_str USER_ITEM = USER_ITEM" by (rule c_str_id) (simp add: USER_ITEM_def)
  then show ?thesis
    by (simp add: sq_def spec_of_def render_def arg_s_def login_text_def)
qed

lemma login_length: "length (login_text u p) = length u + length p + 103"
  by (simp add: login_text_def USER_ITEM_def)

text \<open>The request as the decoder hands it to the command: one row with the two strings.\<close>

definition login_request :: "mobj \<Rightarrow> mobj \<Rightarrow> mobj list" where
  "login_request mu mp = [MArray [MArray [mu, mp]]]"

lemma login_run:
  assumes "mp_string e mu = Some u" "mp_string e mp = Some p"
  shows "USER_LOGIN e (login_request mu mp) b = cbind (sprintf_s e 256 (sq ''SELECT %s FROM user_tbl WHERE User=`%s` AND Password=`%s`'')
      [FS USER_ITEM, FS u, FS p]) (\<lambda>sql. cbind (mysql_alloc e) (\<lambda>rh. case rh of
       None \<Rightarrow> cbind (error_info e b msg_connect []) (\<lambda>_. ErrorInfo e [] b 0)
     | Some h \<Rightarrow> cbind (SelectFromTbl e sql h b) (\<lambda>res. cbind (mysql_back h) (\<lambda>_. case res of
         None \<Rightarrow> ErrorInfo e [] b 0
       | Some rs \<Rightarrow> my_reply_one e rs b))))"
  using assms by (simp add: USER_LOGIN_def login_request_def rd_row_def rd_array_def rd_str_def rd_def elems_def del: ret_app)

lemma login_sprintf:
  "sprintf_s e 256 (sq ''SELECT %s FROM user_tbl WHERE User=`%s` AND Password=`%s`'') [FS USER_ITEM, FS u, FS p] =
    (if length (c_str u) + length (c_str p) < 153 then ret (login_text (c_str u) (c_str p)) else throw Abort)"
  by (simp add: sprintf_s_def stprintf_s_def login_format login_length del: ret_app)

text \<open>
  A login whose user name and password have together 153 characters or more ends the process: the text of
  the statement does not fit the 256 characters of its buffer, and \<open>_stprintf_s\<close> then calls the invalid-parameter
  handler. No connection to the database and no account is needed for this.
\<close>

theorem login_abort:
  assumes "mp_string e mu = Some u" "mp_string e mp = Some p" "153 \<le> length (c_str u) + length (c_str p)"
  shows "USER_LOGIN e (login_request mu mp) b w = (Inl Abort, w)"
  unfolding login_run [OF assms(1,2)] login_sprintf using assms(3) by simp

theorem login_abort_witness:
  "USER_LOGIN ext0 (login_request (MStr (replicate 150 CHR ''x'')) (MStr ''abc'')) 0 (conn0 []) = (Inl Abort, conn0 [])"
  by (rule login_abort [where u = "replicate 150 CHR ''x''" and p = "''abc''"]) (simp_all add: ext0_def c_str_id)

section \<open>What reaches the database\<close>

lemma keeps_mcall: "keeps my_log (with_mysql (mcall k))"
  by (simp add: keeps_def with_mysql_def mcall_def)

lemma keeps_my_reply: "keeps my_log (my_reply_one e rs b)"
  unfolding my_reply_one_def cthen_def by (intro keeps_intros)

lemma keeps_back: "keeps my_log (mysql_back h)"
  by (simp add: keeps_def mysql_back_def with_mysql_def Mysql_BackToPool_app)

lemma SelectFromTbl_log:
  assumes "h \<in> mylive (mysql w)"
  shows "mylog (mysql (snd (SelectFromTbl e sql h b w))) = mylog (mysql w) @ [sql]"
proof -
  obtain ok p where q: "mysql_real_query e h sql (mysql w) = (Inr ok, p)" and p: "mylog p = mylog (mysql w) @ [sql]"
    using assms by (simp add: mysql_real_query_def mcall_def)
  define k where "k = (\<lambda>ok. if \<not> ok then cbind (with_mysql (mcall (my_errno e))) (\<lambda>en.
      cbind (with_mysql (mcall (my_error e))) (\<lambda>em. cbind (error_info e b msg_db_error [FU en, FS em]) (\<lambda>_. ret None)))
    else cbind (with_mysql (mcall (my_store e))) (\<lambda>r. if r = None then cbind (with_mysql (mcall (my_field_count e))) (\<lambda>n.
      if n \<noteq> 0 then cbind (with_mysql (mcall (my_errno e))) (\<lambda>en. cbind (with_mysql (mcall (my_error e))) (\<lambda>em.
        cbind (error_info e b msg_db_error [FU en, FS em]) (\<lambda>_. ret None)))
      else cbind (error_info e b msg_no_match []) (\<lambda>_. ret None)) else ret r))"
  have "SelectFromTbl e sql h b = cbind (with_mysql (mysql_real_query e h sql)) k"
    unfolding SelectFromTbl_def k_def ..
  then have "SelectFromTbl e sql h b w = k ok (w\<lparr>mysql := p\<rparr>)"
    using q by (simp add: cbind_def with_mysql_def)
  moreover have "keeps my_log (k ok)" unfolding k_def by (intro keeps_intros keeps_mcall)
  ultimately show ?thesis using p by (simp add: keeps_def)
qed

text \<open>
  The statement of a login contains user name and password as the client sent them, between quotes and
  without any escaping: exactly this one statement is sent. A user name with a quote therefore ends the literal,
  and what follows it is read as SQL.
\<close>

theorem login_query:
  assumes "mp_string e mu = Some u" "mp_string e mp = Some p" "length (c_str u) + length (c_str p) < 153"
    and "mysql_alloc e w = (Inr (Some h), w1)" "h \<in> mylive (mysql w1)"
  shows "mylog (mysql (snd (USER_LOGIN e (login_request mu mp) b w))) =
    mylog (mysql w1) @ [''SELECT '' @ USER_ITEM @ '' FROM user_tbl WHERE User='' @ [CHR 0x27] @ c_str u @ [CHR 0x27] @
      '' AND Password='' @ [CHR 0x27] @ c_str p @ [CHR 0x27]]"
proof -
  define k where "k = (\<lambda>res. cbind (mysql_back h) (\<lambda>_. case res of
       None \<Rightarrow> ErrorInfo e [] b 0 | Some rs \<Rightarrow> my_reply_one e rs b))"
  have "USER_LOGIN e (login_request mu mp) b w = cbind (SelectFromTbl e (login_text (c_str u) (c_str p)) h b) k w1"
    unfolding login_run [OF assms(1,2)] login_sprintf k_def using assms(3,4) by (simp add: cbind_def)
  moreover have "keeps my_log (k x)" for x
    unfolding k_def by (intro keeps_intros keeps_back keeps_my_reply)
  then have "mylog (mysql (snd (cbind m k w1))) = mylog (mysql (snd (m w1)))" for m
    by (auto simp: cbind_def keeps_def split: prod.splits sum.splits)
  ultimately show ?thesis using SelectFromTbl_log [OF assms(5)] by (simp add: login_text_def)
qed

text \<open>
  A login that matches no account is not answered with an error: the query succeeds with an empty result,
  and the row that is not there is read through a null pointer. The model ends with undefined behaviour.
\<close>

theorem login_no_row:
  assumes "mp_string e mu = Some u" "mp_string e mp = Some p" "length (c_str u) + length (c_str p) < 153"
    and "mysql_alloc e w = (Inr (Some h), w1)" "h \<in> mylive (mysql w1)" "bufs w1 b = Some o'"
    and "\<And>n sql. my_query e n sql" "\<And>n. my_store e n = Some rs" "fst (my_fetch e rs) = None"
  shows "fst (USER_LOGIN e (login_request mu mp) b w) = Inl Undefined"
proof -
  have "\<exists>q. SelectFromTbl e sql h b w1 = (Inr (Some rs), q) \<and> bufs q b = Some o'" for sql
    using assms(5-8) by (simp add: SelectFromTbl_def mysql_real_query_def with_mysql_def mcall_def cbind_def)
  then obtain q where q: "SelectFromTbl e (login_text (c_str u) (c_str p)) h b w1 = (Inr (Some rs), q)" "bufs q b = Some o'"
    by blast
  show ?thesis
    unfolding login_run [OF assms(1,2)] login_sprintf
    using assms(3,4,9) q
    by (simp add: cbind_def mysql_back_def with_mysql_def Mysql_BackToPool_app my_reply_one_def ParserUser_def row_str_def)
qed

text \<open>A pool with one idle connection.\<close>

definition one_idle :: world where
  "one_idle = (conn0 (replicate 64 0))\<lparr>mysql := my0\<lparr>vctMysql := [5], mylive := {5}\<rparr>\<rparr>"

lemma one_idle_alloc:
  "\<exists>w1. mysql_alloc ext0 one_idle = (Inr (Some 5), w1) \<and> 5 \<in> mylive (mysql w1) \<and> mylog (mysql w1) = [] \<and> bufs w1 = bufs one_idle"
  by (simp add: mysql_alloc_def with_mysql_def Mysql_AllocConnection_def Mysql_CheckConnection_def Mysql_TakeConnection_def one_idle_def my0_def
      cbind_def mcall_def ext0_def)

theorem login_query_witness:
  "mylog (mysql (snd (USER_LOGIN ext0 (login_request (MStr ([CHR ''x'', CHR 0x27] @ '' OR 1=1 -- '')) (MStr '''')) 0 one_idle))) =
     [''SELECT '' @ USER_ITEM @ '' FROM user_tbl WHERE User='' @ [CHR 0x27] @ ([CHR ''x'', CHR 0x27] @ '' OR 1=1 -- '') @ [CHR 0x27] @
      '' AND Password='' @ [CHR 0x27] @ '''' @ [CHR 0x27]]"
proof -
  obtain w1 where "mysql_alloc ext0 one_idle = (Inr (Some 5), w1)" "5 \<in> mylive (mysql w1)" "mylog (mysql w1) = []"
    using one_idle_alloc by blast
  moreover have "c_str ([CHR ''x'', CHR 0x27] @ '' OR 1=1 -- '') = [CHR ''x'', CHR 0x27] @ '' OR 1=1 -- ''" "c_str '''' = ''''"
    by (simp_all add: c_str_def)
  ultimately show ?thesis
    using login_query [of ext0 "MStr ([CHR ''x'', CHR 0x27] @ '' OR 1=1 -- '')" "[CHR ''x'', CHR 0x27] @ '' OR 1=1 -- ''"
        "MStr ''''" "''''" one_idle 5 w1 0]
    by (simp add: ext0_def)
qed

theorem login_no_row_witness:
  "fst (USER_LOGIN ext0 (login_request (MStr ''nobody'') (MStr ''x'')) 0 one_idle) = Inl Undefined"
proof -
  obtain w1 where "mysql_alloc ext0 one_idle = (Inr (Some 5), w1)" "5 \<in> mylive (mysql w1)" "bufs w1 = bufs one_idle"
    using one_idle_alloc by blast
  then show ?thesis
    using login_no_row [of ext0 "MStr ''nobody''" "''nobody''" "MStr ''x''" "''x''" one_idle 5 w1 0 _ 0]
    by (simp add: ext0_def c_str_def one_idle_def conn0_def)
qed

end
