(* ===== verification/Values.thy ===== *)
theory Values
  imports DataParser
begin

text \<open>Properties of the packing of rows: every row is one value, and which column values arrive unchanged.\<close>

text \<open>The parsers of the record sets, one for each table the server lists through ADO.\<close>

definition ado_parsers :: "ext \<Rightarrow> (nat \<Rightarrow> fault + tok list) list" where
  "ado_parsers e = [ParserUserData e, ParserSimData e, ParserKhData e, ParserKhjlData e, ParserXsrqData e, ParserDxzhData e,
     ParserLlcData e, ParserLltcData e, ParserSsdqData e]"

text \<open>
  C27: whatever the columns of a row contain, nulls and dates included, each of the record-set parsers packs
  exactly one value: the array header announces the number of columns that follow it. The one exception are
  column types the packer does not know, for which it packs nothing.
\<close>

theorem rows_well_typed:
  assumes "rec_packable e h" "parse \<in> set (ado_parsers e) \<or> parse = ParserKhSimCount e khmc" "parse h = Inr ts"
  shows "one_value ts"
  using assms(2,3) assms(1)
  by (auto simp: ado_parsers_def one_value_def nvalues_def [symmetric] intro: row_values [simplified])

text \<open>A record whose columns hold an integer, a date and a null.\<close>

definition ext_cols :: ext where
  "ext_cols = ext0\<lparr>ado_get := (\<lambda>h c. if c = ''id'' then Some (VT_UI4 7) else Some VT_NULL)\<rparr>"

theorem rows_well_typed_witness:
  "one_value [TArr 3, TInt 7, TStr '''', TStr '''']"
proof (rule rows_well_typed)
  show "rec_packable ext_cols 0" by (simp add: rec_packable_def ext_cols_def)
  show "ParserSsdqData ext_cols \<in> set (ado_parsers ext_cols) \<or> ParserSsdqData ext_cols = ParserKhSimCount ext_cols ''''"
    by (simp add: ado_parsers_def)
  show "ParserSsdqData ext_cols 0 = Inr [TArr 3, TInt 7, TStr '''', TStr '''']"
    by (simp add: ParserSsdqData_def pack_row_def ext_cols_def pack_array_def)
qed

text \<open>
  A 64-bit column is packed through the 32-bit members of the variant: the client receives the
  stored number exactly if it fits 32 bits, and another number otherwise.
\<close>

lemma wide_integers_truncated:
  "(PackCollectDate e dt (VT_I8 x) = Inr [TInt (sint x)]) = (- (2 ^ 31) \<le> sint x \<and> sint x < 2 ^ 31) \<and>
   (PackCollectDate e dt (VT_UI8 y) = Inr [TInt (uint y)]) = (uint y < 2 ^ 32)"
proof
  have "sint (ucast x :: 32 word) = signed_take_bit 31 (sint x)"
    by (simp add: sint_uint unsigned_ucast_eq signed_take_bit_take_bit)
  then show "(PackCollectDate e dt (VT_I8 x) = Inr [TInt (sint x)]) = (- (2 ^ 31) \<le> sint x \<and> sint x < 2 ^ 31)"
    using signed_take_bit_int_eq_self_iff [of 31 "sint x"] by simp
  have "uint (ucast y :: 32 word) = take_bit 32 (uint y)"
    by (simp add: unsigned_ucast_eq)
  then show "(PackCollectDate e dt (VT_UI8 y) = Inr [TInt (uint y)]) = (uint y < 2 ^ 32)"
    using take_bit_int_eq_self_iff [of 32 "uint y"] by simp
qed

end
