(* ===== verification/Replies.thy ===== *)
theory Replies
  imports ProcessCommand Observe
begin

text \<open>
  What the handlers of the client's commands send. A reply names the command and the sub-command of the request; the two
  commands that need the telecom operator hand their request line to the connection to the operator's server instead.
  \<open>replies e cs b m\<close> is the contract of a handler \<open>m\<close> of the command and sub-command \<open>cs\<close> for the buffer \<open>b\<close>; its
  rules reduce it to operations that leave the outstanding requests and the identity of the request alone.
\<close>

named_theorems replies_intros \<open>operations that end with one reply\<close>
named_theorems steady_intros \<open>operations that leave the outstanding requests and the identity of the request alone\<close>

section \<open>The contract\<close>

definition answers :: "int \<times> int \<Rightarrow> tok list \<Rightarrow> bool" where
  "answers cs toks \<longleftrightarrow> (\<exists>n ts. toks = TArr n # TInt (fst cs) # TInt (snd cs) # ts)"

text \<open>The request line for the operator's server, as the format of its arguments.\<close>

definition request_line :: "int \<times> int \<Rightarrow> string option" where
  "request_line cs = map_of
     [((0x10, 1), DN_FORMAT ''19''), ((0x10, 2), DN_FORMAT ''20''), ((0x12, 1), PL_FORMAT ''getPoolList'' ''''),
      ((0x12, 2), PL_FORMAT ''getPoolMemberList'' ''&poolNbr=%s&currentPage=%s''), ((0x12, 3), PL_FORMAT ''poolQry'' ''&poolNbr=%s'')] cs"

text \<open>
  One operation has been posted: the frame of a reply from the first byte that has not been sent, on the client's
  socket, or the request to the operator, on a socket of its own. Nothing is posted only when the system refuses the send.
\<close>

definition outcome :: "ext \<Rightarrow> int \<times> int \<Rightarrow> nat \<Rightarrow> nat \<Rightarrow> nat \<Rightarrow> (nat \<times> ckey \<times> io_req) list \<Rightarrow> (nat \<times> ckey \<times> io_req) list \<Rightarrow> bool" where
  "outcome e cs b c k ps qs \<longleftrightarrow>
     (\<exists>toks. answers cs toks \<and> qs = ps @ [(b, KSock c, IoSend (drop k (frame_of (payload e toks))))]) \<or>
     (\<exists>fmt a n args t. request_line cs = Some fmt \<and> stprintf_s (fmt_double e) n fmt args = Inr t \<and>
        qs = ps @ [(b, KSock a, IoConnect (bytes_of (c_str t)))]) \<or>
     qs = ps \<and> (\<exists>n. \<not> os_send e n)"

text \<open>What an operation has to leave alone: the outstanding requests and, in the buffer, all that the outcome depends on.\<close>

definition link_of :: "nat \<Rightarrow> world \<Rightarrow> (nat \<times> ckey \<times> io_req) list \<times> (nat option \<times> 32 word \<times> nat) option" where
  "link_of b w = (pending w, map_option (\<lambda>o'. (pRelatedSObj o', dwSendedCount o', length (bdata o'))) (bufs w b))"

definition cmd_of :: "nat \<Rightarrow> world \<Rightarrow> (int \<times> int) option" where
  "cmd_of b w = map_option (\<lambda>o'. (nCmd o', nSubCmd o')) (bufs w b)"

definition identity :: "nat \<Rightarrow> world \<Rightarrow> ((nat \<times> ckey \<times> io_req) list \<times> (nat option \<times> 32 word \<times> nat) option) \<times> (int \<times> int) option" where
  "identity b w = (link_of b w, cmd_of b w)"

abbreviation steady :: "nat \<Rightarrow> (world, 'a) cm \<Rightarrow> bool" where
  "steady b \<equiv> keeps (identity b)"

definition served :: "ext \<Rightarrow> int \<times> int \<Rightarrow> nat \<Rightarrow> world \<Rightarrow> (fault + 'a) \<times> world \<Rightarrow> bool" where
  "served e cs b w rw \<longleftrightarrow> (case rw of
     (Inr x, w') \<Rightarrow> (case snd (link_of b w) of Some (Some c, k, n) \<Rightarrow> outcome e cs b c (unat k) (pending w) (pending w') | _ \<Rightarrow> False)
   | (Inl f, w') \<Rightarrow> is_exception f \<longrightarrow> link_of b w' = link_of b w)"

definition connected :: "nat \<Rightarrow> world \<Rightarrow> bool" where
  "connected b w \<longleftrightarrow> (\<exists>c k n. snd (link_of b w) = Some (Some c, k, n) \<and> n < 2 ^ 32)"

definition replies :: "ext \<Rightarrow> int \<times> int \<Rightarrow> nat \<Rightarrow> (world, 'a) cm \<Rightarrow> bool" where
  "replies e cs b m \<longleftrightarrow> (\<forall>w. connected b w \<and> cmd_of b w = Some cs \<longrightarrow> served e cs b w (m w))"

lemma link_pending: "link_of b w1 = link_of b w \<Longrightarrow> pending w1 = pending w"
  by (simp add: link_of_def)

lemma served_cong: "link_of b w1 = link_of b w \<Longrightarrow> served e cs b w1 rw = served e cs b w rw"
proof -
  assume l: "link_of b w1 = link_of b w"
  show ?thesis unfolding served_def l link_pending [OF l] ..
qed

lemma connected_cong: "link_of b w1 = link_of b w \<Longrightarrow> connected b w1 = connected b w"
  by (simp add: connected_def)

lemma answers_head [simp]:
  "answers (c, s) (TArr n # TInt c # TInt s # ts)" "answers (c, s) (pack_array k # TInt c # TInt s # ts)"
  unfolding answers_def pack_array_def by auto

lemma answers_append: "answers cs xs \<Longrightarrow> answers cs (xs @ ys)"
  by (auto simp: answers_def)

section \<open>Rules\<close>

lemma replies_bind [replies_intros]:
  assumes "steady b m" "\<And>x. replies e cs b (f x)" shows "replies e cs b (cbind m f)"
  unfolding replies_def
proof (intro allI impI)
  fix w assume w: "connected b w \<and> cmd_of b w = Some cs"
  obtain r w1 where m: "m w = (r, w1)" by fastforce
  then have i: "link_of b w1 = link_of b w" "cmd_of b w1 = cmd_of b w"
    using keepsD [OF assms(1) m] by (simp_all add: identity_def)
  show "served e cs b w (cbind m f w)"
  proof (cases r)
    case (Inl g)
    then show ?thesis using m i by (simp add: cbind_def served_def)
  next
    case (Inr x)
    then have "served e cs b w1 (f x w1)" using assms(2) w i connected_cong [OF i(1)] by (simp add: replies_def)
    then show ?thesis using m Inr by (simp add: cbind_def served_cong [OF i(1)])
  qed
qed

lemma replies_get_buf:
  assumes "\<And>o'. cs = (nCmd o', nSubCmd o') \<Longrightarrow> replies e cs b (f o')" shows "replies e cs b (cbind (get_buf b) f)"
  unfolding replies_def
proof (intro allI impI)
  fix w assume w: "connected b w \<and> cmd_of b w = Some cs"
  then obtain o' where o': "bufs w b = Some o'" "cs = (nCmd o', nSubCmd o')" by (auto simp: cmd_of_def)
  then show "served e cs b w (cbind (get_buf b) f w)" using assms [OF o'(2)] w by (simp add: replies_def cbind_def)
qed

lemma replies_if [replies_intros]:
  "(p \<Longrightarrow> replies e cs b m) \<Longrightarrow> (\<not> p \<Longrightarrow> replies e cs b n) \<Longrightarrow> replies e cs b (if p then m else n)"
  by simp

lemma replies_option [replies_intros]:
  "replies e cs b m \<Longrightarrow> (\<And>x. replies e cs b (f x)) \<Longrightarrow> replies e cs b (case r of None \<Rightarrow> m | Some x \<Rightarrow> f x)"
  by (cases r) simp_all

lemma replies_prod [replies_intros]:
  "(\<And>x y. replies e cs b (f x y)) \<Longrightarrow> replies e cs b (case p of (x, y) \<Rightarrow> f x y)"
  by (cases p) simp

lemma served_then: "served e cs b w (m w) \<Longrightarrow> served e cs b w (cbind m (\<lambda>_. ret x) w)"
  by (cases "m w"; cases "fst (m w)") (simp_all add: served_def cbind_def)

lemma replies_then: "replies e cs b m \<Longrightarrow> replies e cs b (cbind m (\<lambda>_. ret x))"
  by (simp add: replies_def served_then)

lemma replies_cthen [replies_intros]: "replies e cs b m \<Longrightarrow> replies e cs b (cthen m (ret x))"
  unfolding cthen_def by (rule replies_then)

lemma replies_throw: "replies e cs b (throw f)"
  by (simp add: replies_def served_def)


section \<open>The reply\<close>

lemma tail_frame_Inr: "tail_frame e (sbuf_bytes e toks) = Inr f \<Longrightarrow> f = frame_of (payload e toks)"
proof -
  assume f: "tail_frame e (sbuf_bytes e toks) = Inr f"
  let ?o = "zero_buf (length (payload e toks) + 8)"
  have sb: "length (sbuf_bytes e toks) = length (payload e toks) + 6"
    by (simp add: sbuf_bytes_def sbuf_head_def payload_def split: prod.split)
  have "reply_fits e toks ?o"
    using f sb unfolding tail_frame_def
    by (simp add: reply_fits_def Let_def zero_buf_def add.commute split: if_splits option.splits)
  from tail_frame_reply [OF this] f show ?thesis by simp
qed

lemma unat_underflow: "n < 2 ^ 32 \<Longrightarrow> n < unat (w :: 32 word) \<Longrightarrow> unat (of_nat n - w) = n + 2 ^ 32 - unat w"
  by (simp add: unat_sub_if_size unat_of_nat word_size)

lemma DealTail_outcome:
  assumes "DealTail e toks b w = (Inr x, w')" "bufs w b = Some o'" "pRelatedSObj o' = Some c" "length (bdata o') < 2 ^ 32"
  shows "pending w' = pending w @ [(b, KSock c, IoSend (drop (unat (dwSendedCount o')) (frame_of (payload e toks))))] \<or>
    pending w' = pending w \<and> (\<exists>n. \<not> os_send e n)"
proof -
  let ?f = "frame_of (payload e toks)" and ?k = "unat (dwSendedCount o')"
  let ?n = "of_nat (length ?f) - dwSendedCount o'"
  have t: "tail_frame e (sbuf_bytes e toks) = Inr ?f"
    using assms(1) tail_frame_Inr [of e toks]
    by (cases "tail_frame e (sbuf_bytes e toks)") (auto simp: DealTail_def DealTail_sbuf_def cbind_def lift_fault_def)
  have len: "length ?f \<le> length (bdata o')"
    using assms(1,2) t by (auto simp: DealTail_def DealTail_sbuf_def cbind_def lift_fault_def write_data_def split: if_splits)
  have send: "take (unat ?n) (drop ?k (?f @ drop (length ?f) (bdata o'))) = drop ?k ?f" if "?k + unat ?n \<le> length (bdata o')"
  proof -
    have k: "?k \<le> length ?f"
    proof (rule ccontr)
      assume "\<not> ?k \<le> length ?f"
      then have "unat ?n = length ?f + 2 ^ 32 - ?k"
        using assms(4) len \<open>\<not> ?k \<le> length ?f\<close> by (intro unat_underflow) simp_all
      then show False using that assms(4) \<open>\<not> ?k \<le> length ?f\<close> len unsigned_less [of "dwSendedCount o'"] by simp
    qed
    then have "unat ?n = length ?f - ?k"
      using assms(4) len unat_of_nat_sub [of "dwSendedCount o'" "length ?f"] by simp
    then show ?thesis using k by simp
  qed
  show ?thesis using assms t len send
    by (auto simp: DealTail_def DealTail_sbuf_def cbind_def lift_fault_def write_data_def related_sobj_def PostSend_def Let_def
        SetIoRequestFunction_def post_def close_and_free_def CSCloseSocket_def freeSObj_def freeBObj_def get_sobj_def of_opt_def
        upd_sobj_def buf_ReleaseRecorder_def ReleaseRes_def split: if_splits option.splits)
qed

lemma replies_DealTail [replies_intros]:
  assumes "answers cs toks" shows "replies e cs b (DealTail e toks b)"
  unfolding replies_def
proof (intro allI impI)
  fix w assume w: "connected b w \<and> cmd_of b w = Some cs"
  then obtain o' c where o': "bufs w b = Some o'" "pRelatedSObj o' = Some c" "length (bdata o') < 2 ^ 32"
    by (auto simp: connected_def link_of_def)
  obtain r w' where r: "DealTail e toks b w = (r, w')" by fastforce
  show "served e cs b w (DealTail e toks b w)"
  proof (cases r)
    case (Inl f)
    then show ?thesis using r no_exnD [OF no_exn_DealTail] by (auto simp: served_def)
  next
    case (Inr x)
    then show ?thesis using DealTail_outcome [OF r [unfolded Inr] o'] o' r assms
      by (auto simp: served_def link_of_def outcome_def)
  qed
qed

lemma replies_ErrorInfo [replies_intros]: "replies e cs b (ErrorInfo e [] b nTag)"
  unfolding ErrorInfo_def
  by (intro replies_get_buf replies_then replies_intros) (simp add: ErrorInfo_toks_def)

section \<open>Operations that send nothing\<close>

lemma steady_upd_buf [steady_intros]:
  "(\<And>o'. (pRelatedSObj (g o'), dwSendedCount (g o'), length (bdata (g o')), nCmd (g o'), nSubCmd (g o')) =
     (pRelatedSObj o', dwSendedCount o', length (bdata o'), nCmd o', nSubCmd o')) \<Longrightarrow> steady b (upd_buf b g)"
  by (auto simp: keeps_def identity_def link_of_def cmd_of_def upd_buf_def get_buf_def cbind_def of_opt_def split: option.splits)

lemma steady_base [steady_intros]:
  "steady b (ext_call h)" "steady b (with_ado m)" "steady b (with_mysql n)" "steady b (gets g)" "steady b (upd_sobj c k)"
  by (auto simp: keeps_def identity_def link_of_def cmd_of_def with_ado_def with_mysql_def upd_sobj_def get_sobj_def cbind_def of_opt_def
      split: option.splits prod.splits)

lemma steady_write_data [steady_intros]: "steady b (write_data b off bs)"
  by (auto simp: keeps_def identity_def link_of_def cmd_of_def write_data_def cbind_def get_buf_def of_opt_def upd_buf_def
      split: option.splits)

lemma steady_error_info [steady_intros]: "steady b (error_info e b fmt args)"
  unfolding error_info_def by (intro keeps_intros steady_intros)

lemma steady_catch [steady_intros]:
  assumes "steady b m" "steady b h" shows "steady b (catch m p h)"
proof -
  have "identity b (snd (catch m p h w)) = identity b w" for w
  proof (cases "m w")
    case (Pair r w1)
    then have "identity b w1 = identity b w" by (rule keepsD [OF assms(1)])
    moreover have "identity b (snd (h w1)) = identity b w1" using assms(2) by (simp add: keeps_def)
    ultimately show ?thesis using Pair by (cases r) (simp_all add: catch_def)
  qed
  then show ?thesis by (simp add: keeps_def)
qed

lemma steady_requests [steady_intros]:
  "steady b (rd_row ms)" "steady b (rd_uint e ms)" "steady b (rd_double e ms)" "steady b (mysql_alloc e)" "steady b (mysql_back h)"
  "steady b (SelectFromTbl e sql h b)" "steady b (ado_execute e sql)" "steady b (recorder b)" "steady b (ado_select e sql b)"
  unfolding rd_row_def rd_uint_def rd_double_def mysql_alloc_def mysql_back_def SelectFromTbl_def ado_execute_def recorder_def
    ado_select_def
  by (intro keeps_intros steady_intros; simp)+

lemma steady_ado_rows [steady_intros]: "steady b (ado_rows e parse b n)"
  by (induction n) (simp_all only: ado_rows.simps, (intro keeps_intros steady_requests steady_intros; simp)+)

lemma steady_my_rows [steady_intros]: "steady b (my_rows e parse n h)"
proof (induction n arbitrary: h)
  case (Suc n)
  show ?case unfolding my_rows.simps by (cases "my_fetch e h"; cases "fst (my_fetch e h)")
    (simp_all del: ret_app, (intro keeps_intros Suc)+)
qed (simp add: keeps_pure)

lemma steady_lists [steady_intros]:
  "(\<And>b. steady b mk_sql) \<Longrightarrow> steady b (my_list_query e mk_sql b)"
  unfolding my_list_query_def by (intro keeps_intros steady_intros; simp)

section \<open>Replies with rows\<close>

lemma replies_header:
  assumes "\<And>hd. answers cs hd \<Longrightarrow> replies e cs b (f hd)"
  shows "replies e cs b (cbind (InitMsgpack e b nPage nTag) f)" "replies e cs b (cbind (InitMsgpack_ado e b nPage nTag) f)"
  unfolding InitMsgpack_def InitMsgpack_ado_def cbind_assoc cbind_ret
  by (intro replies_get_buf replies_intros keeps_intros steady_intros assms; simp add: list_header_def Let_def)+

lemma replies_rows [replies_intros]:
  "replies e cs b (ado_reply_one e parse b)" "replies e cs b (my_reply_one e res b)"
  unfolding ado_reply_one_def my_reply_one_def
  by (intro replies_get_buf replies_intros keeps_intros steady_intros; simp add: one_header_def)+

lemma replies_ado_list_reply: "replies e cs b (ado_list_reply e parse nPage nTag b)"
  unfolding ado_list_reply_def
  by (intro replies_header replies_intros keeps_intros steady_intros answers_append)

lemma replies_ado_list [replies_intros]:
  "(\<And>b. steady b mk_sql) \<Longrightarrow> replies e cs b (ado_list e mk_sql parse nPage nTag b)"
  unfolding ado_list_def
  by (intro replies_ado_list_reply replies_intros keeps_intros steady_intros; simp)

lemma replies_my_list [replies_intros]:
  "(\<And>b. steady b mk_sql) \<Longrightarrow> replies e cs b (my_list e mk_sql parse nPage nTag b)"
  unfolding my_list_def my_list_reply_def cbind_assoc case_prod_unfold cbind_ret
  by (intro replies_header replies_intros keeps_intros steady_intros answers_append; simp)

section \<open>The request to the operator\<close>

text \<open>The text that \<open>data_printf\<close> has left in the buffer, and operations that leave it there.\<close>

definition content :: "nat \<Rightarrow> world \<Rightarrow> byte list option" where
  "content b w = map_option (\<lambda>o'. take (unat (dwRecvedCount o')) (bdata o')) (bufs w b)"

definition asks :: "ext \<Rightarrow> int \<times> int \<Rightarrow> nat \<Rightarrow> string \<Rightarrow> (world, 'a) cm \<Rightarrow> bool" where
  "asks e cs b t m \<longleftrightarrow> (\<forall>w. connected b w \<and> cmd_of b w = Some cs \<and> content b w = Some (bytes_of (c_str t)) \<longrightarrow>
     served e cs b w (m w))"

abbreviation still :: "nat \<Rightarrow> (world, 'a) cm \<Rightarrow> bool" where
  "still b \<equiv> keeps (\<lambda>w. (identity b w, content b w))"

lemma replies_asks: "replies e cs b m \<Longrightarrow> asks e cs b t m"
  by (simp add: replies_def asks_def)

lemma asks_bind:
  assumes "still b m" "\<And>x. asks e cs b t (f x)" shows "asks e cs b t (cbind m f)"
  unfolding asks_def
proof (intro allI impI)
  fix w assume w: "connected b w \<and> cmd_of b w = Some cs \<and> content b w = Some (bytes_of (c_str t))"
  obtain r w1 where m: "m w = (r, w1)" by fastforce
  then have i: "link_of b w1 = link_of b w" "cmd_of b w1 = cmd_of b w" "content b w1 = content b w"
    using keepsD [OF assms(1) m] by (simp_all add: identity_def)
  show "served e cs b w (cbind m f w)"
  proof (cases r)
    case (Inl g)
    then show ?thesis using m i by (simp add: cbind_def served_def)
  next
    case (Inr x)
    then have "served e cs b w1 (f x w1)" using assms(2) w i connected_cong [OF i(1)] by (simp add: asks_def)
    then show ?thesis using m Inr by (simp add: cbind_def served_cong [OF i(1)])
  qed
qed

lemma asks_get_buf:
  assumes "\<And>o'. take (unat (dwRecvedCount o')) (bdata o') = bytes_of (c_str t) \<Longrightarrow> asks e cs b t (f o')"
  shows "asks e cs b t (cbind (get_buf b) f)"
  unfolding asks_def
proof (intro allI impI)
  fix w assume w: "connected b w \<and> cmd_of b w = Some cs \<and> content b w = Some (bytes_of (c_str t))"
  then obtain o' where o': "bufs w b = Some o'" "take (unat (dwRecvedCount o')) (bdata o') = bytes_of (c_str t)"
    by (auto simp: content_def)
  then show "served e cs b w (cbind (get_buf b) f w)" using assms [OF o'(2)] w by (simp add: asks_def cbind_def)
qed

lemma asks_if: "asks e cs b t m \<Longrightarrow> asks e cs b t n \<Longrightarrow> asks e cs b t (if p then m else n)"
  by simp

lemma asks_option: "asks e cs b t m \<Longrightarrow> (\<And>x. asks e cs b t (f x)) \<Longrightarrow>
    asks e cs b t (case r of None \<Rightarrow> m | Some x \<Rightarrow> f x)"
  by (cases r) simp_all

lemma asks_post:
  assumes "request_line cs = Some fmt" "stprintf_s (fmt_double e) n fmt args = Inr t" "d = bytes_of (c_str t)"
  shows "asks e cs b t (cbind (post b (KSock a) (IoConnect d)) (\<lambda>_. ret True))"
  unfolding asks_def
proof (intro allI impI)
  fix w assume w: "connected b w \<and> cmd_of b w = Some cs \<and> content b w = Some (bytes_of (c_str t))"
  have "outcome e cs b c k ps (ps @ [(b, KSock a, IoConnect d)])" for c k ps
    unfolding outcome_def using assms by blast
  then show "served e cs b w (cbind (post b (KSock a) (IoConnect d)) (\<lambda>_. ret True) w)"
    using w by (auto simp: served_def connected_def cbind_def post_def)
qed

text \<open>The operations on the operator's socket leave the buffers and the outstanding requests alone.\<close>

lemma still_of:
  assumes "\<And>w r w'. m w = (r, w') \<Longrightarrow> bufs w' = bufs w \<and> pending w' = pending w" shows "still b m"
proof -
  have "bufs (snd (m w)) = bufs w \<and> pending (snd (m w)) = pending w" for w using assms [of w] by (cases "m w") simp
  then show ?thesis by (simp add: keeps_def identity_def link_of_def cmd_of_def content_def)
qed

lemma still_api [steady_intros]:
  "still b (ext_call h)" "still b (upd_sobj c k)" "still b (allocSObj e)" "still b (GetRand e)" "still b (InsertConn a)"
  "still b (RemoveConn a)" "still b (free_api a)"
  by (rule still_of, auto simp: allocSObj_def take_SObj_def GetRand_def InsertConn_def RemoveConn_def free_api_def CSCloseSocket_def
      freeSObj_def upd_sobj_def get_sobj_def of_opt_def cbind_def split: if_splits option.splits sum.splits prod.splits)+

lemma still_set_fn [steady_intros]: "still b (upd_buf b (SetIoRequestFunction f))"
  by (auto simp: keeps_def identity_def link_of_def cmd_of_def content_def upd_buf_def get_buf_def cbind_def of_opt_def
      SetIoRequestFunction_def split: option.splits)

lemma replies_API_Failed [replies_intros]: "replies e cs b (API_Failed e b)"
  unfolding API_Failed_def by (intro replies_get_buf replies_intros) simp

lemma asks_doApi:
  assumes "request_line cs = Some fmt" "stprintf_s (fmt_double e) n fmt args = Inr t"
  shows "asks e cs b t (doApi e b)"
  unfolding doApi_def doApi_some_def doApi_connect_def doApi_error_def
  by (intro asks_get_buf asks_post [OF assms] asks_bind asks_if asks_option steady_intros
      replies_asks [OF replies_cthen [OF replies_API_Failed]] replies_asks [OF replies_throw])

lemma take_c_str: "take (length (c_str t)) (bytes_of t @ xs) = bytes_of (c_str t)"
proof -
  have "take (length (c_str t)) t = c_str t" unfolding c_str_def by (rule takeWhile_eq_take [symmetric])
  moreover have "length (c_str t) \<le> length t" by (simp add: c_str_def length_takeWhile_le)
  ultimately show ?thesis by (simp add: bytes_of_def take_map)
qed

lemma data_printf_run:
  assumes "data_printf e b fmt args w = (r, w1)" "connected b w"
  shows "identity b w1 = identity b w" "r = Inr x \<Longrightarrow> \<exists>n t. stprintf_s (fmt_double e) n fmt args = Inr t \<and>
    content b w1 = Some (bytes_of (c_str t))"
proof -
  have "steady b (data_printf e b fmt args)"
    unfolding data_printf_def by (intro keeps_intros steady_intros) simp
  then show "identity b w1 = identity b w" using assms(1) by (rule keepsD)
next
  assume r: "r = Inr x"
  obtain o' where o': "bufs w b = Some o'" "length (bdata o') < 2 ^ 32"
    using assms(2) by (auto simp: connected_def link_of_def)
  obtain t where t: "stprintf_s (fmt_double e) (nat (datalen o')) fmt args = Inr t"
    using assms(1) r o' by (cases "stprintf_s (fmt_double e) (nat (datalen o')) fmt args")
      (auto simp: data_printf_def cbind_def lift_fault_def)
  then have f: "length t < length (bdata o')" and w1: "w1 = w\<lparr>bufs := (bufs w)(b \<mapsto> o'\<lparr>bdata := bytes_of t @ 0 # drop (Suc (length t)) (bdata o'),
      dwRecvedCount := of_nat (length (c_str t))\<rparr>)\<rparr>"
    using assms(1) r o' by (auto simp: data_printf_def cbind_def lift_fault_def write_data_def split: if_splits)
  have "length (c_str t) \<le> length t" by (simp add: c_str_def length_takeWhile_le)
  then have "unat (of_nat (length (c_str t)) :: 32 word) = length (c_str t)" using f o'(2) by (simp add: unat_of_nat)
  then have "content b w1 = Some (bytes_of (c_str t))" unfolding w1 by (simp add: content_def take_c_str del: take_append)
  then show "\<exists>n t. stprintf_s (fmt_double e) n fmt args = Inr t \<and> content b w1 = Some (bytes_of (c_str t))" using t by blast
qed

lemma replies_data_printf:
  assumes "\<And>n t. stprintf_s (fmt_double e) n fmt args = Inr t \<Longrightarrow> asks e cs b t (f ())"
  shows "replies e cs b (cbind (data_printf e b fmt args) f)"
  unfolding replies_def
proof (intro allI impI)
  fix w assume w: "connected b w \<and> cmd_of b w = Some cs"
  obtain r w1 where m: "data_printf e b fmt args w = (r, w1)" by fastforce
  note run = data_printf_run [OF m]
  have i: "link_of b w1 = link_of b w" "cmd_of b w1 = cmd_of b w" using run(1) w by (simp_all add: identity_def)
  show "served e cs b w (cbind (data_printf e b fmt args) f w)"
  proof (cases r)
    case (Inl g)
    then show ?thesis using m i by (simp add: cbind_def served_def)
  next
    case (Inr x)
    then obtain n t where "stprintf_s (fmt_double e) n fmt args = Inr t" "content b w1 = Some (bytes_of (c_str t))"
      using run(2) w by blast
    then have "served e cs b w1 (f () w1)" using assms w i connected_cong [OF i(1)] by (simp add: asks_def)
    then show ?thesis using m Inr by (simp add: cbind_def served_cong [OF i(1)])
  qed
qed

lemma steady_api [steady_intros]:
  "steady b (collect e b name)" "steady b (bstr e v)" "steady b (substr3 s pos)" "steady b (substrings key)"
  "steady b (des e what args)" "steady b (des_open e)" "steady b (account e pSql dxzh b)" "steady b (rd_number e ms b)"
  unfolding collect_def bstr_def substr3_def substrings_def des_def des_open_def account_def rd_number_def
  by (intro keeps_intros steady_intros; simp)+

lemma asks_then: "asks e cs b t m \<Longrightarrow> asks e cs b t (cthen m (ret x))"
  by (simp add: asks_def cthen_def served_then)

lemma replies_api_command:
  assumes "request_line cs = Some pData" "\<And>acc userid. steady b (sign acc userid)"
  shows "replies e cs b (api_command e pSql dxzh pData sign request b)"
  unfolding api_command_def
  by (intro replies_data_printf asks_then [OF asks_doApi [OF assms(1)]] replies_intros keeps_intros steady_intros assms(2))

section \<open>The handlers\<close>

lemma replies_user: "replies e cs b (USER_ADD e ms b)" "replies e cs b (USER_LOGIN e ms b)" "replies e cs b (USER_LIST e ms b)"
  unfolding USER_ADD_def USER_LOGIN_def USER_LIST_def USER_LIST_sql_def
  by (intro replies_intros keeps_intros steady_intros; simp)+

lemma replies_sim: "replies e cs b (SIM_ADD e ms b)" "replies e cs b (SIM_JRHM e ms b)"
  unfolding SIM_ADD_def SIM_JRHM_def by (intro replies_intros keeps_intros steady_intros)+

lemma replies_kh:
  "replies e cs b (KH_ADD e ms b)" "replies e cs b (KH_COUNT e ms b)" "replies e cs b (KH_QUERY e ms b)"
  "replies e cs b (KH_LIST e ms b)" "replies e cs b (KH_SIM_LIST e ms b)" "replies e cs b (KH_SIM_XSRQ e ms b)"
  "replies e cs b (KH_SIM_USING e ms b)" "replies e cs b (KH_SIM_U15D e ms b)" "replies e cs b (KH_SIM_U1M e ms b)"
  "replies e cs b (KH_SIM_D1M e ms b)" "replies e cs b (KH_SIM_D15D e ms b)"
  unfolding KH_ADD_def KH_COUNT_def KH_QUERY_def KH_LIST_def KH_SIM_LIST_def KH_SIM_XSRQ_def KH_SIM_USING_def KH_SIM_U15D_def
    KH_SIM_U1M_def KH_SIM_D1M_def KH_SIM_D15D_def KH_LIST_sql_def
  by (intro replies_intros keeps_intros steady_intros; simp)+

lemma replies_khjl:
  "replies e cs b (KHJL_ADD e ms b)" "replies e cs b (KHJL_KH e ms b)" "replies e cs b (KHJL_QUERY e ms b)"
  "replies e cs b (KHJL_LIST e ms b)" "replies e cs b (KHJL_SIM_XSRQ e ms b)"
  unfolding KHJL_ADD_def KHJL_KH_def KHJL_QUERY_def KHJL_LIST_def KHJL_SIM_XSRQ_def
  by (intro replies_intros keeps_intros steady_intros; simp)+

lemma replies_tables:
  "replies e cs b (LLC_ADD e ms b)" "replies e cs b (LLC_LIST e ms b)" "replies e cs b (LLTC_ADD e ms b)"
  "replies e cs b (LLTC_LIST e ms b)" "replies e cs b (DXZH_ADD e ms b)" "replies e cs b (DXZH_LIST e ms b)"
  "replies e cs b (SSDQ_ADD e ms b)" "replies e cs b (SSDQ_LIST e ms b)"
  unfolding LLC_ADD_def LLC_LIST_def LLTC_ADD_def LLTC_LIST_def DXZH_ADD_def DXZH_LIST_def SSDQ_ADD_def SSDQ_LIST_def
  by (intro replies_intros keeps_intros steady_intros; simp)+

lemma replies_excel_reply [replies_intros]: "replies e cs b (excel_reply e b nTag code)"
  unfolding excel_reply_def by (intro replies_get_buf replies_intros) simp

lemma steady_excel [steady_intros]: "steady b (excel_trans e what)" "steady b (excel_exec e sql)"
  unfolding excel_trans_def excel_exec_def by (intro steady_base)+

lemma steady_excel_rows: "(\<And>d. steady b (step d)) \<Longrightarrow> steady b (excel_rows e step ms)"
proof (induction ms)
  case (Cons m ms)
  show ?case unfolding excel_rows.simps by (intro keeps_intros steady_intros Cons)
qed (simp add: keeps_pure del: ret_app)

lemma steady_excel_body [steady_intros]: "(\<And>d. steady b (step d)) \<Longrightarrow> steady b (excel_body e step rows c)"
  unfolding excel_body_def by (intro keeps_intros steady_intros steady_excel_rows)

lemma keeps_steps [keeps_intros]:
  "keeps f (EXCEL_SIM_step e x y d)" "keeps f (EXCEL_XSQD_step e d)" "keeps f (EXCEL_ZTXX_step e d)"
  "keeps f (EXCEL_XFQD_step e d)" "keeps f (EXCEL_TKQD_step e d)" "keeps f (EXCEL_ZXQD_step e d)"
  unfolding EXCEL_SIM_step_def EXCEL_XSQD_step_def EXCEL_ZTXX_step_def EXCEL_XFQD_step_def EXCEL_TKQD_step_def
    EXCEL_ZXQD_step_def
  by (intro keeps_intros)+

lemma replies_excel:
  "replies e cs b (EXCEL_SIM e b nTag ms)" "replies e cs b (EXCEL_XSQD e b nTag ms)" "replies e cs b (EXCEL_ZTXX e b nTag ms)"
  "replies e cs b (EXCEL_XFQD e b nTag ms)" "replies e cs b (EXCEL_TKQD e b nTag ms)" "replies e cs b (EXCEL_ZXQD e b nTag ms)"
  unfolding EXCEL_SIM_def EXCEL_XSQD_def EXCEL_ZTXX_def EXCEL_XFQD_def EXCEL_TKQD_def EXCEL_ZXQD_def excel_import_def
    case_prod_unfold cbind_assoc cbind_ret fst_conv snd_conv
  by (intro replies_intros keeps_intros steady_intros)+

lemma replies_numbers:
  "replies e (0x10, 1) b (DoDisNumData e ms b (DN_FORMAT ''19'') t)" "replies e (0x10, 2) b (DoDisNumData e ms b (DN_FORMAT ''20'') t)"
  "replies e (0x12, 1) b (PL_GET_LIST e ms b)" "replies e (0x12, 2) b (PL_LLC_INFO e ms b)" "replies e (0x12, 3) b (PL_LLC_POOLQRY e ms b)"
  unfolding DoDisNumData_def PL_GET_LIST_def PL_LLC_INFO_def PL_LLC_POOLQRY_def
  by (intro replies_api_command replies_intros keeps_intros steady_intros; simp add: request_line_def)+

section \<open>The dispatcher\<close>

text \<open>The handlers after they have read the sub-command \<open>s\<close>.\<close>

lemma sub_cmd_served:
  assumes "1 < length args" "mp_int e (args ! 1) = Some s" "\<And>ms. replies e (k, s) b (f (s, ms))"
    and "connected b w" "map_option fst (cmd_of b w) = Some k"
  shows "served e (k, s) b w (cbind (sub_cmd e args b) f w)"
proof -
  obtain o' where o': "bufs w b = Some o'" "nCmd o' = k" using assms(5) by (auto simp: cmd_of_def)
  let ?w = "w\<lparr>bufs := (bufs w)(b \<mapsto> o'\<lparr>nSubCmd := s\<rparr>)\<rparr>"
  have "drop 1 args = args ! 1 # drop 2 args"
    using assms(1) Cons_nth_drop_Suc [of 1 args] by (simp add: numeral_2_eq_2)
  then have "cbind (sub_cmd e args b) f w = f (s, drop 2 args) ?w"
    using assms(2) o' by (simp add: sub_cmd_def rd_int_def rd_def cbind_def)
  moreover have l: "link_of b ?w = link_of b w" "cmd_of b ?w = Some (k, s)" using o' by (simp_all add: link_of_def cmd_of_def)
  then have "served e (k, s) b ?w (f (s, drop 2 args) ?w)"
    using assms(3) [of "drop 2 args"] assms(4) connected_cong [OF l(1)] by (simp add: replies_def)
  ultimately show ?thesis by (simp add: served_cong [OF l(1)])
qed

lemma two_served:
  assumes "1 < length args" "mp_int e (args ! 1) = Some s" "\<And>ms. replies e (k, s) b (f (s, ms))"
    and "connected b w" "map_option fst (cmd_of b w) = Some k"
  shows "served e (k, s) b w (cbind (rd_two e args b) f w)"
  unfolding rd_two_def case_prod_unfold cbind_assoc cbind_ret
  by (rule sub_cmd_served [OF assms(1,2) _ assms(4,5)]; simp) (intro replies_bind keeps_intros steady_intros assms(3), simp)

lemma answered_cases:
  assumes "answered k s"
  obtains "k = 1" "s \<in> {1, 2, 3}" | "k = 2" "s \<in> {1, 3}" | "k = 3" "s \<in> {1, 2, 3, 4, 5, 6, 7, 8, 9, 10, 11}"
    | "k = 4" "s \<in> {1, 2, 3, 4, 5}" | "k = 5" "s \<in> {1, 2}" | "k = 6" "s \<in> {1, 2}" | "k = 7" "s \<in> {1, 2}"
    | "k = 9" "s \<in> {1, 2}" | "k = 8" "s \<in> {1, 2, 3, 4, 5, 6}" | "k = 0x10" "s \<in> {1, 2}" | "k = 0x12" "s \<in> {1, 2, 3}"
proof -
  consider "k = 1" "s \<in> {1, 2, 3}" | "k = 2" "s \<in> {1, 3}" | "k = 3" "1 \<le> s" "s \<le> 11"
    | "k = 4" "1 \<le> s" "s \<le> 5" | "k = 5" "s \<in> {1, 2}" | "k = 6" "s \<in> {1, 2}" | "k = 7" "s \<in> {1, 2}"
    | "k = 9" "s \<in> {1, 2}" | "k = 8" "1 \<le> s" "s \<le> 6" | "k = 0x10" "s \<in> {1, 2}" | "k = 0x12" "1 \<le> s" "s \<le> 3"
    using assms by (auto simp: answered_def)
  then show thesis
  proof cases
    case 3
    then have "s \<in> {1, 2, 3, 4, 5, 6, 7, 8, 9, 10, 11}" by (simp, presburger)
    with 3(1) show thesis by (rule that(3))
  next
    case 4
    then have "s \<in> {1, 2, 3, 4, 5}" by (simp, presburger)
    with 4(1) show thesis by (rule that(4))
  next
    case 9
    then have "s \<in> {1, 2, 3, 4, 5, 6}" by (simp, presburger)
    with 9(1) show thesis by (rule that(9))
  next
    case 11
    then have "s \<in> {1, 2, 3}" by (simp, presburger)
    with 11(1) show thesis by (rule that(11))
  qed (erule (1) that)+
qed

lemma dispatch_served:
  assumes "1 < length args" "mp_int e (args ! 1) = Some s" "answered k s"
    and "connected b w" "map_option fst (cmd_of b w) = Some k"
  shows "served e (k, s) b w (dispatch e k args b w)"
proof -
  from assms(3) show ?thesis
  proof (cases rule: answered_cases)
    case 1
    then show ?thesis using assms(1,2,4,5) unfolding dispatch_def doUserData_def by (auto intro!: sub_cmd_served replies_user)
  next
    case 2
    then show ?thesis using assms(1,2,4,5) unfolding dispatch_def doSimData_def by (auto intro!: sub_cmd_served replies_sim)
  next
    case 3
    then show ?thesis using assms(1,2,4,5) unfolding dispatch_def doKhData_def by (auto intro!: sub_cmd_served replies_kh)
  next
    case 4
    then show ?thesis using assms(1,2,4,5) unfolding dispatch_def doKhjlData_def by (auto intro!: sub_cmd_served replies_khjl)
  next
    case 5
    then show ?thesis using assms(1,2,4,5) unfolding dispatch_def doLlcData_def by (auto intro!: sub_cmd_served replies_tables)
  next
    case 6
    then show ?thesis using assms(1,2,4,5) unfolding dispatch_def doLltcData_def by (auto intro!: sub_cmd_served replies_tables)
  next
    case 7
    then show ?thesis using assms(1,2,4,5) unfolding dispatch_def doDxzhData_def by (auto intro!: sub_cmd_served replies_tables)
  next
    case 8
    then show ?thesis using assms(1,2,4,5) unfolding dispatch_def doSsdqData_def by (auto intro!: sub_cmd_served replies_tables)
  next
    case 9
    then show ?thesis using assms(1,2,4,5) unfolding dispatch_def doExcelLoad_def
      by (auto intro!: sub_cmd_served replies_excel replies_bind replies_prod keeps_rd)
  next
    case 10
    then show ?thesis using assms(1,2,4,5) unfolding dispatch_def doDisabledNumber_def
      by (auto intro!: two_served replies_numbers replies_cthen replies_bind steady_upd_buf)
  next
    case 11
    then show ?thesis using assms(1,2,4,5) unfolding dispatch_def doGetPoolList_def
      by (auto intro!: two_served replies_numbers replies_cthen)
  qed
qed

text \<open>The command and sub-command of a reply to the request in the buffer \<open>o'\<close>: those of the request, or \<open>bb, bb\<close>.\<close>

definition names :: "ext \<Rightarrow> buf \<Rightarrow> int \<times> int \<Rightarrow> bool" where
  "names e o' cs \<longleftrightarrow> cs = (0xbb, 0xbb) \<or>
     (\<exists>m x ms. request_of e o' = Some (m # x # ms) \<and> mp_int e m = Some (fst cs) \<and> mp_int e x = Some (snd cs))"

lemma served_Inl: "(is_exception f \<longrightarrow> link_of b w' = link_of b w) \<Longrightarrow> served e cs b w (Inl f, w')"
  by (simp add: served_def)

lemma error_reply_served:
  assumes "connected b w" shows "served e (0xbb, 0xbb) b w (error_reply e b w)"
proof -
  obtain o' where o': "bufs w b = Some o'" using assms by (auto simp: connected_def link_of_def)
  let ?w = "w\<lparr>bufs := (bufs w)(b \<mapsto> o'\<lparr>nCmd := 0xbb, nSubCmd := 0xbb\<rparr>)\<rparr>"
  have l: "link_of b ?w = link_of b w" "cmd_of b ?w = Some (0xbb, 0xbb)" using o' by (simp_all add: link_of_def cmd_of_def)
  have "replies e (0xbb, 0xbb) b (cthen (DealTail e [pack_array 3, TInt 0xbb, TInt 0xbb, TInt 0] b) (ret False))"
    by (intro replies_intros) simp
  then have "served e (0xbb, 0xbb) b ?w (cthen (DealTail e [pack_array 3, TInt 0xbb, TInt 0xbb, TInt 0] b) (ret False) ?w)"
    using assms l connected_cong [OF l(1)] by (simp add: replies_def)
  then show ?thesis using o' by (simp add: error_reply_def cbind_def served_cong [OF l(1)])
qed

lemma short_dispatch:
  assumes "length args \<le> 1 \<or> mp_int e (args ! 1) = None" "k \<in> set commands"
  shows "\<exists>f. dispatch e k args b = throw f"
proof -
  note unfold = doUserData_def doSimData_def doKhData_def doKhjlData_def doLlcData_def doLltcData_def
    doDxzhData_def doExcelLoad_def doSsdqData_def doDisabledNumber_def doGetPoolList_def rd_two_def
  have "\<exists>g. dispatch e k args b = cbind (sub_cmd e args b) g"
    using assms(2) by (auto simp: commands_def dispatch_def unfold cbind_assoc)
  moreover have "sub_cmd e args b = throw Undefined \<or> sub_cmd e args b = throw TypeError"
    using assms(1) unfolding sub_cmd_def by (cases args; cases "tl args") (auto simp: rd_int_def rd_def)
  ultimately show ?thesis by auto
qed

lemma run_served:
  assumes "request_of e o' = Some args" "\<not> no_reply e o'" "bufs w b = Some o'" "connected b w"
  shows "\<exists>cs. names e o' cs \<and> served e cs b w (run_command e args b w)"
proof (cases args rule: rd_int_cases [where e = e])
  case (3 m ms k)
  let ?w = "w\<lparr>bufs := (bufs w)(b \<mapsto> o'\<lparr>nCmd := k\<rparr>)\<rparr>"
  have l: "link_of b ?w = link_of b w" "map_option fst (cmd_of b ?w) = Some k"
    using assms(3) by (simp_all add: link_of_def cmd_of_def)
  have run: "run_command e args b w = dispatch e k args b ?w"
    using assms(3) unfolding run_command_def 3(3) by (simp add: cbind_def)
  show ?thesis
  proof (cases "length args \<le> 1 \<or> mp_int e (args ! 1) = None")
    case True
    then obtain f where "dispatch e k args b = throw f"
      using short_dispatch [OF True, of k] assms(1,2) 3(1,2) by (auto simp: no_reply_def)
    then show ?thesis unfolding run by (intro exI [of _ "(0xbb, 0xbb)"]) (simp add: names_def served_def l)
  next
    case False
    then obtain x r s where x: "ms = x # r" "mp_int e x = Some s" using 3(1) by (cases ms) auto
    then have "answered k s" using assms(1,2) 3(1,2) by (simp add: no_reply_def)
    then have "served e (k, s) b ?w (dispatch e k args b ?w)"
      using x 3(1) assms(4) l connected_cong [OF l(1)] by (intro dispatch_served) simp_all
    then show ?thesis unfolding run using assms(1) 3(1,2) x
      by (intro exI [of _ "(k, s)"]) (simp add: names_def served_cong [OF l(1)])
  qed
qed (auto simp: run_command_def names_def served_def)

lemma ProcessCommand_served:
  assumes "\<not> no_reply e o'" "bufs w b = Some o'" "connected b w"
  shows "\<exists>cs. names e o' cs \<and> served e cs b w (ProcessCommand e b w)"
proof -
  obtain ra w1 where ra: "request_args e b w = (ra, w1)" by fastforce
  then have w1: "w1 = w" "\<And>x. ra = Inr x \<Longrightarrow> x = request_of e o'" using request_args_run [OF ra assms(2)] by auto
  have bb: "names e o' (0xbb, 0xbb)" by (simp add: names_def)
  have "\<exists>cs. names e o' cs \<and> (try_command e b w = (Inr False, w) \<or> fst (try_command e b w) \<noteq> Inr False \<and>
      served e cs b w (try_command e b w))"
  proof (cases ra)
    case (Inl f)
    then show ?thesis using ra w1 bb by (intro exI conjI) (simp_all add: try_command_def cbind_def served_def)
  next
    case (Inr x)
    then have x: "x = request_of e o'" by (rule w1(2))
    show ?thesis
    proof (cases x)
      case None
      then show ?thesis using ra w1 Inr bb by (intro exI conjI disjI1) (simp_all add: try_command_def cbind_def)
    next
      case (Some args)
      obtain cs where cs: "names e o' cs" "served e cs b w (run_command e args b w)"
        using run_served [OF _ assms] x Some by metis
      have "ra = Inr (Some args)" using Inr Some by simp
      then have "try_command e b w = cbind (run_command e args b) (\<lambda>_. ret True) w"
        using ra w1(1) by (simp add: try_command_def cbind_def cthen_def)
      then show ?thesis using cs served_then [of e cs b w "run_command e args b" True]
        by (intro exI [of _ cs]) (auto simp: cbind_def split: prod.splits sum.splits)
    qed
  qed
  then obtain cs where cs: "names e o' cs" "try_command e b w = (Inr False, w) \<or> fst (try_command e b w) \<noteq> Inr False \<and>
      served e cs b w (try_command e b w)" by blast
  obtain r w2 where r: "try_command e b w = (r, w2)" by fastforce
  have err: "served e (0xbb, 0xbb) b w (error_reply e b w2)" if "link_of b w2 = link_of b w"
    using error_reply_served [of b w2] that assms(3) connected_cong [OF that] served_cong [OF that] by blast
  consider "r = Inr True" | "r = Inr False" | f where "r = Inl f" "is_exception f" | f where "r = Inl f" "\<not> is_exception f"
    by (cases r) auto
  then show ?thesis
  proof cases
    case 1
    then show ?thesis using cs r by (intro exI [of _ cs]) (simp add: ProcessCommand_def cbind_def catch_def served_def)
  next
    case 2
    then have "w2 = w" using cs r by auto
    then show ?thesis using 2 r err bb by (intro exI [of _ "(0xbb, 0xbb)"]) (simp add: ProcessCommand_def cbind_def catch_def)
  next
    case 3
    then have "link_of b w2 = link_of b w" using cs r by (auto simp: served_def)
    then show ?thesis using 3 r err bb by (intro exI [of _ "(0xbb, 0xbb)"]) (simp add: ProcessCommand_def cbind_def catch_def)
  next
    case 4
    then show ?thesis using r bb by (intro exI [of _ "(0xbb, 0xbb)"]) (simp add: ProcessCommand_def cbind_def catch_def served_def)
  qed
qed

end
