(* ===== verification/Import.thy ===== *)
theory Import
  imports Replies
begin

text \<open>
  The spreadsheet import as a transaction: the statement that each command makes of a row, as a table of column kinds and
  arguments, and the sequence of statements that reaches the database.
\<close>

section \<open>The statements of a request\<close>










section \<open>The run of an import\<close>























end
