(* ===== verification/Service.thy ===== *)
theory Service
  imports Server Replies
begin

text \<open>
  What the server does with a request, from the frame in the buffer of a connection to the reply that is handed to
  the system: every command of the protocol is answered or its connection is released, a request the dispatcher does
  not know is dropped without either.
\<close>

section \<open>A connection for the worked examples\<close>

lemma own_conn0: "own 0 1 {} {} (conn0 d)"
  by (auto simp: own_def winv_def parts_def conn0_def world0_def)

lemma conn0_buf: "bufs (conn0 d) 0 = Some ((zero_buf 0)\<lparr>pRelatedSObj := Some 1, datalen := int (length d), bdata := d\<rparr>)"
  by (simp add: conn0_def)

section \<open>No exception leaves the dispatcher\<close>

lemma no_exn_error_reply: "no_exn (error_reply e b)"
  unfolding error_reply_def cthen_def by (intro no_exn_intros)

lemma no_exn_ProcessCommand: "no_exn (ProcessCommand e b)"
proof -
  have "no_exn (catch m is_exception (ret False))" for m :: "(world, bool) cm"
    by (auto simp: no_exn_def catch_def split: sum.splits prod.splits)
  then show ?thesis
    unfolding ProcessCommand_def by (intro no_exn_intros no_exn_error_reply)
qed

section \<open>Every known command is settled\<close>

text \<open>The buffer is in the hands of the system, in the pool, or released; the second part is a buffer that was given back.\<close>

definition disposed :: "nat \<Rightarrow> world \<Rightarrow> bool" where
  "disposed b w \<longleftrightarrow> b \<in> fst ` set (pending w) \<or> b \<in> set (vctBObj w) \<or> bufs w b = None"

definition given_back :: "nat \<Rightarrow> world \<Rightarrow> bool" where
  "given_back b w \<longleftrightarrow> b \<in> set (vctBObj w) \<or> bufs w b = None"

lemma winv_disposed: "winv B S w \<Longrightarrow> b \<notin> B \<Longrightarrow> disposed b w"
  by (auto simp: winv_def parts_def disposed_def)

lemma own_not_disposed: "own b c B S w \<Longrightarrow> \<not> disposed b w"
  by (auto simp: own_def winv_def parts_def disposed_def)

text \<open>
  C2: a request with a command and sub-command of the protocol, a malformed request and a payload that is
  no request at all are settled: when \<open>ProcessCommand\<close> returns, exactly one operation has been posted for the buffer.
  It is the send, on the client's socket and from the first byte that is not sent yet, of the complete frame of a reply that names
  the command and sub-command of the request, or \<open>bb\<close> and \<open>bb\<close> for an error; or, for the commands \<open>10\<close> and \<open>12\<close> only, the
  connection to the operator with the request line of that sub-command. Only if the system refuses a send is nothing posted,
  and then the connection has been released. Every object still has exactly one owner, and no C++ exception
  leaves the function, as long as memory suffices and a record set that is released can be closed. The only requests excluded
  are those the dispatcher drops and the SIM list.
\<close>

theorem request_settled:
  assumes "own b c B S w" "bufs w b = Some o'" "length (bdata o') < 2 ^ 32" "\<not> no_reply e o'"
  shows "case ProcessCommand e b w of
      (Inr ok, w') \<Rightarrow> winv B S w' \<and> (pending w' = pending w \<longrightarrow> given_back b w') \<and>
        (\<exists>cs. names e o' cs \<and> outcome e cs b c (unat (dwSendedCount o')) (pending w) (pending w'))
    | (Inl f, w') \<Rightarrow> \<not> is_exception f"
proof -
  have o: "pRelatedSObj o' = Some c" "b \<notin> B" "b \<notin> fst ` set (pending w)"
    using assms(1,2) own_not_disposed [OF assms(1)] by (auto simp: own_def disposed_def)
  have "connected b w" using assms(2,3) o(1) by (simp add: connected_def link_of_def)
  then obtain cs where cs: "names e o' cs" "served e cs b w (ProcessCommand e b w)"
    using ProcessCommand_served [OF assms(4,2)] by blast
  have inv: "case ProcessCommand e b w of (Inl f, w') \<Rightarrow> exn (own b c B S) f w' | (Inr ok, w') \<Rightarrow> winv B S w'"
    using ProcessCommand_settles [OF assms(4), of b c B S] assms(1,2) by (simp add: hoare_def)
  obtain r w' where r: "ProcessCommand e b w = (r, w')" by fastforce
  show ?thesis
  proof (cases r)
    case (Inl f)
    then show ?thesis using r no_exnD [OF no_exn_ProcessCommand] by auto
  next
    case (Inr ok)
    then have w': "winv B S w'" using inv r by simp
    have "pending w' = pending w \<Longrightarrow> given_back b w'"
      using winv_disposed [OF w' o(2)] o(3) by (auto simp: disposed_def given_back_def)
    moreover have "outcome e cs b c (unat (dwSendedCount o')) (pending w) (pending w')"
      using cs(2) r Inr assms(2) o(1) by (simp add: served_def link_of_def)
    ultimately show ?thesis using r Inr w' cs(1) by (cases cs) auto
  qed
qed

theorem request_settled_witness:
  "\<exists>w' cs. ProcessCommand ext0 0 (conn0 (replicate 64 0)) = (Inr False, w') \<and> winv {} {} w' \<and>
     outcome ext0 cs 0 1 0 [] (pending w') \<and> w' \<noteq> conn0 (replicate 64 0)"
proof -
  let ?w = "conn0 (replicate 64 0)" and ?o = "(zero_buf 0)\<lparr>pRelatedSObj := Some 1, datalen := 64, bdata := replicate 64 0\<rparr>"
  let ?toks = "[TArr 3, TInt 0xbb, TInt 0xbb, TInt 0]" and ?o2 = "?o\<lparr>nCmd := 0xbb, nSubCmd := 0xbb\<rparr>"
  let ?w2 = "?w\<lparr>bufs := (bufs ?w)(0 \<mapsto> ?o2)\<rparr>"
  have o: "bufs ?w 0 = Some ?o" by (simp add: conn0_def)
  have "\<exists>w'. DealTail ext0 ?toks 0 ?w2 = (Inr (), w') \<and>
      pending w' = pending ?w2 @ [(0, KSock 1, IoSend (drop (unat (dwSendedCount ?o2)) (frame_of (payload ext0 ?toks))))] \<and>
      vctBObj w' = vctBObj ?w2 \<and> vctSObj w' = vctSObj ?w2 \<and> socks w' = socks ?w2"
    by (rule DealTail_posts [where s = "zero_sobj\<lparr>sock := Some 7, pRelatedBObj := Some 0\<rparr>"])
      (simp_all add: conn0_def reply_fits_def payload_def ext0_def PDATA_SIZE_def zero_buf_def)
  then obtain w' where w': "DealTail ext0 ?toks 0 ?w2 = (Inr (), w')" "length (pending w') = 1"
    by (auto simp: conn0_def world0_def)
  have "catch (try_command ext0 0) is_exception (ret False) ?w = (Inr False, ?w)"
    using o by (simp add: catch_def try_command_def request_args_def cbind_def ext0_def zero_buf_def)
  then have run: "ProcessCommand ext0 0 ?w = (Inr False, w')"
    using w'(1) o by (simp add: ProcessCommand_def cbind_def error_reply_def cthen_def)
  have "case ProcessCommand ext0 0 ?w of
      (Inr ok, w') \<Rightarrow> winv {} {} w' \<and> (pending w' = pending ?w \<longrightarrow> given_back 0 w') \<and>
        (\<exists>cs. names ext0 ?o cs \<and> outcome ext0 cs 0 1 (unat (dwSendedCount ?o)) (pending ?w) (pending w'))
    | (Inl f, w') \<Rightarrow> \<not> is_exception f"
    by (rule request_settled [OF own_conn0 o]) (simp_all add: no_reply_def request_of_def ext0_def)
  then show ?thesis using run w'(2) by (auto simp: conn0_def world0_def zero_buf_def)
qed

section \<open>Requests that are dropped\<close>

text \<open>
  A request for a command or for a sub-command that has no handler. The commands 8, 16 and 18 read a third
  element as a number before they look at the sub-command.
\<close>

definition third_read :: "ext \<Rightarrow> int \<Rightarrow> mobj list \<Rightarrow> bool" where
  "third_read e k ms = (k \<in> {8, 0x10, 0x12} \<longrightarrow> (case ms of [] \<Rightarrow> False | y # _ \<Rightarrow> mp_int e y \<noteq> None))"

definition dropped :: "ext \<Rightarrow> buf \<Rightarrow> bool" where
  "dropped e o' \<longleftrightarrow> (case request_of e o' of Some (m # ms) \<Rightarrow> (case mp_int e m of None \<Rightarrow> False
     | Some k \<Rightarrow> k \<notin> set commands \<or> (case ms of [] \<Rightarrow> False
     | x # r \<Rightarrow> (case mp_int e x of None \<Rightarrow> False | Some s \<Rightarrow> \<not> answered k s \<and> (k, s) \<noteq> (2, 2) \<and> third_read e k r))) | _ \<Rightarrow> False)"

lemma sub_cmd_run: "mp_int e x = Some s \<Longrightarrow>
    cbind (sub_cmd e (m # x # ms) b) f = cbind (upd_buf b (\<lambda>o'. o'\<lparr>nSubCmd := s\<rparr>)) (\<lambda>_. f (s, ms))"
  by (simp add: sub_cmd_def rd_int_def rd_def cbind_assoc)

lemma dispatch_unknown:
  assumes "k \<in> {1, 2, 3, 4, 5, 6, 7, 9}" "mp_int e x = Some s" "\<not> answered k s" "(k, s) \<noteq> (2, 2)"
  shows "dispatch e k (m # x # ms) b = cbind (upd_buf b (\<lambda>o'. o'\<lparr>nSubCmd := s\<rparr>)) (\<lambda>_. ret True)"
proof -
  note unfold = doUserData_def doSimData_def doKhData_def doKhjlData_def doLlcData_def doLltcData_def
    doDxzhData_def doSsdqData_def
  have "s \<notin> {1, 2, 3, 4, 5}" if "k = 4" using assms(3) that by (auto simp: answered_def)
  moreover have "s \<notin> {1, 2, 3, 4, 5, 6, 7, 8, 9, 10, 11}" if "k = 3" using assms(3) that by (auto simp: answered_def)
  ultimately show ?thesis
    using assms by (elim insertE) (auto simp: dispatch_def unfold sub_cmd_run answered_def)
qed

lemma dispatch_unknown_third:
  assumes "k \<in> {8, 0x10, 0x12}" "mp_int e x = Some s" "\<not> answered k s" "third_read e k ms" "bufs w b = Some o'"
  shows "\<exists>o2. pRelatedSObj o2 = pRelatedSObj o' \<and> dispatch e k (m # x # ms) b w = (Inr True, w\<lparr>bufs := (bufs w)(b \<mapsto> o2)\<rparr>)"
proof -
  obtain y t r where y: "ms = y # r" "mp_int e y = Some t"
    using assms(1,4) by (auto simp: third_read_def split: list.splits)
  have s: "s \<notin> {1, 2, 3, 4, 5, 6}" if "k = 8" using assms(3) that by (auto simp: answered_def)
  have s2: "s \<notin> {1, 2, 3}" if "k = 0x12" using assms(3) that by (auto simp: answered_def)
  let ?o = "o'\<lparr>nSubCmd := s, nSubSubCmd := t\<rparr>"
  consider "k = 8" | "k = 0x10" | "k = 0x12" using assms(1) by auto
  then show ?thesis
  proof cases
    case 1
    then show ?thesis using s assms(2,5) y
      by (intro exI [of _ "o'\<lparr>nSubCmd := s\<rparr>"]) (simp add: dispatch_def doExcelLoad_def sub_cmd_run rd_int_def rd_def, simp add: cbind_def)
  next
    case 2
    then show ?thesis using assms(2,3,5) y
      by (intro exI [of _ "?o\<lparr>pfndoApiResponse := Some doDisNumberResponse\<rparr>"])
        (simp add: dispatch_def doDisabledNumber_def rd_two_def cbind_assoc sub_cmd_run rd_int_def rd_def answered_def,
          simp add: cbind_def)
  next
    case 3
    then show ?thesis using s2 assms(2,5) y
      by (intro exI [of _ ?o])
        (simp add: dispatch_def doGetPoolList_def rd_two_def cbind_assoc sub_cmd_run rd_int_def rd_def, simp add: cbind_def)
  qed
qed

lemma ProcessCommand_run:
  assumes "bufs w b = Some o'" "6 + unat (dwRecvedCount o') \<le> length (bdata o')" "request_of e o' = Some args"
    and "run_command e args b w = (Inr ok, w')"
  shows "ProcessCommand e b w = (Inr True, w')"
proof -
  have "request_args e b w = (Inr (Some args), w)"
    using assms(1,2,3)
    by (auto simp: request_args_def cbind_def request_of_def not_less split: unpack_result.splits)
  then have "try_command e b w = (Inr True, w')"
    using assms(4) by (simp add: try_command_def cbind_def cthen_def)
  then show ?thesis by (simp add: ProcessCommand_def catch_def cbind_def)
qed

lemma own_update:
  assumes "own b c B S w" "bufs w b = Some o'" "pRelatedSObj o2 = pRelatedSObj o'"
  shows "own b c B S (w\<lparr>bufs := (bufs w)(b \<mapsto> o2)\<rparr>)"
  by (rule qrel_own [OF _ assms(1)]) (use assms in \<open>auto simp: qrel_def\<close>)

lemma droppedE:
  assumes "dropped e o'"
  obtains m ms k where "request_of e o' = Some (m # ms)" "mp_int e m = Some k" "k \<notin> set commands"
  | m x r k s where "request_of e o' = Some (m # x # r)" "mp_int e m = Some k" "k \<in> set commands" "mp_int e x = Some s"
    "\<not> answered k s" "(k, s) \<noteq> (2, 2)" "third_read e k r"
proof -
  obtain m ms where r: "request_of e o' = Some (m # ms)"
    using assms by (auto simp: dropped_def split: option.splits list.splits)
  obtain k where k: "mp_int e m = Some k" using assms r by (auto simp: dropped_def split: option.splits)
  show thesis
  proof (cases "k \<in> set commands")
    case True
    with assms r k obtain x q where x: "ms = x # q" by (cases ms) (simp_all add: dropped_def)
    with True assms r k obtain s where "mp_int e x = Some s" by (cases "mp_int e x") (simp_all add: dropped_def)
    then show thesis using that(2) [of m x q k s] True assms r k x by (simp add: dropped_def)
  qed (use that(1) r k in blast)
qed

lemma commands_split: "k \<in> set commands \<Longrightarrow> k \<in> {1, 2, 3, 4, 5, 6, 7, 9} \<or> k \<in> {8, 0x10, 0x12}"
  by (auto simp: commands_def)

text \<open>
  C35: a request for an unknown command, or for an unknown sub-command of a command, is dropped:
  \<open>ProcessCommand\<close> reports success, but nothing has been posted and the connection has not been released either. No
  thread will ever see the connection again, and its buffer and socket objects are lost. For the commands 8, 16 and 18 the
  request has a number as its third element, which their handlers read before they look at the sub-command.
\<close>

theorem request_dropped:
  assumes "own b c B S w" "bufs w b = Some o'" "6 + unat (dwRecvedCount o') \<le> length (bdata o')" "dropped e o'"
  shows "\<exists>w'. ProcessCommand e b w = (Inr True, w') \<and> pending w' = pending w \<and> own b c B S w' \<and> \<not> disposed b w'"
proof -
  have run: "run_command e (m # ms) b w = dispatch e k (m # ms) b (w\<lparr>bufs := (bufs w)(b \<mapsto> o'\<lparr>nCmd := k\<rparr>)\<rparr>)"
    if "mp_int e m = Some k" for m ms k
    using that assms(2) by (simp add: run_command_def rd_int_def rd_def cbind_def)
  have "\<exists>args o2. request_of e o' = Some args \<and> pRelatedSObj o2 = pRelatedSObj o' \<and>
      run_command e args b w = (Inr True, w\<lparr>bufs := (bufs w)(b \<mapsto> o2)\<rparr>)"
    using assms(4)
  proof (cases rule: droppedE)
    case (1 m ms k)
    then have "dispatch e k (m # ms) b = ret True" by (auto simp: dispatch_def commands_def)
    then show ?thesis using 1(1) run [OF 1(2), of ms] by (intro exI [of _ "m # ms"] exI [of _ "o'\<lparr>nCmd := k\<rparr>"]) simp
  next
    case (2 m x r k s)
    let ?o1 = "o'\<lparr>nCmd := k\<rparr>" and ?w1 = "w\<lparr>bufs := (bufs w)(b \<mapsto> o'\<lparr>nCmd := k\<rparr>)\<rparr>"
    have "\<exists>o2. pRelatedSObj o2 = pRelatedSObj ?o1 \<and> dispatch e k (m # x # r) b ?w1 = (Inr True, ?w1\<lparr>bufs := (bufs ?w1)(b \<mapsto> o2)\<rparr>)"
      using commands_split [OF 2(3)]
    proof
      assume "k \<in> {1, 2, 3, 4, 5, 6, 7, 9}"
      from dispatch_unknown [OF this 2(4-6), of m r b] show ?thesis
        by (intro exI [of _ "?o1\<lparr>nSubCmd := s\<rparr>"]) (simp add: cbind_def)
    next
      assume "k \<in> {8, 0x10, 0x12}"
      from dispatch_unknown_third [OF this 2(4,5,7), of ?w1 b ?o1 m] show ?thesis by simp
    qed
    then show ?thesis using 2(1) run [OF 2(2), of "x # r"] by auto
  qed
  then obtain args o2 where r: "request_of e o' = Some args" and o2: "pRelatedSObj o2 = pRelatedSObj o'"
      "run_command e args b w = (Inr True, w\<lparr>bufs := (bufs w)(b \<mapsto> o2)\<rparr>)" by blast
  then have "own b c B S (w\<lparr>bufs := (bufs w)(b \<mapsto> o2)\<rparr>)" using own_update [OF assms(1,2)] by blast
  then show ?thesis using ProcessCommand_run [OF assms(2,3) r o2(2)] own_not_disposed by (intro exI conjI) auto
qed

text \<open>The frame of the request \<open>[99]\<close>, and a decoder that knows it.\<close>

definition ext_unknown :: ext where
  "ext_unknown = ext0\<lparr>mp_unpack := (\<lambda>bs. UnpObj (MArray [MInt 99]))\<rparr>"

theorem request_dropped_witness:
  "\<exists>w'. ProcessCommand ext_unknown 0 (conn0 (replicate 64 0)) = (Inr True, w') \<and>
     pending w' = pending (conn0 (replicate 64 0)) \<and> own 0 1 {} {} w' \<and> \<not> disposed 0 w'"
  by (rule request_dropped [OF own_conn0 conn0_buf])
    (simp_all add: dropped_def request_of_def ext_unknown_def ext0_def elems_def commands_def zero_buf_def)

section \<open>From the frame to the reply\<close>

text \<open>The bytes of a complete frame are in the buffer: what follows is the dispatcher on its payload.\<close>

lemma recv_dispatch:
  assumes "bufs w b = Some o'" "take (length p + 8) (bdata o') = frame_of p" "p \<noteq> []" "length p < 2 ^ 30"
    and n: "dwRecvedCount o' + of_nat n = of_nat (length p + 8)" "0 < n"
  shows "RecvCompSuccess e n c b w = cbind (ProcessCommand e b) (\<lambda>_. ret ())
     (w\<lparr>bufs := (bufs w)(b \<mapsto> o'\<lparr>dwRecvedCount := of_nat (length p)\<rparr>)\<rparr>)"
proof -
  have "length (take (length p + 8) (bdata o')) = length p + 8" unfolding assms(2) by simp
  then have "length p + 8 \<le> length (bdata o')" by simp
  then have "check_frame (bdata o') (of_nat (length p + 8)) = Inr (int (length p), of_nat (length p))"
    using check_frame_frame [OF _ _ _ assms(2), of "length p + 8"] assms(4) by (simp del: of_nat_add)
  then show ?thesis using assms(1,3) n
    by (simp add: RecvCompSuccess_def count_received_def received_def CheckRecvdata_def cbind_def del: of_nat_add)
qed

definition error_toks :: "tok list" where
  "error_toks = [pack_array 3, TInt 0xbb, TInt 0xbb, TInt 0]"

lemma request_args_none:
  assumes "bufs w b = Some o'" "6 + unat (dwRecvedCount o') \<le> length (bdata o')" "request_of e o' = None"
  shows "catch (try_command e b) is_exception (ret False) w = (Inr False, w)"
  using assms
  by (auto simp: catch_def try_command_def request_args_def cbind_def request_of_def not_less split: unpack_result.splits)

text \<open>
  C11: a frame whose payload the decoder rejects, or finds incomplete, or that is no array, is answered:
  as soon as its last byte has arrived, in whatever pieces, one send is posted on the connection, of the complete
  frame of the reply \<open>[bb, bb, 0]\<close>. The payload is not empty and shorter than a gigabyte, nothing is left of an earlier
  send, the reply fits the buffer and the system accepts the send.
\<close>

theorem malformed_answered:
  assumes "bufs w b = Some o'" "pRelatedSObj o' = Some c" "socks w c = Some s"
    and "take (length p + 8) (bdata o') = frame_of p" "p \<noteq> []" "length p < 2 ^ 30"
    and "dwRecvedCount o' + of_nat n = of_nat (length p + 8)" "0 < n" "dwSendedCount o' = 0"
    and "\<And>m. mp_unpack e p = UnpObj m \<Longrightarrow> elems m = None"
    and "reply_fits e error_toks o'" "os_send e (tick w)"
  shows "\<exists>w'. RecvCompSuccess e n c b w = (Inr (), w') \<and>
     pending w' = pending w @ [(b, KSock c, IoSend (frame_of (payload e error_toks)))]"
proof -
  let ?o1 = "o'\<lparr>dwRecvedCount := of_nat (length p)\<rparr>"
  let ?w1 = "w\<lparr>bufs := (bufs w)(b \<mapsto> ?o1)\<rparr>"
  let ?o2 = "?o1\<lparr>nCmd := 0xbb, nSubCmd := 0xbb\<rparr>"
  let ?w2 = "w\<lparr>bufs := (bufs w)(b \<mapsto> ?o2)\<rparr>"
  have "length (take (length p + 8) (bdata o')) = length p + 8" unfolding assms(4) by simp
  then have len: "unat (dwRecvedCount ?o1) = length p" "6 + length p \<le> length (bdata ?o1)"
    using assms(6) by (simp_all add: unat_of_nat)
  have "request_of e ?o1 = None"
    using take_frame_payload [OF assms(4)] assms(10) len(1)
    by (auto simp: request_of_def split: unpack_result.splits)
  then have run: "catch (try_command e b) is_exception (ret False) ?w1 = (Inr False, ?w1)"
    using len by (intro request_args_none [of _ _ ?o1]) simp_all
  have u: "upd_buf b (\<lambda>o'. o'\<lparr>nCmd := 0xbb, nSubCmd := 0xbb\<rparr>) ?w1 = (Inr (), ?w2)" by simp
  have "\<exists>w'. DealTail e error_toks b ?w2 = (Inr (), w') \<and> pending w' = pending ?w2 @
      [(b, KSock c, IoSend (drop (unat (dwSendedCount ?o2)) (frame_of (payload e error_toks))))] \<and>
      vctBObj w' = vctBObj ?w2 \<and> vctSObj w' = vctSObj ?w2 \<and> socks w' = socks ?w2"
    using assms(2,3,9,11,12) by (intro DealTail_posts [of _ _ _ c s]) (simp_all add: reply_fits_def)
  then obtain w' where w': "DealTail e error_toks b ?w2 = (Inr (), w')"
      "pending w' = pending w @ [(b, KSock c, IoSend (frame_of (payload e error_toks)))]"
    using assms(9) by auto
  have "ProcessCommand e b ?w1 = (Inr False, w')"
    using run u w'(1) by (simp add: ProcessCommand_def cbind_def error_reply_def cthen_def error_toks_def)
  then show ?thesis using recv_dispatch [OF assms(1,4-8)] w'(2) by (simp add: cbind_def)
qed

lemma frame_two: "frame_of [7, 8] = [0xfb, 0xfc, 2, 0, 0, 0, 7, 8, 15, 0x0d]"
  by (simp add: frame_of_def le32_def)

theorem malformed_answered_witness:
  "\<exists>w'. RecvCompSuccess ext0 10 1 0 (conn0 (frame_of [7, 8] @ replicate 20 0)) = (Inr (), w') \<and>
     pending w' = pending (conn0 (frame_of [7, 8] @ replicate 20 0)) @
       [(0, KSock 1, IoSend (frame_of (payload ext0 error_toks)))]"
  by (rule malformed_answered [OF conn0_buf, where p = "[7, 8]" and s = "zero_sobj\<lparr>sock := Some 7, pRelatedBObj := Some 0\<rparr>"])
    (simp_all add: frame_two zero_buf_def ext0_def conn0_def world0_def reply_fits_def payload_def error_toks_def PDATA_SIZE_def
      bytes_of_def)

section \<open>Sending to the end\<close>

text \<open>
  C10: a send that was completed only in part is continued at the first byte that has not been sent; one
  completed to the end resets both counts, and the connection waits for the next request. Nothing is sent
  twice and nothing is left out. The system accepts the send and the receive that are posted.
\<close>

theorem send_progress:
  assumes "bufs w b = Some o'" "socks w c = Some s" "take (unat (dwRecvedCount o')) (bdata o') = f"
    and "length f = unat (dwRecvedCount o')" "0 < n" "unat (dwSendedCount o') + n \<le> length f"
    and "os_send e (tick w)" "os_recv e (tick w)"
  shows "\<exists>w' o2. SendCompSuccess e n c b w = (Inr (), w') \<and> bufs w' b = Some o2 \<and>
     (if unat (dwSendedCount o') + n < length f
      then pending w' = pending w @ [(b, KSock c, IoSend (drop (unat (dwSendedCount o') + n) f))] \<and>
        unat (dwSendedCount o2) = unat (dwSendedCount o') + n \<and> dwRecvedCount o2 = dwRecvedCount o'
      else pending w' = pending w @ [(b, KSock c, IoZeroRecv)] \<and> dwRecvedCount o2 = 0 \<and> dwSendedCount o2 = 0 \<and>
        pfnSuccess o2 = Some RecvZeroComp)"
proof -
  let ?o1 = "o'\<lparr>dwSendedCount := dwSendedCount o' + of_nat n\<rparr>"
  let ?w1 = "w\<lparr>bufs := (bufs w)(b \<mapsto> ?o1)\<rparr>"
  have lt: "length f < 2 ^ 32" using assms(4) unsigned_less [of "dwRecvedCount o'"] by simp
  then have k: "unat (dwSendedCount o' + of_nat n) = unat (dwSendedCount o') + n"
    using assms(6) by (simp add: unat_word_ariths unat_of_nat)
  have less: "dwSendedCount o' + of_nat n < dwRecvedCount o' \<longleftrightarrow> unat (dwSendedCount o') + n < length f"
    using k assms(4) by (simp add: word_less_nat_alt)
  have len: "length f \<le> length (bdata o')" using assms(3,4) by (metis length_take min.cobounded1)
  show ?thesis
  proof (cases "unat (dwSendedCount o') + n < length f")
    case True
    have cnt: "unat (dwRecvedCount o' - (dwSendedCount o' + of_nat n)) = length f - (unat (dwSendedCount o') + n)"
      using True k assms(4) by (simp add: unat_sub word_le_nat_alt)
    have d: "take (length f - (unat (dwSendedCount o') + n)) (drop (unat (dwSendedCount o') + n) (bdata o')) =
        drop (unat (dwSendedCount o') + n) f"
      using assms(3,4) by (metis drop_take)
    have "n \<noteq> 0" using assms(5) by simp
    then show ?thesis
      using True assms(1,2,7) less k cnt d len
      by (simp add: SendCompSuccess_def sent_def count_sent_def cbind_def PostSend_def post_def Let_def)
  next
    case False
    have "n \<noteq> 0" using assms(5) by simp
    then show ?thesis
      using False assms(1,2,8) less
      by (simp add: SendCompSuccess_def sent_def count_sent_def reset_counts_def wait_more_def post_or_close_def cbind_def
          PostZeroRecv_def post_def SetIoRequestFunction_def)
  qed
qed

theorem send_progress_witness:
  "\<exists>w' o2. SendCompSuccess ext0 3 1 0 (conn0 (replicate 8 1)\<lparr>bufs := [0 \<mapsto> (zero_buf 0)\<lparr>bdata := replicate 8 1, dwRecvedCount := 8,
       dwSendedCount := 2\<rparr>]\<rparr>) = (Inr (), w') \<and> bufs w' 0 = Some o2 \<and>
     (if unat (2 :: 32 word) + 3 < length (replicate 8 (1 :: byte))
      then pending w' = pending (conn0 (replicate 8 1)) @ [(0, KSock 1, IoSend (drop (unat (2 :: 32 word) + 3) (replicate 8 1)))] \<and>
        unat (dwSendedCount o2) = unat (2 :: 32 word) + 3 \<and> dwRecvedCount o2 = 8
      else pending w' = pending (conn0 (replicate 8 1)) @ [(0, KSock 1, IoZeroRecv)] \<and> dwRecvedCount o2 = 0 \<and> dwSendedCount o2 = 0 \<and>
        pfnSuccess o2 = Some RecvZeroComp)"
  using send_progress [of "conn0 (replicate 8 1)\<lparr>bufs := [0 \<mapsto> (zero_buf 0)\<lparr>bdata := replicate 8 1, dwRecvedCount := 8,
       dwSendedCount := 2\<rparr>]\<rparr>" 0 "(zero_buf 0)\<lparr>bdata := replicate 8 1, dwRecvedCount := 8, dwSendedCount := 2\<rparr>" 1
      "zero_sobj\<lparr>sock := Some 7, pRelatedBObj := Some 0\<rparr>" "replicate 8 1" 3 ext0]
  by (simp add: ext0_def conn0_def zero_buf_def)

end
