(* ===== verification/Transport.thy ===== *)
theory Transport
  imports Service
begin

text \<open>
  The parts below the dispatcher: the two checks of a frame compared, what a recycled buffer contains, and the accept
  loop of the main thread.
\<close>

section \<open>The older check\<close>

lemma sint_small: "unat (x :: 32 word) < 2 ^ 31 \<Longrightarrow> sint x = int (unat x)"
  using sint_of_nat_small [of "unat x"] by simp

lemma check_frame_no_mark:
  assumes "n \<le> length d" "n < 2 ^ 31" "\<not> (d ! 0 = 0xfb \<and> d ! 1 = 0xfc)"
  shows "check_frame d (of_nat n) = Inr (0, of_nat n) \<or> check_frame d (of_nat n) = Inr (-1, of_nat n)"
proof (cases "n < 6")
  case False
  have "\<not> (of_nat n :: 32 word) < 6" using False assms(2) by (simp add: word_less_nat_alt unat_of_nat)
  moreover have "byte_at d 0 = Some (d ! 0)" "byte_at d (Suc 0) = Some (d ! 1)"
    using False assms(1) by (auto simp: byte_at_def)
  ultimately show ?thesis using assms(3) by (auto simp: check_frame_def)
qed (simp add: check_frame_short)

text \<open>
  C26: the older check \<open>DealHead\<close>, in signed arithmetic, and \<open>CheckRecvdata\<close>, in unsigned arithmetic, accept the
  same frames with the same payload length, as long as the length field is not negative and the sum with the
  eight bytes around the payload does not overflow: the older one rejects what the newer one rejects or waits for.
\<close>

theorem frame_checks_agree:
  assumes "unat (dwRecvedCount o') \<le> length (bdata o')" "unat (dwRecvedCount o') < 2 ^ 31"
    and "unat (un_le32 (drop 2 (bdata o'))) + 8 < 2 ^ 31"
  shows "DealHead_check o' = (case check_frame (bdata o') (dwRecvedCount o') of
     Inr (r, k) \<Rightarrow> Inr (if k = dwRecvedCount o' then None else Some r) | Inl f \<Rightarrow> Inl f)"
proof -
  define n where "n = unat (dwRecvedCount o')"
  define l where "l = unat (un_le32 (drop 2 (bdata o')))"
  let ?d = "bdata o'"
  note as = assms [folded n_def l_def]
  have s: "sint (dwRecvedCount o') = int n" "sint (un_le32 (drop 2 ?d)) = int l"
    using assms by (simp_all add: sint_small n_def l_def)
  have rc: "dwRecvedCount o' = of_nat n" by (simp add: n_def)
  have short: "DealHead_check o' = Inr None" if "n < 8"
    using that by (simp add: DealHead_check_def s Let_def)
  have at: "byte_at ?d i = Some (?d ! i)" if "i < n" for i
    using that as(1) by (simp add: byte_at_def)
  show ?thesis
  proof (cases "?d ! 0 = 0xfb \<and> ?d ! 1 = 0xfc")
    case False
    have "DealHead_check o' = Inr None"
    proof (cases "n < 8")
      case n: False
      then show ?thesis using False at [of 0] at [of 1] by (auto simp: DealHead_check_def s Let_def)
    qed (rule short)
    then show ?thesis using check_frame_no_mark [OF as(1,2) False] by (auto simp: rc)
  next
    case hd: True
    show ?thesis
    proof (cases "n < l + 8")
      case True
      have "check_frame ?d (of_nat n) = Inr (0, of_nat n)"
      proof (cases "n < 6")
        case False
        then show ?thesis using check_frame_main [OF _ as(1,2) _ _ l_def] hd True as(3) by simp
      qed (use check_frame_short [of n ?d] in simp)
      moreover have "DealHead_check o' = Inr None"
      proof (cases "n < 8")
        case n: False
        then show ?thesis
          using True hd at [of 0] at [of 1] as(1,3) by (auto simp: DealHead_check_def s Let_def int_max_def)
      qed (rule short)
      ultimately show ?thesis by (simp add: rc)
    next
      case False
      have "unat (of_nat l :: 32 word) = l" using as(3) by (simp add: unat_of_nat)
      then have ne: "(of_nat l :: 32 word) \<noteq> dwRecvedCount o'" using False n_def by auto
      have c: "csum ?d 6 (int l) = Some (sum_list (take l (drop 6 ?d)))"
        using False as(1) by (auto simp: csum_def csum_loop_sum)
      have "check_frame ?d (of_nat n) =
          (if ?d ! (6 + l) \<noteq> sum_list (take l (drop 6 ?d)) then Inr (-1, of_nat n)
           else if ?d ! (l + 7) \<noteq> 0x0d then Inr (-1, of_nat n) else Inr (int l, of_nat l))"
        using check_frame_main [OF _ as(1,2) _ _ l_def] hd False as(3) by simp
      then show ?thesis
        using False hd at [of 0] at [of 1] at [of "6 + l"] at [of "l + 7"] as c ne
        by (auto simp: DealHead_check_def s Let_def int_max_def nat_add_distrib rc s(1) [unfolded rc])
    qed
  qed
qed

theorem frame_checks_agree_witness:
  "DealHead_check ((zero_buf 0)\<lparr>bdata := frame_of [7, 8], dwRecvedCount := 10\<rparr>) = Inr (Some 2)"
proof -
  have "check_frame (frame_of [7, 8]) 10 = Inr (2, 2)"
    using check_frame_frame [of "[7, 8]" 10 "frame_of [7, 8]"] by simp
  then show ?thesis
    using frame_checks_agree [of "(zero_buf 0)\<lparr>bdata := frame_of [7, 8], dwRecvedCount := 10\<rparr>"]
    by (simp add: frame_two)
qed

section \<open>Recycled buffers\<close>

text \<open>
  C31: whoever used a buffer object before, the buffer that \<open>allocBObj\<close> hands out holds nothing of it that \<open>init\<close>
  sets: the data area is zero, the counts of bytes and of rows are zero, it belongs to no connection, has no
  completion function, no command and no result of a query. The exceptions are \<open>nSubSubCmd\<close> and \<open>wsaBuf\<close>, which
  \<open>init\<close> leaves as the former user of a pooled object had them. A buffer is handed out only if its object is large enough.
\<close>

theorem buffer_fresh:
  assumes "allocBObj e n w = (Inr (Some b), w')"
  shows "\<exists>o'. bufs w' b = Some o' \<and> take (n - bobj_hdr e) (bdata o') = replicate (n - bobj_hdr e) 0 \<and>
    datalen o' = int (n - bobj_hdr e) \<and> dwRecvedCount o' = 0 \<and> dwSendedCount o' = 0 \<and> nRecSetCount o' = 0 \<and>
    pRelatedSObj o' = None \<and> pfnSuccess o' = None \<and> pfnFailed o' = None \<and> pfndoApiResponse o' = None \<and>
    pRecorder o' = None \<and> bres o' = None \<and> nCmd o' = 0 \<and> nSubCmd o' = 0 \<and> strJrhm o' = '''' \<and>
    (nSubSubCmd o', wsaBuf o') = (case vctBObj w of [] \<Rightarrow> (0, (None, 0))
       | _ \<Rightarrow> (case bufs w (last (vctBObj w)) of None \<Rightarrow> (0, (None, 0)) | Some x \<Rightarrow> (nSubSubCmd x, wsaBuf x)))"
proof -
  let ?n = "n - bobj_hdr e"
  obtain r w1 where t: "take_BObj e n w = (r, w1)" by fastforce
  then have r: "r = Inr (Some b)" using assms by (auto simp: allocBObj_def cbind_def upd_buf_def get_buf_def of_opt_def
        split: sum.splits option.splits if_splits)
  obtain o1 where o1: "bufs w1 b = Some o1" "?n \<le> length (bdata o1)" "bufs w' b = Some (buf_init ?n o1)"
    using assms t r by (auto simp: allocBObj_def cbind_def upd_buf_def get_buf_def of_opt_def not_less
        split: option.splits if_splits)
  have "(nSubSubCmd o1, wsaBuf o1) = (case vctBObj w of [] \<Rightarrow> (0, (None, 0))
       | _ \<Rightarrow> (case bufs w (last (vctBObj w)) of None \<Rightarrow> (0, (None, 0)) | Some x \<Rightarrow> (nSubSubCmd x, wsaBuf x)))"
    using t r o1(1) by (auto simp: take_BObj_def cbind_def zero_buf_def split: if_splits list.splits)
  then show ?thesis using o1(2,3) by (simp add: buf_init_def)
qed

theorem buffer_fresh_witness:
  "\<exists>w' o'. allocBObj ext0 150 ((conn0 [])\<lparr>vctBObj := [3], bufs := [3 \<mapsto> (zero_buf 30)\<lparr>nSubSubCmd := 9, nRecSetCount := 4\<rparr>]\<rparr>) =
     (Inr (Some 3), w') \<and> bufs w' 3 = Some o' \<and> nRecSetCount o' = 0 \<and> nSubSubCmd o' = 9"
proof -
  let ?w = "(conn0 [])\<lparr>vctBObj := [3], bufs := [3 \<mapsto> (zero_buf 30)\<lparr>nSubSubCmd := 9, nRecSetCount := 4\<rparr>]\<rparr>"
  obtain w' where w': "allocBObj ext0 150 ?w = (Inr (Some 3), w')"
    by (simp add: allocBObj_def take_BObj_def cbind_def zero_buf_def ext0_def)
  from buffer_fresh [OF this] show ?thesis using w' by (auto simp: conn0_def)
qed

end
