(* ===== verification/Startup.thy ===== *)
theory Startup
  imports Server Observe
begin

text \<open>The main thread: what start-up and the accept loop hand to the system, and which silent connections are closed.\<close>

section \<open>Accept requests\<close>

text \<open>At most \<open>n\<close> accept requests on the listen object \<open>l\<close> have been added to the outstanding ones, and nothing else.\<close>

definition adds :: "nat \<Rightarrow> nat \<Rightarrow> world \<Rightarrow> world \<Rightarrow> bool" where
  "adds l n w w' \<longleftrightarrow> (\<exists>bs. length bs \<le> n \<and> pending w' = pending w @ map (\<lambda>b. (b, KListen l, IoAccept)) bs)"

lemma adds_refl: "pending w' = pending w \<Longrightarrow> adds l n w w'"
  by (auto simp: adds_def)

lemma adds_trans: "adds l m w w1 \<Longrightarrow> adds l n w1 w' \<Longrightarrow> adds l (m + n) w w'"
  by (auto simp: adds_def) (metis add_mono length_append map_append)

definition posts :: "nat \<Rightarrow> nat \<Rightarrow> (world, 'a) cm \<Rightarrow> bool" where
  "posts l n m \<longleftrightarrow> (\<forall>w. adds l n w (snd (m w)))"

lemma postsD: "posts l n m \<Longrightarrow> m w = (r, w') \<Longrightarrow> adds l n w w'"
  unfolding posts_def by (drule spec [of _ w]) simp

lemma posts_keeps: "keeps pending m \<Longrightarrow> posts l n m"
  by (simp add: keeps_def posts_def adds_refl)

lemma adds_mono: "adds l m w w' \<Longrightarrow> m \<le> n \<Longrightarrow> adds l n w w'"
  unfolding adds_def using order_trans by blast

lemma posts_then:
  assumes p: "posts l m p" and f: "\<And>x. posts l n (f x)"
  shows "posts l (m + n) (cbind p f)"
proof -
  have "adds l (m + n) w (snd (cbind p f w))" for w
  proof (cases "p w")
    case (Pair r w1)
    then have 1: "adds l m w w1" using p by (rule postsD [rotated])
    show ?thesis
    proof (cases r)
      case (Inl e)
      then show ?thesis using adds_mono [OF 1, of "m + n"] Pair by (simp add: cbind_def)
    next
      case (Inr x)
      then show ?thesis using adds_trans [OF 1] postsD [OF f] Pair by (cases "f x w1") (simp add: cbind_def)
    qed
  qed
  then show ?thesis by (simp add: posts_def)
qed

lemma posts_bind: "keeps pending m \<Longrightarrow> (\<And>x. posts l n (f x)) \<Longrightarrow> posts l n (cbind m f)"
  using posts_then [OF posts_keeps, of m l n f 0] by simp

lemma posts_if: "posts l n p \<Longrightarrow> posts l n q \<Longrightarrow> posts l n (if c then p else q)"
  by simp

lemma posts_option: "posts l n p \<Longrightarrow> (\<And>y. posts l n (k y)) \<Longrightarrow> posts l n (case x of None \<Rightarrow> p | Some y \<Rightarrow> k y)"
  by (cases x) simp_all

lemma posts_post: "posts l 1 (cbind (post b (KListen l) IoAccept) (\<lambda>_. ret x))"
  by (auto simp: posts_def adds_def post_def cbind_def intro: exI [of _ "[b]"])

lemma keeps_pending_base:
  "keeps pending (upd_buf b g)" "keeps pending (upd_sobj c h)" "keeps pending (upd_lobj l k)" "keeps pending (ext_call q)"
  "keeps pending (gets p)" "keeps pending (take_BObj e n)" "keeps pending (take_SObj e)" "keeps pending (freeSObj c)"
  "keeps pending (get_sobj c)" "keeps pending (with_ado a)" "keeps pending (with_mysql m)" "keeps pending InitMemPool"
  "keeps pending InitDatabase_map"  "keeps pending (UniqueInstance x y)" "keeps pending (GetRand e)"
  by (auto simp: keeps_def upd_buf_def get_buf_def upd_sobj_def get_sobj_def upd_lobj_def get_lobj_def cbind_def of_opt_def
      take_BObj_def take_SObj_def freeSObj_def with_ado_def with_mysql_def InitMemPool_def InitDatabase_map_def
      UniqueInstance_def GetRand_def
      split: option.splits prod.splits)

lemma keeps_pending_pools: "keeps pending (allocBObj e n)" "keeps pending (allocSObj e)" "keeps pending (freeBObj b)"
  "keeps pending (CSCloseSocket c)"
  unfolding allocBObj_def allocSObj_def freeBObj_def CSCloseSocket_def
  by (intro keeps_intros keeps_pending_base keeps_modify; simp)+

lemma posts_PostAcceptEx: "posts l 1 (PostAcceptEx e l i)"
  unfolding PostAcceptEx_def
  by (intro posts_bind posts_option posts_if posts_post keeps_pending_base keeps_pending_pools posts_keeps keeps_intros)

lemma posts_accepts: "posts l n (post_accepts e l n)"
proof (induction n)
  case (Suc n)
  show ?case using posts_then [OF posts_PostAcceptEx Suc] by simp
qed (simp add: posts_keeps keeps_pure del: ret_app)

section \<open>Start-up\<close>

lemma keeps_pending_winsock: "keeps pending (InitWinsock2 e)" "keeps pending (GetExtensionFunctionPointer e)"
  unfolding InitWinsock2_def GetExtensionFunctionPointer_def by (intro keeps_intros keeps_pending_base)+

lemma keeps_pending_threads: "keeps pending (start_threads e p k n)"
proof (induction k arbitrary: n)
  case (Suc k)
  then show ?case unfolding start_threads.simps by (intro keeps_intros keeps_pending_base)
qed (simp only: start_threads.simps keeps_pure)

lemma keeps_pending_listen: "keeps pending (InitListenSObj e l)"
  unfolding InitListenSObj_def lobj_error_def
  by (intro keeps_intros keeps_pending_base keeps_modify; simp)

text \<open>The outcome of start-up: refused without a request, or listening on both ports.\<close>

definition start_outcome :: "fault + bool \<Rightarrow> world \<Rightarrow> bool" where
  "start_outcome r w \<longleftrightarrow> (case r of
     Inl f \<Rightarrow> True
   | Inr ok \<Rightarrow> if ok then (\<exists>as bs. length as \<le> POST_COUNT \<and> length bs \<le> POST_COUNT \<and>
       pending w = map (\<lambda>b. (b, KListen 0, IoAccept)) as @ map (\<lambda>b. (b, KListen 1, IoAccept)) bs) else pending w = [])"

definition starting :: "(world, bool) cm \<Rightarrow> bool" where
  "starting m \<longleftrightarrow> (\<forall>w. pending w = [] \<longrightarrow> start_outcome (fst (m w)) (snd (m w)))"

lemma starting_bind:
  assumes m: "keeps pending m" and f: "\<And>x. starting (f x)" shows "starting (cbind m f)"
proof -
  have "start_outcome (fst (cbind m f w)) (snd (cbind m f w))" if "pending w = []" for w
  proof (cases "m w")
    case (Pair r w1)
    then have "pending w1 = []" using keepsD [OF m Pair] that by simp
    then show ?thesis using f Pair by (cases r) (simp_all add: cbind_def starting_def start_outcome_def)
  qed
  then show ?thesis by (simp add: starting_def)
qed

lemma starting_if: "(p \<Longrightarrow> starting m) \<Longrightarrow> (\<not> p \<Longrightarrow> starting n) \<Longrightarrow> starting (if p then m else n)"
  by simp

lemma starting_refuse: "starting (ret False)"
  by (simp add: starting_def start_outcome_def)

lemma starting_listen:
  "starting (cbind (post_accepts e 0 POST_COUNT) (\<lambda>_. cbind (post_accepts e 1 POST_COUNT) (\<lambda>_. ret True)))"
proof -
  have "start_outcome r w'" if "pending w = []"
    and r: "cbind (post_accepts e 0 POST_COUNT) (\<lambda>_. cbind (post_accepts e 1 POST_COUNT) (\<lambda>_. ret True)) w = (r, w')" for w r w'
  proof (cases "post_accepts e 0 POST_COUNT w")
    case (Pair p w1)
    then have 1: "adds 0 POST_COUNT w w1" using postsD [OF posts_accepts] by blast
    obtain q w2 where q: "post_accepts e 1 POST_COUNT w1 = (q, w2)" by fastforce
    have 2: "adds 1 POST_COUNT w1 w2" using postsD [OF posts_accepts q] .
    from 1 2 obtain as bs where "length as \<le> POST_COUNT" "length bs \<le> POST_COUNT"
        "pending w2 = map (\<lambda>b. (b, KListen 0, IoAccept)) as @ map (\<lambda>b. (b, KListen 1, IoAccept)) bs"
      using \<open>pending w = []\<close> by (auto simp: adds_def)
    then have "start_outcome (Inr True) w2" unfolding start_outcome_def by (simp del: One_nat_def) blast
    moreover have "r = Inr True \<and> w' = w2 \<or> (\<exists>f. r = Inl f)"
      using r Pair q by (cases p; cases q) (auto simp: cbind_def)
    moreover have "start_outcome (Inl f) w'" for f by (simp add: start_outcome_def)
    ultimately show ?thesis by blast
  qed
  then show ?thesis unfolding starting_def by (metis prod.collapse)
qed

text \<open>
  C28: a start-up that is refused, because another instance runs or because a library, the database, the
  completion port, a processor for the worker threads or a listen socket is not available, leaves no request with the system. One that succeeds has at
  most ten accept requests outstanding on each of the two ports and no other request.
\<close>

theorem start_up_outcome:
  "start_outcome (fst (main_init e already can_create page cpus world0)) (snd (main_init e already can_create page cpus world0))"
proof -
  have "starting (main_init e already can_create page cpus)"
    unfolding main_init_def
    by (intro starting_bind starting_if starting_refuse starting_listen keeps_pending_base keeps_pending_listen
        keeps_pending_winsock keeps_pending_threads keeps_modify) simp_all
  then show ?thesis by (simp add: starting_def world0_def)
qed

section \<open>The accept loop\<close>

text \<open>
  One round of the accept loop adds at most ten accept requests on its own port, whatever the allocations and the
  system calls give, and adds or removes no other request.
\<close>

lemma accept_round_bounded:
  "adds l POST_COUNT w (snd (accept_round e l es w))"
proof -
  have "keeps pending (close_silent e xs)" for xs
  proof (induction xs)
    case (Cons c xs)
    have opt: "keeps pending (case t of None \<Rightarrow> ret ()
        | Some optval \<Rightarrow> if optval \<noteq> -1 \<and> optval > 60 then CSCloseSocket c else ret ())" for t :: "int option"
      by (intro keeps_option keeps_if keeps_pure keeps_pending_pools)
    show ?case unfolding close_silent.simps by (intro keeps_bind keeps_pending_base opt Cons)
  qed (simp add: keeps_pure del: ret_app)
  then have "posts l (POST_COUNT + 0) (accept_round e l es)"
    unfolding accept_round_def by (intro posts_then posts_accepts posts_if posts_keeps keeps_pure)
  then show ?thesis by (simp add: posts_def)
qed

lemma sock_None_id: "sock s = None \<Longrightarrow> s\<lparr>sock := None\<rparr> = s"
  by (cases s) simp

text \<open>What \<open>SO_CONNECT_TIME\<close> reports for the \<open>i\<close>-th socket of the round.\<close>

definition silent :: "ext \<Rightarrow> nat \<Rightarrow> bool" where
  "silent e n \<longleftrightarrow> (case os_conntime e n of None \<Rightarrow> False | Some t \<Rightarrow> 60 < t)"

text \<open>
  Of the sockets in the table of accepted connections, exactly those that have been connected for more
  than a minute without sending are closed; the other sockets, the buffers and the outstanding requests are left alone.
\<close>

theorem silent_closed:
  assumes "distinct es" "\<And>c. c \<in> set es \<Longrightarrow> socks w c \<noteq> None"
  shows "\<exists>w'. close_silent e es w = (Inr (), w') \<and> pending w' = pending w \<and> bufs w' = bufs w \<and>
    (\<forall>c. c \<notin> set es \<longrightarrow> socks w' c = socks w c) \<and>
    (\<forall>i < length es. map_option sock (socks w' (es ! i)) =
       (if silent e (tick w + i) then Some None else map_option sock (socks w (es ! i))))"
  using assms
proof (induction es arbitrary: w)
  case (Cons c cs)
  obtain s where s: "socks w c = Some s" using Cons.prems(2) by auto
  define w1 where "w1 = (if silent e (tick w) then w\<lparr>tick := Suc (tick w), socks := (socks w)(c \<mapsto> s\<lparr>sock := None\<rparr>)\<rparr>
    else w\<lparr>tick := Suc (tick w)\<rparr>)"
  have run: "close_silent e (c # cs) w = close_silent e cs w1"
    using s by (auto simp: w1_def silent_def CSCloseSocket_def cbind_def sock_None_id split: option.splits)
  have w1: "tick w1 = Suc (tick w)" "pending w1 = pending w" "bufs w1 = bufs w" "x \<noteq> c \<Longrightarrow> socks w1 x = socks w x"
    "map_option sock (socks w1 c) = (if silent e (tick w) then Some None else map_option sock (socks w c))" for x
    by (simp_all add: w1_def s)
  have "socks w1 x \<noteq> None" if "x \<in> set cs" for x using Cons.prems that w1(4) [of x] by (cases "x = c") auto
  from Cons.IH [OF _ this] Cons.prems(1) obtain w' where w': "close_silent e cs w1 = (Inr (), w')"
      "pending w' = pending w" "bufs w' = bufs w" "\<And>x. x \<notin> set cs \<Longrightarrow> socks w' x = socks w1 x"
      "\<And>i. i < length cs \<Longrightarrow> map_option sock (socks w' (cs ! i)) =
         (if silent e (Suc (tick w) + i) then Some None else map_option sock (socks w1 (cs ! i)))"
    by (auto simp: w1)
  have "map_option sock (socks w' ((c # cs) ! i)) =
      (if silent e (tick w + i) then Some None else map_option sock (socks w ((c # cs) ! i)))" if i: "i < length (c # cs)" for i
  proof (cases i)
    case 0
    then show ?thesis using w'(4) [of c] w1(5) Cons.prems(1) by simp
  next
    case (Suc j)
    then have "cs ! j \<noteq> c" using Cons.prems(1) i by auto
    then show ?thesis using w'(5) [of j] i Suc w1(4) by simp
  qed
  then show ?case using run w' w1(4) by (intro exI [of _ w']) auto
qed simp

theorem silent_closed_witness:
  "\<exists>w'. close_silent (ext0\<lparr>os_conntime := (\<lambda>n. Some 61)\<rparr>) [1] (conn0 []) = (Inr (), w') \<and> map_option sock (socks w' 1) = Some None"
proof -
  have "\<exists>w'. close_silent (ext0\<lparr>os_conntime := (\<lambda>n. Some 61)\<rparr>) [1] (conn0 []) = (Inr (), w') \<and> pending w' = pending (conn0 []) \<and>
    bufs w' = bufs (conn0 []) \<and> (\<forall>c. c \<notin> set [1] \<longrightarrow> socks w' c = socks (conn0 []) c) \<and>
    (\<forall>i < length [1 :: nat]. map_option sock (socks w' ([1] ! i)) =
       (if silent (ext0\<lparr>os_conntime := (\<lambda>n. Some 61)\<rparr>) (tick (conn0 []) + i) then Some None else map_option sock (socks (conn0 []) ([1] ! i))))"
    by (rule silent_closed) (auto simp: conn0_def)
  then show ?thesis by (auto simp: silent_def)
qed

end
