(* ===== verification/XmlProofs.thy ===== *)
theory XmlProofs
  imports TinyXml
begin

text \<open>
  Proofs about the XML parser: it ends, the conversion of a string in place never overtakes what it reads, accepted
  documents are well-formed and of bounded depth.
\<close>

section \<open>The loop makes progress\<close>

lemma ParseText_less: "ParseText endTag p = Some (t, r) \<Longrightarrow> endTag \<noteq> [] \<Longrightarrow> length r < length p"
  by (induction endTag p arbitrary: t r rule: ParseText.induct) (auto split: if_splits)

lemma ParseText_first: "ParseText [q] (c # p) = Some (t, r) \<Longrightarrow> c \<noteq> q \<Longrightarrow> length r < length p"
  by (auto dest: ParseText_less)

lemma Identify_shorter: "Identify s = Some (k, p) \<Longrightarrow> k \<noteq> KText \<Longrightarrow> length p < length s"
  using SkipWhiteSpace_length [of s]
  by (cases "SkipWhiteSpace s") (auto simp: Identify_def Let_def less_Suc_eq_le split: if_splits)

lemma Identify_text: "Identify s = Some (KText, p) \<Longrightarrow> p = s \<and> (\<exists>c q. s = c # q \<and> c \<noteq> CHR ''<'')"
proof -
  assume i: "Identify s = Some (KText, p)"
  then obtain c q where s: "s = c # q" by (cases s) (auto simp: Identify_def SkipWhiteSpace_def)
  have "c \<noteq> CHR ''<''"
  proof
    assume "c = CHR ''<''"
    then have "SkipWhiteSpace s = s" by (simp add: s SkipWhiteSpace_def IsWhiteSpace_def is_space_def)
    then show False using i s \<open>c = _\<close> by (simp add: Identify_def Let_def split: if_splits)
  qed
  then show ?thesis using i s by (simp add: Identify_def Let_def split: if_splits)
qed

text \<open>A parser of single nodes that consumes something of every text from which a node is parsed.\<close>

definition progress :: "(kind \<Rightarrow> string \<Rightarrow> parsed) \<Rightarrow> bool" where
  "progress pn \<longleftrightarrow> (\<forall>s k p n e r. Identify s = Some (k, p) \<longrightarrow> pn k p = Node n e r \<longrightarrow> length r < length s)"

lemma progressD: "progress pn \<Longrightarrow> Identify s = Some (k, p) \<Longrightarrow> pn k p = Node n e r \<Longrightarrow> length r < length s"
  unfolding progress_def by blast

lemma nodes_Close: "progress pn \<Longrightarrow> nodes pn at k seen s = Close e r cs \<Longrightarrow> length r < length s"
proof (induction k arbitrary: seen s)
  case (Suc k)
  from Suc.prems(2) obtain kd p where i: "Identify s = Some (kd, p)" by (auto split: option.splits)
  from Suc.prems(2) i obtain n et q where n: "pn kd p = Node n et q" by (auto split: parsed.splits)
  have "length q < length s" by (rule progressD [OF Suc.prems(1) i n])
  then show ?case using Suc.prems i n Suc.IH [OF Suc.prems(1), of "seen @ [n]" q]
    by (auto split: verdict.splits)
qed simp

lemma nodes_fuel:
  "progress pn \<Longrightarrow> (\<And>k p. pn k p \<noteq> NoFuel) \<Longrightarrow> length s < k \<Longrightarrow> nodes pn at k seen s \<noteq> LevelFuel"
proof (induction k arbitrary: seen s)
  case (Suc k)
  have "nodes pn at k (seen @ [n]) r \<noteq> LevelFuel" if "Identify s = Some (kd, p)" "pn kd p = Node n et r" for kd p n et r
    using progressD [OF Suc.prems(1) that] Suc.prems by (intro Suc.IH) auto
  then show ?case using Suc.prems(2)
    by (auto split: option.splits parsed.splits verdict.splits)
qed simp

lemma ParseAttributes_shorter: "ParseAttributes ents ct attrs s = Attributes ct' attrs' r \<Longrightarrow> length r < length s"
proof (induction ents ct attrs s rule: ParseAttributes.induct)
  case (1 ents ct attrs s)
  let ?p = "SkipWhiteSpace s"
  have l: "length ?p \<le> length s" by (rule SkipWhiteSpace_length)
  show ?case
  proof (cases "?p \<noteq> [] \<and> IsNameStartChar (peek ?p)")
    case True
    with 1(2) obtain a q where a: "XMLAttribute_ParseDeep ents ?p = Some (a, q)"
      by (cases "XMLAttribute_ParseDeep ents ?p") (auto simp: ParseAttributes.simps [of ents ct attrs s] Let_def)
    with 1(2) True have f: "\<not> FindAttribute attrs (sp_str (fst a)) \<noteq> None"
      by (cases "FindAttribute attrs (sp_str (fst a)) \<noteq> None") (simp_all add: ParseAttributes.simps [of ents ct attrs s] Let_def)
    with a 1(2) True have q: "ParseAttributes ents ct (attrs @ [a]) q = Attributes ct' attrs' r"
      by (simp add: ParseAttributes.simps [of ents ct attrs s] Let_def)
    have "length r < length q" using 1(1) [OF refl _ _ a refl f q] True by simp
    then show ?thesis using XMLAttribute_shorter [OF a] l by linarith
  next
    case False
    then show ?thesis using 1(2) l
      by (subst (asm) ParseAttributes.simps) (cases ?p; auto simp: Let_def split: if_splits)
  qed
qed

definition shrinking :: "(string \<Rightarrow> level) \<Rightarrow> bool" where
  "shrinking f \<longleftrightarrow> (\<forall>s e r cs. f s = Close e r cs \<longrightarrow> length r < length s)"

lemma element_shorter:
  assumes "shrinking f" "XMLElement_ParseDeep f ents s = Node n e r"
  shows "length r \<le> length s"
proof -
  let ?p = "SkipWhiteSpace s"
  let ?q = "if peek ?p = CHR ''/'' then drop 1 ?p else ?p"
  obtain name p1 where n: "ParseName ?q = Some (name, p1)"
    using assms(2) by (auto simp: XMLElement_ParseDeep_def Let_def split: option.splits)
  then obtain ct attrs q where a: "ParseAttributes ents (if peek ?p = CHR ''/'' then CLOSING else OPEN) [] p1 = Attributes ct attrs q"
    using assms(2) by (auto simp: XMLElement_ParseDeep_def Let_def split: attributes.splits)
  have "length ?q \<le> length s" using SkipWhiteSpace_length [of s] by auto
  then have "length q \<le> length s" using ParseName_shorter [OF n] ParseAttributes_shorter [OF a] by linarith
  moreover have "length r \<le> length q"
    using assms n a by (auto simp: XMLElement_ParseDeep_def Let_def shrinking_def less_imp_le split: if_splits level.splits)
  ultimately show ?thesis by linarith
qed

lemma value_node_shorter: "parse_value_node mk tag fl err p = Node n e r \<Longrightarrow> length r \<le> length p"
  by (auto simp: parse_value_node_def split: option.splits dest: ParseText_shorter)

lemma text_shorter: "XMLText_ParseDeep d (c # p) = Node n e r \<Longrightarrow> c \<noteq> CHR ''<'' \<Longrightarrow> length r < length (c # p)"
  by (auto simp: XMLText_ParseDeep_def Let_def split: option.splits if_splits simp del: ParseText.simps dest!: ParseText_first)

lemma progress_node:
  assumes "shrinking f" shows "progress (node_ParseDeep f d)"
  unfolding progress_def
proof (intro allI impI)
  fix s k p n e r assume i: "Identify s = Some (k, p)" and n: "node_ParseDeep f d k p = Node n e r"
  show "length r < length s"
  proof (cases "k = KText")
    case True
    then show ?thesis using Identify_text i n text_shorter by (fastforce simp: node_ParseDeep_def)
  next
    case False
    have "length r \<le> length p" using n False
      by (cases k) (auto simp: node_ParseDeep_def dest: value_node_shorter element_shorter [OF assms])
    then show ?thesis using Identify_shorter [OF i False] by linarith
  qed
qed

lemma shrinking_level: "shrinking (XMLNode_ParseDeep n d at)"
proof (induction n arbitrary: at)
  case (Suc n)
  show ?case using nodes_Close [OF progress_node [OF Suc]] by (auto simp: shrinking_def simp del: nodes.simps)
qed (simp add: shrinking_def)

lemmas progress_level = progress_node [OF shrinking_level]

lemma node_fuel: "(\<And>s. f s \<noteq> LevelFuel) \<Longrightarrow> node_ParseDeep f d k p \<noteq> NoFuel"
  by (cases k) (auto simp: node_ParseDeep_def parse_value_node_def XMLText_ParseDeep_def XMLElement_ParseDeep_def Let_def
      split: option.splits attributes.splits level.splits)

text \<open>
  C16: the loop over the nodes ends on every text at every level, whether or not the text is well-formed:
  it never runs out of its fuel, which is the length of the text.
\<close>

theorem xml_parse_total:
  "XMLNode_ParseDeep n d at_document s \<noteq> LevelFuel"
proof (induction n arbitrary: at_document s)
  case (Suc n)
  show ?case by (simp add: nodes_fuel [OF progress_level node_fuel [OF Suc]] del: nodes.simps)
qed simp

section \<open>Conversion in place\<close>

lemma utf32_length: "length (ConvertUTF32ToUTF8 x) \<le> 4"
  by (simp add: ConvertUTF32ToUTF8_def Let_def)

lemma utf32_zero: "length (ConvertUTF32ToUTF8 0) = 1"
  by (simp add: ConvertUTF32ToUTF8_def Let_def)

lemma ref_fits:
  assumes "GetCharacterRef p = Some (t, r)" shows "length t + length r \<le> length p"
proof -
  let ?q = "drop 2 p"
  let ?t = "takeWhile (\<lambda>c. c \<noteq> CHR '';'') ?q"
  show ?thesis
  proof (cases "?q = []")
    case True
    then show ?thesis using assms by (auto simp: GetCharacterRef_def)
  next
    case False
    then obtain ucs where u: "?t \<noteq> ?q" "t = ConvertUTF32ToUTF8 ucs" "r = drop (Suc (length ?t)) ?q"
        "ref_value (peek ?q = CHR ''x'') 0 1 (takeWhile (\<lambda>c. c \<noteq> (if peek ?q = CHR ''x'' then CHR ''x'' else CHR ''#'')) (rev ?t)) = Some ucs"
      using assms by (auto simp: GetCharacterRef_def Let_def split: if_splits)
    have "length ?t < length ?q" using u(1) by (metis length_takeWhile_le linorder_neqE_nat not_less takeWhile_eq_take take_all)
    then have l: "length p = 3 + length ?t + length r" using u(3) False by auto
    have "length t \<le> 3 + length ?t"
    proof (cases "?t = []")
      case True
      then have "ucs = 0" using u(4) by simp
      then show ?thesis using u(2) utf32_zero by simp
    next
      case False
      then have "1 \<le> length ?t" by (simp add: Suc_le_eq)
      moreover have "length t \<le> 4" using u(2) utf32_length [of ucs] by simp
      ultimately show ?thesis by linarith
    qed
    then show ?thesis using l by linarith
  qed
qed

lemma entity_fits: "find_entity es p = Some (v, r) \<Longrightarrow> Suc (length r) \<le> Suc (length p)"
  using entity_drop by fastforce

lemma convert_fits: "length out + length p \<le> N \<Longrightarrow> length (convert ent nl orig p out) \<le> N"
proof (induction ent nl orig p out rule: convert.induct)
  case (2 ent nl orig c p out)
  have l: "length out + Suc (length p) \<le> N" using "2.prems" by simp
  have a: "length t + length r \<le> Suc (length p)" if "GetCharacterRef (c # p) = Some (t, r)" for t r
    using ref_fits [OF that] by simp
  have b: "length r \<le> length p" if "find_entity entities p = Some (v, r)" for v r
    using entity_drop [OF that] .
  show ?case
  proof (cases "nl \<and> (c = CHR 0x0D \<or> c = CHR 0x0A)")
    case True
    then show ?thesis using l "2.IH"(1,2) by (cases "c = CHR 0x0D") auto
  next
    case nl: False
    show ?thesis
    proof (cases "ent \<and> c = CHR ''&''")
      case False
      then show ?thesis using nl l "2.IH"(7) by auto
    next
      case True
      show ?thesis
      proof (cases "peek p = CHR ''#''")
        case hash: True
        show ?thesis
        proof (cases "GetCharacterRef (c # p)")
          case None
          then show ?thesis using nl True hash l "2.IH"(3) by simp
        next
          case (Some x)
          obtain t r where x: "x = (t, r)" by fastforce
          have L: "length (out @ t) + length r \<le> N" using a [of t r] Some x l by simp
          have "convert ent nl orig (c # p) out = convert ent nl orig r (out @ t)" using True hash Some x by simp
          moreover have "length (convert ent nl orig r (out @ t)) \<le> N"
            using True hash by (intro "2.IH"(4) [OF _ _ True hash Some x [symmetric] L]) simp_all
          ultimately show ?thesis by simp
        qed
      next
        case False
        show ?thesis
        proof (cases "find_entity entities p")
          case None
          then show ?thesis using True False l "2.IH"(5) by simp
        next
          case (Some x)
          obtain v r where x: "x = (v, r)" by fastforce
          have L: "length (out @ [v]) + length r \<le> N" using b [of v r] Some x l by simp
          have "convert ent nl orig (c # p) out = convert ent nl orig r (out @ [v])" using True False Some x by simp
          moreover have "length (convert ent nl orig r (out @ [v])) \<le> N"
            using True by (intro "2.IH"(6) [OF _ _ True False Some x [symmetric] L]) simp_all
          ultimately show ?thesis by simp
        qed
      qed
    qed
  qed
qed simp

lemma collapse_length: "length (collapse s) \<le> length s"
proof (induction s rule: collapse.induct)
  case (2 c p)
  then show ?case using SkipWhiteSpace_length [of p] by (cases "IsWhiteSpace c"; cases "SkipWhiteSpace p = []") simp_all
qed simp

lemma c_str_length: "length (c_str s) \<le> length s"
  by (simp add: c_str_def length_takeWhile_le)

text \<open>
  C23: reading a string converts it in place: whatever entities, references and line ends it contains,
  the result is not longer than the part of the text it replaces, so the byte behind it is the last one written.
\<close>

theorem xml_convert_in_place:
  "length (sp_text (GetStr sp)) \<le> length (sp_text sp)"
proof -
  have "length (convert ent nl (sp_text sp) (sp_text sp) []) \<le> length (sp_text sp)" for ent nl
    by (rule convert_fits) simp
  moreover have "length (CollapseWhitespace (c_str t)) \<le> length t" for t
    using collapse_length [of "SkipWhiteSpace (c_str t)"] SkipWhiteSpace_length [of "c_str t"] c_str_length [of t]
    unfolding CollapseWhitespace_def by linarith
  ultimately show ?thesis
    unfolding GetStr_def Let_def by (auto intro: order_trans)
qed

section \<open>Accepted documents\<close>

definition valid_name :: "string \<Rightarrow> bool" where
  "valid_name s \<longleftrightarrow> s \<noteq> [] \<and> IsNameStartChar (hd s) \<and> list_all IsNameChar s"

text \<open>The number of start tags that are open at the deepest point.\<close>

fun height :: "xnode \<Rightarrow> nat" where
  "height (XMLElement name ct attrs cs) = (if ct = OPEN then Suc (fold max (map height cs) 0) else 0)"
| "height _ = 0"

fun wf_node :: "xnode \<Rightarrow> bool" where
  "wf_node (XMLElement name ct attrs cs) \<longleftrightarrow>
     valid_name (sp_str name) \<and> ct \<noteq> CLOSING \<and> (ct = CLOSED \<longrightarrow> cs = []) \<and>
     (\<forall>a \<in> set attrs. valid_name (sp_str (fst a))) \<and> distinct (map (\<lambda>a. sp_str (fst a)) attrs) \<and>
     (\<forall>c \<in> set cs. wf_node c \<and> \<not> is_declaration c)"
| "wf_node _ \<longleftrightarrow> True"

text \<open>The declarations come first.\<close>

definition wf_doc :: "xnode list \<Rightarrow> bool" where
  "wf_doc ns \<longleftrightarrow> (\<forall>n \<in> set ns. wf_node n) \<and> (\<forall>n \<in> set (dropWhile is_declaration ns). \<not> is_declaration n)"

lemma name_no_zero: "list_all IsNameChar s \<Longrightarrow> c_str s = s"
proof -
  assume "list_all IsNameChar s"
  then have "CHR 0x00 \<notin> set s"
    by (auto simp: list_all_iff IsNameChar_def IsNameStartChar_def is_alpha_def is_digit_def)
  then show ?thesis by (simp add: c_str_def takeWhile_eq_all_conv) (metis)
qed

lemma sp_str_name: "list_all IsNameChar s \<Longrightarrow> sp_str (sp_Set s 0) = s"
  by (simp add: sp_str_def sp_Set_def GetStr_def flag_defs name_no_zero)

lemma takeWhile_name: "x \<in> set (takeWhile IsNameChar s) \<Longrightarrow> IsNameChar x"
  by (rule set_takeWhileD [THEN conjunct2])

lemma ParseName_valid: "ParseName p = Some (t, r) \<Longrightarrow> valid_name t \<and> p = t @ r"
proof (cases p)
  case (Cons c q)
  assume "ParseName p = Some (t, r)"
  then have "IsNameStartChar c" "t = c # takeWhile IsNameChar q" "r = dropWhile IsNameChar q"
    using Cons by (auto simp: ParseName_def Let_def dropWhile_eq_drop split: if_splits)
  then show ?thesis using Cons takeWhile_name by (auto simp: valid_name_def list_all_iff IsNameChar_def [of c])
qed (simp add: ParseName_def)

lemma XMLAttribute_valid: "XMLAttribute_ParseDeep ents p = Some (a, r) \<Longrightarrow> valid_name (sp_str (fst a))"
  by (auto simp: XMLAttribute_ParseDeep_def Let_def sp_str_name valid_name_def split: option.splits if_splits
      dest!: ParseName_valid)

lemma ParseAttributes_valid:
  "ParseAttributes ents ct attrs s = Attributes ct' attrs' r \<Longrightarrow> \<forall>a \<in> set attrs. valid_name (sp_str (fst a)) \<Longrightarrow>
   distinct (map (\<lambda>a. sp_str (fst a)) attrs) \<Longrightarrow>
   (\<forall>a \<in> set attrs'. valid_name (sp_str (fst a))) \<and> distinct (map (\<lambda>a. sp_str (fst a)) attrs') \<and> ct' \<in> {ct, CLOSED}"
proof (induction ents ct attrs s rule: ParseAttributes.induct)
  case (1 ents ct attrs s)
  let ?p = "SkipWhiteSpace s"
  show ?case
  proof (cases "?p \<noteq> [] \<and> IsNameStartChar (peek ?p)")
    case True
    with 1(2) obtain a q where a: "XMLAttribute_ParseDeep ents ?p = Some (a, q)"
      by (cases "XMLAttribute_ParseDeep ents ?p") (auto simp: ParseAttributes.simps [of ents ct attrs s] Let_def)
    with 1(2) True have f: "\<not> FindAttribute attrs (sp_str (fst a)) \<noteq> None"
      by (cases "FindAttribute attrs (sp_str (fst a)) \<noteq> None") (simp_all add: ParseAttributes.simps [of ents ct attrs s] Let_def)
    with a 1(2) True have q: "ParseAttributes ents ct (attrs @ [a]) q = Attributes ct' attrs' r"
      by (simp add: ParseAttributes.simps [of ents ct attrs s] Let_def)
    have "sp_str (fst a) \<notin> sp_str ` fst ` set attrs" using f by (auto simp: FindAttribute_def find_None_iff)
    then show ?thesis using 1(1) [OF refl _ _ a refl f q] True 1(3,4) XMLAttribute_valid [OF a]
      by (auto simp: image_image)
  next
    case False
    then show ?thesis using 1(2-4)
      by (auto simp: ParseAttributes.simps [of ents ct attrs s] Let_def split: if_splits)
  qed
qed

text \<open>What holds for each node that is inserted holds for all the nodes of a level.\<close>

fun level_nodes :: "level \<Rightarrow> xnode list" where
  "level_nodes (Close e r cs) = cs"
| "level_nodes (End cs) = cs"
| "level_nodes (Error e) = []"
| "level_nodes LevelFuel = []"

lemma nodes_step:
  "level_nodes (nodes pn at (Suc k) seen s) = [] \<or> level_nodes (nodes pn at (Suc k) seen s) = seen \<or>
   (\<exists>kd p n e r. pn kd p = Node n e r \<and> check_node at seen n e = Insert \<and>
      nodes pn at (Suc k) seen s = nodes pn at k (seen @ [n]) r)"
  by (fastforce split: option.splits parsed.splits verdict.splits)

lemma nodes_all:
  assumes "\<And>kd p n e r seen. pn kd p = Node n e r \<Longrightarrow> check_node at seen n e = Insert \<Longrightarrow> Q n"
  shows "\<forall>n \<in> set seen. Q n \<Longrightarrow> \<forall>n \<in> set (level_nodes (nodes pn at k seen s)). Q n"
proof (induction k arbitrary: seen s)
  case (Suc k)
  from nodes_step [of pn at k seen s] show ?case
  proof (elim disjE exE conjE)
    fix kd p n e r assume "pn kd p = Node n e r" "check_node at seen n e = Insert"
      and eq: "nodes pn at (Suc k) seen s = nodes pn at k (seen @ [n]) r"
    then have "\<forall>x \<in> set (seen @ [n]). Q x" using Suc.prems assms by simp
    then show ?thesis unfolding eq by (rule Suc.IH)
  qed (use Suc.prems in \<open>simp_all del: nodes.simps\<close>)
qed simp

lemma nodes_prefix:
  assumes "\<And>kd p n e r seen. pn kd p = Node n e r \<Longrightarrow> check_node at seen n e = Insert \<Longrightarrow>
    is_declaration n \<Longrightarrow> list_all is_declaration seen"
  shows "\<forall>n \<in> set (dropWhile is_declaration seen). \<not> is_declaration n \<Longrightarrow>
    \<forall>n \<in> set (dropWhile is_declaration (level_nodes (nodes pn at k seen s))). \<not> is_declaration n"
proof (induction k arbitrary: seen s)
  case (Suc k)
  from nodes_step [of pn at k seen s] show ?case
  proof (elim disjE exE conjE)
    fix kd p n e r assume n: "pn kd p = Node n e r" "check_node at seen n e = Insert"
      and eq: "nodes pn at (Suc k) seen s = nodes pn at k (seen @ [n]) r"
    have "\<forall>x \<in> set (dropWhile is_declaration (seen @ [n])). \<not> is_declaration x"
    proof (cases "list_all is_declaration seen")
      case True
      then have "dropWhile is_declaration (seen @ [n]) = dropWhile is_declaration [n]"
        by (intro dropWhile_append2) (simp add: list_all_iff)
      then show ?thesis by simp
    next
      case False
      then obtain x where "x \<in> set seen" "\<not> is_declaration x" by (auto simp: list_all_iff)
      then have "dropWhile is_declaration (seen @ [n]) = dropWhile is_declaration seen @ [n]"
        by (rule dropWhile_append1)
      then have S: "set (dropWhile is_declaration (seen @ [n])) = insert n (set (dropWhile is_declaration seen))" by simp
      have "\<not> is_declaration n" using assms [OF n] False by blast
      then show ?thesis unfolding S using Suc.prems by blast
    qed
    then show ?thesis unfolding eq by (rule Suc.IH)
  next
    assume h: "level_nodes (nodes pn at (Suc k) seen s) = []"
    show ?thesis unfolding h by simp
  next
    assume h: "level_nodes (nodes pn at (Suc k) seen s) = seen"
    show ?thesis unfolding h by (rule Suc.prems)
  qed
qed simp

lemma check_decl: "check_node at seen n e = Insert \<Longrightarrow> is_declaration n \<Longrightarrow> at \<and> list_all is_declaration seen"
  by (cases n) (auto split: if_splits)

lemma element_wf:
  assumes f: "\<And>s c. c \<in> set (level_nodes (f s)) \<Longrightarrow> wf_node c \<and> \<not> is_declaration c"
    and n: "XMLElement_ParseDeep f ents s = Node n e r" and c: "check_node at seen n e = Insert"
  shows "wf_node n"
proof -
  let ?p = "SkipWhiteSpace s"
  let ?c = "peek ?p = CHR ''/''"
  obtain name p1 where p1: "ParseName (if ?c then drop 1 ?p else ?p) = Some (name, p1)"
    using n by (auto simp: XMLElement_ParseDeep_def Let_def split: option.splits)
  obtain ct attrs q where a: "ParseAttributes ents (if ?c then CLOSING else OPEN) [] p1 = Attributes ct attrs q"
    using n p1 by (auto simp: XMLElement_ParseDeep_def Let_def split: attributes.splits)
  obtain cs where cs: "n = XMLElement (sp_Set name 0) ct attrs cs" "cs = [] \<or> ct = OPEN \<and> (\<exists>t q. f q = Close t r cs)"
    using n p1 a by (fastforce simp: XMLElement_ParseDeep_def Let_def split: if_splits level.splits)
  have "ct \<noteq> CLOSING" using c cs(1) by (auto split: if_splits)
  moreover have "valid_name (sp_str (sp_Set name 0))"
    using ParseName_valid [OF p1] by (simp add: valid_name_def sp_str_name)
  moreover have "\<forall>c \<in> set cs. wf_node c \<and> \<not> is_declaration c" 
  proof
    fix c assume c: "c \<in> set cs"
    then obtain t q where "f q = Close t r cs" using cs(2) by auto
    then have "level_nodes (f q) = cs" by simp
    then show "wf_node c \<and> \<not> is_declaration c" using f c by blast
  qed
  ultimately show ?thesis using ParseAttributes_valid [OF a] cs by auto
qed

lemma node_wf:
  assumes f: "\<And>s c. c \<in> set (level_nodes (f s)) \<Longrightarrow> wf_node c \<and> \<not> is_declaration c"
    and n: "node_ParseDeep f d kd p = Node n e r" and c: "check_node at seen n e = Insert"
  shows "wf_node n"
proof (cases kd)
  case KElement
  then show ?thesis using element_wf [OF f _ c] n by (simp add: node_ParseDeep_def)
qed (use n in \<open>auto simp: node_ParseDeep_def parse_value_node_def XMLText_ParseDeep_def Let_def split: option.splits if_splits\<close>)

lemma level_wf: "c \<in> set (level_nodes (XMLNode_ParseDeep m d at s)) \<Longrightarrow> wf_node c \<and> (is_declaration c \<longrightarrow> at)"
proof (induction m arbitrary: at s c)
  case (Suc m)
  have "wf_node n \<and> (is_declaration n \<longrightarrow> at)"
    if "node_ParseDeep (XMLNode_ParseDeep m d False) d kd p = Node n e r" "check_node at seen n e = Insert" for kd p n e r seen
    using node_wf [OF _ that] Suc.IH [of _ False] check_decl [OF that(2)] by blast
  then have "\<forall>n \<in> set (level_nodes (nodes (node_ParseDeep (XMLNode_ParseDeep m d False) d) at (Suc (length s)) [] s)).
      wf_node n \<and> (is_declaration n \<longrightarrow> at)"
    by (intro nodes_all) (blast, simp)
  then show ?case using Suc.prems unfolding XMLNode_ParseDeep.simps by blast
qed simp

lemma fold_max: "fold max xs (y :: nat) \<le> N \<longleftrightarrow> (y \<le> N \<and> (\<forall>x \<in> set xs. x \<le> N))"
  by (induction xs arbitrary: y) auto

lemma element_height:
  assumes f: "\<And>s c. c \<in> set (level_nodes (f s)) \<Longrightarrow> Suc (height c) \<le> m"
    and z: "m = 0 \<Longrightarrow> (\<And>s. f s = Error XML_ELEMENT_DEPTH_EXCEEDED)"
    and n: "XMLElement_ParseDeep f ents s = Node n e r" and c: "check_node at seen n e = Insert"
  shows "height n \<le> m"
proof -
  let ?p = "SkipWhiteSpace s"
  let ?c = "peek ?p = CHR ''/''"
  obtain name p1 where p1: "ParseName (if ?c then drop 1 ?p else ?p) = Some (name, p1)"
    using n by (auto simp: XMLElement_ParseDeep_def Let_def split: option.splits)
  obtain ct attrs q where a: "ParseAttributes ents (if ?c then CLOSING else OPEN) [] p1 = Attributes ct attrs q"
    using n p1 by (auto simp: XMLElement_ParseDeep_def Let_def split: attributes.splits)
  show ?thesis
  proof (cases "ct = OPEN \<and> q \<noteq> []")
    case False
    then show ?thesis using n p1 a c by (auto simp: XMLElement_ParseDeep_def Let_def sp_Empty_def split: if_splits)
  next
    case True
    then obtain endTag cs where f': "f q = Close endTag r cs" "n = XMLElement (sp_Set name 0) ct attrs cs"
      using n p1 a by (auto simp: XMLElement_ParseDeep_def Let_def split: if_splits level.splits)
    then obtain k where k: "m = Suc k" using z [of q] by (cases m) auto
    have "\<forall>c \<in> set cs. height c \<le> k" using f [of _ q] f'(1) k by simp
    then have "fold max (map height cs) 0 \<le> k" by (simp add: fold_max)
    then show ?thesis using f'(2) k by simp
  qed
qed

lemma level_height: "c \<in> set (level_nodes (XMLNode_ParseDeep m d at s)) \<Longrightarrow> Suc (height c) \<le> m"
proof (induction m arbitrary: at s c)
  case (Suc m)
  let ?f = "XMLNode_ParseDeep m d False"
  have "Suc (height n) \<le> Suc m"
    if n: "node_ParseDeep ?f d kd p = Node n e r" and c: "check_node at seen n e = Insert" for kd p n e r seen
  proof (cases kd)
    case KElement
    then have "XMLElement_ParseDeep ?f (processEntities d) p = Node n e r" using n by (simp add: node_ParseDeep_def)
    from element_height [OF _ _ this c, of m] Suc.IH [of _ False] have "height n \<le> m" by (cases m) auto
    then show ?thesis by simp
  qed (use n in \<open>auto simp: node_ParseDeep_def parse_value_node_def XMLText_ParseDeep_def Let_def split: option.splits if_splits\<close>)
  then have "\<forall>n \<in> set (level_nodes (nodes (node_ParseDeep ?f d) at (Suc (length s)) [] s)). Suc (height n) \<le> Suc m"
    by (intro nodes_all) (blast, simp)
  then show ?case using Suc.prems by (simp del: nodes.simps)
qed simp

lemma parse_level: "XMLDocument_Parse d s = Inr ns \<Longrightarrow> \<exists>p. ns = level_nodes (XMLNode_ParseDeep 99 d True p)"
  by (auto simp: XMLDocument_Parse_def TINYXML2_MAX_ELEMENT_DEPTH_def Let_def
      intro!: exI [of _ "ReadBOM (SkipWhiteSpace s)"] split: if_splits level.splits simp del: XMLNode_ParseDeep.simps)

text \<open>
  C15: a document that the parser accepts is well-formed: element and attribute names are names, no element has
  two attributes of one name, an element that closes itself has no children, no end tag is left among the nodes, declarations
  are at the beginning of the document only, and at most 98 start tags are open at any point.
\<close>

theorem xml_accepted:
  assumes "XMLDocument_Parse d s = Inr ns"
  shows "wf_doc ns \<and> (\<forall>n \<in> set ns. height n \<le> 98)"
proof -
  obtain p where p: "ns = level_nodes (XMLNode_ParseDeep 99 d True p)" using parse_level [OF assms] by blast
  have "\<forall>n \<in> set (dropWhile is_declaration ns). \<not> is_declaration n"
    using nodes_prefix [of "node_ParseDeep (XMLNode_ParseDeep 98 d False) d" True "[]" "Suc (length p)" p] check_decl
    unfolding p by (fastforce simp: numeral_eq_Suc simp del: nodes.simps)
  moreover have "wf_node n \<and> height n \<le> 98" if "n \<in> set ns" for n
    using level_wf [of n 99 d True p] level_height [of n 99 d True p] that unfolding p by (simp del: XMLNode_ParseDeep.simps)
  ultimately show ?thesis by (simp add: wf_doc_def)
qed

lemma level_99: "XMLNode_ParseDeep 99 d at s = nodes (node_ParseDeep (XMLNode_ParseDeep 98 d False) d) at (Suc (length s)) [] s"
  using XMLNode_ParseDeep.simps(2) [of 98] by (simp del: XMLNode_ParseDeep.simps nodes.simps)

lemmas xml_eval = XMLDocument_Parse_def TINYXML2_MAX_ELEMENT_DEPTH_def default_doc_def ReadBOM_def SkipWhiteSpace_def
  IsWhiteSpace_def IsUTF8Continuation_def is_space_def Identify_def node_ParseDeep_def XMLElement_ParseDeep_def ParseName_def
  IsNameStartChar_def IsNameChar_def is_alpha_def is_digit_def ParseAttributes.simps sp_Empty_def level_99

lemma small_document: "XMLDocument_Parse default_doc ''<a/>'' = Inr [XMLElement (sp_Set ''a'' 0) CLOSED [] []]"
  by (simp add: xml_eval del: XMLNode_ParseDeep.simps)

theorem xml_accepted_witness:
  "wf_doc [XMLElement (sp_Set ''a'' 0) CLOSED [] []] \<and> height (XMLElement (sp_Set ''a'' 0) CLOSED [] []) \<le> 98"
  using xml_accepted [OF small_document] by simp

end
