(* ===== verification/TinyXmlPrint.thy ===== *)
theory TinyXmlPrint
  imports XmlProofs
begin

text \<open>
  \<open>XMLPrinter\<close> of \<open>tinyxml2.cpp\<close>: printing a document to the printer's buffer, and the round trip of printing and
  parsing.
\<close>

section \<open>The printer\<close>

text \<open>The buffer without its terminating zero; the depths are the ones of the class.\<close>

record printer =
  buffer :: string
  elementJustOpened :: bool
  firstElement :: bool
  stack :: "string list"
  depth :: int
  textDepth :: int
  printEntities :: bool
  compactMode :: bool

definition XMLPrinter :: "bool \<Rightarrow> int \<Rightarrow> printer" where
  "XMLPrinter compact d = \<lparr>buffer = [], elementJustOpened = False, firstElement = True, stack = [], depth = d,
     textDepth = -1, printEntities = True, compactMode = compact\<rparr>"

definition pWrite :: "string \<Rightarrow> printer \<Rightarrow> printer" where
  "pWrite data p = p\<lparr>buffer := buffer p @ data\<rparr>"

definition Putc :: "char \<Rightarrow> printer \<Rightarrow> printer" where
  "Putc ch p = p\<lparr>buffer := buffer p @ [ch]\<rparr>"

definition PrintSpace :: "int \<Rightarrow> printer \<Rightarrow> printer" where
  "PrintSpace d = (pWrite ''    '' ^^ nat d)"

text \<open>The entity of a character, with \<open>restricted\<close> only of the three that a text may not contain.\<close>

definition entity_flag :: "bool \<Rightarrow> char \<Rightarrow> bool" where
  "entity_flag restricted q \<longleftrightarrow> (if restricted then q \<in> {CHR ''&'', CHR ''<'', CHR ''>''} else q \<in> snd ` set entities)"

definition print_char :: "bool \<Rightarrow> char \<Rightarrow> string" where
  "print_char restricted q =
     (if entity_flag restricted q
      then (case find (\<lambda>en. snd en = q) entities of None \<Rightarrow> [] | Some en \<Rightarrow> ''&'' @ fst en @ '';'')
      else [q])"

definition PrintString :: "string \<Rightarrow> bool \<Rightarrow> printer \<Rightarrow> printer" where
  "PrintString s restricted p = pWrite (if printEntities p then concat (map (print_char restricted) s) else s) p"

definition SealElementIfJustOpened :: "printer \<Rightarrow> printer" where
  "SealElementIfJustOpened p = (if elementJustOpened p then Putc (CHR ''>'') (p\<lparr>elementJustOpened := False\<rparr>) else p)"

definition OpenElement :: "string \<Rightarrow> bool \<Rightarrow> printer \<Rightarrow> printer" where
  "OpenElement name compact p0 =
     (let p1 = SealElementIfJustOpened p0;
          p2 = p1\<lparr>stack := name # stack p1\<rparr>;
          p3 = (if textDepth p2 < 0 \<and> \<not> firstElement p2 \<and> \<not> compact then Putc (CHR 0x0A) p2 else p2);
          p4 = (if \<not> compact then PrintSpace (depth p3) p3 else p3);
          p5 = pWrite name (pWrite ''<'' p4)
      in p5\<lparr>elementJustOpened := True, firstElement := False, depth := depth p5 + 1\<rparr>)"

definition PushAttribute :: "string \<Rightarrow> string \<Rightarrow> printer \<Rightarrow> printer" where
  "PushAttribute name v p = Putc (CHR 0x22) (PrintString v False (pWrite [CHR ''='', CHR 0x22] (pWrite name (Putc (CHR '' '') p))))"

definition CloseElement :: "bool \<Rightarrow> printer \<Rightarrow> printer" where
  "CloseElement compact p0 =
     (let p1 = p0\<lparr>depth := depth p0 - 1\<rparr>;
          name = hd (stack p1);
          p2 = p1\<lparr>stack := tl (stack p1)\<rparr>;
          p3 = (if elementJustOpened p2 then pWrite ''/>'' p2
                else pWrite ''>'' (pWrite name (pWrite ''</''
                  (if textDepth p2 < 0 \<and> \<not> compact then PrintSpace (depth p2) (Putc (CHR 0x0A) p2) else p2))));
          p4 = (if textDepth p3 = depth p3 then p3\<lparr>textDepth := -1\<rparr> else p3);
          p5 = (if depth p4 = 0 \<and> \<not> compact then Putc (CHR 0x0A) p4 else p4)
      in p5\<lparr>elementJustOpened := False\<rparr>)"

definition PushText :: "string \<Rightarrow> bool \<Rightarrow> printer \<Rightarrow> printer" where
  "PushText text cdata p0 =
     (let p1 = SealElementIfJustOpened (p0\<lparr>textDepth := depth p0 - 1\<rparr>)
      in if cdata then pWrite '']]>'' (pWrite text (pWrite ''<![CDATA['' p1)) else PrintString text True p1)"

text \<open>The line break and the indentation before a comment, a declaration and an unknown node.\<close>

definition push_line :: "printer \<Rightarrow> printer" where
  "push_line p0 =
     (let p1 = SealElementIfJustOpened p0;
          p2 = (if textDepth p1 < 0 \<and> \<not> firstElement p1 \<and> \<not> compactMode p1
                then PrintSpace (depth p1) (Putc (CHR 0x0A) p1) else p1)
      in p2\<lparr>firstElement := False\<rparr>)"

definition PushComment :: "string \<Rightarrow> printer \<Rightarrow> printer" where
  "PushComment comment p = pWrite ''-->'' (pWrite comment (pWrite ''<!--'' (push_line p)))"

definition PushDeclaration :: "string \<Rightarrow> printer \<Rightarrow> printer" where
  "PushDeclaration v p = pWrite ''?>'' (pWrite v (pWrite ''<?'' (push_line p)))"

definition PushHeader :: "bool \<Rightarrow> bool \<Rightarrow> printer \<Rightarrow> printer" where
  "PushHeader writeBOM writeDec p0 =
     (let p1 = (if writeBOM then pWrite [CHR 0xEF, CHR 0xBB, CHR 0xBF] p0 else p0)
      in if writeDec then PushDeclaration (''xml version='' @ [CHR 0x22] @ ''1.0'' @ [CHR 0x22]) p1 else p1)"

definition PushUnknown :: "string \<Rightarrow> printer \<Rightarrow> printer" where
  "PushUnknown v p = Putc (CHR ''>'') (pWrite v (pWrite ''<!'' (push_line p)))"

text \<open>\<open>Accept\<close> of the nodes, with the printer as the visitor.\<close>

fun Accept :: "xnode \<Rightarrow> printer \<Rightarrow> printer"
  and Accept_children :: "xnode list \<Rightarrow> printer \<Rightarrow> printer" where
  "Accept (XMLDeclaration v) p = PushDeclaration (sp_str v) p"
| "Accept (XMLComment v) p = PushComment (sp_str v) p"
| "Accept (XMLText cdata v) p = PushText (sp_str v) cdata p"
| "Accept (XMLUnknown v) p = PushUnknown (sp_str v) p"
| "Accept (XMLElement name ct attrs cs) p =
     CloseElement (compactMode p)
       (Accept_children cs
         (fold (\<lambda>(n, v). PushAttribute (sp_str n) (sp_str v)) attrs (OpenElement (sp_str name) (compactMode p) p)))"
| "Accept_children [] p = p"
| "Accept_children (n # ns) p = Accept_children ns (Accept n p)"

text \<open>\<open>XMLDocument::Print\<close> into a new printer.\<close>

definition XMLDocument_Print :: "xdoc \<Rightarrow> bool \<Rightarrow> bool \<Rightarrow> xnode list \<Rightarrow> string" where
  "XMLDocument_Print d hasBOM compact ns =
     buffer (Accept_children ns (PushHeader hasBOM False ((XMLPrinter compact 0)\<lparr>printEntities := processEntities d\<rparr>)))"

section \<open>The text in compact mode\<close>

definition attr_text :: "strpair \<times> strpair \<Rightarrow> string" where
  "attr_text a = '' '' @ sp_str (fst a) @ [CHR ''='', CHR 0x22] @ concat (map (print_char False) (sp_str (snd a))) @ [CHR 0x22]"

fun node_text :: "xnode \<Rightarrow> string" where
  "node_text (XMLDeclaration v) = ''<?'' @ sp_str v @ ''?>''"
| "node_text (XMLComment v) = ''<!--'' @ sp_str v @ ''-->''"
| "node_text (XMLText cdata v) =
     (if cdata then ''<![CDATA['' @ sp_str v @ '']]>'' else concat (map (print_char True) (sp_str v)))"
| "node_text (XMLUnknown v) = ''<!'' @ sp_str v @ ''>''"
| "node_text (XMLElement name ct attrs cs) =
     ''<'' @ sp_str name @ concat (map attr_text attrs) @
     (if cs = [] then ''/>'' else ''>'' @ concat (map node_text cs) @ ''</'' @ sp_str name @ ''>'')"

definition sealing :: "printer \<Rightarrow> string" where
  "sealing p = (if elementJustOpened p then ''>'' else [])"

lemma Seal_simps:
  "buffer (SealElementIfJustOpened p) = buffer p @ sealing p" "elementJustOpened (SealElementIfJustOpened p) = False"
  "stack (SealElementIfJustOpened p) = stack p" "compactMode (SealElementIfJustOpened p) = compactMode p"
  "printEntities (SealElementIfJustOpened p) = printEntities p"
  by (simp_all add: SealElementIfJustOpened_def Putc_def sealing_def)

lemma attributes_text:
  "fold (\<lambda>(n, v). PushAttribute (sp_str n) (sp_str v)) attrs p =
     (if printEntities p then p\<lparr>buffer := buffer p @ concat (map attr_text attrs)\<rparr>
      else fold (\<lambda>(n, v). PushAttribute (sp_str n) (sp_str v)) attrs p)"
proof -
  have "printEntities p \<Longrightarrow> fold (\<lambda>(n, v). PushAttribute (sp_str n) (sp_str v)) attrs p =
      p\<lparr>buffer := buffer p @ concat (map attr_text attrs)\<rparr>"
    by (induction attrs arbitrary: p)
      (auto simp: PushAttribute_def PrintString_def pWrite_def Putc_def attr_text_def)
  then show ?thesis by simp
qed

lemma Accept_text:
  "printEntities p \<Longrightarrow> compactMode p \<Longrightarrow>
     buffer (Accept n p) = buffer p @ sealing p @ node_text n \<and> \<not> elementJustOpened (Accept n p) \<and>
     stack (Accept n p) = stack p \<and> printEntities (Accept n p) \<and> compactMode (Accept n p)"
  "printEntities p \<Longrightarrow> compactMode p \<Longrightarrow>
     buffer (Accept_children ns p) = buffer p @ (if ns = [] then [] else sealing p @ concat (map node_text ns)) \<and>
     elementJustOpened (Accept_children ns p) = (elementJustOpened p \<and> ns = []) \<and>
     stack (Accept_children ns p) = stack p \<and> printEntities (Accept_children ns p) \<and> compactMode (Accept_children ns p)"
proof (induction n p and ns p rule: Accept_Accept_children.induct)
  case (5 name ct attrs cs p)
  let ?p1 = "OpenElement (sp_str name) True p"
  have p1: "buffer ?p1 = buffer p @ sealing p @ ''<'' @ sp_str name" "elementJustOpened ?p1" "stack ?p1 = sp_str name # stack p"
      "printEntities ?p1" "compactMode ?p1"
    using 5(2,3) by (simp_all add: OpenElement_def Let_def Seal_simps pWrite_def)
  let ?p2 = "fold (\<lambda>(n, v). PushAttribute (sp_str n) (sp_str v)) attrs ?p1"
  have p2: "?p2 = ?p1\<lparr>buffer := buffer ?p1 @ concat (map attr_text attrs)\<rparr>"
    using attributes_text [of attrs ?p1] p1(4) by simp
  have "buffer (Accept_children cs ?p2) = buffer ?p2 @ (if cs = [] then [] else ''>'' @ concat (map node_text cs)) \<and>
      elementJustOpened (Accept_children cs ?p2) = (cs = []) \<and>
     stack (Accept_children cs ?p2) = stack ?p2 \<and> printEntities (Accept_children cs ?p2) \<and> compactMode (Accept_children cs ?p2)"
    using 5(1) 5(3) p1 by (simp add: p2 sealing_def)
  then show ?case using p1 5(3) by (simp add: CloseElement_def Let_def pWrite_def p2)
next
  case (7 n ns p)
  then show ?case by (auto simp: sealing_def)
qed (simp_all add: PushDeclaration_def PushComment_def PushText_def PushUnknown_def push_line_def PrintString_def pWrite_def
    Putc_def Let_def Seal_simps sealing_def)

end
