(* ===== verification/XmlTree.thy ===== *)
theory XmlTree
  imports TinyXmlPrint
begin

text \<open>
  Whole XML documents: the compact text that the printer gives for a document is parsed back to the same document.
\<close>

section \<open>Documents that a text can express\<close>

text \<open>
  A comment must not contain the end of comments, a text must not be blank, and two texts cannot stand side by side. A
  carriage return is read as a line feed.
\<close>

definition ends :: "string \<Rightarrow> string \<Rightarrow> bool" where
  "ends endTag v \<longleftrightarrow> ParseText endTag (v @ endTag) = Some (v, [])"

definition no_cr :: "string \<Rightarrow> bool" where
  "no_cr v \<longleftrightarrow> CHR 0x0D \<notin> set v"

fun is_plain :: "xnode \<Rightarrow> bool" where
  "is_plain (XMLText cdata v) \<longleftrightarrow> \<not> cdata"
| "is_plain _ \<longleftrightarrow> False"

fun separated :: "xnode list \<Rightarrow> bool" where
  "separated (m # n # ns) \<longleftrightarrow> \<not> (is_plain m \<and> is_plain n) \<and> separated (n # ns)"
| "separated _ \<longleftrightarrow> True"

fun printable :: "xnode \<Rightarrow> bool" where
  "printable (XMLDeclaration v) \<longleftrightarrow> ends ''?>'' (sp_str v) \<and> no_cr (sp_str v)"
| "printable (XMLComment v) \<longleftrightarrow> ends ''-->'' (sp_str v) \<and> no_cr (sp_str v)"
| "printable (XMLText cdata v) \<longleftrightarrow> no_cr (sp_str v) \<and>
     (if cdata then ends '']]>'' (sp_str v) else list_ex (\<lambda>c. \<not> IsWhiteSpace c) (sp_str v))"
| "printable (XMLUnknown v) \<longleftrightarrow> ends ''>'' (sp_str v) \<and> no_cr (sp_str v) \<and> take 2 (sp_str v) \<noteq> ''--'' \<and>
     take 7 (sp_str v) \<noteq> ''[CDATA[''"
| "printable (XMLElement name ct attrs cs) \<longleftrightarrow>
     valid_name (sp_str name) \<and> (cs = [] \<or> ct = OPEN) \<and>
     list_all (\<lambda>a. valid_name (sp_str (fst a)) \<and> no_cr (sp_str (snd a))) attrs \<and> distinct (map (\<lambda>a. sp_str (fst a)) attrs) \<and>
     separated cs \<and> (\<forall>c \<in> set cs. printable c \<and> \<not> is_declaration c)"

definition printable_doc :: "xnode list \<Rightarrow> bool" where
  "printable_doc ns \<longleftrightarrow> ns \<noteq> [] \<and> list_all (\<lambda>n. printable n \<and> height n \<le> 98) ns \<and> separated ns \<and> \<not> is_plain (last ns) \<and>
     list_all (\<lambda>n. \<not> is_declaration n) (dropWhile is_declaration ns) \<and> \<not> is_plain (hd ns)"

text \<open>A document with all its strings read. An element without children is the same with one tag or two.\<close>

definition read_str :: "strpair \<Rightarrow> strpair" where
  "read_str v = StrPair 0 (sp_str v)"

fun read_node :: "xnode \<Rightarrow> xnode" where
  "read_node (XMLDeclaration v) = XMLDeclaration (read_str v)"
| "read_node (XMLComment v) = XMLComment (read_str v)"
| "read_node (XMLText cdata v) = XMLText cdata (read_str v)"
| "read_node (XMLUnknown v) = XMLUnknown (read_str v)"
| "read_node (XMLElement name ct attrs cs) =
     XMLElement (read_str name) (if cs = [] then CLOSED else OPEN) (map (\<lambda>(n, v). (read_str n, read_str v)) attrs)
       (map read_node cs)"

section \<open>Strings\<close>

abbreviation escaped :: "bool \<Rightarrow> string \<Rightarrow> string" where
  "escaped r v \<equiv> concat (map (print_char r) v)"

lemma ParseText_append: "ParseText endTag (v @ endTag) = Some (v, []) \<Longrightarrow> ParseText endTag (v @ endTag @ X) = Some (v, X)"
proof (induction v)
  case Nil
  then show ?case by (cases endTag) auto
next
  case (Cons c v)
  have "take (length endTag) (c # v @ endTag @ X) = take (length endTag) (c # v @ endTag)"
    by (cases "length endTag") simp_all
  then show ?case using Cons by (auto split: if_splits)
qed

lemma ends_ParseText: "ends endTag v \<Longrightarrow> ParseText endTag (v @ endTag @ X) = Some (v, X)"
  unfolding ends_def by (rule ParseText_append)

lemma ParseText_char: "q \<notin> set v \<Longrightarrow> ParseText [q] (v @ q # X) = Some (v, X)"
  by (induction v) auto

lemma print_char_cases:
  obtains (entity) pat where "entity_flag r c" "(pat, c) \<in> set entities" "print_char r c = ''&'' @ pat @ '';''"
  | (plain) "\<not> entity_flag r c" "print_char r c = [c]"
proof (cases "entity_flag r c")
  case True
  then have "c \<in> snd ` set entities" by (auto simp: entity_flag_def entities_def split: if_splits)
  then obtain pat where "find (\<lambda>en. snd en = c) entities = Some (pat, c)" "(pat, c) \<in> set entities"
    by (auto simp: entities_def)
  then show ?thesis using True entity by (simp add: print_char_def)
next
  case False
  then show ?thesis using plain by (simp add: print_char_def)
qed

lemma entity_chars: "(pat, c) \<in> set entities \<Longrightarrow> set pat \<subseteq> set ''abcdefghijklmnopqrstuvwxyz'' \<and> pat \<noteq> []"
  by (auto simp: entities_def)

lemma find_entity_each:
  "find_entity entities (''quot'' @ CHR '';'' # X) = Some (CHR 0x22, X)"
  "find_entity entities (''amp'' @ CHR '';'' # X) = Some (CHR ''&'', X)"
  "find_entity entities (''apos'' @ CHR '';'' # X) = Some (CHR 0x27, X)"
  "find_entity entities (''lt'' @ CHR '';'' # X) = Some (CHR ''<'', X)"
  "find_entity entities (''gt'' @ CHR '';'' # X) = Some (CHR ''>'', X)"
  unfolding entities_def by simp_all

lemma find_entity_entities:
  assumes "(pat, c) \<in> set entities" shows "find_entity entities (pat @ CHR '';'' # X) = Some (c, X)"
proof -
  have "(pat, c) = (''quot'', CHR 0x22) \<or> (pat, c) = (''amp'', CHR ''&'') \<or> (pat, c) = (''apos'', CHR 0x27) \<or>
      (pat, c) = (''lt'', CHR ''<'') \<or> (pat, c) = (''gt'', CHR ''>'')"
    using assms by (simp add: entities_def)
  then show ?thesis using find_entity_each [of X] by (elim disjE) (simp_all only: prod.inject)
qed

lemma escaped_chars:
  assumes "x \<in> set (escaped r v)"
  shows "x \<noteq> CHR ''<''" "r = False \<Longrightarrow> x \<noteq> CHR 0x22" "x = CHR 0x0D \<Longrightarrow> x \<in> set v" "x = CHR 0x00 \<Longrightarrow> x \<in> set v"
proof -
  obtain c where c: "c \<in> set v" "x \<in> set (print_char r c)" using assms by auto
  have *: "x \<noteq> CHR ''<'' \<and> (r = False \<longrightarrow> x \<noteq> CHR 0x22) \<and> (x = CHR 0x0D \<longrightarrow> x \<in> set v) \<and> (x = CHR 0x00 \<longrightarrow> x \<in> set v)"
  proof (cases rule: print_char_cases [of r c])
    case (entity pat)
    then show ?thesis using c entity_chars [OF entity(2)] by auto
  next
    case plain
    then show ?thesis using c by (auto simp: entity_flag_def entities_def split: if_splits)
  qed
  then show "x \<noteq> CHR ''<''" "r = False \<Longrightarrow> x \<noteq> CHR 0x22" "x = CHR 0x0D \<Longrightarrow> x \<in> set v" "x = CHR 0x00 \<Longrightarrow> x \<in> set v" by blast+
qed

lemma peek_in: "s \<noteq> [] \<Longrightarrow> peek s \<in> set s"
  by (cases s) simp_all

lemma no_cr_peek: "no_cr s \<Longrightarrow> peek s \<noteq> CHR 0x0D"
  using peek_in [of s] by (cases "s = []") (auto simp: no_cr_def)

lemma convert_char:
  "c \<noteq> CHR 0x0D \<Longrightarrow> peek p \<noteq> CHR 0x0D \<Longrightarrow> \<not> (ent \<and> c = CHR ''&'') \<Longrightarrow>
     convert ent True orig (c # p) out = convert ent True orig p (out @ [c])"
  by (subst convert.simps(2)) (cases ent; simp del: convert.simps)

lemma convert_entity:
  assumes "(pat, c) \<in> set entities"
  shows "convert True True orig (''&'' @ pat @ '';'' @ p) out = convert True True orig p (out @ [c])"
proof -
  have "peek (pat @ CHR '';'' # p) \<noteq> CHR ''#''" using entity_chars [OF assms] by (cases pat) auto
  then have "convert True True orig (CHR ''&'' # pat @ CHR '';'' # p) out = convert True True orig p (out @ [c])"
    by (subst convert.simps(2)) (simp add: find_entity_entities [OF assms] del: convert.simps)
  then show ?thesis by simp
qed

lemma convert_escaped: "no_cr v \<Longrightarrow> convert True True orig (escaped r v) out = out @ v"
proof (induction v arbitrary: out)
  case (Cons c v)
  have n: "no_cr v" "c \<noteq> CHR 0x0D" using Cons.prems by (auto simp: no_cr_def)
  have e: "no_cr (escaped r v)" using n(1) escaped_chars(3) [of "CHR 0x0D" r v] unfolding no_cr_def by blast
  show ?case
  proof (cases rule: print_char_cases [of r c])
    case (entity pat)
    then show ?thesis using convert_entity [OF entity(2)] Cons.IH [OF n(1)] by (simp del: convert.simps)
  next
    case plain
    then have "c \<noteq> CHR ''&''" by (auto simp: entity_flag_def entities_def split: if_splits)
    then show ?thesis using plain(2) convert_char [OF n(2) no_cr_peek [OF e]] Cons.IH [OF n(1)] by (simp del: convert.simps)
  qed
qed simp

lemma convert_plain: "no_cr v \<Longrightarrow> convert False True orig v out = out @ v"
proof (induction v arbitrary: out)
  case (Cons c v)
  then have n: "no_cr v" "c \<noteq> CHR 0x0D" by (auto simp: no_cr_def)
  show ?case using convert_char [OF n(2) no_cr_peek [OF n(1)], of False] Cons.IH [OF n(1)] by (simp del: convert.simps)
qed simp

lemma c_str_c_str [simp]: "c_str (c_str s) = c_str s"
  by (simp add: c_str_def)

lemma sp_str_c [simp]: "c_str (sp_str v) = sp_str v"
  by (simp add: sp_str_def)

lemma sp_str_text: "no_cr (sp_str v) \<Longrightarrow> sp_str (sp_Set (escaped r (sp_str v)) TEXT_ELEMENT) = sp_str v"
  unfolding sp_str_def [of "sp_Set _ _"] by (simp add: sp_Set_def GetStr_def flag_defs convert_escaped)

lemma sp_str_attribute: "no_cr (sp_str v) \<Longrightarrow> sp_str (sp_Set (escaped r (sp_str v)) ATTRIBUTE_VALUE) = sp_str v"
  unfolding sp_str_def [of "sp_Set _ _"] by (simp add: sp_Set_def GetStr_def flag_defs convert_escaped)

lemma sp_str_plain: "no_cr (sp_str v) \<Longrightarrow> sp_str (sp_Set (sp_str v) NEEDS_NEWLINE_NORMALIZATION) = sp_str v"
  unfolding sp_str_def [of "sp_Set _ _"] by (simp add: sp_Set_def GetStr_def flag_defs convert_plain)

lemma sp_str_valid: "valid_name (sp_str v) \<Longrightarrow> sp_str (sp_Set (sp_str v) 0) = sp_str v"
  by (simp add: sp_str_name valid_name_def)

section \<open>Reading back one node\<close>

text \<open>What the parser makes of a printed node: the strings are the ones of the text, with the flags of their kind.\<close>

abbreviation reread_attr :: "strpair \<times> strpair \<Rightarrow> strpair \<times> strpair" where
  "reread_attr a \<equiv> (sp_Set (sp_str (fst a)) 0, sp_Set (escaped False (sp_str (snd a))) ATTRIBUTE_VALUE)"

fun reread :: "xnode \<Rightarrow> xnode" where
  "reread (XMLDeclaration v) = XMLDeclaration (sp_Set (sp_str v) NEEDS_NEWLINE_NORMALIZATION)"
| "reread (XMLComment v) = XMLComment (sp_Set (sp_str v) NEEDS_NEWLINE_NORMALIZATION)"
| "reread (XMLText cdata v) = XMLText cdata (if cdata then sp_Set (sp_str v) NEEDS_NEWLINE_NORMALIZATION
     else sp_Set (escaped True (sp_str v)) TEXT_ELEMENT)"
| "reread (XMLUnknown v) = XMLUnknown (sp_Set (sp_str v) NEEDS_NEWLINE_NORMALIZATION)"
| "reread (XMLElement name ct attrs cs) =
     XMLElement (sp_Set (sp_str name) 0) (if cs = [] then CLOSED else OPEN) (map reread_attr attrs) (map reread cs)"

lemma reread_same: "printable n \<Longrightarrow> read_node (reread n) = read_node n"
proof (induction n rule: reread.induct)
  case (5 name ct attrs cs)
  then show ?case by (auto simp: read_str_def sp_str_valid sp_str_attribute list_all_iff)
qed (simp_all add: read_str_def sp_str_plain sp_str_text)

lemma reread_kind [simp]: "is_declaration (reread n) = is_declaration n"
  by (cases n) simp_all

definition end_tag :: "xnode \<Rightarrow> strpair option" where
  "end_tag n = (case n of XMLElement name ct attrs cs \<Rightarrow> if cs = [] then None else Some (sp_Set (sp_str name) 0) | _ \<Rightarrow> None)"

lemma check_reread:
  assumes "printable n" "is_declaration n \<Longrightarrow> at \<and> list_all is_declaration seen"
  shows "check_node at seen (reread n) (end_tag n) = Insert"
  using assms by (cases n) (auto simp: end_tag_def sp_Empty_def sp_Set_def valid_name_def)

subsection \<open>Names and attributes\<close>

lemma valid_nameE:
  assumes "valid_name s" obtains c t where "s = c # t" "IsNameStartChar c" "\<not> IsWhiteSpace c" "list_all IsNameChar t"
proof (cases s)
  case (Cons c t)
  then have c: "IsNameStartChar c" "list_all IsNameChar t" using assms by (auto simp: valid_name_def)
  then have "\<not> IsWhiteSpace c"
    by (auto simp: IsNameStartChar_def IsWhiteSpace_def IsUTF8Continuation_def is_space_def is_alpha_def)
  then show ?thesis using that Cons c by blast
qed (use assms in \<open>simp add: valid_name_def\<close>)

lemma name_reread:
  assumes "valid_name s" "\<not> IsNameChar (peek X)" "X \<noteq> []" shows "ParseName (s @ X) = Some (s, X)"
proof -
  obtain c t where s: "s = c # t" "IsNameStartChar c" "list_all IsNameChar t" using assms(1) by (rule valid_nameE)
  obtain x Y where X: "X = x # Y" using assms(3) by (cases X) auto
  have "takeWhile IsNameChar (t @ X) = t" using s(3) assms(2) by (simp add: X list_all_iff)
  then show ?thesis using s by (simp add: ParseName_def)
qed

lemma Skip_name: "valid_name s \<Longrightarrow> SkipWhiteSpace (s @ X) = s @ X"
  by (erule valid_nameE) (simp add: SkipWhiteSpace_def)

lemma char_facts:
  "\<not> IsNameChar (CHR ''='')" "\<not> IsNameChar (CHR ''>'')" "\<not> IsNameChar (CHR ''/'')" "\<not> IsNameChar (CHR '' '')"
  "\<not> IsNameStartChar (CHR ''>'')" "\<not> IsNameStartChar (CHR ''/'')" "IsWhiteSpace (CHR '' '')"
  "\<not> IsWhiteSpace (CHR ''='')" "\<not> IsWhiteSpace (CHR ''>'')" "\<not> IsWhiteSpace (CHR ''/'')" "\<not> IsWhiteSpace (CHR ''<'')"
  "\<not> IsWhiteSpace (CHR 0x22)"
  by (simp_all add: IsNameChar_def IsNameStartChar_def is_alpha_def is_digit_def IsWhiteSpace_def IsUTF8Continuation_def
      is_space_def)

lemma Skip_char: "\<not> IsWhiteSpace c \<Longrightarrow> SkipWhiteSpace (c # X) = c # X" "IsWhiteSpace c \<Longrightarrow> SkipWhiteSpace (c # X) = SkipWhiteSpace X"
  by (simp_all add: SkipWhiteSpace_def)

lemma attribute_reread:
  assumes "valid_name (sp_str (fst a))"
  shows "XMLAttribute_ParseDeep True (sp_str (fst a) @ CHR ''='' # CHR 0x22 # escaped False (sp_str (snd a)) @ CHR 0x22 # X) =
    Some (reread_attr a, X)"
proof -
  have "ParseText [CHR 0x22] (escaped False (sp_str (snd a)) @ CHR 0x22 # X) = Some (escaped False (sp_str (snd a)), X)"
    using escaped_chars(2) [of "CHR 0x22" False "sp_str (snd a)"] by (intro ParseText_char) blast
  then show ?thesis unfolding XMLAttribute_ParseDeep_def
    by (simp add: name_reread [OF assms] char_facts Skip_char)
qed

lemma attributes_reread:
  "(\<And>a. a \<in> set attrs \<Longrightarrow> valid_name (sp_str (fst a))) \<Longrightarrow> distinct (map (\<lambda>a. sp_str (fst a)) (pre @ attrs)) \<Longrightarrow>
    (\<And>a. a \<in> set pre \<Longrightarrow> valid_name (sp_str (fst a))) \<Longrightarrow>
    ParseAttributes True ct (map reread_attr pre) (concat (map attr_text attrs) @ X) =
    ParseAttributes True ct (map reread_attr (pre @ attrs)) X"
proof (induction attrs arbitrary: pre)
  case (Cons a attrs)
  have v: "valid_name (sp_str (fst a))" using Cons.prems(1) by simp
  obtain c t where s: "sp_str (fst a) = c # t" "IsNameStartChar c" "\<not> IsWhiteSpace c" using v by (rule valid_nameE)
  let ?Y = "concat (map attr_text attrs) @ X"
  let ?p = "sp_str (fst a) @ CHR ''='' # CHR 0x22 # escaped False (sp_str (snd a)) @ CHR 0x22 # ?Y"
  have p: "SkipWhiteSpace (concat (map attr_text (a # attrs)) @ X) = ?p"
    using Skip_name [OF v] by (simp add: attr_text_def Skip_char char_facts)
  have ne: "\<forall>x \<in> set pre. sp_str (fst x) \<noteq> sp_str (fst a)" using Cons.prems(2) by (auto simp: image_iff)
  have "FindAttribute (map reread_attr pre) (sp_str (fst (reread_attr a))) = None"
    using ne v Cons.prems(3) by (auto simp: FindAttribute_def find_None_iff sp_str_valid)
  then have "ParseAttributes True ct (map reread_attr pre) (concat (map attr_text (a # attrs)) @ X) =
      ParseAttributes True ct (map reread_attr (pre @ [a])) ?Y"
    using s(2) by (subst ParseAttributes.simps) (simp only: p Let_def attribute_reread [OF v], simp add: s(1))
  also have "\<dots> = ParseAttributes True ct (map reread_attr ((pre @ [a]) @ attrs)) X"
    using Cons.prems by (intro Cons.IH) auto
  finally show ?case by simp
qed simp

subsection \<open>Nodes\<close>

abbreviation pnode :: "nat \<Rightarrow> kind \<Rightarrow> string \<Rightarrow> parsed" where
  "pnode m \<equiv> node_ParseDeep (XMLNode_ParseDeep m default_doc False) default_doc"

text \<open>A text is followed by a tag.\<close>

definition follows :: "xnode \<Rightarrow> string \<Rightarrow> bool" where
  "follows n X \<longleftrightarrow> (is_plain n \<longrightarrow> (\<exists>y Y. X = CHR ''<'' # y # Y))"

definition rereads :: "nat \<Rightarrow> xnode \<Rightarrow> bool" where
  "rereads m n \<longleftrightarrow> (\<forall>X. follows n X \<longrightarrow>
     (\<exists>k p. Identify (node_text n @ X) = Some (k, p) \<and> pnode m k p = Node (reread n) (end_tag n) X))"

lemma rereadsE:
  assumes "rereads m n" "follows n X"
  obtains k p where "Identify (node_text n @ X) = Some (k, p)" "pnode m k p = Node (reread n) (end_tag n) X"
  using assms unfolding rereads_def by blast

lemma Identify_tag:
  "Identify (''<?'' @ X) = Some (KDeclaration, X)" "Identify (''<!--'' @ X) = Some (KComment, X)"
  "Identify (''<![CDATA['' @ X) = Some (KCData, X)"
  by (simp_all add: Identify_def Skip_char char_facts)

lemma Identify_unknown: "take 2 X \<noteq> ''--'' \<Longrightarrow> take 7 X \<noteq> ''[CDATA['' \<Longrightarrow> Identify (''<!'' @ X) = Some (KUnknown, X)"
  by (simp add: Identify_def Skip_char char_facts)

lemma Identify_element: "c \<noteq> CHR ''?'' \<Longrightarrow> c \<noteq> CHR ''!'' \<Longrightarrow> Identify (CHR ''<'' # c # X) = Some (KElement, c # X)"
  by (simp add: Identify_def Skip_char char_facts)

lemma take_before: "x \<notin> set s \<Longrightarrow> take n v \<noteq> s \<Longrightarrow> length s = n \<Longrightarrow> take n (v @ x # X) \<noteq> s"
proof
  assume a: "x \<notin> set s" "take n v \<noteq> s" "length s = n" "take n (v @ x # X) = s"
  then have "length v < n" by (cases "length v < n") simp_all
  then obtain j where "n - length v = Suc j" by (metis Suc_diff_Suc)
  then have "x \<in> set (take n (v @ x # X))" by simp
  then show False using a(1,4) by metis
qed

lemmas ends_tags = ends_ParseText [of "''?>''", simplified] ends_ParseText [of "''-->''", simplified]
  ends_ParseText [of "'']]>''", simplified] ends_ParseText [of "''>''", simplified]

lemma rereads_value:
  "printable (XMLDeclaration v) \<Longrightarrow> rereads m (XMLDeclaration v)"
  "printable (XMLComment v) \<Longrightarrow> rereads m (XMLComment v)"
  "printable (XMLText True v) \<Longrightarrow> rereads m (XMLText True v)"
  unfolding rereads_def
  by (simp_all add: Identify_tag [simplified] node_ParseDeep_def parse_value_node_def ends_tags end_tag_def
      COMMENT_def)

lemma rereads_unknown: "printable (XMLUnknown v) \<Longrightarrow> rereads m (XMLUnknown v)"
  unfolding rereads_def
  using take_before [of "CHR ''>''" "''--''" 2 "sp_str v"] take_before [of "CHR ''>''" "''[CDATA[''" 7 "sp_str v"]
    Identify_unknown
  by (simp add: node_ParseDeep_def parse_value_node_def end_tag_def ends_tags)

lemma Identify_plain:
  assumes "list_ex (\<lambda>c. \<not> IsWhiteSpace c) v" "CHR ''<'' \<notin> set v"
  shows "Identify (v @ X) = Some (KText, v @ X)"
proof -
  have "dropWhile IsWhiteSpace v \<noteq> []" using assms(1) by (auto simp: list_ex_iff)
  then obtain c r where r: "dropWhile IsWhiteSpace v = c # r" by (cases "dropWhile IsWhiteSpace v") auto
  then have "c \<in> set v" by (metis list.set_intros(1) set_dropWhileD)
  then have "c \<noteq> CHR ''<''" using assms(2) by auto
  moreover have "SkipWhiteSpace (v @ X) = c # r @ X"
    using assms(1) r by (auto simp: SkipWhiteSpace_def dropWhile_append list_ex_iff)
  ultimately show ?thesis by (simp add: Identify_def)
qed

lemma escaped_blank: "list_ex (\<lambda>c. \<not> IsWhiteSpace c) v \<Longrightarrow> list_ex (\<lambda>c. \<not> IsWhiteSpace c) (escaped r v)"
proof -
  assume "list_ex (\<lambda>c. \<not> IsWhiteSpace c) v"
  then obtain c where c: "c \<in> set v" "\<not> IsWhiteSpace c" by (auto simp: list_ex_iff)
  have "\<exists>x \<in> set (print_char r c). \<not> IsWhiteSpace x"
  proof (cases rule: print_char_cases [of r c])
    case (entity pat)
    then show ?thesis by (auto simp: IsWhiteSpace_def is_space_def)
  qed (simp add: c)
  then show ?thesis using c(1) by (auto simp: list_ex_iff)
qed

lemma rereads_text:
  assumes "printable (XMLText False v)" shows "rereads m (XMLText False v)"
  unfolding rereads_def
proof (intro allI impI)
  fix X assume "follows (XMLText False v) X"
  then obtain y Y where X: "X = CHR ''<'' # y # Y" by (auto simp: follows_def)
  have lt: "CHR ''<'' \<notin> set (escaped True (sp_str v))" using escaped_chars(1) by blast
  have "Identify (escaped True (sp_str v) @ X) = Some (KText, escaped True (sp_str v) @ X)"
    using assms lt escaped_blank by (intro Identify_plain) auto
  moreover have "pnode m KText (escaped True (sp_str v) @ X) = Node (reread (XMLText False v)) (end_tag (XMLText False v)) X"
    using ParseText_char [OF lt, of "y # Y"]
    by (simp add: node_ParseDeep_def XMLText_ParseDeep_def X default_doc_def end_tag_def)
  ultimately show "\<exists>k p. Identify (node_text (XMLText False v) @ X) = Some (k, p) \<and>
      pnode m k p = Node (reread (XMLText False v)) (end_tag (XMLText False v)) X"
    by simp
qed

section \<open>Reading back a list of nodes\<close>

lemma follows_cons:
  assumes "separated (n # ns)" "\<forall>n \<in> set ns. is_plain n \<or> (\<exists>y Y. \<forall>Z. node_text n @ Z = CHR ''<'' # y # Y @ Z)"
    "ns = [] \<Longrightarrow> follows n Z"
  shows "follows n (concat (map node_text ns) @ Z)"
proof (cases ns)
  case (Cons m r)
  then have "\<not> (is_plain n \<and> is_plain m)" using assms(1) by simp
  then show ?thesis using assms(2) Cons by (fastforce simp: follows_def)
qed (use assms(3) in simp)

lemma tag_text: "printable n \<Longrightarrow> \<not> is_plain n \<Longrightarrow> \<exists>y Y. \<forall>Z. node_text n @ Z = CHR ''<'' # y # Y @ Z"
proof (cases n)
  case (XMLElement name ct attrs cs)
  assume "printable n"
  then have "valid_name (sp_str name)" using XMLElement by simp
  then obtain c t where "sp_str name = c # t" by (rule valid_nameE)
  then show ?thesis using XMLElement by simp
qed auto

lemma separated_tl: "separated (n # ns) \<Longrightarrow> separated ns"
  by (cases ns) simp_all

lemma nodes_reread:
  "\<forall>n \<in> set ns. printable n \<and> rereads m n \<Longrightarrow> separated ns \<Longrightarrow> (ns \<noteq> [] \<Longrightarrow> follows (last ns) Z) \<Longrightarrow>
     (\<forall>n \<in> set ns. \<not> is_declaration n) \<or>
       at \<and> list_all is_declaration seen \<and> list_all (\<lambda>n. \<not> is_declaration n) (dropWhile is_declaration ns) \<Longrightarrow>
   nodes (pnode m) at (length ns + j) seen (concat (map node_text ns) @ Z) = nodes (pnode m) at j (seen @ map reread ns) Z"
proof (induction ns arbitrary: seen)
  case (Cons n ns)
  have p: "printable n" "rereads m n" using Cons.prems(1) by simp_all
  have tags: "\<forall>n \<in> set ns. is_plain n \<or> (\<exists>y Y. \<forall>Z. node_text n @ Z = CHR ''<'' # y # Y @ Z)"
    using Cons.prems(1) tag_text by (meson list.set_intros(2))
  have "follows n (concat (map node_text ns) @ Z)"
    using Cons.prems(3) by (intro follows_cons [OF Cons.prems(2) tags]) simp
  then obtain k q where k: "Identify (node_text n @ concat (map node_text ns) @ Z) = Some (k, q)"
      "pnode m k q = Node (reread n) (end_tag n) (concat (map node_text ns) @ Z)"
    by (rule rereadsE [OF p(2)])
  have "check_node at seen (reread n) (end_tag n) = Insert"
    using Cons.prems(4) by (intro check_reread [OF p(1)]) auto
  then have "nodes (pnode m) at (length (n # ns) + j) seen (concat (map node_text (n # ns)) @ Z) =
      nodes (pnode m) at (length ns + j) (seen @ [reread n]) (concat (map node_text ns) @ Z)"
    using k by simp
  also have "\<dots> = nodes (pnode m) at j ((seen @ [reread n]) @ map reread ns) Z"
  proof (rule Cons.IH)
    show "\<forall>n \<in> set ns. printable n \<and> rereads m n" using Cons.prems(1) by simp
    show "separated ns" by (rule separated_tl [OF Cons.prems(2)])
    show "ns \<noteq> [] \<Longrightarrow> follows (last ns) Z" using Cons.prems(3) by simp
    show "(\<forall>n \<in> set ns. \<not> is_declaration n) \<or>
        at \<and> list_all is_declaration (seen @ [reread n]) \<and> list_all (\<lambda>n. \<not> is_declaration n) (dropWhile is_declaration ns)"
      using Cons.prems(4) by (cases "is_declaration n") (auto simp: list_all_iff)
  qed
  finally show ?case by simp
qed simp

text \<open>An end tag ends the children.\<close>

lemma nodes_end:
  assumes "valid_name s"
  shows "nodes (pnode m) at (Suc j) seen (''</'' @ s @ ''>'' @ X) = Close (sp_Set s 0) X seen"
proof -
  have "Identify (''</'' @ s @ ''>'' @ X) = Some (KElement, CHR ''/'' # s @ ''>'' @ X)"
    using Identify_element [of "CHR ''/''"] by simp
  moreover have "ParseAttributes True CLOSING [] (CHR ''>'' # X) = Attributes CLOSING [] X"
    by (subst ParseAttributes.simps) (simp add: Skip_char char_facts)
  then have "pnode m KElement (CHR ''/'' # s @ ''>'' @ X) = Node (XMLElement (sp_Set s 0) CLOSING [] []) None X"
    using name_reread [OF assms, of "CHR ''>'' # X"]
    by (simp add: node_ParseDeep_def XMLElement_ParseDeep_def Skip_char char_facts default_doc_def)
  ultimately show ?thesis by simp
qed

lemma node_text_length: "printable n \<Longrightarrow> 0 < length (node_text n)"
proof (cases "is_plain n")
  case True
  assume p: "printable n"
  obtain v where n: "n = XMLText False v" using True by (cases n) auto
  with p have "sp_str v \<noteq> []" by auto
  then obtain c t where c: "sp_str v = c # t" by (cases "sp_str v") auto
  have "print_char True c \<noteq> []" by (cases rule: print_char_cases [of True c]) auto
  then show ?thesis using n c by simp
next
  case False
  assume "printable n"
  then obtain y Y where "node_text n @ [] = CHR ''<'' # y # Y @ []" using False tag_text by meson
  then show ?thesis by simp
qed

lemma texts_length: "\<forall>n \<in> set ns. printable n \<Longrightarrow> length ns \<le> length (concat (map node_text ns))"
proof (induction ns)
  case (Cons n ns)
  then show ?case using node_text_length [of n] by (cases "node_text n") auto
qed simp

text \<open>All nodes of a list at some level, with the fuel of \<open>XMLNode_ParseDeep\<close>.\<close>

lemma level_reread:
  assumes "\<forall>n \<in> set ns. printable n \<and> rereads m n" "separated ns" "ns \<noteq> [] \<Longrightarrow> follows (last ns) Z"
    "(\<forall>n \<in> set ns. \<not> is_declaration n) \<or> at \<and> list_all (\<lambda>n. \<not> is_declaration n) (dropWhile is_declaration ns)"
  obtains j where "XMLNode_ParseDeep (Suc m) default_doc at (concat (map node_text ns) @ Z) =
    nodes (pnode m) at (Suc j) (map reread ns) Z"
proof -
  let ?s = "concat (map node_text ns) @ Z"
  have "length ns \<le> length ?s" using texts_length [of ns] assms(1) by simp
  then obtain j where "Suc (length ?s) = length ns + Suc j" by (metis add_Suc_right le_iff_add)
  then have "XMLNode_ParseDeep (Suc m) default_doc at ?s = nodes (pnode m) at (Suc j) ([] @ map reread ns) Z"
    using nodes_reread [OF assms(1-3), of at "[]" "Suc j"] assms(4) by (simp del: nodes.simps)
  then show ?thesis using that by simp
qed

lemma Identify_valid: "valid_name s \<Longrightarrow> Identify (CHR ''<'' # s @ X) = Some (KElement, s @ X)"
  by (erule valid_nameE)
    (auto intro!: Identify_element simp: IsNameStartChar_def is_alpha_def)

lemma open_element:
  assumes "valid_name s" "list_all (\<lambda>a. valid_name (sp_str (fst a)) \<and> no_cr (sp_str (snd a))) attrs"
    "distinct (map (\<lambda>a. sp_str (fst a)) attrs)" "T = CHR ''>'' # R \<or> T = ''/>'' @ R"
  shows "XMLElement_ParseDeep f True (s @ concat (map attr_text attrs) @ T) =
    (if T = ''/>'' @ R \<or> R = [] then Node (XMLElement (sp_Set s 0) (if T = ''/>'' @ R then CLOSED else OPEN) (map reread_attr attrs) []) None R
     else case f R of
       Close endTag q cs \<Rightarrow> Node (XMLElement (sp_Set s 0) OPEN (map reread_attr attrs) cs) (Some endTag) q
     | End cs \<Rightarrow> Null None | Error err \<Rightarrow> Null (Some err) | LevelFuel \<Rightarrow> NoFuel)"
proof -
  obtain c t where s: "s = c # t" "IsNameStartChar c" "\<not> IsWhiteSpace c" using assms(1) by (rule valid_nameE)
  have c: "c \<noteq> CHR ''/''" using s(2) char_facts by auto
  let ?A = "concat (map attr_text attrs) @ T"
  have "\<not> IsNameChar (peek ?A) \<and> ?A \<noteq> []" using assms(4) by (cases attrs) (auto simp: attr_text_def char_facts)
  then have name: "ParseName (s @ ?A) = Some (s, ?A)" using name_reread [OF assms(1)] by blast
  have skip: "SkipWhiteSpace (s @ ?A) = s @ ?A" by (rule Skip_name [OF assms(1)])
  have "ParseAttributes True OPEN [] ?A = ParseAttributes True OPEN (map reread_attr attrs) T"
    using attributes_reread [of attrs "[]" OPEN T] assms(2,3) by (simp add: list_all_iff)
  also have "\<dots> = Attributes (if T = ''/>'' @ R then CLOSED else OPEN) (map reread_attr attrs) R"
    using assms(4) by (subst ParseAttributes.simps) (auto simp: Skip_char char_facts)
  finally have attrs: "ParseAttributes True OPEN [] ?A =
      Attributes (if T = ''/>'' @ R then CLOSED else OPEN) (map reread_attr attrs) R" .
  have "peek (s @ ?A) \<noteq> CHR ''/''" using s(1) c by simp
  then show ?thesis by (simp add: XMLElement_ParseDeep_def skip name attrs)
qed

lemma children_closed:
  assumes "\<forall>c \<in> set cs. printable c \<and> rereads k c" "separated cs" "\<forall>c \<in> set cs. \<not> is_declaration c" "valid_name s"
  shows "XMLNode_ParseDeep (Suc k) default_doc False (concat (map node_text cs) @ ''</'' @ s @ ''>'' @ X) =
    Close (sp_Set s 0) X (map reread cs)"
proof -
  have "cs \<noteq> [] \<Longrightarrow> follows (last cs) (''</'' @ s @ ''>'' @ X)" by (simp add: follows_def)
  then obtain j where "XMLNode_ParseDeep (Suc k) default_doc False (concat (map node_text cs) @ ''</'' @ s @ ''>'' @ X) =
      nodes (pnode k) False (Suc j) (map reread cs) (''</'' @ s @ ''>'' @ X)"
    using level_reread [OF assms(1,2)] assms(3) by metis
  then show ?thesis unfolding nodes_end [OF assms(4)] .
qed

lemma rereads_element:
  assumes p: "printable (XMLElement name ct attrs cs)"
    and f: "cs \<noteq> [] \<Longrightarrow> \<exists>k. m = Suc k \<and> (\<forall>c \<in> set cs. rereads k c)"
  shows "rereads m (XMLElement name ct attrs cs)"
  unfolding rereads_def
proof (intro allI impI)
  fix X
  let ?n = "XMLElement name ct attrs cs"
  let ?s = "sp_str name"
  let ?R = "if cs = [] then X else concat (map node_text cs) @ ''</'' @ ?s @ ''>'' @ X"
  let ?T = "if cs = [] then ''/>'' @ X else CHR ''>'' # ?R"
  have v: "valid_name ?s" using p by simp
  have printed: "node_text ?n @ X = CHR ''<'' # ?s @ concat (map attr_text attrs) @ ?T" by simp
  have children: "XMLNode_ParseDeep m default_doc False ?R = Close (sp_Set ?s 0) X (map reread cs)" if some: "cs \<noteq> []"
  proof -
    obtain k where k: "m = Suc k" "\<forall>c \<in> set cs. rereads k c" using f [OF some] by blast
    then show ?thesis using children_closed [of cs k ?s X] p v some by (simp del: XMLNode_ParseDeep.simps)
  qed
  have "pnode m KElement (?s @ concat (map attr_text attrs) @ ?T) = Node (reread ?n) (end_tag ?n) X"
    using open_element [of ?s attrs ?T ?R] p v children
    by (cases "cs = []") (simp_all add: node_ParseDeep_def end_tag_def default_doc_def)
  then show "\<exists>k p. Identify (node_text ?n @ X) = Some (k, p) \<and> pnode m k p = Node (reread ?n) (end_tag ?n) X"
    unfolding printed using Identify_valid [OF v] by blast
qed

lemma rereads_node: "printable n \<Longrightarrow> height n \<le> m \<Longrightarrow> rereads m n"
proof (induction n arbitrary: m)
  case (XMLElement name ct attrs cs)
  show ?case
  proof (rule rereads_element)
    assume "cs \<noteq> []"
    then have "Suc (fold max (map height cs) 0) \<le> m" using XMLElement.prems by auto
    then obtain k where "m = Suc k" "fold max (map height cs) 0 \<le> k" by (cases m) auto
    then show "\<exists>k. m = Suc k \<and> (\<forall>c \<in> set cs. rereads k c)"
      using XMLElement.IH XMLElement.prems by (auto simp: fold_max)
  qed (rule XMLElement.prems)
next
  case (XMLText cdata v)
  then show ?case by (cases cdata) (simp_all add: rereads_value rereads_text)
qed (simp_all add: rereads_value rereads_unknown del: printable.simps)

section \<open>Round trip\<close>

lemma print_text: "XMLDocument_Print default_doc False True ns = concat (map node_text ns)"
  using Accept_text(2) [of "(XMLPrinter True 0)\<lparr>printEntities := True\<rparr>" ns]
  by (simp add: XMLDocument_Print_def PushHeader_def XMLPrinter_def sealing_def default_doc_def split: if_splits)

lemma document_reread:
  assumes "printable_doc ns"
  obtains j where "XMLDocument_Parse default_doc (concat (map node_text ns) @ Z) =
    (case nodes (pnode 98) True (Suc j) (map reread ns) Z of
       Error e \<Rightarrow> Inl e | End ns \<Rightarrow> Inr ns | Close name r ns \<Rightarrow> Inr ns | LevelFuel \<Rightarrow> Inl XML_ERROR_PARSING)"
proof -
  have p: "\<forall>n \<in> set ns. printable n \<and> rereads 98 n" "separated ns" "ns \<noteq> []"
    using assms rereads_node by (auto simp: printable_doc_def list_all_iff)
  have l: "follows (last ns) Z" "list_all (\<lambda>n. \<not> is_declaration n) (dropWhile is_declaration ns)"
    using assms by (auto simp: printable_doc_def follows_def)
  let ?s = "concat (map node_text ns) @ Z"
  obtain j where j: "XMLNode_ParseDeep (Suc 98) default_doc True ?s = nodes (pnode 98) True (Suc j) (map reread ns) Z"
    using l by (rule_tac level_reread [OF p(1,2), of Z True]) auto
  obtain n r where n: "ns = n # r" using p(3) by (cases ns) auto
  then have "printable n" "\<not> is_plain n" using assms by (simp_all add: printable_doc_def)
  then obtain y Y where "\<forall>Z. node_text n @ Z = CHR ''<'' # y # Y @ Z" using tag_text [of n] by blast
  then have "?s = CHR ''<'' # y # Y @ concat (map node_text r) @ Z" using n by simp
  then have "SkipWhiteSpace ?s = ?s" "ReadBOM ?s = ?s" "?s \<noteq> []"
    by (simp_all add: Skip_char char_facts ReadBOM_def)
  then show ?thesis using j that
    by (simp add: XMLDocument_Parse_def TINYXML2_MAX_ELEMENT_DEPTH_def
        del: XMLNode_ParseDeep.simps nodes.simps append_is_Nil_conv concat_eq_Nil_conv)
qed

lemma printed_parse:
  assumes "printable_doc ns"
  shows "XMLDocument_Parse default_doc (XMLDocument_Print default_doc False True ns) = Inr (map reread ns)"
proof -
  obtain j where j: "XMLDocument_Parse default_doc (concat (map node_text ns) @ []) =
      (case nodes (pnode 98) True (Suc j) (map reread ns) [] of
         Error e \<Rightarrow> Inl e | End ns \<Rightarrow> Inr ns | Close name r ns \<Rightarrow> Inr ns | LevelFuel \<Rightarrow> Inl XML_ERROR_PARSING)"
    using document_reread [OF assms] by blast
  have "nodes (pnode 98) True (Suc j) (map reread ns) [] = End (map reread ns)"
    by (simp add: Identify_def SkipWhiteSpace_def)
  then show ?thesis using j by (simp add: print_text del: nodes.simps)
qed

lemma reread_all: "printable_doc ns \<Longrightarrow> map read_node (map reread ns) = map read_node ns"
  using reread_same by (auto simp: printable_doc_def list_all_iff)

text \<open>
  C14: what the printer writes in compact mode for a document that a text can express is read back as the same
  document: the kinds of the nodes, their order and nesting, the names, and all values as the accessors return them, with the five
  entities written and resolved. The limits (\<open>printable_doc\<close>): the document has a node and its elements are nested at most
  98 deep; it neither begins nor ends with a plain text, no two plain texts are neighbours and none is blank; declarations come
  first; names are names and the attributes of an element have different ones; a comment, a declaration, a CDATA section and
  an unknown node do not contain their end mark; and no value has a carriage return, which the parser would turn into
  a line feed.
\<close>

theorem xml_roundtrip:
  assumes "printable_doc ns"
  shows "\<exists>ms. XMLDocument_Parse default_doc (XMLDocument_Print default_doc False True ns) = Inr ms \<and>
    map read_node ms = map read_node ns"
  using printed_parse [OF assms] reread_all [OF assms] by blast

abbreviation sample_doc :: "xnode list" where
  "sample_doc \<equiv> [XMLDeclaration (StrPair 0 ''xml''),
     XMLElement (StrPair 0 ''a'') OPEN [(StrPair 0 ''k'', StrPair 0 [CHR 0x22])]
       [XMLText False (StrPair 0 ''x<y''), XMLComment (StrPair 0 ''c''), XMLElement (StrPair 0 ''b'') CLOSED [] []]]"

lemmas printable_eval = printable_doc_def ends_def no_cr_def sp_str_def GetStr_def flag_defs c_str_def valid_name_def char_facts
  IsNameChar_def IsNameStartChar_def is_alpha_def is_digit_def IsWhiteSpace_def IsUTF8Continuation_def is_space_def

lemma sample_printable: "printable_doc sample_doc"
  by (simp add: printable_eval)

theorem xml_roundtrip_witness:
  "\<exists>ms. XMLDocument_Parse default_doc (XMLDocument_Print default_doc False True sample_doc) = Inr ms \<and>
    map read_node ms = map read_node sample_doc"
  by (rule xml_roundtrip [OF sample_printable])

text \<open>
  An end tag that closes nothing ends a document: it is accepted, and what stands behind the tag, well-formed
  or not, is not looked at.
\<close>

theorem xml_stray_end:
  assumes "printable_doc ns" "valid_name s"
  shows "\<exists>ms. XMLDocument_Parse default_doc (XMLDocument_Print default_doc False True ns @ ''</'' @ s @ ''>'' @ X) = Inr ms \<and>
    map read_node ms = map read_node ns"
proof -
  obtain j where "XMLDocument_Parse default_doc (concat (map node_text ns) @ ''</'' @ s @ ''>'' @ X) =
      (case nodes (pnode 98) True (Suc j) (map reread ns) (''</'' @ s @ ''>'' @ X) of
         Error e \<Rightarrow> Inl e | End ns \<Rightarrow> Inr ns | Close name r ns \<Rightarrow> Inr ns | LevelFuel \<Rightarrow> Inl XML_ERROR_PARSING)"
    using document_reread [OF assms(1)] by blast
  then have "XMLDocument_Parse default_doc (concat (map node_text ns) @ ''</'' @ s @ ''>'' @ X) = Inr (map reread ns)"
    unfolding nodes_end [OF assms(2)] by simp
  then show ?thesis using reread_all [OF assms(1)] by (simp only: print_text) blast
qed

theorem xml_stray_end_witness:
  "\<exists>ms. XMLDocument_Parse default_doc (XMLDocument_Print default_doc False True sample_doc @ ''</'' @ ''b'' @ ''>'' @ ''<<'') = Inr ms \<and>
    map read_node ms = map read_node sample_doc"
  by (rule xml_stray_end [OF sample_printable])
    (simp add: valid_name_def IsNameChar_def IsNameStartChar_def is_alpha_def)

text \<open>The elements that the accessors of the server reach depend on the strings as they are read only.\<close>

lemma GetText_reread: "list_all printable cs \<Longrightarrow> GetText (map reread cs) = GetText cs"
  by (cases cs rule: GetText.cases) (auto simp: sp_str_plain sp_str_text)

lemma elements_reread: "list_all printable ns \<Longrightarrow> elements (map reread ns) = elements ns"
proof (induction ns rule: elements.induct)
  case (2 name ct attrs cs ns)
  then have "list_all printable cs" by (simp add: list_all_iff)
  then show ?case using 2 GetText_reread by (simp add: sp_str_valid)
qed simp_all

lemma sp_text_Set: "sp_text (sp_Set s f) = s"
  by (simp add: sp_Set_def)

lemma valid_name_str: "valid_name s \<Longrightarrow> sp_str (sp_Set s 0) = s"
  by (simp add: sp_str_name valid_name_def)

text \<open>
  C24: an element whose children are well-formed and which the end tag of another name closes is rejected with the
  error for mismatched elements, whatever follows it.
\<close>

theorem xml_mismatch:
  assumes "valid_name a" "valid_name b" "a \<noteq> b" "list_all (\<lambda>c. printable c \<and> \<not> is_declaration c \<and> height c \<le> 97) cs" "separated cs"
  shows "XMLDocument_Parse default_doc
    (''<'' @ a @ ''>'' @ XMLDocument_Print default_doc False True cs @ ''</'' @ b @ ''>'' @ X) = Inl XML_ERROR_MISMATCHED_ELEMENT"
proof -
  let ?R = "concat (map node_text cs) @ ''</'' @ b @ ''>'' @ X"
  let ?s = "CHR ''<'' # a @ CHR ''>'' # ?R"
  have cs: "\<forall>c \<in> set cs. printable c \<and> rereads 97 c" "\<forall>c \<in> set cs. \<not> is_declaration c"
    using assms(4) rereads_node by (auto simp: list_all_iff)
  have "XMLNode_ParseDeep 98 default_doc False ?R = Close (sp_Set b 0) X (map reread cs)"
    using children_closed [OF cs(1) assms(5) cs(2) assms(2)] by (simp del: XMLNode_ParseDeep.simps)
  then have "pnode 98 KElement (a @ CHR ''>'' # ?R) = Node (XMLElement (sp_Set a 0) OPEN [] (map reread cs)) (Some (sp_Set b 0)) X"
    using open_element [OF assms(1), of "[]" "CHR ''>'' # ?R" ?R]
    by (simp add: node_ParseDeep_def default_doc_def del: XMLNode_ParseDeep.simps)
  moreover have "check_node True [] (XMLElement (sp_Set a 0) OPEN [] (map reread cs)) (Some (sp_Set b 0)) =
      Reject XML_ERROR_MISMATCHED_ELEMENT"
    using assms(2,3) valid_name_str [OF assms(1)] valid_name_str [OF assms(2)]
    by (auto simp: sp_Empty_def valid_name_def sp_text_Set)
  ultimately have "XMLNode_ParseDeep 99 default_doc True ?s = Error XML_ERROR_MISMATCHED_ELEMENT"
    using Identify_valid [OF assms(1), of "CHR ''>'' # ?R"] unfolding level_99 by (simp del: XMLNode_ParseDeep.simps)
  moreover have "SkipWhiteSpace ?s = ?s" "ReadBOM ?s = ?s" by (simp_all add: Skip_char char_facts ReadBOM_def)
  ultimately show ?thesis
    by (simp add: XMLDocument_Parse_def TINYXML2_MAX_ELEMENT_DEPTH_def print_text del: XMLNode_ParseDeep.simps)
qed

theorem xml_mismatch_witness:
  "XMLDocument_Parse default_doc (''<'' @ ''a'' @ ''>'' @ XMLDocument_Print default_doc False True [XMLComment (StrPair 0 ''c'')] @
     ''</'' @ ''b'' @ ''>'' @ ''<<'') = Inl XML_ERROR_MISMATCHED_ELEMENT"
  by (rule xml_mismatch) (simp_all add: printable_eval)

section \<open>Nesting\<close>

text \<open>
  A text of start tags, one inside the other: what stands before each tag, its name and its attributes. Before
  a tag there may be whole elements, as deep as the levels that are left, comments and texts.
\<close>

type_synonym start_tag = "xnode list \<times> string \<times> (strpair \<times> strpair) list"

fun open_text :: "start_tag list \<Rightarrow> string \<Rightarrow> string" where
  "open_text [] X = X"
| "open_text ((ns, s, attrs) # ls) X =
     XMLDocument_Print default_doc False True ns @ ''<'' @ s @ concat (map attr_text attrs) @ ''>'' @ open_text ls X"

fun open_ok :: "start_tag list \<Rightarrow> bool" where
  "open_ok [] \<longleftrightarrow> True"
| "open_ok ((ns, s, attrs) # ls) \<longleftrightarrow>
     list_all (\<lambda>n. printable n \<and> \<not> is_declaration n \<and> height n \<le> length ls) ns \<and> separated ns \<and> valid_name s \<and>
     list_all (\<lambda>a. valid_name (sp_str (fst a)) \<and> no_cr (sp_str (snd a))) attrs \<and> distinct (map (\<lambda>a. sp_str (fst a)) attrs) \<and>
     open_ok ls"

lemma open_text_some: "X \<noteq> [] \<Longrightarrow> open_text ls X \<noteq> []"
  by (cases "(ls, X)" rule: open_text.cases) simp_all

lemma nested_levels:
  "open_ok ls \<Longrightarrow> X \<noteq> [] \<Longrightarrow> XMLNode_ParseDeep (length ls) default_doc at (open_text ls X) = Error XML_ELEMENT_DEPTH_EXCEEDED"
proof (induction ls X arbitrary: at rule: open_text.induct)
  case (2 ns s attrs ls X)
  let ?m = "length ls" and ?R = "open_text ls X"
  let ?Z = "CHR ''<'' # s @ concat (map attr_text attrs) @ CHR ''>'' # ?R"
  have v: "valid_name s" and ns: "\<forall>n \<in> set ns. printable n \<and> rereads ?m n" "\<forall>n \<in> set ns. \<not> is_declaration n"
    using 2(2) rereads_node by (auto simp: list_all_iff)
  obtain c t where "s = c # t" using v by (rule valid_nameE)
  then have "follows n ?Z" for n by (simp add: follows_def)
  then obtain j where j: "XMLNode_ParseDeep (Suc ?m) default_doc at (concat (map node_text ns) @ ?Z) =
      nodes (pnode ?m) at (Suc j) (map reread ns) ?Z"
    using level_reread [OF ns(1), of ?Z at] 2(2) ns(2) by (metis open_ok.simps(2))
  have "?R \<noteq> []" by (rule open_text_some [OF 2(3)])
  then have "pnode ?m KElement (s @ concat (map attr_text attrs) @ CHR ''>'' # ?R) = Null (Some XML_ELEMENT_DEPTH_EXCEEDED)"
    using open_element [OF v, of attrs "CHR ''>'' # ?R" ?R "XMLNode_ParseDeep ?m default_doc False"] 2(1) [of False] 2(2,3)
    by (simp add: node_ParseDeep_def default_doc_def del: XMLNode_ParseDeep.simps)
  then have "nodes (pnode ?m) at (Suc j) (map reread ns) ?Z = Error XML_ELEMENT_DEPTH_EXCEEDED"
    using Identify_valid [OF v] by simp
  then show ?case using j by (simp add: print_text del: XMLNode_ParseDeep.simps)
qed simp

text \<open>
  C25: a text with 99 start tags, one inside the other, is rejected because of its depth, whatever follows
  the last of them, well-formed or not. The tags have any valid names and any attributes with distinct names and
  values without carriage returns; before each of them there may be printable comments, texts and whole elements, before
  the first one no texts.
\<close>

theorem xml_depth_exceeded:
  assumes "length ls = 99" "open_ok ls" "list_all (\<lambda>n. \<not> is_plain n) (fst (hd ls))" "X \<noteq> []"
  shows "XMLDocument_Parse default_doc (open_text ls X) = Inl XML_ELEMENT_DEPTH_EXCEEDED"
proof -
  obtain ns s attrs r where ls: "ls = (ns, s, attrs) # r" using assms(1) by (cases ls) auto
  have "\<exists>Y. open_text ls X = CHR ''<'' # Y"
  proof (cases ns)
    case (Cons n q)
    then have "printable n" "\<not> is_plain n" using assms(2,3) ls by simp_all
    then obtain y Y where "\<forall>Z. node_text n @ Z = CHR ''<'' # y # Y @ Z" using tag_text by blast
    then show ?thesis using Cons ls by (simp add: print_text)
  qed (simp add: ls print_text)
  then have "SkipWhiteSpace (open_text ls X) = open_text ls X" "ReadBOM (open_text ls X) = open_text ls X" "open_text ls X \<noteq> []"
    by (auto simp: Skip_char char_facts ReadBOM_def)
  then show ?thesis using nested_levels [OF assms(2,4), of True] assms(1)
    by (simp add: XMLDocument_Parse_def TINYXML2_MAX_ELEMENT_DEPTH_def del: XMLNode_ParseDeep.simps)
qed

theorem xml_depth_exceeded_witness:
  "XMLDocument_Parse default_doc (open_text (replicate 99 ([XMLComment (StrPair 0 ''c'')], ''a'', [(StrPair 0 ''b'', StrPair 0 ''1 < 2'')])) ''/'') =
     Inl XML_ELEMENT_DEPTH_EXCEEDED"
proof (rule xml_depth_exceeded)
  have "open_ok (replicate n ([XMLComment (StrPair 0 ''c'')], ''a'', [(StrPair 0 ''b'', StrPair 0 ''1 < 2'')]))" for n
    by (induction n) (simp_all add: printable_eval)
  then show "open_ok (replicate 99 ([XMLComment (StrPair 0 ''c'')], ''a'', [(StrPair 0 ''b'', StrPair 0 ''1 < 2'')]))" .
qed simp_all

text \<open>The root element that the server gets from a printed document.\<close>

lemma xml_doc_print:
  assumes "printable_doc ns"
  shows "xml_doc (XMLDocument_Print default_doc False True ns) = Some (case elements ns of [] \<Rightarrow> None | x # xs \<Rightarrow> Some x)"
proof -
  have "list_all printable ns" using assms by (auto simp: printable_doc_def list_all_iff)
  then show ?thesis by (simp add: xml_doc_def printed_parse [OF assms] elements_reread)
qed

end
