(* ===== verification/XmlDom.thy ===== *)
theory XmlDom
  imports TinyXml
begin

text \<open>
  The tree of nodes of \<open>tinyxml2.cpp\<close> as the code keeps it: nodes with pointers to their parent, their first and last
  child and their neighbours, and the document's list of the nodes that are not in the tree. The memory pools are left out: an
  address is never used twice.
\<close>

section \<open>The store\<close>

text \<open>\<open>n_data\<close> is what the subclasses add: the kind of the node, its value and its attributes; \<open>None\<close> for a document.\<close>

record dnode =
  n_document :: nat
  n_parent :: "nat option"
  n_firstChild :: "nat option"
  n_lastChild :: "nat option"
  n_prev :: "nat option"
  n_next :: "nat option"
  n_data :: "xnode option"

record xstore =
  nheap :: "nat \<rightharpoonup> dnode"
  unlinked :: "nat \<Rightarrow> nat list" \<comment> \<open>\<open>_unlinked\<close> of the document at an address\<close>
  nfresh :: nat

definition fetch :: "(dnode \<Rightarrow> 'a) \<Rightarrow> nat \<Rightarrow> (xstore, 'a) cm" where
  "fetch f p = (\<lambda>d. case nheap d p of None \<Rightarrow> (Inl Undefined, d) | Some n \<Rightarrow> (Inr (f n), d))"

definition store :: "(dnode \<Rightarrow> dnode) \<Rightarrow> nat \<Rightarrow> (xstore, unit) cm" where
  "store u p = (\<lambda>d. case nheap d p of
     None \<Rightarrow> (Inl Undefined, d) | Some n \<Rightarrow> (Inr (), d\<lparr>nheap := (nheap d)(p \<mapsto> u n)\<rparr>))"

definition deref :: "nat option \<Rightarrow> (xstore, nat) cm" where
  "deref p = of_opt Undefined p"

definition set_next :: "nat option \<Rightarrow> nat \<Rightarrow> (xstore, unit) cm" where
  "set_next v = store (\<lambda>n. n\<lparr>n_next := v\<rparr>)"

definition set_prev :: "nat option \<Rightarrow> nat \<Rightarrow> (xstore, unit) cm" where
  "set_prev v = store (\<lambda>n. n\<lparr>n_prev := v\<rparr>)"

definition set_parent :: "nat option \<Rightarrow> nat \<Rightarrow> (xstore, unit) cm" where
  "set_parent v = store (\<lambda>n. n\<lparr>n_parent := v\<rparr>)"

definition set_first :: "nat option \<Rightarrow> nat \<Rightarrow> (xstore, unit) cm" where
  "set_first v = store (\<lambda>n. n\<lparr>n_firstChild := v\<rparr>)"

definition set_last :: "nat option \<Rightarrow> nat \<Rightarrow> (xstore, unit) cm" where
  "set_last v = store (\<lambda>n. n\<lparr>n_lastChild := v\<rparr>)"

definition set_data :: "xnode option \<Rightarrow> nat \<Rightarrow> (xstore, unit) cm" where
  "set_data v = store (\<lambda>n. n\<lparr>n_data := v\<rparr>)"

text \<open>A new node of a document; the constructor sets all pointers to null.\<close>

definition new_node :: "nat \<Rightarrow> xnode option \<Rightarrow> dnode" where
  "new_node doc x = \<lparr>n_document = doc, n_parent = None, n_firstChild = None, n_lastChild = None, n_prev = None,
     n_next = None, n_data = x\<rparr>"

definition new_document :: "(xstore, nat) cm" where
  "new_document = (\<lambda>d. (Inr (nfresh d), d\<lparr>nheap := (nheap d)(nfresh d \<mapsto> new_node (nfresh d) None),
     unlinked := (unlinked d)(nfresh d := []), nfresh := Suc (nfresh d)\<rparr>))"

definition CreateUnlinkedNode :: "nat \<Rightarrow> xnode \<Rightarrow> (xstore, nat) cm" where
  "CreateUnlinkedNode doc x = (\<lambda>d. (Inr (nfresh d), d\<lparr>nheap := (nheap d)(nfresh d \<mapsto> new_node doc (Some x)),
     unlinked := (unlinked d)(doc := unlinked d doc @ [nfresh d]), nfresh := Suc (nfresh d)\<rparr>))"

section \<open>Links\<close>

definition Unlink :: "nat \<Rightarrow> nat \<Rightarrow> (xstore, unit) cm" where
  "Unlink this child = (cbind (fetch n_firstChild this) (\<lambda>f.
     cbind ((if f = Some child then (cbind (fetch n_next child) (\<lambda>x.
        set_first x this)) else ret ())) (\<lambda>_.
     cbind (fetch n_lastChild this) (\<lambda>l.
     cbind ((if l = Some child then (cbind (fetch n_prev child) (\<lambda>x.
        set_last x this)) else ret ())) (\<lambda>_.
     cbind (fetch n_prev child) (\<lambda>p.
     cbind (fetch n_next child) (\<lambda>n.
     cbind ((case p of None \<Rightarrow> ret () | Some q \<Rightarrow> set_next n q)) (\<lambda>_.
     cbind (fetch n_next child) (\<lambda>n.
     cbind (fetch n_prev child) (\<lambda>p.
     cbind ((case n of None \<Rightarrow> ret () | Some q \<Rightarrow> set_prev p q)) (\<lambda>_.
     cbind (set_next None child) (\<lambda>_.
     cbind (set_prev None child) (\<lambda>_.
     set_parent None child)))))))))))))"

text \<open>The last entry takes the place of the one that is removed.\<close>

definition SwapRemove :: "'a list \<Rightarrow> nat \<Rightarrow> 'a list" where
  "SwapRemove xs i = butlast (xs[i := last xs])"

definition MarkInUse :: "nat \<Rightarrow> nat \<Rightarrow> (xstore, unit) cm" where
  "MarkInUse doc node = modify (\<lambda>d. let us = unlinked d doc in
     case find (\<lambda>i. us ! i = node) [0..<length us] of
       None \<Rightarrow> d | Some i \<Rightarrow> d\<lparr>unlinked := (unlinked d)(doc := SwapRemove us i)\<rparr>)"

definition InsertChildPreamble :: "nat \<Rightarrow> (xstore, unit) cm" where
  "InsertChildPreamble insertThis = (cbind (fetch n_parent insertThis) (\<lambda>p.
     case p of
       Some q \<Rightarrow> Unlink q insertThis
     | None \<Rightarrow> (cbind (fetch n_document insertThis) (\<lambda>doc.
         MarkInUse doc insertThis))))"

text \<open>The result is the null pointer when the node belongs to another document.\<close>

definition InsertEndChild :: "nat \<Rightarrow> nat \<Rightarrow> (xstore, nat option) cm" where
  "InsertEndChild this addThis = (cbind (fetch n_document addThis) (\<lambda>da.
     cbind (fetch n_document this) (\<lambda>dt.
     if da \<noteq> dt then ret None
     else (cbind (InsertChildPreamble addThis) (\<lambda>_.
       cbind (fetch n_lastChild this) (\<lambda>l.
       cbind ((case l of
          Some c \<Rightarrow> (cbind (set_next (Some addThis) c) (\<lambda>_.
            cbind (set_prev (Some c) addThis) (\<lambda>_.
            cbind (set_last (Some addThis) this) (\<lambda>_.
            set_next None addThis))))
        | None \<Rightarrow> (cbind (set_last (Some addThis) this) (\<lambda>_.
            cbind (set_first (Some addThis) this) (\<lambda>_.
            cbind (set_prev None addThis) (\<lambda>_.
            set_next None addThis)))))) (\<lambda>_.
       cbind (set_parent (Some this) addThis) (\<lambda>_.
       ret (Some addThis)))))))))"

definition InsertFirstChild :: "nat \<Rightarrow> nat \<Rightarrow> (xstore, nat option) cm" where
  "InsertFirstChild this addThis = (cbind (fetch n_document addThis) (\<lambda>da.
     cbind (fetch n_document this) (\<lambda>dt.
     if da \<noteq> dt then ret None
     else (cbind (InsertChildPreamble addThis) (\<lambda>_.
       cbind (fetch n_firstChild this) (\<lambda>f.
       cbind ((case f of
          Some c \<Rightarrow> (cbind (set_prev (Some addThis) c) (\<lambda>_.
            cbind (set_next (Some c) addThis) (\<lambda>_.
            cbind (set_first (Some addThis) this) (\<lambda>_.
            set_prev None addThis))))
        | None \<Rightarrow> (cbind (set_last (Some addThis) this) (\<lambda>_.
            cbind (set_first (Some addThis) this) (\<lambda>_.
            cbind (set_prev None addThis) (\<lambda>_.
            set_next None addThis)))))) (\<lambda>_.
       cbind (set_parent (Some this) addThis) (\<lambda>_.
       ret (Some addThis)))))))))"

text \<open>
  \<open>afterThis->_next\<close> is tested before \<open>InsertChildPreamble\<close> and read again after it, when the node may have gone from its place.
\<close>

definition InsertAfterChild :: "nat \<Rightarrow> nat \<Rightarrow> nat \<Rightarrow> (xstore, nat option) cm" where
  "InsertAfterChild this afterThis addThis = (cbind (fetch n_document addThis) (\<lambda>da.
     cbind (fetch n_document this) (\<lambda>dt.
     if da \<noteq> dt then ret None
     else (cbind (fetch n_parent afterThis) (\<lambda>pa.
       if pa \<noteq> Some this then ret None
       else if afterThis = addThis then ret (Some addThis)
       else (cbind (fetch n_next afterThis) (\<lambda>nx.
         if nx = None then InsertEndChild this addThis
         else (cbind (InsertChildPreamble addThis) (\<lambda>_.
           cbind (set_prev (Some afterThis) addThis) (\<lambda>_.
           cbind (fetch n_next afterThis) (\<lambda>nx.
           cbind (set_next nx addThis) (\<lambda>_.
           cbind (deref nx) (\<lambda>q.
           cbind (set_prev (Some addThis) q) (\<lambda>_.
           cbind (set_next (Some addThis) afterThis) (\<lambda>_.
           cbind (set_parent (Some this) addThis) (\<lambda>_.
           ret (Some addThis)))))))))))))))))"

section \<open>Deletion\<close>

text \<open>
  The static \<open>XMLNode::DeleteNode\<close> runs the destructor, which deletes the children and unlinks the node, and frees the
  node. The first argument is the fuel of the recursion and of the loop over the children.
\<close>

definition free_node :: "nat \<Rightarrow> (xstore, unit) cm" where
  "free_node p = modify (\<lambda>d. d\<lparr>nheap := (nheap d)(p := None)\<rparr>)"

fun DeleteNode :: "nat \<Rightarrow> nat \<Rightarrow> (xstore, unit) cm"
  and DeleteChildren :: "nat \<Rightarrow> nat \<Rightarrow> (xstore, unit) cm" where
  "DeleteNode 0 node = throw Hang"
| "DeleteNode (Suc k) node = (cbind (fetch n_data node) (\<lambda>x.
     cbind (fetch n_document node) (\<lambda>doc.
     cbind ((if x \<noteq> None then MarkInUse doc node else ret ())) (\<lambda>_.
     cbind (DeleteChildren k node) (\<lambda>_.
     cbind (fetch n_parent node) (\<lambda>p.
     cbind ((case p of None \<Rightarrow> ret () | Some q \<Rightarrow> Unlink q node)) (\<lambda>_.
     free_node node)))))))"
| "DeleteChildren 0 this = throw Hang"
| "DeleteChildren (Suc k) this = (cbind (fetch n_firstChild this) (\<lambda>f.
     case f of
       None \<Rightarrow> (cbind (set_last None this) (\<lambda>_.
         set_first None this))
     | Some c \<Rightarrow> (cbind (Unlink this c) (\<lambda>_.
         cbind (DeleteNode k c) (\<lambda>_.
         DeleteChildren k this)))))"

text \<open>The operations for the users of the library. The fuel is twice the number of nodes that have been allocated.\<close>

definition delete_fuel :: "xstore \<Rightarrow> nat" where
  "delete_fuel d = Suc (Suc (2 * nfresh d))"

definition DeleteChild :: "nat \<Rightarrow> nat \<Rightarrow> (xstore, unit) cm" where
  "DeleteChild this node = (cbind (Unlink this node) (\<lambda>_.
     cbind (gets delete_fuel) (\<lambda>k.
     DeleteNode k node)))"

definition XMLDocument_DeleteNode :: "nat \<Rightarrow> (xstore, unit) cm" where
  "XMLDocument_DeleteNode node = (cbind (fetch n_parent node) (\<lambda>p.
     case p of
       Some q \<Rightarrow> DeleteChild q node
     | None \<Rightarrow> (cbind (gets delete_fuel) (\<lambda>k.
         DeleteNode k node))))"

text \<open>\<open>Clear\<close> of a document, as far as its nodes are concerned.\<close>

fun clear_unlinked :: "nat \<Rightarrow> nat \<Rightarrow> (xstore, unit) cm" where
  "clear_unlinked 0 doc = throw Hang"
| "clear_unlinked (Suc k) doc = (cbind (gets (\<lambda>d. unlinked d doc)) (\<lambda>us.
     case us of
       [] \<Rightarrow> ret ()
     | u # us' \<Rightarrow> (cbind (XMLDocument_DeleteNode u) (\<lambda>_.
         clear_unlinked k doc))))"

definition XMLDocument_Clear :: "nat \<Rightarrow> (xstore, unit) cm" where
  "XMLDocument_Clear doc = (cbind (gets delete_fuel) (\<lambda>k.
     cbind (DeleteChildren k doc) (\<lambda>_.
     clear_unlinked k doc)))"

section \<open>Navigation\<close>

text \<open>\<open>ToElementWithName\<close>; no name stands for any element.\<close>

definition is_element :: "string option \<Rightarrow> xnode option \<Rightarrow> bool" where
  "is_element name x = (case x of
     Some (XMLElement n ct attrs cs) \<Rightarrow> (case name of None \<Rightarrow> True | Some s \<Rightarrow> sp_str n = s)
   | _ \<Rightarrow> False)"

text \<open>The loops over the siblings, with the number of allocated nodes as fuel.\<close>

fun find_forward :: "nat \<Rightarrow> string option \<Rightarrow> nat option \<Rightarrow> (xstore, nat option) cm" where
  "find_forward 0 name p = throw Hang"
| "find_forward (Suc k) name None = ret None"
| "find_forward (Suc k) name (Some c) = (cbind (fetch n_data c) (\<lambda>x.
     if is_element name x then ret (Some c)
     else (cbind (fetch n_next c) (\<lambda>n.
       find_forward k name n))))"

fun find_backward :: "nat \<Rightarrow> string option \<Rightarrow> nat option \<Rightarrow> (xstore, nat option) cm" where
  "find_backward 0 name p = throw Hang"
| "find_backward (Suc k) name None = ret None"
| "find_backward (Suc k) name (Some c) = (cbind (fetch n_data c) (\<lambda>x.
     if is_element name x then ret (Some c)
     else (cbind (fetch n_prev c) (\<lambda>n.
       find_backward k name n))))"

definition FirstChildElement :: "nat \<Rightarrow> string option \<Rightarrow> (xstore, nat option) cm" where
  "FirstChildElement this name = (cbind (fetch n_firstChild this) (\<lambda>f.
     cbind (gets nfresh) (\<lambda>k.
     find_forward (Suc k) name f)))"

definition LastChildElement :: "nat \<Rightarrow> string option \<Rightarrow> (xstore, nat option) cm" where
  "LastChildElement this name = (cbind (fetch n_lastChild this) (\<lambda>l.
     cbind (gets nfresh) (\<lambda>k.
     find_backward (Suc k) name l)))"

definition NextSiblingElement :: "nat \<Rightarrow> string option \<Rightarrow> (xstore, nat option) cm" where
  "NextSiblingElement this name = (cbind (fetch n_next this) (\<lambda>n.
     cbind (gets nfresh) (\<lambda>k.
     find_forward (Suc k) name n)))"

definition PreviousSiblingElement :: "nat \<Rightarrow> string option \<Rightarrow> (xstore, nat option) cm" where
  "PreviousSiblingElement this name = (cbind (fetch n_prev this) (\<lambda>p.
     cbind (gets nfresh) (\<lambda>k.
     find_backward (Suc k) name p)))"

end
