(* ===== verification/XmlLinks.thy ===== *)
theory XmlLinks
  imports XmlDom
begin

text \<open>
  The links between the nodes represent the lists of children: the invariant, and what each operation on the
  links does to the lists.
\<close>

section \<open>The fields as functions of the address\<close>

definition first :: "xstore \<Rightarrow> nat \<Rightarrow> nat option" where "first d p = Option.bind (nheap d p) n_firstChild"
definition lastc :: "xstore \<Rightarrow> nat \<Rightarrow> nat option" where "lastc d p = Option.bind (nheap d p) n_lastChild"
definition prv :: "xstore \<Rightarrow> nat \<Rightarrow> nat option" where "prv d p = Option.bind (nheap d p) n_prev"
definition nxt :: "xstore \<Rightarrow> nat \<Rightarrow> nat option" where "nxt d p = Option.bind (nheap d p) n_next"
definition par :: "xstore \<Rightarrow> nat \<Rightarrow> nat option" where "par d p = Option.bind (nheap d p) n_parent"
definition docu :: "xstore \<Rightarrow> nat \<Rightarrow> nat option" where "docu d p = map_option n_document (nheap d p)"
definition data :: "xstore \<Rightarrow> nat \<Rightarrow> xnode option" where "data d p = Option.bind (nheap d p) n_data"

definition nodes_of :: "xstore \<Rightarrow> nat set" where
  "nodes_of d = dom (nheap d)"

lemmas view_defs = first_def lastc_def prv_def nxt_def par_def docu_def data_def

definition put :: "(dnode \<Rightarrow> dnode) \<Rightarrow> nat \<Rightarrow> xstore \<Rightarrow> xstore" where
  "put u p d = d\<lparr>nheap := (nheap d)(p := map_option u (nheap d p))\<rparr>"

lemma put_same [simp]: "nodes_of (put u p d) = nodes_of d" "unlinked (put u p d) = unlinked d" "nfresh (put u p d) = nfresh d"
  by (auto simp: put_def nodes_of_def split: if_splits)

named_theorems views \<open>the fields after an assignment\<close>
named_theorems dom_run \<open>steps that succeed\<close>

lemma store_run: "p \<in> nodes_of d \<Longrightarrow> store u p d = (Inr (), put u p d)"
  by (auto simp: store_def put_def nodes_of_def)

lemma set_run [dom_run]:
  "p \<in> nodes_of d \<Longrightarrow> set_next v p d = (Inr (), put (\<lambda>n. n\<lparr>n_next := v\<rparr>) p d)"
  "p \<in> nodes_of d \<Longrightarrow> set_prev v p d = (Inr (), put (\<lambda>n. n\<lparr>n_prev := v\<rparr>) p d)"
  "p \<in> nodes_of d \<Longrightarrow> set_parent v p d = (Inr (), put (\<lambda>n. n\<lparr>n_parent := v\<rparr>) p d)"
  "p \<in> nodes_of d \<Longrightarrow> set_first v p d = (Inr (), put (\<lambda>n. n\<lparr>n_firstChild := v\<rparr>) p d)"
  "p \<in> nodes_of d \<Longrightarrow> set_last v p d = (Inr (), put (\<lambda>n. n\<lparr>n_lastChild := v\<rparr>) p d)"
  "p \<in> nodes_of d \<Longrightarrow> set_data x p d = (Inr (), put (\<lambda>n. n\<lparr>n_data := x\<rparr>) p d)"
  by (simp_all add: set_next_def set_prev_def set_parent_def set_first_def set_last_def set_data_def store_run)

lemma fetch_run [dom_run]:
  "p \<in> nodes_of d \<Longrightarrow> fetch n_firstChild p d = (Inr (first d p), d)"
  "p \<in> nodes_of d \<Longrightarrow> fetch n_lastChild p d = (Inr (lastc d p), d)"
  "p \<in> nodes_of d \<Longrightarrow> fetch n_prev p d = (Inr (prv d p), d)"
  "p \<in> nodes_of d \<Longrightarrow> fetch n_next p d = (Inr (nxt d p), d)"
  "p \<in> nodes_of d \<Longrightarrow> fetch n_parent p d = (Inr (par d p), d)"
  "p \<in> nodes_of d \<Longrightarrow> fetch n_document p d = (Inr (the (docu d p)), d)"
  "p \<in> nodes_of d \<Longrightarrow> fetch n_data p d = (Inr (data d p), d)"
  by (auto simp: fetch_def view_defs nodes_of_def)

lemma put_views [views]:
  "p \<in> nodes_of d \<Longrightarrow> nxt (put (\<lambda>n. n\<lparr>n_next := v\<rparr>) p d) = (nxt d)(p := v)"
  "prv (put (\<lambda>n. n\<lparr>n_next := v\<rparr>) p d) = prv d" "par (put (\<lambda>n. n\<lparr>n_next := v\<rparr>) p d) = par d"
  "first (put (\<lambda>n. n\<lparr>n_next := v\<rparr>) p d) = first d" "lastc (put (\<lambda>n. n\<lparr>n_next := v\<rparr>) p d) = lastc d"
  "p \<in> nodes_of d \<Longrightarrow> prv (put (\<lambda>n. n\<lparr>n_prev := v\<rparr>) p d) = (prv d)(p := v)"
  "nxt (put (\<lambda>n. n\<lparr>n_prev := v\<rparr>) p d) = nxt d" "par (put (\<lambda>n. n\<lparr>n_prev := v\<rparr>) p d) = par d"
  "first (put (\<lambda>n. n\<lparr>n_prev := v\<rparr>) p d) = first d" "lastc (put (\<lambda>n. n\<lparr>n_prev := v\<rparr>) p d) = lastc d"
  "p \<in> nodes_of d \<Longrightarrow> par (put (\<lambda>n. n\<lparr>n_parent := v\<rparr>) p d) = (par d)(p := v)"
  "nxt (put (\<lambda>n. n\<lparr>n_parent := v\<rparr>) p d) = nxt d" "prv (put (\<lambda>n. n\<lparr>n_parent := v\<rparr>) p d) = prv d"
  "first (put (\<lambda>n. n\<lparr>n_parent := v\<rparr>) p d) = first d" "lastc (put (\<lambda>n. n\<lparr>n_parent := v\<rparr>) p d) = lastc d"
  "p \<in> nodes_of d \<Longrightarrow> first (put (\<lambda>n. n\<lparr>n_firstChild := v\<rparr>) p d) = (first d)(p := v)"
  "nxt (put (\<lambda>n. n\<lparr>n_firstChild := v\<rparr>) p d) = nxt d" "prv (put (\<lambda>n. n\<lparr>n_firstChild := v\<rparr>) p d) = prv d"
  "par (put (\<lambda>n. n\<lparr>n_firstChild := v\<rparr>) p d) = par d" "lastc (put (\<lambda>n. n\<lparr>n_firstChild := v\<rparr>) p d) = lastc d"
  "p \<in> nodes_of d \<Longrightarrow> lastc (put (\<lambda>n. n\<lparr>n_lastChild := v\<rparr>) p d) = (lastc d)(p := v)"
  "nxt (put (\<lambda>n. n\<lparr>n_lastChild := v\<rparr>) p d) = nxt d" "prv (put (\<lambda>n. n\<lparr>n_lastChild := v\<rparr>) p d) = prv d"
  "par (put (\<lambda>n. n\<lparr>n_lastChild := v\<rparr>) p d) = par d" "first (put (\<lambda>n. n\<lparr>n_lastChild := v\<rparr>) p d) = first d"
  by (rule ext; auto simp: view_defs put_def nodes_of_def split: option.splits bind_splits)+

lemma put_data [views]:
  "data (put (\<lambda>n. n\<lparr>n_next := v\<rparr>) p d) = data d" "docu (put (\<lambda>n. n\<lparr>n_next := v\<rparr>) p d) = docu d"
  "data (put (\<lambda>n. n\<lparr>n_prev := v\<rparr>) p d) = data d" "docu (put (\<lambda>n. n\<lparr>n_prev := v\<rparr>) p d) = docu d"
  "data (put (\<lambda>n. n\<lparr>n_parent := v\<rparr>) p d) = data d" "docu (put (\<lambda>n. n\<lparr>n_parent := v\<rparr>) p d) = docu d"
  "data (put (\<lambda>n. n\<lparr>n_firstChild := v\<rparr>) p d) = data d" "docu (put (\<lambda>n. n\<lparr>n_firstChild := v\<rparr>) p d) = docu d"
  "data (put (\<lambda>n. n\<lparr>n_lastChild := v\<rparr>) p d) = data d" "docu (put (\<lambda>n. n\<lparr>n_lastChild := v\<rparr>) p d) = docu d"
  by (rule ext; cases "nheap d p"; auto simp: view_defs put_def)+

section \<open>Lists of children\<close>

fun hd_opt :: "'a list \<Rightarrow> 'a option \<Rightarrow> 'a option" where
  "hd_opt [] z = z"
| "hd_opt (x # xs) z = Some x"

fun last_opt :: "'a option \<Rightarrow> 'a list \<Rightarrow> 'a option" where
  "last_opt a [] = a"
| "last_opt a (x # xs) = last_opt (Some x) xs"

fun chain :: "(nat \<Rightarrow> nat option) \<Rightarrow> (nat \<Rightarrow> nat option) \<Rightarrow> nat option \<Rightarrow> nat list \<Rightarrow> nat option \<Rightarrow> bool" where
  "chain pv nx a [] z \<longleftrightarrow> True"
| "chain pv nx a (c # cs) z \<longleftrightarrow> pv c = a \<and> nx c = hd_opt cs z \<and> chain pv nx (Some c) cs z"

lemma hd_opt_append [simp]: "hd_opt (xs @ ys) z = hd_opt xs (hd_opt ys z)"
  by (cases xs) simp_all

lemma last_opt_append [simp]: "last_opt a (xs @ ys) = last_opt (last_opt a xs) ys"
  by (induction a xs rule: last_opt.induct) simp_all

lemma chain_append [simp]: "chain pv nx a (xs @ ys) z \<longleftrightarrow> chain pv nx a xs (hd_opt ys z) \<and> chain pv nx (last_opt a xs) ys z"
  by (induction pv nx a xs z rule: chain.induct) auto

lemma chain_upd [simp]:
  "c \<notin> set cs \<Longrightarrow> chain (pv(c := v)) nx a cs z = chain pv nx a cs z"
  "c \<notin> set cs \<Longrightarrow> chain pv (nx(c := v)) a cs z = chain pv nx a cs z"
  by (induction pv nx a cs z rule: chain.induct) auto

text \<open>Two chains become one when the last node of the first and the first node of the second are linked.\<close>

definition upd_opt :: "('a \<Rightarrow> 'b) \<Rightarrow> 'a option \<Rightarrow> 'b \<Rightarrow> 'a \<Rightarrow> 'b" where
  "upd_opt f k v = (case k of None \<Rightarrow> f | Some a \<Rightarrow> f(a := v))"

lemma upd_opt_simps [simp]: "upd_opt f None v = f" "upd_opt f (Some a) v = f(a := v)"
  by (simp_all add: upd_opt_def)

lemma chain_set_last:
  assumes "chain pv nx a xs z" "distinct xs" shows "chain pv (upd_opt nx (last_opt None xs) w) a xs w"
proof (cases xs rule: rev_cases)
  case (snoc ys y)
  then show ?thesis using assms by simp
qed simp

lemma chain_set_first: "chain pv nx a xs z \<Longrightarrow> distinct xs \<Longrightarrow> chain (upd_opt pv (hd_opt xs None) b) nx b xs z"
  by (cases xs) simp_all

lemma hd_opt_in: "hd_opt xs z = Some x \<Longrightarrow> x \<in> set xs \<or> z = Some x"
  by (cases xs) auto

lemma last_opt_in: "last_opt a xs = Some x \<Longrightarrow> x \<in> set xs \<or> a = Some x"
  by (induction a xs rule: last_opt.induct) auto

lemma chain_other: "(\<And>x. k = Some x \<Longrightarrow> x \<notin> set cs) \<Longrightarrow> chain (upd_opt pv k v) nx a cs z = chain pv nx a cs z"
  "(\<And>x. k = Some x \<Longrightarrow> x \<notin> set cs) \<Longrightarrow> chain pv (upd_opt nx k v) a cs z = chain pv nx a cs z"
  by (cases k; simp)+

lemma chain_relink:
  assumes "chain pv nx a xs y" "chain pv nx b ys z" "distinct (xs @ ys)" "xs = [] \<Longrightarrow> a = None" "ys = [] \<Longrightarrow> z = None"
  shows "chain (upd_opt pv (hd_opt ys None) (last_opt a xs)) (upd_opt nx (last_opt None xs) (hd_opt ys z)) a (xs @ ys) z"
proof -
  have l: "\<And>x. last_opt None xs = Some x \<Longrightarrow> x \<in> set xs" "\<And>x. hd_opt ys None = Some x \<Longrightarrow> x \<in> set ys"
    using last_opt_in hd_opt_in by fastforce+
  have "chain pv (upd_opt nx (last_opt None xs) (hd_opt ys z)) a xs (hd_opt ys z)"
    using chain_set_last [OF assms(1)] assms(3) by simp
  moreover have "chain (upd_opt pv (hd_opt ys None) (last_opt a xs)) nx (last_opt a xs) ys z"
    using chain_set_first [OF assms(2)] assms(3) by simp
  moreover have "\<And>x. last_opt None xs = Some x \<Longrightarrow> x \<notin> set ys" "\<And>x. hd_opt ys None = Some x \<Longrightarrow> x \<notin> set xs"
    using assms(3) l by auto
  ultimately show ?thesis by (simp add: chain_other)
qed

definition links :: "xstore \<Rightarrow> (nat \<Rightarrow> nat list) \<Rightarrow> bool" where
  "links d ch \<longleftrightarrow> (\<forall>p. first d p = hd_opt (ch p) None \<and> lastc d p = last_opt None (ch p) \<and> distinct (ch p) \<and>
       chain (prv d) (nxt d) None (ch p) None \<and> (ch p \<noteq> [] \<longrightarrow> p \<in> nodes_of d)) \<and>
     (\<forall>p c. par d c = Some p \<longleftrightarrow> c \<in> set (ch p)) \<and> (\<forall>c. par d c = None \<longrightarrow> prv d c = None \<and> nxt d c = None)"

lemma linksD:
  assumes "links d ch"
  shows "first d p = hd_opt (ch p) None" "lastc d p = last_opt None (ch p)" "distinct (ch p)"
    "chain (prv d) (nxt d) None (ch p) None" "ch p \<noteq> [] \<Longrightarrow> p \<in> nodes_of d"
    "par d c = Some p \<longleftrightarrow> c \<in> set (ch p)" "par d c = None \<Longrightarrow> prv d c = None" "par d c = None \<Longrightarrow> nxt d c = None"
  using assms unfolding links_def by blast+

lemma links_node: "links d ch \<Longrightarrow> c \<in> set (ch p) \<Longrightarrow> c \<in> nodes_of d"
proof -
  assume "links d ch" "c \<in> set (ch p)"
  then have "par d c = Some p" by (simp add: linksD)
  then show ?thesis by (auto simp: par_def nodes_of_def bind_eq_Some_conv)
qed

text \<open>What an operation on links leaves alone.\<close>

definition same_nodes :: "xstore \<Rightarrow> xstore \<Rightarrow> bool" where
  "same_nodes d d' \<longleftrightarrow> nodes_of d' = nodes_of d \<and> data d' = data d \<and> docu d' = docu d \<and> nfresh d' = nfresh d"

lemma other_list: "links d ch \<Longrightarrow> x \<in> set (ch p) \<Longrightarrow> q \<noteq> p \<Longrightarrow> x \<notin> set (ch q)"
  by (metis linksD(6) option.inject)

subsection \<open>Removing a child\<close>

lemma Unlink_run:
  assumes l: "links d ch" and c: "par d c = Some p"
  shows "\<exists>d'. Unlink p c d = (Inr (), d') \<and> links d' (ch(p := remove1 c (ch p))) \<and> par d' = (par d)(c := None) \<and>
    same_nodes d d' \<and> unlinked d' = unlinked d \<and> (\<forall>x. x \<notin> set (ch p) \<longrightarrow> prv d' x = prv d x \<and> nxt d' x = nxt d x)"
proof -
  have cin: "c \<in> set (ch p)" using l c by (simp add: linksD)
  then obtain xs ys where ch: "ch p = xs @ c # ys" by (meson split_list)
  have dis: "distinct (xs @ c # ys)" using linksD(3) [OF l, of p] ch by simp
  have rm: "remove1 c (ch p) = xs @ ys" using dis by (simp add: ch remove1_append)
  have p: "p \<in> nodes_of d" using linksD(5) [OF l, of p] ch by simp
  have cn: "c \<in> nodes_of d" by (rule links_node [OF l cin])
  have chn: "chain (prv d) (nxt d) None xs (Some c)" "prv d c = last_opt None xs" "nxt d c = hd_opt ys None"
    "chain (prv d) (nxt d) (Some c) ys None"
    using linksD(4) [OF l, of p] unfolding ch by simp_all
  have fl: "first d p = hd_opt xs (Some c)" "lastc d p = last_opt (Some c) ys"
    using linksD(1,2) [OF l, of p] unfolding ch by simp_all
  have nd: "x \<in> nodes_of d" if "x \<in> set xs \<union> set ys" for x using links_node [OF l, of x p] ch that by auto
  let ?a = "last_opt None xs" and ?b = "hd_opt ys None"
  have a: "\<And>x. ?a = Some x \<Longrightarrow> x \<in> set xs \<and> x \<noteq> c" and b: "\<And>x. ?b = Some x \<Longrightarrow> x \<in> set ys \<and> x \<noteq> c"
    using dis last_opt_in hd_opt_in by fastforce+
  let ?pv = "(upd_opt (prv d) ?b ?a)(c := None)" and ?nx = "(upd_opt (nxt d) ?a ?b)(c := None)"
  have ne: "\<And>x zs. ys = x # zs \<Longrightarrow> last_opt (Some x) zs \<noteq> Some c" "\<And>x zs. xs = zs @ [x] \<Longrightarrow> hd_opt zs (Some x) \<noteq> Some c"
    using dis last_opt_in hd_opt_in by fastforce+
  have run: "\<exists>d'. Unlink p c d = (Inr (), d') \<and> prv d' = ?pv \<and> nxt d' = ?nx \<and> par d' = (par d)(c := None) \<and>
      first d' = (first d)(p := hd_opt (xs @ ys) None) \<and> lastc d' = (lastc d)(p := last_opt None (xs @ ys)) \<and>
      same_nodes d d' \<and> unlinked d' = unlinked d"
    unfolding Unlink_def
    by (cases xs rule: rev_cases; cases ys)
      (simp_all add: cbind_Inr dom_run views p cn chn fl nd ne same_nodes_def fun_upd_idem)
  have "chain ?pv ?nx None (xs @ ys) None"
    using chain_relink [OF chn(1,4)] dis by (simp del: chain_append)
  moreover have "chain ?pv ?nx None (ch q) None" if "q \<noteq> p" for q
  proof -
    have "x \<notin> set (ch q)" if "x \<in> set (xs @ c # ys)" for x using other_list [OF l, of x p q] ch that \<open>q \<noteq> p\<close> by simp
    then show ?thesis using linksD(4) [OF l, of q] a b by (simp add: chain_other)
  qed
  ultimately have ch': "chain ?pv ?nx None ((ch(p := xs @ ys)) q) None" for q by simp
  obtain d' where d': "Unlink p c d = (Inr (), d')" "prv d' = ?pv" "nxt d' = ?nx" "par d' = (par d)(c := None)"
      "first d' = (first d)(p := hd_opt (xs @ ys) None)" "lastc d' = (lastc d)(p := last_opt None (xs @ ys))"
      "same_nodes d d'" "unlinked d' = unlinked d"
    using run by blast
  have "links d' (ch(p := xs @ ys))"
    unfolding links_def d'(2-6)
  proof (intro conjI allI impI)
    fix q
    show "((first d)(p := hd_opt (xs @ ys) None)) q = hd_opt ((ch(p := xs @ ys)) q) None"
      "((lastc d)(p := last_opt None (xs @ ys))) q = last_opt None ((ch(p := xs @ ys)) q)"
      "distinct ((ch(p := xs @ ys)) q)" "chain ?pv ?nx None ((ch(p := xs @ ys)) q) None"
      using linksD(1-3) [OF l, of q] dis ch' [of q] by auto
    show "(ch(p := xs @ ys)) q \<noteq> [] \<Longrightarrow> q \<in> nodes_of d'"
      using linksD(5) [OF l, of q] p d'(7) by (auto simp: same_nodes_def split: if_splits)
    fix x
    show "((par d)(c := None)) x = Some q \<longleftrightarrow> x \<in> set ((ch(p := xs @ ys)) q)"
      using linksD(6) [OF l, of x q] other_list [OF l cin, of q] dis ch by auto
  next
    fix x assume "((par d)(c := None)) x = None"
    then have "x = c \<or> par d x = None" by (auto split: if_splits)
    moreover have "x \<notin> set (xs @ ys)" if "par d x = None" using linksD(6) [OF l, of x p] that ch by auto
    ultimately show "?pv x = None" "?nx x = None"
      using linksD(7,8) [OF l, of x] a b by (auto simp: upd_opt_def split: option.split)
  qed
  moreover have "prv d' x = prv d x \<and> nxt d' x = nxt d x" if "x \<notin> set (ch p)" for x
    using that a b cin unfolding ch d'(2,3) by (auto simp: upd_opt_def split: option.split)
  ultimately show ?thesis using d' rm by auto
qed

subsection \<open>The list of the nodes outside the tree\<close>

lemma SwapRemove_distinct:
  assumes "distinct xs" "i < length xs"
  shows "distinct (SwapRemove xs i) \<and> set (SwapRemove xs i) = set xs - {xs ! i}"
proof (cases xs rule: rev_cases)
  case (snoc ys z)
  show ?thesis
  proof (cases "i < length ys")
    case True
    then show ?thesis using assms snoc
      by (auto simp: SwapRemove_def list_update_append nth_append set_update_distinct distinct_list_update)
  next
    case False
    then have "i = length ys" using assms(2) snoc by simp
    then show ?thesis using assms(1) snoc by (auto simp: SwapRemove_def list_update_append nth_append)
  qed
qed (use assms in simp)

lemma MarkInUse_run:
  "\<exists>us. MarkInUse doc a d = (Inr (), d\<lparr>unlinked := (unlinked d)(doc := us)\<rparr>) \<and>
    (distinct (unlinked d doc) \<longrightarrow> distinct us \<and> set us = set (unlinked d doc) - {a})"
proof -
  let ?us = "unlinked d doc"
  let ?f = "find (\<lambda>i. ?us ! i = a) [0..<length ?us]"
  show ?thesis
  proof (cases ?f)
    case None
    then have "a \<notin> set ?us" by (auto simp: find_None_iff in_set_conv_nth)
    then show ?thesis using None by (intro exI [of _ ?us]) (simp add: MarkInUse_def modify_def Let_def)
  next
    case (Some i)
    then have i: "i < length ?us" "?us ! i = a" by (auto simp: find_Some_iff)
    then show ?thesis using Some SwapRemove_distinct [of ?us i]
      by (intro exI [of _ "SwapRemove ?us i"]) (simp add: MarkInUse_def modify_def Let_def)
  qed
qed

subsection \<open>Inserting a child\<close>

definition detach :: "nat \<Rightarrow> (nat \<Rightarrow> nat list) \<Rightarrow> nat \<Rightarrow> nat list" where
  "detach a ch = (\<lambda>p. remove1 a (ch p))"

lemma detach_list: "links d ch \<Longrightarrow> par d a = Some p \<Longrightarrow> ch(p := remove1 a (ch p)) = detach a ch"
  by (rule ext) (metis detach_def fun_upd_apply linksD(6) other_list remove1_idem)

lemma detach_none: "links d ch \<Longrightarrow> par d a = None \<Longrightarrow> detach a ch = ch"
  by (rule ext) (metis detach_def linksD(6) option.distinct(1) remove1_idem)

lemma view_unlinked [views]:
  "nxt (d\<lparr>unlinked := u\<rparr>) = nxt d" "prv (d\<lparr>unlinked := u\<rparr>) = prv d" "par (d\<lparr>unlinked := u\<rparr>) = par d"
  "first (d\<lparr>unlinked := u\<rparr>) = first d" "lastc (d\<lparr>unlinked := u\<rparr>) = lastc d" "data (d\<lparr>unlinked := u\<rparr>) = data d"
  "docu (d\<lparr>unlinked := u\<rparr>) = docu d" "nodes_of (d\<lparr>unlinked := u\<rparr>) = nodes_of d"
  by (rule ext; simp add: view_defs)+ (simp add: nodes_of_def)

lemma links_unlinked [simp]: "links (d\<lparr>unlinked := u\<rparr>) ch = links d ch"
  by (simp add: links_def views)

text \<open>The nodes outside the tree are the ones in the list of their document.\<close>

definition tracked :: "xstore \<Rightarrow> bool" where
  "tracked d \<longleftrightarrow> (\<forall>doc. distinct (unlinked d doc) \<and>
     set (unlinked d doc) = {c. docu d c = Some doc \<and> data d c \<noteq> None \<and> par d c = None})"

lemma preamble_run:
  assumes l: "links d ch" and a: "a \<in> nodes_of d"
  shows "\<exists>d'. InsertChildPreamble a d = (Inr (), d') \<and> links d' (detach a ch) \<and> par d' = (par d)(a := None) \<and>
    same_nodes d d' \<and> (tracked d \<longrightarrow> (\<forall>doc. distinct (unlinked d' doc) \<and>
      set (unlinked d' doc) = {c. docu d c = Some doc \<and> data d c \<noteq> None \<and> par d c = None} - {a}))"
proof (cases "par d a")
  case (Some p)
  obtain d' where d': "Unlink p a d = (Inr (), d')" "links d' (ch(p := remove1 a (ch p)))" "par d' = (par d)(a := None)"
      "same_nodes d d'" "unlinked d' = unlinked d"
    using Unlink_run [OF l Some] by blast
  have "InsertChildPreamble a d = (Inr (), d')" using a Some d'(1) by (simp add: InsertChildPreamble_def cbind_Inr dom_run)
  then show ?thesis using d' Some unfolding detach_list [OF l Some] tracked_def by auto
next
  case None
  obtain doc where doc: "docu d a = Some doc" using a by (auto simp: nodes_of_def docu_def)
  obtain us where us: "MarkInUse doc a d = (Inr (), d\<lparr>unlinked := (unlinked d)(doc := us)\<rparr>)"
      "distinct (unlinked d doc) \<longrightarrow> distinct us \<and> set us = set (unlinked d doc) - {a}"
    using MarkInUse_run by blast
  have "InsertChildPreamble a d = (Inr (), d\<lparr>unlinked := (unlinked d)(doc := us)\<rparr>)"
    using a None us(1) doc by (simp add: InsertChildPreamble_def cbind_Inr dom_run)
  moreover have "(par d)(a := None) = par d" using None by auto
  ultimately show ?thesis using l None us(2) doc detach_none [OF l None]
    by (auto simp: same_nodes_def views tracked_def)
qed

lemma links_insert:
  assumes l: "links d ch" and ch: "ch p = xs @ ys" and a: "par d a = None" "a \<in> nodes_of d" "p \<in> nodes_of d"
    and d': "prv d' = (upd_opt (prv d) (hd_opt ys None) (Some a))(a := last_opt None xs)"
      "nxt d' = (upd_opt (nxt d) (last_opt None xs) (Some a))(a := hd_opt ys None)" "par d' = (par d)(a := Some p)"
      "first d' = (first d)(p := hd_opt (xs @ a # ys) None)" "lastc d' = (lastc d)(p := last_opt None (xs @ a # ys))"
      "same_nodes d d'"
  shows "links d' (ch(p := xs @ a # ys))"
proof -
  have anot: "a \<notin> set (ch q)" for q using linksD(6) [OF l, of a q] a(1) by auto
  have dis: "distinct (xs @ a # ys)" using linksD(3) [OF l, of p] anot [of p] ch by auto
  have chn: "chain (prv d) (nxt d) None xs (hd_opt ys None)" "chain (prv d) (nxt d) (last_opt None xs) ys None"
    using linksD(4) [OF l, of p] unfolding ch by simp_all
  have k: "\<And>x. last_opt None xs = Some x \<Longrightarrow> x \<in> set xs \<and> x \<noteq> a" "\<And>x. hd_opt ys None = Some x \<Longrightarrow> x \<in> set ys \<and> x \<noteq> a"
    using dis last_opt_in hd_opt_in by fastforce+
  have other: "x \<notin> set (ch q)" if "q \<noteq> p" "x \<in> set xs \<union> set ys" for x q
    using other_list [OF l, of x p q] that ch by auto
  have chain': "chain (prv d') (nxt d') None ((ch(p := xs @ a # ys)) q) None" for q
  proof (cases "q = p")
    case True
    have "chain (prv d) (upd_opt (nxt d) (last_opt None xs) (Some a)) None xs (Some a)"
      using chain_set_last [OF chn(1)] dis by simp
    moreover have "chain (upd_opt (prv d) (hd_opt ys None) (Some a)) (nxt d) (Some a) ys None"
      using chain_set_first [OF chn(2)] dis by simp
    moreover have "\<And>x. last_opt None xs = Some x \<Longrightarrow> x \<notin> set ys" "\<And>x. hd_opt ys None = Some x \<Longrightarrow> x \<notin> set xs"
      using k dis by auto
    ultimately show ?thesis using True dis by (simp add: d' chain_other)
  next
    case False
    then show ?thesis using linksD(4) [OF l, of q] anot [of q] k other [OF False] by (simp add: d' chain_other)
  qed
  show ?thesis unfolding links_def
  proof (intro conjI allI impI)
    fix q
    show "chain (prv d') (nxt d') None ((ch(p := xs @ a # ys)) q) None" by (rule chain')
    show "first d' q = hd_opt ((ch(p := xs @ a # ys)) q) None" "lastc d' q = last_opt None ((ch(p := xs @ a # ys)) q)"
      "distinct ((ch(p := xs @ a # ys)) q)"
      using linksD(1-3) [OF l, of q] dis by (auto simp: d')
    show "(ch(p := xs @ a # ys)) q \<noteq> [] \<Longrightarrow> q \<in> nodes_of d'"
      using linksD(5) [OF l, of q] a(3) d'(6) by (auto simp: same_nodes_def split: if_splits)
    fix x
    show "par d' x = Some q \<longleftrightarrow> x \<in> set ((ch(p := xs @ a # ys)) q)"
      using linksD(6) [OF l, of x q] anot [of q] ch by (auto simp: d')
  next
    fix x assume x: "par d' x = None"
    then have "x \<noteq> a" "par d x = None" by (auto simp: d' split: if_splits)
    moreover have "x \<notin> set (xs @ ys)" using linksD(6) [OF l, of x p] \<open>par d x = None\<close> ch by auto
    ultimately show "prv d' x = None" "nxt d' x = None"
      using linksD(7,8) [OF l, of x] k by (auto simp: d' upd_opt_def split: option.split)
  qed
qed

text \<open>What the operations do to the lists of children.\<close>

fun behind :: "'a \<Rightarrow> 'a \<Rightarrow> 'a list \<Rightarrow> 'a list" where
  "behind b a [] = []"
| "behind b a (x # xs) = (if x = b then x # a # xs else x # behind b a xs)"

definition insert_end :: "nat \<Rightarrow> nat \<Rightarrow> (nat \<Rightarrow> nat list) \<Rightarrow> nat \<Rightarrow> nat list" where
  "insert_end p a ch = (let ch' = detach a ch in ch'(p := ch' p @ [a]))"

definition insert_first :: "nat \<Rightarrow> nat \<Rightarrow> (nat \<Rightarrow> nat list) \<Rightarrow> nat \<Rightarrow> nat list" where
  "insert_first p a ch = (let ch' = detach a ch in ch'(p := a # ch' p))"

definition insert_after :: "nat \<Rightarrow> nat \<Rightarrow> nat \<Rightarrow> (nat \<Rightarrow> nat list) \<Rightarrow> nat \<Rightarrow> nat list" where
  "insert_after p b a ch = (if a = b then ch else let ch' = detach a ch in ch'(p := behind b a (ch' p)))"

text \<open>The outcome of an insertion of \<open>a\<close> below \<open>p\<close>.\<close>

definition inserted :: "nat \<Rightarrow> nat \<Rightarrow> xstore \<Rightarrow> (nat \<Rightarrow> nat list) \<Rightarrow> (fault + nat option) \<times> xstore \<Rightarrow> bool" where
  "inserted p a d ch r \<longleftrightarrow> (\<exists>d'. r = (Inr (Some a), d') \<and> links d' ch \<and> par d' = (par d)(a := Some p) \<and> same_nodes d d' \<and>
     (tracked d \<longrightarrow> tracked d'))"

lemma tracked_insert:
  assumes "tracked d" "\<forall>doc. distinct (unlinked d' doc) \<and>
      set (unlinked d' doc) = {c. docu d c = Some doc \<and> data d c \<noteq> None \<and> par d c = None} - {a}"
    "par d' = (par d)(a := Some p)" "same_nodes d d'"
  shows "tracked d'"
  using assms unfolding tracked_def same_nodes_def by auto

lemma InsertEndChild_run:
  assumes l: "links d ch" and a: "a \<in> nodes_of d" "p \<in> nodes_of d" "docu d a = docu d p"
  shows "inserted p a d (insert_end p a ch) (InsertEndChild p a d)"
proof -
  obtain d1 where d1: "InsertChildPreamble a d = (Inr (), d1)" "links d1 (detach a ch)" "par d1 = (par d)(a := None)"
      "same_nodes d d1" "tracked d \<longrightarrow> (\<forall>doc. distinct (unlinked d1 doc) \<and>
        set (unlinked d1 doc) = {c. docu d c = Some doc \<and> data d c \<noteq> None \<and> par d c = None} - {a})"
    using preamble_run [OF l a(1)] by blast
  let ?xs = "detach a ch p"
  have n: "x \<in> nodes_of d1" if "x \<in> {a, p} \<union> set ?xs" for x
    using that a d1(4) links_node [OF d1(2), of x p] by (auto simp: same_nodes_def)
  have lastc: "lastc d1 p = last_opt None ?xs" using linksD(2) [OF d1(2)] .
  have "a \<notin> set ?xs" using linksD(6) [OF d1(2), of a p] d1(3) by simp
  then have "\<exists>d'. InsertEndChild p a d = (Inr (Some a), d') \<and> prv d' = (prv d1)(a := last_opt None ?xs) \<and>
      nxt d' = (upd_opt (nxt d1) (last_opt None ?xs) (Some a))(a := None) \<and> par d' = (par d1)(a := Some p) \<and>
      first d' = (first d1)(p := hd_opt (?xs @ [a]) None) \<and> lastc d' = (lastc d1)(p := Some a) \<and> same_nodes d1 d' \<and>
      unlinked d' = unlinked d1"
    using a n lastc linksD(1) [OF d1(2), of p]
    by (cases ?xs rule: rev_cases)
      (simp_all add: InsertEndChild_def cbind_Inr dom_run d1(1) views same_nodes_def fun_upd_idem)
  then obtain d' where d': "InsertEndChild p a d = (Inr (Some a), d')" "prv d' = (prv d1)(a := last_opt None ?xs)"
      "nxt d' = (upd_opt (nxt d1) (last_opt None ?xs) (Some a))(a := None)" "par d' = (par d1)(a := Some p)"
      "first d' = (first d1)(p := hd_opt (?xs @ [a]) None)" "lastc d' = (lastc d1)(p := Some a)" "same_nodes d1 d'"
      "unlinked d' = unlinked d1" by blast
  have "links d' ((detach a ch)(p := ?xs @ [a]))"
    using d1(3) n by (intro links_insert [OF d1(2), of p ?xs "[]"]) (simp_all add: d')
  moreover have "same_nodes d d'" "par d' = (par d)(a := Some p)" using d1(3,4) d'(4,7) by (simp_all add: same_nodes_def)
  ultimately show ?thesis using d' d1(5) tracked_insert [of d d' a p]
    by (auto simp: inserted_def insert_end_def Let_def)
qed

lemma InsertFirstChild_run:
  assumes l: "links d ch" and a: "a \<in> nodes_of d" "p \<in> nodes_of d" "docu d a = docu d p"
  shows "inserted p a d (insert_first p a ch) (InsertFirstChild p a d)"
proof -
  obtain d1 where d1: "InsertChildPreamble a d = (Inr (), d1)" "links d1 (detach a ch)" "par d1 = (par d)(a := None)"
      "same_nodes d d1" "tracked d \<longrightarrow> (\<forall>doc. distinct (unlinked d1 doc) \<and>
        set (unlinked d1 doc) = {c. docu d c = Some doc \<and> data d c \<noteq> None \<and> par d c = None} - {a})"
    using preamble_run [OF l a(1)] by blast
  let ?xs = "detach a ch p"
  have n: "x \<in> nodes_of d1" if "x \<in> {a, p} \<union> set ?xs" for x
    using that a d1(4) links_node [OF d1(2), of x p] by (auto simp: same_nodes_def)
  have first: "first d1 p = hd_opt ?xs None" using linksD(1) [OF d1(2)] .
  have "a \<notin> set ?xs" using linksD(6) [OF d1(2), of a p] d1(3) by simp
  then have "\<exists>d'. InsertFirstChild p a d = (Inr (Some a), d') \<and>
      prv d' = (upd_opt (prv d1) (hd_opt ?xs None) (Some a))(a := None) \<and> nxt d' = (nxt d1)(a := hd_opt ?xs None) \<and>
      par d' = (par d1)(a := Some p) \<and> first d' = (first d1)(p := Some a) \<and>
      lastc d' = (lastc d1)(p := last_opt None (a # ?xs)) \<and> same_nodes d1 d' \<and> unlinked d' = unlinked d1"
    using a n first linksD(2) [OF d1(2), of p]
    by (cases ?xs)
      (simp_all add: InsertFirstChild_def cbind_Inr dom_run d1(1) views same_nodes_def fun_upd_idem)
  then obtain d' where d': "InsertFirstChild p a d = (Inr (Some a), d')"
      "prv d' = (upd_opt (prv d1) (hd_opt ?xs None) (Some a))(a := None)" "nxt d' = (nxt d1)(a := hd_opt ?xs None)"
      "par d' = (par d1)(a := Some p)" "first d' = (first d1)(p := Some a)" "lastc d' = (lastc d1)(p := last_opt None (a # ?xs))"
      "same_nodes d1 d'" "unlinked d' = unlinked d1" by blast
  have "links d' ((detach a ch)(p := [] @ a # ?xs))"
    using d1(3) n by (intro links_insert [OF d1(2), of p "[]" ?xs]) (simp_all add: d')
  moreover have "same_nodes d d'" "par d' = (par d)(a := Some p)" using d1(3,4) d'(4,7) by (simp_all add: same_nodes_def)
  ultimately show ?thesis using d' d1(5) tracked_insert [of d d' a p]
    by (auto simp: inserted_def insert_first_def Let_def)
qed

lemma behind_append: "b \<notin> set xs \<Longrightarrow> behind b a (xs @ b # ys) = xs @ b # a # ys"
  by (induction xs) auto

lemma nxt_list:
  assumes "links d ch" "ch p = xs @ b # ys" shows "nxt d b = hd_opt ys None"
  using linksD(4) [OF assms(1), of p] assms(2) by simp

text \<open>\<open>InsertAfterChild\<close> behind a node that is not the last one, when the preamble leaves a node behind it.\<close>

lemma InsertAfterChild_run:
  assumes l: "links d ch" and a: "a \<in> nodes_of d" "docu d a = docu d p" and b: "par d b = Some p"
    and legal: "a = b \<or> \<not> (nxt d b = Some a \<and> nxt d a = None)"
  shows "inserted p a d (insert_after p b a ch) (InsertAfterChild p b a d)"
proof -
  have bin: "b \<in> set (ch p)" using linksD(6) [OF l] b by simp
  have p: "p \<in> nodes_of d" using linksD(5) [OF l, of p] bin by (cases "ch p") auto
  have bn: "b \<in> nodes_of d" by (rule links_node [OF l bin])
  show ?thesis
  proof (cases "a = b")
    case True
    then have "InsertAfterChild p b a d = (Inr (Some a), d)"
      using a p bn b by (simp add: InsertAfterChild_def cbind_Inr dom_run)
    moreover have "par d = (par d)(a := Some p)" using b True by auto
    ultimately show ?thesis using l True by (auto simp: inserted_def insert_after_def same_nodes_def)
  next
    case ab: False
    obtain d1 where d1: "InsertChildPreamble a d = (Inr (), d1)" "links d1 (detach a ch)" "par d1 = (par d)(a := None)"
        "same_nodes d d1" "tracked d \<longrightarrow> (\<forall>doc. distinct (unlinked d1 doc) \<and>
          set (unlinked d1 doc) = {c. docu d c = Some doc \<and> data d c \<noteq> None \<and> par d c = None} - {a})"
      using preamble_run [OF l a(1)] by blast
    obtain xs zs where ch: "ch p = xs @ b # zs" using bin by (meson split_list)
    have dis: "distinct (xs @ b # zs)" using linksD(3) [OF l, of p] ch by simp
    define us where "us = remove1 a xs"
    define ys where "ys = (if a \<in> set xs then zs else remove1 a zs)"
    have ch1: "detach a ch p = us @ b # ys" using ab by (auto simp: detach_def ch remove1_append us_def ys_def remove1_idem)
    have bus: "b \<notin> set us" using dis by (auto simp: us_def dest: notin_set_remove1)
    have n: "x \<in> nodes_of d1" if "x \<in> {a, p, b} \<union> set ys" for x
      using that a p bn d1(4) links_node [OF d1(2), of x p] ch1 by (auto simp: same_nodes_def)
    have anot: "a \<notin> set (us @ b # ys)" using linksD(6) [OF d1(2), of a p] d1(3) ch1 by simp
    show ?thesis
    proof (cases "nxt d b")
      case None
      then have "zs = []" using nxt_list [OF l ch] by (cases zs) simp_all
      then have "ys = []" by (simp add: ys_def)
      have "InsertAfterChild p b a d = InsertEndChild p a d"
        using a p bn b ab None by (simp add: InsertAfterChild_def cbind_Inr dom_run)
      moreover have "insert_after p b a ch = insert_end p a ch"
        using ab behind_append [OF bus, of a ys] ch1 \<open>ys = []\<close> by (simp add: insert_after_def insert_end_def Let_def)
      ultimately show ?thesis using InsertEndChild_run [OF l a(1) p a(2)] by simp
    next
      case (Some c)
      have "ys \<noteq> []"
      proof
        assume "ys = []"
        moreover have "zs \<noteq> []" using Some nxt_list [OF l ch] by auto
        ultimately have zs: "zs = [a]" unfolding ys_def by (cases zs) (auto split: if_splits)
        then have "nxt d b = Some a" "nxt d a = None"
          using nxt_list [OF l ch] nxt_list [OF l, of p "xs @ [b]" a "[]"] ch by simp_all
        then show False using legal ab by simp
      qed
      then obtain e ws where ys: "ys = e # ws" by (cases ys) auto
      have nb: "nxt d1 b = Some e" using nxt_list [OF d1(2) ch1] ys by simp
      have "a \<noteq> b" "a \<noteq> e" "b \<noteq> e" using anot ab ys linksD(3) [OF d1(2), of p] ch1 by auto
      then have "\<exists>d'. InsertAfterChild p b a d = (Inr (Some a), d') \<and>
          prv d' = ((prv d1)(e := Some a))(a := Some b) \<and> nxt d' = ((nxt d1)(b := Some a))(a := Some e) \<and>
          par d' = (par d1)(a := Some p) \<and> first d' = first d1 \<and> lastc d' = lastc d1 \<and> same_nodes d1 d' \<and> unlinked d' = unlinked d1"
        using a p bn b ab Some n ys nb
        by (simp add: InsertAfterChild_def cbind_Inr dom_run d1(1) views deref_def same_nodes_def fun_upd_twist)
      then obtain d' where d': "InsertAfterChild p b a d = (Inr (Some a), d')" "prv d' = ((prv d1)(e := Some a))(a := Some b)"
          "nxt d' = ((nxt d1)(b := Some a))(a := Some e)" "par d' = (par d1)(a := Some p)" "first d' = first d1"
          "lastc d' = lastc d1" "same_nodes d1 d'" "unlinked d' = unlinked d1" by blast
      have fl: "first d1 p = hd_opt (us @ [b]) None" "lastc d1 p = last_opt None (e # ws)"
        using linksD(1,2) [OF d1(2), of p] ch1 ys by simp_all
      have "links d' ((detach a ch)(p := (us @ [b]) @ a # ys))"
        using d1(3) n ch1 fl
        by (intro links_insert [OF d1(2)]) (simp_all add: d' ys fun_upd_idem)
      moreover have "insert_after p b a ch = (detach a ch)(p := (us @ [b]) @ a # ys)"
        using ab behind_append [OF bus, of a ys] ch1 by (simp add: insert_after_def Let_def)
      moreover have "same_nodes d d'" "par d' = (par d)(a := Some p)" using d1(3,4) d'(4,7) by (simp_all add: same_nodes_def)
      ultimately show ?thesis using d' d1(5) tracked_insert [of d d' a p] by (auto simp: inserted_def)
    qed
  qed
qed

text \<open>
  \<open>InsertAfterChild\<close> reads a null pointer when the node to be inserted is the last child and stands directly behind the
  other one already.
\<close>

lemma InsertAfterChild_null:
  assumes l: "links d ch" and a: "docu d a = docu d p" and ch: "ch p = xs @ [b, a]"
  shows "fst (InsertAfterChild p b a d) = Inl Undefined"
proof -
  have mem: "a \<in> set (ch p)" "b \<in> set (ch p)" "a \<noteq> b" using linksD(3) [OF l, of p] ch by auto
  have pa: "par d a = Some p" "par d b = Some p" using linksD(6) [OF l] mem by simp_all
  have n: "a \<in> nodes_of d" "b \<in> nodes_of d" "p \<in> nodes_of d" using links_node [OF l mem(1)] links_node [OF l mem(2)] linksD(5) [OF l, of p] ch by simp_all
  have nb: "nxt d b = Some a" using nxt_list [OF l, of p xs b "[a]"] ch by simp
  obtain d1 where d1: "InsertChildPreamble a d = (Inr (), d1)" "links d1 (detach a ch)" "same_nodes d d1"
    using preamble_run [OF l n(1)] by blast
  have "detach a ch p = xs @ b # []" using linksD(3) [OF l, of p] ch by (simp add: detach_def remove1_append)
  then have "nxt d1 b = None" using nxt_list [OF d1(2), of p xs b "[]"] by simp
  moreover have "a \<in> nodes_of d1" "b \<in> nodes_of d1" using n d1(3) by (simp_all add: same_nodes_def)
  ultimately show ?thesis using n pa nb a mem(3)
    by (simp add: InsertAfterChild_def cbind_Inr dom_run d1(1) views deref_def)
qed

section \<open>Well-formed stores\<close>

definition parents :: "xstore \<Rightarrow> (nat \<times> nat) set" where
  "parents d = {(c, p). par d c = Some p}"

text \<open>
  All pointers lead to nodes that exist and agree with lists of children, no node is below itself, each node that is not in a
  tree is in the list of its document, and a tree lies in one document.
\<close>

definition wf_store :: "xstore \<Rightarrow> (nat \<Rightarrow> nat list) \<Rightarrow> bool" where
  "wf_store d ch \<longleftrightarrow> links d ch \<and> tracked d \<and> nodes_of d \<subseteq> {..<nfresh d} \<and> acyclic (parents d) \<and>
     (\<forall>c p. par d c = Some p \<longrightarrow> docu d c = docu d p \<and> data d c \<noteq> None)"

lemma parents_upd: "par d' = (par d)(a := Some p) \<Longrightarrow> parents d' \<subseteq> insert (a, p) (parents d)"
  by (auto simp: parents_def split: if_splits)

lemma acyclic_parents:
  assumes "acyclic (parents d)" "par d' = (par d)(a := Some p)" "(p, a) \<notin> (parents d)\<^sup>*"
  shows "acyclic (parents d')"
proof -
  have "acyclic (insert (a, p) (parents d))" using assms by (simp add: acyclic_insert)
  then show ?thesis using parents_upd [OF assms(2)] acyclic_subset by blast
qed

text \<open>What a client must know of an insertion: both nodes exist, in one document, and it makes no cycle.\<close>

definition insertable :: "xstore \<Rightarrow> nat \<Rightarrow> nat \<Rightarrow> bool" where
  "insertable d p a \<longleftrightarrow> a \<in> nodes_of d \<and> p \<in> nodes_of d \<and> docu d a = docu d p \<and> data d a \<noteq> None \<and> (p, a) \<notin> (parents d)\<^sup>*"

lemma wf_inserted:
  assumes "wf_store d ch" "insertable d p a" "inserted p a d ch' r"
  shows "\<exists>d'. r = (Inr (Some a), d') \<and> wf_store d' ch' \<and> same_nodes d d'"
  using assms acyclic_parents [of d _ a p]
  unfolding inserted_def wf_store_def insertable_def same_nodes_def by fastforce

section \<open>Deleting a subtree\<close>

definition below :: "xstore \<Rightarrow> nat \<Rightarrow> nat set" where
  "below d a = {x. (x, a) \<in> (parents d)\<^sup>*}"

lemma below_self [simp]: "a \<in> below d a"
  by (simp add: below_def)

lemma parents_single: "(x, y) \<in> parents d \<Longrightarrow> (x, z) \<in> parents d \<Longrightarrow> y = z"
  by (simp add: parents_def)

lemma cut_below:
  assumes ac: "acyclic (parents d)" and ca: "par d c = Some a" and d1: "par d1 = (par d)(c := None)"
  shows "below d1 c = below d c" "below d1 a = below d a - below d c" "below d c \<subseteq> below d a - {a}"
proof -
  let ?R = "parents d" and ?S = "parents d1"
  have S: "?S = ?R - {(c, a)}" using ca d1 by (auto simp: parents_def split: if_splits)
  have ca': "(c, a) \<in> ?R" using ca by (simp add: parents_def)
  have no: "(a, c) \<notin> ?R\<^sup>*" using ac ca' by (meson acyclic_def rtrancl_into_trancl2)
  have SR: "?S\<^sup>* \<subseteq> ?R\<^sup>*" unfolding S by (rule rtrancl_mono) blast
  have "(x, c) \<in> ?R\<^sup>* \<Longrightarrow> (x, c) \<in> ?S\<^sup>*" for x
  proof (induction rule: converse_rtrancl_induct)
    case (step x y)
    then have "(x, y) \<noteq> (c, a)" using no by auto
    then have "(x, y) \<in> ?S" using step(1) by (simp add: S)
    then show ?case using step(3) by (meson converse_rtrancl_into_rtrancl)
  qed simp
  then show "below d1 c = below d c" using SR by (auto simp: below_def)
  have 1: "(x, c) \<in> ?R\<^sup>* \<Longrightarrow> (x, a) \<notin> ?S\<^sup>*" for x
  proof (induction rule: converse_rtrancl_induct)
    case base
    have "(c, y) \<notin> ?S" for y using d1 by (simp add: parents_def)
    moreover have "c \<noteq> a" using no by auto
    ultimately show ?case by (meson converse_rtranclE)
  next
    case (step x y)
    have "x \<noteq> a" using step(1,2) no by (meson converse_rtrancl_into_rtrancl)
    moreover have "z = y" if "(x, z) \<in> ?S" for z using that step(1) parents_single [of x z d y] by (simp add: S)
    ultimately show ?case using step(3) by (metis converse_rtranclE)
  qed
  have 2: "(x, a) \<in> ?R\<^sup>* \<Longrightarrow> (x, c) \<notin> ?R\<^sup>* \<Longrightarrow> (x, a) \<in> ?S\<^sup>*" for x
  proof (induction rule: converse_rtrancl_induct)
    case (step x y)
    then have "(y, c) \<notin> ?R\<^sup>*" "(x, y) \<in> ?S" by (auto simp: S intro: converse_rtrancl_into_rtrancl)
    then show ?case using step(3) by (meson converse_rtrancl_into_rtrancl)
  qed simp
  show "below d1 a = below d a - below d c" using 1 2 SR by (auto simp: below_def)
  show "below d c \<subseteq> below d a - {a}" using ca' no by (auto simp: below_def intro: rtrancl_into_rtrancl)
qed

text \<open>Removing a set of nodes that contains all nodes below its members, except some node's own subtree.\<close>

lemma par_restrict: "nheap d' = nheap d |` (- A) \<Longrightarrow> par d' x = (if x \<in> A then None else par d x)"
  by (simp add: par_def restrict_map_def)

lemma below_restrict:
  assumes "nheap d' = nheap d |` (- A)" "A \<inter> below d a = {}" shows "below d' a = below d a"
proof -
  have "(x, a) \<in> (parents d)\<^sup>* \<Longrightarrow> (x, a) \<in> (parents d')\<^sup>*" for x
  proof (induction rule: converse_rtrancl_induct)
    case (step x y)
    then have "x \<in> below d a" by (auto simp: below_def intro: converse_rtrancl_into_rtrancl)
    then have "(x, y) \<in> parents d'" using step(1) assms by (auto simp: parents_def par_restrict [OF assms(1)])
    then show ?case using step(3) by (meson converse_rtrancl_into_rtrancl)
  qed simp
  moreover have "parents d' \<subseteq> parents d" by (auto simp: parents_def par_restrict [OF assms(1)] split: if_splits)
  then have "(parents d')\<^sup>* \<subseteq> (parents d)\<^sup>*" by (rule rtrancl_mono)
  ultimately show ?thesis by (auto simp: below_def)
qed

lemma nheap_eq:
  assumes "x \<in> nodes_of d" "x \<in> nodes_of d'" "first d' x = first d x" "lastc d' x = lastc d x" "prv d' x = prv d x"
    "nxt d' x = nxt d x" "par d' x = par d x" "docu d' x = docu d x" "data d' x = data d x"
  shows "nheap d' x = nheap d x"
proof -
  obtain n m where "nheap d x = Some n" "nheap d' x = Some m" using assms(1,2) by (auto simp: nodes_of_def)
  then show ?thesis using assms(3-9) by (simp add: view_defs)
qed

lemma below_parent: "x \<in> below d a \<Longrightarrow> x \<noteq> a \<Longrightarrow> par d x = Some q \<Longrightarrow> q \<in> below d a"
proof -
  assume x: "x \<in> below d a" "x \<noteq> a" "par d x = Some q"
  then obtain z where "(x, z) \<in> parents d" "(z, a) \<in> (parents d)\<^sup>*" by (auto simp: below_def elim: converse_rtranclE)
  then show ?thesis using x(3) by (simp add: parents_def below_def)
qed

lemma below_child: "par d x = Some q \<Longrightarrow> q \<in> below d a \<Longrightarrow> x \<in> below d a"
  by (auto simp: below_def parents_def intro: converse_rtrancl_into_rtrancl)

lemma below_root: "x \<in> below d a \<Longrightarrow> x \<noteq> a \<Longrightarrow> par d x \<noteq> None"
  by (auto simp: below_def parents_def elim: converse_rtranclE)

lemma chain_cong: "(\<And>x. x \<in> set cs \<Longrightarrow> pv x = pv' x \<and> nx x = nx' x) \<Longrightarrow> chain pv nx a cs z = chain pv' nx' a cs z"
  by (induction pv nx a cs z rule: chain.induct) auto

definition removed :: "nat set \<Rightarrow> (nat \<Rightarrow> nat list) \<Rightarrow> nat \<Rightarrow> nat list" where
  "removed A ch = (\<lambda>q. if q \<in> A then [] else ch q)"

lemma restrict_views:
  assumes "nheap d' = nheap d |` (- A)"
  shows "first d' x = (if x \<in> A then None else first d x)" "lastc d' x = (if x \<in> A then None else lastc d x)"
    "prv d' x = (if x \<in> A then None else prv d x)" "nxt d' x = (if x \<in> A then None else nxt d x)"
    "docu d' x = (if x \<in> A then None else docu d x)" "data d' x = (if x \<in> A then None else data d x)"
    "nodes_of d' = nodes_of d - A"
  using assms by (auto simp: view_defs nodes_of_def restrict_map_def split: if_splits)

text \<open>The links after the nodes below a root \<open>c\<close> have lost theirs; \<open>c\<close> itself may stay as a node.\<close>

lemma links_cut:
  assumes l: "links d ch" and c: "par d c = None" and keep: "nodes_of d - below d c \<subseteq> nodes_of d'"
    and f: "\<And>x. first d' x = (if x \<in> below d c then None else first d x)" "\<And>x. lastc d' x = (if x \<in> below d c then None else lastc d x)"
      "\<And>x. prv d' x = (if x \<in> below d c then None else prv d x)" "\<And>x. nxt d' x = (if x \<in> below d c then None else nxt d x)"
      "\<And>x. par d' x = (if x \<in> below d c then None else par d x)"
  shows "links d' (removed (below d c) ch)"
proof -
  have kids: "x \<notin> below d c" if "x \<in> set (ch q)" "q \<notin> below d c" for x q
    using that linksD(6) [OF l, of x q] below_parent [of x d c q] c by fastforce
  show ?thesis unfolding links_def
  proof (intro conjI allI impI)
    fix q
    show "first d' q = hd_opt (removed (below d c) ch q) None" "lastc d' q = last_opt None (removed (below d c) ch q)"
      "distinct (removed (below d c) ch q)"
      using linksD(1-3) [OF l, of q] by (simp_all add: f removed_def)
    have "chain (prv d') (nxt d') None (ch q) None = chain (prv d) (nxt d) None (ch q) None" if "q \<notin> below d c"
      using kids that by (intro chain_cong) (auto simp: f)
    then show "chain (prv d') (nxt d') None (removed (below d c) ch q) None"
      using linksD(4) [OF l, of q] by (simp add: removed_def)
    show "removed (below d c) ch q \<noteq> [] \<Longrightarrow> q \<in> nodes_of d'"
      using linksD(5) [OF l, of q] keep by (auto simp: removed_def split: if_splits)
    fix x
    show "par d' x = Some q \<longleftrightarrow> x \<in> set (removed (below d c) ch q)"
      using linksD(6) [OF l, of x q] kids [of x q] below_child [of d x q c] by (auto simp: f removed_def)
  next
    fix x assume "par d' x = None"
    then show "prv d' x = None" "nxt d' x = None" using linksD(7,8) [OF l, of x] by (auto simp: f)
  qed
qed

lemma links_restrict:
  assumes "links d ch" "par d c = None" and d': "nheap d' = nheap d |` (- below d c)"
  shows "links d' (removed (below d c) ch)"
  by (rule links_cut [OF assms(1,2)]) (simp_all add: restrict_views [OF d'] par_restrict [OF d'])

definition loose :: "xstore \<Rightarrow> nat \<Rightarrow> nat set" where
  "loose d doc = {c. docu d c = Some doc \<and> data d c \<noteq> None \<and> par d c = None}"

text \<open>The lists of the documents, while the nodes of \<open>S\<close> are on their way out.\<close>

definition tracked_but :: "nat set \<Rightarrow> xstore \<Rightarrow> bool" where
  "tracked_but S d \<longleftrightarrow> (\<forall>doc. distinct (unlinked d doc) \<and> set (unlinked d doc) = loose d doc - S)"

lemma tracked_but_empty: "tracked d = tracked_but {} d"
  by (simp add: tracked_def tracked_but_def loose_def)

text \<open>The outcome of the deletion of the children of \<open>a\<close>.\<close>

definition emptied :: "nat \<Rightarrow> xstore \<Rightarrow> xstore \<Rightarrow> bool" where
  "emptied a d d' \<longleftrightarrow> nodes_of d' = nodes_of d - (below d a - {a}) \<and> (\<forall>x. x \<notin> below d a \<longrightarrow> nheap d' x = nheap d x) \<and>
     par d' a = par d a \<and> prv d' a = prv d a \<and> nxt d' a = nxt d a \<and> data d' a = data d a \<and> docu d' a = docu d a \<and>
     first d' a = None \<and> lastc d' a = None \<and> nfresh d' = nfresh d"

lemma nheap_None: "x \<notin> nodes_of d \<longleftrightarrow> nheap d x = None"
  by (auto simp: nodes_of_def)

lemma cut_frame:
  assumes l: "links d ch" and c: "par d c = Some a" and ac: "acyclic (parents d)" and d1: "links d1 (ch(a := remove1 c (ch a)))"
    "par d1 = (par d)(c := None)" "same_nodes d d1" "\<forall>x. x \<notin> set (ch a) \<longrightarrow> prv d1 x = prv d x \<and> nxt d1 x = nxt d x"
  shows "x \<notin> below d a \<Longrightarrow> nheap d1 x = nheap d x"
    "par d1 a = par d a" "prv d1 a = prv d a" "nxt d1 a = nxt d a" "data d1 a = data d a" "docu d1 a = docu d a"
proof -
  have kid: "y \<in> below d a \<and> y \<noteq> a" if "y \<in> set (ch a)" for y
  proof -
    have "(y, a) \<in> parents d" using that linksD(6) [OF l, of y a] by (simp add: parents_def)
    then show ?thesis using ac by (auto simp: below_def acyclic_def)
  qed
  have ca: "c \<in> set (ch a)" using c linksD(6) [OF l, of c a] by simp
  have "a \<notin> set (ch a)" using kid [of a] by blast
  then show "prv d1 a = prv d a" "nxt d1 a = nxt d a" using d1(4) by blast+
  show "par d1 a = par d a" using d1(2) kid [OF ca] by simp
  show "data d1 a = data d a" "docu d1 a = docu d a" using d1(3) by (simp_all add: same_nodes_def)
  assume x: "x \<notin> below d a"
  then have "x \<noteq> a" "x \<noteq> c" "x \<notin> set (ch a)" using kid [of x] kid [OF ca] by auto
  then have views: "first d1 x = first d x" "lastc d1 x = lastc d x" "prv d1 x = prv d x" "nxt d1 x = nxt d x"
      "par d1 x = par d x" "docu d1 x = docu d x" "data d1 x = data d x" "x \<in> nodes_of d1 \<longleftrightarrow> x \<in> nodes_of d"
    using d1(2-4) linksD(1,2) [OF l, of x] linksD(1,2) [OF d1(1), of x] by (simp_all add: same_nodes_def)
  show "nheap d1 x = nheap d x"
  proof (cases "x \<in> nodes_of d")
    case True
    then show ?thesis using views by (intro nheap_eq) simp_all
  next
    case False
    then have "nheap d x = None" "nheap d1 x = None" using views(8) nheap_None by auto
    then show ?thesis by simp
  qed
qed

text \<open>The recursion, by induction on the fuel: the measure of a node is the number of nodes below it.\<close>

definition deletes :: "nat \<Rightarrow> bool" where
  "deletes k \<longleftrightarrow> (\<forall>d ch a S. links d ch \<longrightarrow> finite (nodes_of d) \<longrightarrow> acyclic (parents d) \<longrightarrow> a \<in> nodes_of d \<longrightarrow> par d a = None \<longrightarrow>
     tracked_but S d \<longrightarrow> 2 * card (below d a) \<le> k \<longrightarrow>
     (\<exists>d'. DeleteNode k a d = (Inr (), d') \<and> nheap d' = nheap d |` (- below d a) \<and> nfresh d' = nfresh d \<and> tracked_but S d'))"

definition empties :: "nat \<Rightarrow> bool" where
  "empties k \<longleftrightarrow> (\<forall>d ch a S. links d ch \<longrightarrow> finite (nodes_of d) \<longrightarrow> acyclic (parents d) \<longrightarrow> a \<in> nodes_of d \<longrightarrow>
     tracked_but S d \<longrightarrow> 2 * card (below d a) \<le> Suc k \<longrightarrow>
     (\<exists>d'. DeleteChildren k a d = (Inr (), d') \<and> emptied a d d' \<and> tracked_but S d'))"

lemma deletesD:
  "deletes k \<Longrightarrow> links d ch \<Longrightarrow> finite (nodes_of d) \<Longrightarrow> acyclic (parents d) \<Longrightarrow> a \<in> nodes_of d \<Longrightarrow> par d a = None \<Longrightarrow>
     tracked_but S d \<Longrightarrow> 2 * card (below d a) \<le> k \<Longrightarrow>
     \<exists>d'. DeleteNode k a d = (Inr (), d') \<and> nheap d' = nheap d |` (- below d a) \<and> nfresh d' = nfresh d \<and> tracked_but S d'"
  unfolding deletes_def by blast

lemma emptiesD:
  "empties k \<Longrightarrow> links d ch \<Longrightarrow> finite (nodes_of d) \<Longrightarrow> acyclic (parents d) \<Longrightarrow> a \<in> nodes_of d \<Longrightarrow>
     tracked_but S d \<Longrightarrow> 2 * card (below d a) \<le> Suc k \<Longrightarrow>
     \<exists>d'. DeleteChildren k a d = (Inr (), d') \<and> emptied a d d' \<and> tracked_but S d'"
  unfolding empties_def by blast

lemma below_nodes: "a \<in> nodes_of d \<Longrightarrow> below d a \<subseteq> nodes_of d"
proof
  fix x assume a: "a \<in> nodes_of d" and "x \<in> below d a"
  then have "x = a \<or> (\<exists>z. (x, z) \<in> parents d)" by (auto simp: below_def elim: converse_rtranclE)
  then show "x \<in> nodes_of d" using a by (auto simp: parents_def par_def nodes_of_def bind_eq_Some_conv)
qed

lemma empties_step:
  assumes del: "deletes k" and emp: "empties k" shows "empties (Suc k)"
  unfolding empties_def
proof (intro allI impI)
  fix d ch a S
  assume l: "links d ch" and fin: "finite (nodes_of d)" and ac: "acyclic (parents d)" and a: "a \<in> nodes_of d"
    and t: "tracked_but S d" and k: "2 * card (below d a) \<le> Suc (Suc k)"
  show "\<exists>d'. DeleteChildren (Suc k) a d = (Inr (), d') \<and> emptied a d d' \<and> tracked_but S d'"
  proof (cases "ch a")
    case Nil
    have "x = a" if "x \<in> below d a" for x
    proof (rule ccontr)
      assume "x \<noteq> a"
      then have "(x, a) \<in> (parents d)\<^sup>+" using that by (simp add: below_def rtrancl_eq_or_trancl)
      then obtain z where "(z, a) \<in> parents d" by (meson tranclE)
      then show False using linksD(6) [OF l, of z a] Nil by (simp add: parents_def)
    qed
    then have b: "below d a = {a}" by auto
    have "first d a = None" using linksD(1) [OF l, of a] Nil by simp
    then show ?thesis using a t b
      by (simp add: cbind_Inr dom_run emptied_def views tracked_but_def loose_def)
        (simp add: put_def)
  next
    case (Cons c cs)
    have first: "first d a = Some c" using linksD(1) [OF l, of a] Cons by simp
    have pc: "par d c = Some a" using linksD(6) [OF l, of c a] Cons by simp
    obtain d1 where d1: "Unlink a c d = (Inr (), d1)" "links d1 (ch(a := remove1 c (ch a)))" "par d1 = (par d)(c := None)"
        "same_nodes d d1" "unlinked d1 = unlinked d" "\<forall>x. x \<notin> set (ch a) \<longrightarrow> prv d1 x = prv d x \<and> nxt d1 x = nxt d x"
      using Unlink_run [OF l pc] by blast
    note cut = cut_below [OF ac pc d1(3)]
    note frame = cut_frame [OF l pc ac d1(2-4,6)]
    have fin1: "finite (nodes_of d1)" using fin d1(4) by (simp add: same_nodes_def)
    have finb: "finite (below d a)" using below_nodes [OF a] fin finite_subset by blast
    have ac1: "acyclic (parents d1)"
      using ac by (rule acyclic_subset) (auto simp: parents_def d1(3) split: if_splits)
    have c1: "c \<in> nodes_of d1" "par d1 c = None" using links_node [OF l, of c a] Cons d1(3,4) by (simp_all add: same_nodes_def)
    have loose1: "loose d1 doc = loose d doc \<union> (if docu d c = Some doc \<and> data d c \<noteq> None then {c} else {})" for doc
      using d1(3,4) by (auto simp: loose_def same_nodes_def split: if_splits)
    have "c \<notin> loose d doc" for doc using pc by (simp add: loose_def)
    then have t1: "tracked_but (insert c S) d1" using t d1(5) unfolding tracked_but_def loose1 by auto
    have card: "card (below d c) < card (below d a)"
      using cut(3) finb by (intro psubset_card_mono) auto
    then have "2 * card (below d1 c) \<le> k" using k cut(1) by simp
    from deletesD [OF del d1(2) fin1 ac1 c1 t1 this] obtain d2 where d2: "DeleteNode k c d1 = (Inr (), d2)"
        "nheap d2 = nheap d1 |` (- below d1 c)" "nfresh d2 = nfresh d1" "tracked_but (insert c S) d2" by blast
    let ?ch = "removed (below d1 c) (ch(a := remove1 c (ch a)))"
    have l2: "links d2 ?ch" by (rule links_restrict [OF d1(2) c1(2) d2(2)])
    note views2 = restrict_views [OF d2(2)] par_restrict [OF d2(2)]
    have fin2: "finite (nodes_of d2)" using fin1 by (simp add: views2)
    have ac2: "acyclic (parents d2)"
      using ac1 by (rule acyclic_subset) (auto simp: parents_def views2 split: if_splits)
    have anot: "a \<notin> below d1 c" using cut by auto
    then have a2: "a \<in> nodes_of d2" using a d1(4) by (simp add: views2 same_nodes_def)
    have "c \<notin> loose d2 doc" for doc using below_self [of c d1] by (simp add: loose_def views2)
    then have t2: "tracked_but S d2" using d2(4) unfolding tracked_but_def by auto
    have "below d1 c \<inter> below d1 a = {}" unfolding cut(1,2) by blast
    then have b2: "below d2 a = below d a - below d c" using below_restrict [OF d2(2), of a] cut(2) by simp
    have "below d a - below d c \<subset> below d a" using below_self [of c d] cut(3) by blast
    then have "card (below d2 a) < card (below d a)" unfolding b2 using finb by (intro psubset_card_mono)
    then have "2 * card (below d2 a) \<le> Suc k" using k by simp
    from emptiesD [OF emp l2 fin2 ac2 a2 t2 this] obtain d3 where d3: "DeleteChildren k a d2 = (Inr (), d3)" "emptied a d2 d3"
        "tracked_but S d3" by blast
    have "DeleteChildren (Suc k) a d = (Inr (), d3)"
      using a first d1(1) d2(1) d3(1) by (simp add: cbind_Inr dom_run)
    moreover have "emptied a d d3"
    proof -
      have n: "nodes_of d3 = nodes_of d - (below d a - {a})"
        using d3(2) d1(4) cut anot unfolding emptied_def b2 views2(7) same_nodes_def by auto
      have "nheap d3 x = nheap d x" if x: "x \<notin> below d a" for x
      proof -
        have "nheap d3 x = nheap d2 x" using d3(2) x b2 by (simp add: emptied_def)
        also have "\<dots> = nheap d1 x" using x cut(1,3) d2(2) by (auto simp: restrict_map_def)
        finally show ?thesis using frame(1) [OF x] by simp
      qed
      then show ?thesis using n d3(2) d2(3) d1(4) frame(2-6) anot
        unfolding emptied_def by (simp add: views2 same_nodes_def)
    qed
    ultimately show ?thesis using d3(3) by blast
  qed
qed

lemma deletes_step:
  assumes emp: "empties k" shows "deletes (Suc k)"
  unfolding deletes_def
proof (intro allI impI)
  fix d ch a S
  assume l: "links d ch" and fin: "finite (nodes_of d)" and ac: "acyclic (parents d)" and a: "a \<in> nodes_of d" "par d a = None"
    and t: "tracked_but S d" and k: "2 * card (below d a) \<le> Suc k"
  obtain doc where doc: "docu d a = Some doc" using a by (auto simp: nodes_of_def docu_def)
  obtain us where us: "MarkInUse doc a d = (Inr (), d\<lparr>unlinked := (unlinked d)(doc := us)\<rparr>)"
      "distinct (unlinked d doc) \<longrightarrow> distinct us \<and> set us = set (unlinked d doc) - {a}"
    using MarkInUse_run by blast
  define d1 where "d1 = (if data d a \<noteq> None then d\<lparr>unlinked := (unlinked d)(doc := us)\<rparr> else d)"
  have same: "nheap d1 = nheap d" "nfresh d1 = nfresh d" by (simp_all add: d1_def)
  then have views1: "first d1 = first d" "lastc d1 = lastc d" "prv d1 = prv d" "nxt d1 = nxt d" "par d1 = par d"
      "docu d1 = docu d" "data d1 = data d" "nodes_of d1 = nodes_of d"
    by (simp_all add: view_defs fun_eq_iff nodes_of_def dom_def)
  have b1: "below d1 a = below d a" "loose d1 = loose d" by (simp_all add: below_def parents_def loose_def fun_eq_iff views1)
  have out: "a \<notin> loose d q" if "q \<noteq> doc \<or> data d a = None" for q using that doc by (auto simp: loose_def)
  have t1: "tracked_but (insert a S) d1"
    unfolding tracked_but_def b1(2)
  proof
    fix q
    have u: "distinct (unlinked d q)" "set (unlinked d q) = loose d q - S" using t by (simp_all add: tracked_but_def)
    show "distinct (unlinked d1 q) \<and> set (unlinked d1 q) = loose d q - insert a S"
      using u us(2) out [of q] by (cases "q = doc \<and> data d a \<noteq> None") (auto simp: d1_def)
  qed
  have l1: "links d1 ch" using l by (simp add: d1_def)
  have "finite (nodes_of d1)" "acyclic (parents d1)" "a \<in> nodes_of d1" "2 * card (below d1 a) \<le> Suc k"
    using fin ac a k by (simp_all add: views1 b1 parents_def)
  from emptiesD [OF emp l1 this(1-3) t1 this(4)] obtain d2 where d2: "DeleteChildren k a d1 = (Inr (), d2)" "emptied a d1 d2"
      "tracked_but (insert a S) d2" by blast
  have a2: "a \<in> nodes_of d2" "par d2 a = None" using d2(2) a by (simp_all add: emptied_def views1)
  let ?d3 = "d2\<lparr>nheap := (nheap d2)(a := None)\<rparr>"
  have "DeleteNode (Suc k) a d = (Inr (), ?d3)"
    using a doc us(1) d2(1) a2
    by (cases "data d a = None") (simp_all add: cbind_Inr dom_run d1_def free_node_def modify_def)
  moreover have h3: "nheap ?d3 = nheap d |` (- below d a)"
  proof
    fix x
    have "x \<in> below d a \<Longrightarrow> x \<noteq> a \<Longrightarrow> nheap d2 x = None"
      using d2(2) nheap_None [of x d2] by (simp add: emptied_def b1 views1)
    then show "nheap ?d3 x = (nheap d |` (- below d a)) x"
      using d2(2) below_self [of a d] by (auto simp: emptied_def b1 same restrict_map_def)
  qed
  moreover have "tracked_but S ?d3"
  proof -
    have "loose ?d3 q = loose d2 q - {a}" for q
      by (auto simp: loose_def docu_def data_def par_def)
    moreover have "loose d2 q - {a} - S = loose d2 q - insert a S" for q by blast
    ultimately show ?thesis using d2(3) unfolding tracked_but_def by simp
  qed
  ultimately show "\<exists>d'. DeleteNode (Suc k) a d = (Inr (), d') \<and> nheap d' = nheap d |` (- below d a) \<and> nfresh d' = nfresh d \<and>
      tracked_but S d'"
    using d2(2) same(2) by (intro exI [of _ ?d3]) (simp add: emptied_def)
qed

lemma card_below: "finite (nodes_of d) \<Longrightarrow> a \<in> nodes_of d \<Longrightarrow> 0 < card (below d a)"
  using below_nodes [of a d] finite_subset below_self [of a d] by (metis card_gt_0_iff empty_iff)

lemma delete_all: "deletes k \<and> empties k"
proof (induction k)
  case 0
  have "deletes 0" "empties 0" unfolding deletes_def empties_def using card_below by fastforce+
  then show ?case by simp
next
  case (Suc k)
  then show ?case using deletes_step empties_step by blast
qed

section \<open>The operations on well-formed stores\<close>

lemma wf_finite: "wf_store d ch \<Longrightarrow> finite (nodes_of d)"
  unfolding wf_store_def using finite_subset by blast

lemma wf_tracked: "wf_store d ch \<Longrightarrow> tracked_but {} d"
  by (simp add: wf_store_def tracked_but_empty)

lemma card_fuel: "wf_store d ch \<Longrightarrow> a \<in> nodes_of d \<Longrightarrow> 2 * card (below d a) \<le> delete_fuel d"
proof -
  assume w: "wf_store d ch" "a \<in> nodes_of d"
  have "below d a \<subseteq> {..<nfresh d}" using below_nodes [OF w(2)] w(1) by (auto simp: wf_store_def)
  then have "card (below d a) \<le> nfresh d" using card_mono [of "{..<nfresh d}"] by fastforce
  then show ?thesis by (simp add: delete_fuel_def)
qed

lemma wf_removed:
  assumes w: "wf_store d ch" and l: "links d1 ch1" "par d1 = (par d)(a := None)" "same_nodes d d1"
    and d': "nheap d' = nheap d1 |` (- below d1 a)" "nfresh d' = nfresh d1" "tracked_but {} d'"
  shows "wf_store d' (removed (below d1 a) ch1)"
proof -
  note views = restrict_views [OF d'(1)] par_restrict [OF d'(1)]
  have same: "nodes_of d1 = nodes_of d" "data d1 = data d" "docu d1 = docu d" "nfresh d1 = nfresh d"
    using l(3) by (simp_all add: same_nodes_def)
  show ?thesis unfolding wf_store_def
  proof (intro conjI allI impI)
    show "links d' (removed (below d1 a) ch1)" using l by (intro links_restrict [OF l(1) _ d'(1)]) simp
    show "tracked d'" using d'(3) by (simp add: tracked_but_empty)
    show "nodes_of d' \<subseteq> {..<nfresh d'}" using w d'(2) same by (auto simp: wf_store_def views(7))
    have "parents d' \<subseteq> parents d" by (auto simp: parents_def views l(2) split: if_splits)
    then show "acyclic (parents d')" using w acyclic_subset by (auto simp: wf_store_def)
    fix c q assume q: "par d' c = Some q"
    then have "c \<notin> below d1 a" "par d1 c = Some q" by (auto simp: views split: if_splits)
    moreover from this have "q \<notin> below d1 a" using below_child by blast
    moreover have "par d c = Some q" using \<open>par d1 c = Some q\<close> l(2) by (auto split: if_splits)
    ultimately show "docu d' c = docu d' q" "data d' c \<noteq> None" using w same by (auto simp: wf_store_def views)
  qed
qed

text \<open>Deleting a node that is not in a tree, and a child.\<close>

lemma XMLDocument_DeleteNode_run:
  assumes w: "wf_store d ch" and a: "a \<in> nodes_of d"
  shows "\<exists>d'. XMLDocument_DeleteNode a d = (Inr (), d') \<and> wf_store d' (removed (below d a) (detach a ch)) \<and>
    nodes_of d' = nodes_of d - below d a \<and> nfresh d' = nfresh d \<and> (\<forall>x. x \<notin> below d a \<longrightarrow> data d' x = data d x \<and> docu d' x = docu d x)"
proof -
  have l: "links d ch" and ac: "acyclic (parents d)" using w by (simp_all add: wf_store_def)
  obtain d1 where d1: "links d1 (detach a ch)" "par d1 = (par d)(a := None)" "same_nodes d d1"
      "below d1 a = below d a" "tracked_but {a} d1 \<or> tracked_but {} d1"
    and run: "XMLDocument_DeleteNode a d = DeleteNode (delete_fuel d) a d1"
  proof (cases "par d a")
    case None
    have "XMLDocument_DeleteNode a d = DeleteNode (delete_fuel d) a d"
      using None a by (simp add: XMLDocument_DeleteNode_def cbind_Inr dom_run)
    moreover have "(par d)(a := None) = par d" using None by auto
    ultimately show ?thesis using that [of d] l detach_none [OF l None] wf_tracked [OF w] by (simp add: same_nodes_def)
  next
    case (Some p)
    obtain d1 where d1: "Unlink p a d = (Inr (), d1)" "links d1 (ch(p := remove1 a (ch p)))" "par d1 = (par d)(a := None)"
        "same_nodes d d1" "unlinked d1 = unlinked d"
      using Unlink_run [OF l Some] by blast
    have "nfresh d1 = nfresh d" using d1(4) by (simp add: same_nodes_def)
    then have "XMLDocument_DeleteNode a d = DeleteNode (delete_fuel d) a d1"
      using Some a d1(1) by (simp add: XMLDocument_DeleteNode_def DeleteChild_def cbind_Inr dom_run delete_fuel_def)
    moreover have "tracked_but {a} d1"
    proof -
      have "loose d1 q - {a} = loose d q" for q using d1(3,4) Some by (auto simp: loose_def same_nodes_def split: if_splits)
      then show ?thesis using wf_tracked [OF w] d1(5) by (simp add: tracked_but_def)
    qed
    ultimately show ?thesis
      using that [of d1] d1 detach_list [OF l Some] cut_below(1) [OF ac Some d1(3)] by simp
  qed
  have fin: "finite (nodes_of d1)" using wf_finite [OF w] d1(3) by (simp add: same_nodes_def)
  have ac1: "acyclic (parents d1)"
    using ac by (rule acyclic_subset) (auto simp: parents_def d1(2) split: if_splits)
  have a1: "a \<in> nodes_of d1" "par d1 a = None" using a d1(2,3) by (simp_all add: same_nodes_def)
  have k: "2 * card (below d1 a) \<le> delete_fuel d" using card_fuel [OF w a] d1(4) by simp
  obtain d' where d': "DeleteNode (delete_fuel d) a d1 = (Inr (), d')" "nheap d' = nheap d1 |` (- below d1 a)" "nfresh d' = nfresh d1"
      "tracked_but {} d'"
  proof -
    obtain S where S: "tracked_but S d1" "S \<subseteq> {a}" using d1(5) by blast
    obtain d' where d': "DeleteNode (delete_fuel d) a d1 = (Inr (), d')" "nheap d' = nheap d1 |` (- below d1 a)"
        "nfresh d' = nfresh d1" "tracked_but S d'"
      using deletesD [OF conjunct1 [OF delete_all] d1(1) fin ac1 a1 S(1) k] by blast
    have "a \<notin> loose d' q" for q using below_self [of a d1] by (simp add: loose_def restrict_views [OF d'(2)])
    then have "tracked_but {} d'" using d'(4) S(2) unfolding tracked_but_def by auto
    then show ?thesis using that d' by blast
  qed
  have "wf_store d' (removed (below d1 a) (detach a ch))" by (rule wf_removed [OF w d1(1-3) d'(2-4)])
  then show ?thesis using run d' d1(3,4) by (simp add: restrict_views [OF d'(2)] same_nodes_def)
qed

end
