(* ===== verification/XmlEdits.thy ===== *)
theory XmlEdits
  imports XmlLinks
begin

text \<open>
  Sequences of edits of XML documents: the pointers refine lists of children, no edit that respects the obligations of the
  client fails, and the navigation functions are searches in the lists.
\<close>

section \<open>Edits\<close>

datatype xedit = NewDocument | NewNode nat xnode | EndChild nat nat | FirstChild nat nat | AfterChild nat nat nat | Delete nat

fun perform :: "xedit \<Rightarrow> (xstore, nat option) cm" where
  "perform NewDocument = cbind new_document (\<lambda>p. ret (Some p))"
| "perform (NewNode doc x) = cbind (CreateUnlinkedNode doc x) (\<lambda>p. ret (Some p))"
| "perform (EndChild p a) = InsertEndChild p a"
| "perform (FirstChild p a) = InsertFirstChild p a"
| "perform (AfterChild p b a) = InsertAfterChild p b a"
| "perform (Delete a) = cbind (XMLDocument_DeleteNode a) (\<lambda>_. ret None)"

text \<open>The effect on the lists of children.\<close>

definition subtree :: "(nat \<Rightarrow> nat list) \<Rightarrow> nat \<Rightarrow> nat set" where
  "subtree ch a = {x. (x, a) \<in> {(c, p). c \<in> set (ch p)}\<^sup>*}"

fun abs_edit :: "xedit \<Rightarrow> (nat \<Rightarrow> nat list) \<Rightarrow> nat \<Rightarrow> nat list" where
  "abs_edit NewDocument ch = ch"
| "abs_edit (NewNode doc x) ch = ch"
| "abs_edit (EndChild p a) ch = insert_end p a ch"
| "abs_edit (FirstChild p a) ch = insert_first p a ch"
| "abs_edit (AfterChild p b a) ch = insert_after p b a ch"
| "abs_edit (Delete a) ch = removed (subtree ch a) (detach a ch)"

text \<open>
  The obligations of the client: nodes exist and lie in one document, a node is not put below itself, documents are
  not deleted as nodes, and a last child is not put behind the node before it.
\<close>

definition may_insert :: "xstore \<Rightarrow> (nat \<Rightarrow> nat list) \<Rightarrow> nat \<Rightarrow> nat \<Rightarrow> bool" where
  "may_insert d ch p a \<longleftrightarrow> docu d p \<noteq> None \<and> docu d a = docu d p \<and> data d a \<noteq> None \<and> p \<notin> subtree ch a"

fun allowed :: "xstore \<Rightarrow> (nat \<Rightarrow> nat list) \<Rightarrow> xedit \<Rightarrow> bool" where
  "allowed d ch NewDocument \<longleftrightarrow> True"
| "allowed d ch (NewNode doc x) \<longleftrightarrow> docu d doc = Some doc \<and> data d doc = None"
| "allowed d ch (EndChild p a) \<longleftrightarrow> may_insert d ch p a"
| "allowed d ch (FirstChild p a) \<longleftrightarrow> may_insert d ch p a"
| "allowed d ch (AfterChild p b a) \<longleftrightarrow> may_insert d ch p a \<and> b \<in> set (ch p) \<and> (\<nexists>xs. ch p = xs @ [b, a])"
| "allowed d ch (Delete a) \<longleftrightarrow> data d a \<noteq> None"

lemma subtree_below: "links d ch \<Longrightarrow> subtree ch a = below d a"
  by (simp add: subtree_def below_def parents_def linksD(6))

text \<open>The documents of all nodes exist, and a document is its own document.\<close>

definition documented :: "xstore \<Rightarrow> bool" where
  "documented d \<longleftrightarrow> (\<forall>c q. docu d c = Some q \<longrightarrow> data d q = None \<and> docu d q = Some q \<and> (data d c = None \<longrightarrow> c = q))"

lemma docu_node: "docu d a = Some q \<Longrightarrow> a \<in> nodes_of d"
  by (auto simp: docu_def nodes_of_def)

lemma data_node: "data d a \<noteq> None \<Longrightarrow> a \<in> nodes_of d"
  by (cases "nheap d a") (auto simp: data_def nodes_of_def)

lemma missing_views:
  assumes "p \<notin> nodes_of d" shows "nheap d p = None" "par d p = None" "docu d p = None" "data d p = None"
    "first d p = None" "lastc d p = None" "prv d p = None" "nxt d p = None"
proof -
  show n: "nheap d p = None" using assms nheap_None by blast
  show "par d p = None" "docu d p = None" "data d p = None" "first d p = None" "lastc d p = None" "prv d p = None" "nxt d p = None"
    by (simp_all add: n view_defs)
qed

lemma after_legal:
  assumes l: "links d ch" and b: "b \<in> set (ch p)" and n: "\<nexists>xs. ch p = xs @ [b, a]"
  shows "\<not> (nxt d b = Some a \<and> nxt d a = None)"
proof
  assume nx: "nxt d b = Some a \<and> nxt d a = None"
  obtain xs ys where ch: "ch p = xs @ b # ys" using b by (meson split_list)
  then have "hd_opt ys None = Some a" using nxt_list [OF l ch] nx by simp
  then obtain zs where zs: "ys = a # zs" by (cases ys) auto
  have "hd_opt zs None = None" using nxt_list [OF l, of p "xs @ [b]" a zs] ch zs nx by simp
  then have "zs = []" by (cases zs) auto
  then show False using n ch zs by blast
qed

lemma same_documented: "documented d \<Longrightarrow> same_nodes d d' \<Longrightarrow> documented d'"
  by (simp add: documented_def same_nodes_def)

lemma fresh_views:
  assumes "p \<notin> nodes_of d" "nheap d' = (nheap d)(p \<mapsto> new_node doc x)"
  shows "first d' = first d" "lastc d' = lastc d" "prv d' = prv d" "nxt d' = nxt d" "par d' = par d"
    "docu d' = (docu d)(p := Some doc)" "data d' = (data d)(p := x)" "nodes_of d' = insert p (nodes_of d)"
  using missing_views(1) [OF assms(1)]
  by (auto simp: view_defs fun_eq_iff nodes_of_def new_node_def assms(2))

lemma wf_new:
  assumes w: "wf_store d ch" "documented d"
    and d': "nheap d' = (nheap d)(nfresh d \<mapsto> new_node doc x)" "nfresh d' = Suc (nfresh d)" "tracked d'"
    and doc: "x = None \<longrightarrow> doc = nfresh d" "x \<noteq> None \<longrightarrow> docu d doc = Some doc \<and> data d doc = None"
  shows "wf_store d' ch \<and> documented d'"
proof -
  have p: "nfresh d \<notin> nodes_of d" using w(1) by (auto simp: wf_store_def)
  note v = fresh_views [OF p d'(1)] and m = missing_views [OF p]
  have none: "docu d c \<noteq> Some (nfresh d)" for c using w(2) m(3) by (fastforce simp: documented_def)
  have "documented d'"
    unfolding documented_def v
  proof (intro allI impI)
    fix c q assume q: "((docu d)(nfresh d := Some doc)) c = Some q"
    then have "q = doc \<and> c = nfresh d \<or> docu d c = Some q" by (auto split: if_splits)
    then show "((data d)(nfresh d := x)) q = None \<and> ((docu d)(nfresh d := Some doc)) q = Some q \<and>
        (((data d)(nfresh d := x)) c = None \<longrightarrow> c = q)"
      using w(2) doc none q by (cases x) (auto simp: documented_def split: if_splits)
  qed
  moreover have l: "links d ch" using w(1) by (simp add: wf_store_def)
  then have "links d' ch" unfolding links_def v by blast
  moreover have pn: "par d c \<noteq> Some (nfresh d)" for c
  proof
    assume "par d c = Some (nfresh d)"
    then have "ch (nfresh d) \<noteq> []" using linksD(6) [OF l, of c "nfresh d"] by auto
    then show False using linksD(5) [OF l] p by blast
  qed
  have "docu d' c = docu d' q \<and> data d' c \<noteq> None" if "par d' c = Some q" for c q
  proof -
    have "c \<noteq> nfresh d" "q \<noteq> nfresh d" using that pn [of c] m(2) by (auto simp: v)
    then show ?thesis using that w(1) by (auto simp: wf_store_def v)
  qed
  moreover have "nodes_of d' \<subseteq> {..<nfresh d'}" using w(1) d'(2) by (auto simp: wf_store_def v)
  moreover have "acyclic (parents d')" using w(1) by (simp add: wf_store_def parents_def v)
  ultimately show ?thesis using d'(3) by (simp add: wf_store_def)
qed

lemma new_tracked:
  assumes w: "wf_store d ch" "documented d"
    and d': "nheap d' = (nheap d)(nfresh d \<mapsto> new_node doc x)"
    and u: "unlinked d' = (unlinked d)(doc := (if x = None then [] else unlinked d doc @ [nfresh d]))"
    and doc: "x = None \<longrightarrow> doc = nfresh d"
  shows "tracked d'"
proof -
  have p: "nfresh d \<notin> nodes_of d" using w(1) by (auto simp: wf_store_def)
  note v = fresh_views [OF p d']
  have t: "distinct (unlinked d q)" "set (unlinked d q) = {c. docu d c = Some q \<and> data d c \<noteq> None \<and> par d c = None}" for q
    using w(1) by (simp_all add: wf_store_def tracked_def)
  note pn = missing_views [OF p]
  have none: "docu d c \<noteq> Some (nfresh d)" for c using w(2) pn(3) by (fastforce simp: documented_def)
  show ?thesis unfolding tracked_def
  proof
    fix q
    show "distinct (unlinked d' q) \<and> set (unlinked d' q) = {c. docu d' c = Some q \<and> data d' c \<noteq> None \<and> par d' c = None}"
      using t [of q] none pn doc by (cases x; cases "q = doc") (auto simp: u v)
  qed
qed

lemma below_data: "wf_store d ch \<Longrightarrow> data d a \<noteq> None \<Longrightarrow> x \<in> below d a \<Longrightarrow> data d x \<noteq> None"
  using below_root [of x d a] by (fastforce simp: wf_store_def)

lemma documented_less:
  assumes "documented d" "\<And>x. x \<in> nodes_of d' \<Longrightarrow> docu d' x = docu d x \<and> data d' x = data d x"
    "\<And>q. q \<in> nodes_of d \<Longrightarrow> data d q = None \<Longrightarrow> q \<in> nodes_of d'"
  shows "documented d'"
  unfolding documented_def
proof (intro allI impI)
  fix c q assume c: "docu d' c = Some q"
  then have cn: "c \<in> nodes_of d'" by (rule docu_node)
  then have "docu d c = Some q" using c assms(2) by metis
  then have q: "data d q = None" "docu d q = Some q" "data d c = None \<longrightarrow> c = q" using assms(1) by (auto simp: documented_def)
  then have "q \<in> nodes_of d'" using assms(3) docu_node by blast
  then show "data d' q = None \<and> docu d' q = Some q \<and> (data d' c = None \<longrightarrow> c = q)" using q assms(2) cn by metis
qed

text \<open>One edit on a well-formed store.\<close>

lemma may_insertable: "links d ch \<Longrightarrow> may_insert d ch p a \<Longrightarrow> insertable d p a"
  using docu_node by (auto simp: may_insert_def insertable_def subtree_below below_def)

lemma perform_step:
  assumes "wf_store d ch" "documented d" "allowed d ch e"
  shows "\<exists>r d'. perform e d = (Inr r, d') \<and> wf_store d' (abs_edit e ch) \<and> documented d'"
proof -
  have l: "links d ch" using assms(1) by (simp add: wf_store_def)
  show ?thesis
  proof (cases e)
    case NewDocument
    then show ?thesis using wf_new [OF assms(1,2), of _ "nfresh d" None] new_tracked [OF assms(1,2), of _ "nfresh d" None]
      by (simp add: cbind_def new_document_def)
  next
    case (NewNode doc x)
    then show ?thesis using assms(3) wf_new [OF assms(1,2), of _ doc "Some x"] new_tracked [OF assms(1,2), of _ doc "Some x"]
      by (simp add: cbind_def CreateUnlinkedNode_def)
  next
    case (EndChild p a)
    then have i: "insertable d p a" using assms(3) may_insertable [OF l] by simp
    then have "inserted p a d (insert_end p a ch) (InsertEndChild p a d)"
      by (intro InsertEndChild_run [OF l]) (simp_all add: insertable_def)
    from wf_inserted [OF assms(1) i this] show ?thesis using EndChild assms(2) same_documented by fastforce
  next
    case (FirstChild p a)
    then have i: "insertable d p a" using assms(3) may_insertable [OF l] by simp
    then have "inserted p a d (insert_first p a ch) (InsertFirstChild p a d)"
      by (intro InsertFirstChild_run [OF l]) (simp_all add: insertable_def)
    from wf_inserted [OF assms(1) i this] show ?thesis using FirstChild assms(2) same_documented by fastforce
  next
    case (AfterChild p b a)
    then have i: "insertable d p a" "b \<in> set (ch p)" "\<nexists>xs. ch p = xs @ [b, a]" using assms(3) may_insertable [OF l] by simp_all
    have "inserted p a d (insert_after p b a ch) (InsertAfterChild p b a d)"
      using i(1,2) after_legal [OF l i(2,3)] linksD(6) [OF l, of b p]
      by (intro InsertAfterChild_run [OF l]) (simp_all add: insertable_def)
    from wf_inserted [OF assms(1) i(1) this] show ?thesis using AfterChild assms(2) same_documented by fastforce
  next
    case (Delete a)
    then have a: "data d a \<noteq> None" using assms(3) by simp
    obtain d' where d': "XMLDocument_DeleteNode a d = (Inr (), d')" "wf_store d' (removed (below d a) (detach a ch))"
        "nodes_of d' = nodes_of d - below d a" "\<forall>x. x \<notin> below d a \<longrightarrow> data d' x = data d x \<and> docu d' x = docu d x"
      using XMLDocument_DeleteNode_run [OF assms(1) data_node [OF a]] by blast
    have "q \<notin> below d a" if "data d q = None" for q using below_data [OF assms(1) a] that by blast
    then have "documented d'" by (intro documented_less [OF assms(2)]) (use d'(3,4) in auto)
    then show ?thesis using Delete d'(1,2) by (simp add: cbind_def subtree_below [OF l])
  qed
qed

section \<open>Sequences of edits\<close>

definition empty_store :: xstore where
  "empty_store = \<lparr>nheap = Map.empty, unlinked = (\<lambda>_. []), nfresh = 0\<rparr>"

text \<open>The stores that edits produce, each with the lists that the same edits produce.\<close>

inductive edited :: "xstore \<Rightarrow> (nat \<Rightarrow> nat list) \<Rightarrow> bool" where
  start: "edited empty_store (\<lambda>_. [])"
| step: "edited d ch \<Longrightarrow> allowed d ch e \<Longrightarrow> perform e d = (Inr r, d') \<Longrightarrow> edited d' (abs_edit e ch)"

lemma empty_wf: "wf_store empty_store (\<lambda>_. []) \<and> documented empty_store"
  by (simp add: empty_store_def wf_store_def documented_def links_def tracked_def view_defs nodes_of_def parents_def acyclic_def)

lemma edited_wf: "edited d ch \<Longrightarrow> wf_store d ch \<and> documented d"
proof (induction rule: edited.induct)
  case (step d ch e r d')
  then show ?case using perform_step [of d ch e] by auto
qed (rule empty_wf)

text \<open>The children of a node, from the first one on and from the last one back, as a program that walks over them finds them.\<close>

fun walk :: "(nat \<Rightarrow> nat option) \<Rightarrow> nat \<Rightarrow> nat option \<Rightarrow> nat list" where
  "walk f 0 p = []"
| "walk f (Suc k) None = []"
| "walk f (Suc k) (Some c) = c # walk f k (f c)"

definition children_of :: "xstore \<Rightarrow> nat \<Rightarrow> nat list" where
  "children_of d p = walk (nxt d) (nfresh d) (first d p)"

definition children_back :: "xstore \<Rightarrow> nat \<Rightarrow> nat list" where
  "children_back d p = walk (prv d) (nfresh d) (lastc d p)"

lemma walk_None [simp]: "walk f k None = []"
  by (cases k) simp_all

lemma walk_forward: "chain pv nx a cs None \<Longrightarrow> length cs \<le> k \<Longrightarrow> walk nx k (hd_opt cs None) = cs"
proof (induction cs arbitrary: a k)
  case (Cons c cs)
  then show ?case by (cases k) auto
qed simp

lemma walk_backward: "chain pv nx None cs z \<Longrightarrow> length cs \<le> k \<Longrightarrow> walk pv k (last_opt None cs) = rev cs"
proof (induction cs arbitrary: z k rule: rev_induct)
  case (snoc c cs)
  then obtain j where j: "k = Suc j" by (cases k) auto
  then show ?case using snoc.IH [of "Some c" j] snoc.prems by simp
qed simp

lemma few_children:
  assumes "wf_store d ch" shows "length (ch p) \<le> nfresh d"
proof -
  have l: "links d ch" using assms by (simp add: wf_store_def)
  have "set (ch p) \<subseteq> {..<nfresh d}" using links_node [OF l] assms by (auto simp: wf_store_def)
  then have "card (set (ch p)) \<le> nfresh d" using card_mono [of "{..<nfresh d}"] by fastforce
  then show ?thesis using distinct_card [OF linksD(3) [OF l, of p]] by simp
qed

lemma children_list: "wf_store d ch \<Longrightarrow> children_of d p = ch p"
proof -
  assume w: "wf_store d ch"
  then have l: "links d ch" by (simp add: wf_store_def)
  show ?thesis using walk_forward linksD(1,4) [OF l, of p] few_children [OF w, of p] unfolding children_of_def by metis
qed

text \<open>
  C17: the pointers between the nodes implement lists of children. After any sequence of edits that respect the
  client's obligations, over one or more documents, a walk from the first child finds the list that the same edits on lists
  give, a walk from the last child finds it reversed, and the next such edit succeeds and again does to the pointers
  what it does to the lists: it appends, prepends or puts behind another one a node that has left its former place,
  or deletes a node with everything below it.
\<close>

theorem xml_dom_refines:
  assumes "edited d ch"
  shows "children_of d p = ch p \<and> children_back d p = rev (ch p) \<and>
    (allowed d ch e \<longrightarrow> (\<exists>r d'. perform e d = (Inr r, d') \<and> edited d' (abs_edit e ch)))"
proof -
  have w: "wf_store d ch" "documented d" using edited_wf [OF assms] by simp_all
  then have l: "links d ch" by (simp add: wf_store_def)
  have "children_of d p = ch p" "children_back d p = rev (ch p)"
    using walk_forward walk_backward linksD(1,2,4) [OF l, of p] few_children [OF w(1), of p]
    unfolding children_of_def children_back_def by metis+
  moreover have "allowed d ch e \<Longrightarrow> \<exists>r d'. perform e d = (Inr r, d') \<and> edited d' (abs_edit e ch)"
    using perform_step [OF w] edited.step [OF assms] by blast
  ultimately show ?thesis by blast
qed

section \<open>Worked stores\<close>

fun performs :: "xedit list \<Rightarrow> (xstore, unit) cm" where
  "performs [] = ret ()"
| "performs (e # es) = cbind (perform e) (\<lambda>_. performs es)"

text \<open>A document with two children.\<close>

definition blank :: xnode where
  "blank = XMLElement (StrPair 0 ''a'') CLOSED [] []"

definition pair_edits :: "xedit list" where
  "pair_edits = [NewDocument, NewNode 0 blank, NewNode 0 blank, EndChild 0 1, EndChild 0 2]"

definition pair_store :: xstore where
  "pair_store = snd (performs pair_edits empty_store)"

lemmas edit_eval = pair_store_def pair_edits_def empty_store_def cbind_def new_document_def CreateUnlinkedNode_def
  InsertEndChild_def fetch_def InsertChildPreamble_def MarkInUse_def modify_def SwapRemove_def store_def set_next_def
  set_prev_def set_last_def set_first_def set_parent_def new_node_def Let_def

lemma subtree_none: "(\<And>c. a \<notin> set (ch c)) \<Longrightarrow> ch a = [] \<Longrightarrow> subtree ch a = {a}"
proof -
  assume "ch a = []"
  then have "x = a" if "x \<in> subtree ch a" for x
    using that unfolding subtree_def by (auto elim: rtranclE)
  then show ?thesis by (auto simp: subtree_def)
qed

lemma performs_edited:
  "edited d ch \<Longrightarrow> performs es d = (Inr (), d') \<Longrightarrow>
     (\<And>i d'. i < length es \<Longrightarrow> performs (take i es) d = (Inr (), d') \<Longrightarrow> allowed d' (fold abs_edit (take i es) ch) (es ! i)) \<Longrightarrow>
     edited d' (fold abs_edit es ch)"
proof (induction es arbitrary: d ch)
  case (Cons e es)
  obtain r d1 where r: "perform e d = (Inr r, d1)" using Cons.prems(2)
    by (cases "perform e d"; cases "fst (perform e d)") (auto simp: cbind_def)
  have "edited d1 (abs_edit e ch)" using Cons.prems(1) Cons.prems(3) [of 0] r by (auto intro: edited.step)
  moreover have "performs es d1 = (Inr (), d')" using Cons.prems(2) r by (simp add: cbind_def)
  moreover have "allowed d2 (fold abs_edit (take i es) (abs_edit e ch)) (es ! i)"
    if "i < length es" "performs (take i es) d1 = (Inr (), d2)" for i d2
    using Cons.prems(3) [of "Suc i" d2] that r by (simp add: cbind_def)
  ultimately show ?case using Cons.IH by simp
qed simp

definition pair_lists :: "nat \<Rightarrow> nat list" where
  "pair_lists = (\<lambda>_. [])(0 := [1, 2])"

lemma pair_run: "performs pair_edits empty_store = (Inr (), pair_store)"
  by (simp add: edit_eval)

lemma pair_lists_fold: "fold abs_edit pair_edits (\<lambda>_. []) = pair_lists"
  by (auto simp: pair_edits_def pair_lists_def insert_end_def detach_def Let_def fun_eq_iff)

lemma pair_edited: "edited pair_store pair_lists"
  unfolding pair_lists_fold [symmetric]
proof (rule performs_edited [OF edited.start pair_run])
  fix i d'
  assume i: "i < length pair_edits" "performs (take i pair_edits) empty_store = (Inr (), d')"
  then consider "i = 0" | "i = 1" | "i = 2" | "i = 3" | "i = 4" by (fastforce simp: pair_edits_def)
  then show "allowed d' (fold abs_edit (take i pair_edits) (\<lambda>_. [])) (pair_edits ! i)"
    using i(2)
  proof cases
    case 4
    then show ?thesis using i(2)
      by (auto simp: edit_eval may_insert_def docu_def data_def subtree_none numeral_eq_Suc)
  next
    case 5
    then show ?thesis using i(2)
      by (auto simp: edit_eval may_insert_def docu_def data_def subtree_none numeral_eq_Suc insert_end_def detach_def)
  qed (auto simp: edit_eval docu_def data_def numeral_eq_Suc)
qed

theorem xml_dom_refines_witness:
  "children_of pair_store 0 = [1, 2] \<and> children_back pair_store 0 = [2, 1] \<and>
   (\<exists>r d'. perform (EndChild 0 1) pair_store = (Inr r, d') \<and> edited d' (pair_lists(0 := [2, 1])))"
proof -
  have "allowed pair_store pair_lists (EndChild 0 1)"
    by (simp add: edit_eval pair_lists_def may_insert_def docu_def data_def numeral_eq_Suc)
      (auto simp: subtree_def elim: rtranclE split: if_splits)
  moreover have "abs_edit (EndChild 0 1) pair_lists = pair_lists(0 := [2, 1])"
    by (auto simp: pair_lists_def insert_end_def detach_def fun_eq_iff)
  ultimately show ?thesis
    using xml_dom_refines [OF pair_edited, of 0 "EndChild 0 1"] by (simp add: pair_lists_def)
qed

text \<open>
  C34: \<open>InsertAfterChild\<close> tests the neighbour of a node before it takes the new child from its former place
  and reads it again afterwards: it dereferences a null pointer exactly when the child to be inserted is the last child already and stands
  directly behind the node. In all other cases with nodes of one document it returns the child.
\<close>

theorem xml_insert_after_null:
  assumes "edited d ch" "may_insert d ch p a" "b \<in> set (ch p)"
  shows "fst (InsertAfterChild p b a d) = (if \<exists>xs. ch p = xs @ [b, a] then Inl Undefined else Inr (Some a))"
proof -
  have w: "wf_store d ch" using edited_wf [OF assms(1)] by simp
  then have l: "links d ch" by (simp add: wf_store_def)
  have i: "insertable d p a" by (rule may_insertable [OF l assms(2)])
  show ?thesis
  proof (cases "\<exists>xs. ch p = xs @ [b, a]")
    case True
    then show ?thesis using InsertAfterChild_null [OF l] assms(2) by (auto simp: may_insert_def)
  next
    case False
    then have "inserted p a d (insert_after p b a ch) (InsertAfterChild p b a d)"
      using i after_legal [OF l assms(3)] linksD(6) [OF l, of b p] assms(3)
      by (intro InsertAfterChild_run [OF l]) (simp_all add: insertable_def)
    then show ?thesis using False by (auto simp: inserted_def)
  qed
qed

theorem xml_insert_after_null_witness:
  "fst (InsertAfterChild 0 1 2 pair_store) = Inl Undefined"
proof -
  have "may_insert pair_store pair_lists 0 2"
    by (simp add: edit_eval pair_lists_def may_insert_def docu_def data_def numeral_eq_Suc)
      (auto simp: subtree_def elim: rtranclE split: if_splits)
  from xml_insert_after_null [OF pair_edited this, of 1] show ?thesis by (simp add: pair_lists_def)
qed

section \<open>Navigation\<close>

lemma find_forward_run:
  "chain pv (nxt d) a cs None \<Longrightarrow> set cs \<subseteq> nodes_of d \<Longrightarrow> length cs < k \<Longrightarrow>
     find_forward k name (hd_opt cs None) d = (Inr (find (\<lambda>c. is_element name (data d c)) cs), d)"
proof (induction cs arbitrary: a k)
  case Nil
  then show ?case by (cases k) simp_all
next
  case (Cons c cs)
  then obtain j where j: "k = Suc j" by (cases k) auto
  then show ?case using Cons.IH [of "Some c" j] Cons.prems by (simp add: cbind_Inr dom_run)
qed

lemma find_backward_run:
  "chain (prv d) nx None cs z \<Longrightarrow> set cs \<subseteq> nodes_of d \<Longrightarrow> length cs < k \<Longrightarrow>
     find_backward k name (last_opt None cs) d = (Inr (find (\<lambda>c. is_element name (data d c)) (rev cs)), d)"
proof (induction cs arbitrary: z k rule: rev_induct)
  case Nil
  then show ?case by (cases k) simp_all
next
  case (snoc c cs)
  then obtain j where j: "k = Suc j" by (cases k) auto
  then show ?case using snoc.IH [of "Some c" j] snoc.prems by (simp add: cbind_Inr dom_run)
qed

text \<open>
  C33: after any sequence of edits, for a node that has children and any one of them, the four functions that look
  for an element end and are searches in the list of children: for the first or the last element among them, and from the
  child on in both directions, with any name or a given one.
\<close>

theorem xml_navigation:
  assumes "edited d ch" "ch p = xs @ c # ys"
  defines "el name \<equiv> \<lambda>x. is_element name (data d x)"
  shows "FirstChildElement p name d = (Inr (find (el name) (ch p)), d) \<and>
    LastChildElement p name d = (Inr (find (el name) (rev (ch p))), d) \<and>
    NextSiblingElement c name d = (Inr (find (el name) ys), d) \<and>
    PreviousSiblingElement c name d = (Inr (find (el name) (rev xs)), d)"
proof -
  have w: "wf_store d ch" using edited_wf [OF assms(1)] by simp
  then have l: "links d ch" by (simp add: wf_store_def)
  have n: "set (ch p) \<subseteq> nodes_of d" by (rule subsetI) (rule links_node [OF l])
  have q: "p \<in> nodes_of d" using linksD(5) [OF l, of p] assms(2) by auto
  have k: "length (ch p) < Suc (nfresh d)" using few_children [OF w, of p] by simp
  have chn: "chain (prv d) (nxt d) None (xs @ c # ys) None" using linksD(4) [OF l, of p] assms(2) by simp
  then have c: "nxt d c = hd_opt ys None" "prv d c = last_opt None xs" "chain (prv d) (nxt d) (Some c) ys None"
    "chain (prv d) (nxt d) None xs (Some c)" by simp_all
  have cn: "c \<in> nodes_of d" "set xs \<subseteq> nodes_of d" "set ys \<subseteq> nodes_of d" using n assms(2) by auto
  have "length xs < Suc (nfresh d)" "length ys < Suc (nfresh d)" using k assms(2) by auto
  note sib = find_forward_run [OF c(3) cn(3) this(2), of name] find_backward_run [OF c(4) cn(2) this(1), of name]
  have "FirstChildElement p name d = (Inr (find (el name) (ch p)), d)"
    using find_forward_run [OF linksD(4) [OF l, of p] n k, of name] q linksD(1) [OF l, of p]
    by (simp add: FirstChildElement_def cbind_Inr dom_run el_def del: find_forward.simps)
  moreover have "LastChildElement p name d = (Inr (find (el name) (rev (ch p))), d)"
    using find_backward_run [OF linksD(4) [OF l, of p] n k, of name] q linksD(2) [OF l, of p]
    by (simp add: LastChildElement_def cbind_Inr dom_run el_def del: find_backward.simps)
  ultimately show ?thesis using sib c(1,2) cn(1)
    by (simp add: NextSiblingElement_def PreviousSiblingElement_def cbind_Inr dom_run el_def
        del: find_forward.simps find_backward.simps)
qed

theorem xml_navigation_witness:
  "FirstChildElement 0 None pair_store = (Inr (Some 1), pair_store) \<and> LastChildElement 0 None pair_store = (Inr (Some 2), pair_store) \<and>
   NextSiblingElement 1 (Some ''a'') pair_store = (Inr (Some 2), pair_store) \<and> PreviousSiblingElement 1 None pair_store = (Inr None, pair_store)"
proof -
  have d: "data pair_store (Suc 0) = Some blank" "data pair_store 2 = Some blank"
    by (simp_all add: edit_eval data_def)
  have p: "pair_lists 0 = [] @ 1 # [2]" by (simp add: pair_lists_def)
  have "is_element None (Some blank)" "is_element (Some ''a'') (Some blank)"
    by (simp_all add: is_element_def blank_def sp_str_def GetStr_def c_str_def)
  then show ?thesis
    using xml_navigation [OF pair_edited p, of None] xml_navigation [OF pair_edited p, of "Some ''a''"]
    by (simp add: d p)
qed

end
