(* ===== verification/XmlClear.thy ===== *)
theory XmlClear
  imports XmlEdits
begin

text \<open>
  \<open>XMLDocument::Clear\<close> on the stores that edits produce: it ends, frees every node of the document, in the tree or not,
  and leaves the other documents alone.
\<close>

section \<open>The children of the document\<close>

lemma document_root:
  assumes "wf_store d ch" "data d a = None" shows "par d a = None"
  using assms by (cases "par d a") (fastforce simp: wf_store_def)+

lemma wf_emptied:
  assumes w: "wf_store d ch" "documented d" and a: "a \<in> nodes_of d" "data d a = None"
    and d': "emptied a d d'" "tracked_but {} d'"
  shows "wf_store d' (removed (below d a) ch)" "documented d'"
proof -
  have l: "links d ch" and r: "par d a = None" using w document_root [OF w(1) a(2)] by (simp_all add: wf_store_def)
  have n: "nodes_of d' = nodes_of d - (below d a - {a})" using d'(1) by (simp add: emptied_def)
  have "prv d a = None" "nxt d a = None" using linksD(7,8) [OF l, of a] r by simp_all
  then have f: "first d' x = (if x \<in> below d a then None else first d x)" "lastc d' x = (if x \<in> below d a then None else lastc d x)"
    "prv d' x = (if x \<in> below d a then None else prv d x)" "nxt d' x = (if x \<in> below d a then None else nxt d x)"
    "par d' x = (if x \<in> below d a then None else par d x)" for x
    using d'(1) r missing_views [of x d'] n by (cases "x = a"; auto simp: emptied_def view_defs)+
  have same: "docu d' x = docu d x \<and> data d' x = data d x" if "x \<in> nodes_of d'" for x
    using that d'(1) n by (cases "x = a") (auto simp: emptied_def docu_def data_def)
  have "x \<notin> below d a - {a}" if "data d x = None" for x
    using that below_root [of x d a] w(1) by (fastforce simp: wf_store_def)
  then show "documented d'" by (intro documented_less [OF w(2) same]) (auto simp: n)
  show "wf_store d' (removed (below d a) ch)"
    unfolding wf_store_def
  proof (intro conjI allI impI)
    show "links d' (removed (below d a) ch)" by (rule links_cut [OF l r]) (use n f in auto)
    show "tracked d'" using d'(2) by (simp add: tracked_but_empty)
    show "nodes_of d' \<subseteq> {..<nfresh d'}" using w(1) d'(1) n by (auto simp: wf_store_def emptied_def)
    have "parents d' \<subseteq> parents d" by (auto simp: parents_def f split: if_splits)
    then show "acyclic (parents d')" using w(1) acyclic_subset by (auto simp: wf_store_def)
    fix c q assume q: "par d' c = Some q"
    then have "par d c = Some q" by (auto simp: f split: if_splits)
    moreover have "c \<in> nodes_of d'" using q missing_views [of c d'] by fastforce
    moreover have "q \<in> nodes_of d'" using q missing_views [of q d'] l f n
      by (metis below_child Diff_iff linksD(5,6) empty_iff empty_set calculation(1) option.distinct(1))
    ultimately show "docu d' c = docu d' q" "data d' c \<noteq> None" using w(1) same by (auto simp: wf_store_def)
  qed
qed

section \<open>The nodes outside the tree\<close>

text \<open>What the loop keeps: the nodes of other documents and their children.\<close>

definition kept :: "nat \<Rightarrow> xstore \<Rightarrow> (nat \<Rightarrow> nat list) \<Rightarrow> xstore \<Rightarrow> (nat \<Rightarrow> nat list) \<Rightarrow> bool" where
  "kept doc d ch d' ch' \<longleftrightarrow> nodes_of d' \<subseteq> nodes_of d \<and> doc \<in> nodes_of d' \<and> nfresh d' = nfresh d \<and>
     (\<forall>x \<in> nodes_of d'. docu d' x = docu d x \<and> data d' x = data d x) \<and>
     (\<forall>x. docu d x \<noteq> Some doc \<longrightarrow> (x \<in> nodes_of d' \<longleftrightarrow> x \<in> nodes_of d) \<and> ch' x = ch x) \<and> (ch doc = [] \<longrightarrow> ch' doc = [])"

lemma kept_trans: "kept doc d ch d1 ch1 \<Longrightarrow> kept doc d1 ch1 d2 ch2 \<Longrightarrow> doc \<in> nodes_of d1 \<Longrightarrow> kept doc d ch d2 ch2"
  unfolding kept_def by (smt (verit, best) subset_iff docu_node)

lemma below_docu: "wf_store d ch \<Longrightarrow> x \<in> below d a \<Longrightarrow> docu d x = docu d a"
proof -
  assume w: "wf_store d ch" and x: "x \<in> below d a"
  have "(x, a) \<in> (parents d)\<^sup>* \<Longrightarrow> docu d x = docu d a"
    by (induction rule: converse_rtrancl_induct) (use w in \<open>auto simp: wf_store_def parents_def\<close>)
  then show ?thesis using x by (simp add: below_def)
qed

lemma emptied_kept:
  assumes w: "wf_store d ch" and doc: "doc \<in> nodes_of d" "docu d doc = Some doc" and d': "emptied doc d d'"
  shows "kept doc d ch d' (removed (below d doc) ch)"
proof -
  have n: "nodes_of d' = nodes_of d - (below d doc - {doc})" using d' by (simp add: emptied_def)
  have b: "x \<notin> below d doc" if "docu d x \<noteq> Some doc" for x using that below_docu [OF w, of x doc] doc(2) by auto
  have "docu d' x = docu d x \<and> data d' x = data d x" if "x \<in> nodes_of d'" for x
    using that d' n by (cases "x = doc") (auto simp: emptied_def docu_def data_def)
  moreover have "nfresh d' = nfresh d" using d' by (simp add: emptied_def)
  moreover have "x \<in> nodes_of d' \<longleftrightarrow> x \<in> nodes_of d" "removed (below d doc) ch x = ch x" if "docu d x \<noteq> Some doc" for x
    using b [OF that] n by (simp_all add: removed_def)
  moreover have "removed (below d doc) ch doc = []" by (simp add: removed_def)
  ultimately show ?thesis using n doc(1) unfolding kept_def by auto
qed

text \<open>One round: the first entry of the list is deleted, and the list becomes shorter.\<close>

lemma clear_round:
  assumes w: "wf_store d ch" "documented d" and doc: "doc \<in> nodes_of d" "data d doc = None" and u: "unlinked d doc = u # us"
  shows "\<exists>d' ch'. XMLDocument_DeleteNode u d = (Inr (), d') \<and> wf_store d' ch' \<and> documented d' \<and> kept doc d ch d' ch' \<and>
    length (unlinked d' doc) < length (unlinked d doc)"
proof -
  have l: "links d ch" using w(1) by (simp add: wf_store_def)
  have t: "distinct (unlinked d doc)" "set (unlinked d doc) = loose d doc"
    using wf_tracked [OF w(1)] by (simp_all add: tracked_but_def)
  have uu: "docu d u = Some doc" "data d u \<noteq> None" "par d u = None" using t(2) u by (auto simp: loose_def)
  obtain d' where d': "XMLDocument_DeleteNode u d = (Inr (), d')" "wf_store d' (removed (below d u) (detach u ch))"
      "nodes_of d' = nodes_of d - below d u" "nfresh d' = nfresh d" "\<forall>x. x \<notin> below d u \<longrightarrow> data d' x = data d x \<and> docu d' x = docu d x"
    using XMLDocument_DeleteNode_run [OF w(1) docu_node [OF uu(1)]] by blast
  note below = below_data [OF w(1) uu(2)] below_docu [OF w(1), of _ u]
  let ?ch = "removed (below d u) ch"
  have w': "wf_store d' ?ch" using d'(2) detach_none [OF l uu(3)] by simp
  then have l': "links d' ?ch" by (simp add: wf_store_def)
  have nb: "q \<notin> below d u" if "data d q = None" for q using below(1) that by blast
  then have "documented d'" by (intro documented_less [OF w(2)]) (use d'(3,5) in auto)
  moreover have "kept doc d ch d' ?ch"
    unfolding kept_def removed_def using d'(3-5) below(2) nb [OF doc(2)] doc(1) uu(1) by auto
  moreover have "loose d' doc \<subseteq> loose d doc - {u}"
  proof
    fix x assume x: "x \<in> loose d' doc"
    then have xn: "x \<in> nodes_of d'" by (auto simp: loose_def intro: docu_node)
    then have xb: "x \<notin> below d u" using d'(3) by simp
    have "par d x = None"
    proof (cases "par d x")
      case (Some q)
      then have "q \<notin> below d u" using xb below_child by blast
      then have "x \<in> set (?ch q)" using Some linksD(6) [OF l, of x q] by (simp add: removed_def)
      then show ?thesis using x linksD(6) [OF l', of x q] by (simp add: loose_def)
    qed
    then show "x \<in> loose d doc - {u}" using x xb d'(5) by (auto simp: loose_def)
  qed
  then have "length (unlinked d' doc) < length (unlinked d doc)"
  proof -
    assume s: "loose d' doc \<subseteq> loose d doc - {u}"
    have t': "distinct (unlinked d' doc)" "set (unlinked d' doc) = loose d' doc"
      using wf_tracked [OF w'] by (simp_all add: tracked_but_def)
    have "set (unlinked d' doc) \<subset> set (unlinked d doc)" using s t(2) t'(2) u by auto
    then have "card (set (unlinked d' doc)) < card (set (unlinked d doc))" by (intro psubset_card_mono) simp_all
    then show ?thesis using distinct_card [OF t(1)] distinct_card [OF t'(1)] by simp
  qed
  ultimately show ?thesis using d'(1) w' by blast
qed

lemma clear_unlinked_run:
  "wf_store d ch \<Longrightarrow> documented d \<Longrightarrow> doc \<in> nodes_of d \<Longrightarrow> data d doc = None \<Longrightarrow> length (unlinked d doc) < k \<Longrightarrow>
     \<exists>d' ch'. clear_unlinked k doc d = (Inr (), d') \<and> wf_store d' ch' \<and> documented d' \<and> kept doc d ch d' ch' \<and> unlinked d' doc = []"
proof (induction k arbitrary: d ch)
  case (Suc k)
  show ?case
  proof (cases "unlinked d doc")
    case Nil
    then show ?thesis using Suc.prems by (auto simp: cbind_Inr kept_def)
  next
    case (Cons u us)
    obtain d1 ch1 where d1: "XMLDocument_DeleteNode u d = (Inr (), d1)" "wf_store d1 ch1" "documented d1" "kept doc d ch d1 ch1"
        "length (unlinked d1 doc) < length (unlinked d doc)"
      using clear_round [OF Suc.prems(1-4) Cons] by blast
    have "doc \<in> nodes_of d1" "data d1 doc = None" using d1(4) Suc.prems(4) by (auto simp: kept_def)
    with d1 Suc.prems(5) obtain d2 ch2 where d2: "clear_unlinked k doc d1 = (Inr (), d2)" "wf_store d2 ch2" "documented d2"
        "kept doc d1 ch1 d2 ch2" "unlinked d2 doc = []"
      using Suc.IH [of d1 ch1] by auto
    moreover have "kept doc d ch d2 ch2" using kept_trans [OF d1(4) d2(4)] d1(4) by (simp add: kept_def)
    ultimately show ?thesis using Cons d1(1) by (auto simp: cbind_Inr)
  qed
qed simp

text \<open>A document without children and without nodes outside the tree has no nodes.\<close>

lemma root_above:
  assumes w: "wf_store d ch" shows "\<exists>r. x \<in> below d r \<and> par d r = None"
proof -
  have "finite (parents d)"
  proof (rule finite_subset)
    have l: "links d ch" using w by (simp add: wf_store_def)
    have "c \<in> nodes_of d \<and> q \<in> nodes_of d" if "par d c = Some q" for c q
      using that linksD(6) [OF l, of c q] linksD(5) [OF l, of q] links_node [OF l, of c q] by (cases "ch q") auto
    then show "parents d \<subseteq> nodes_of d \<times> nodes_of d" by (auto simp: parents_def)
    show "finite (nodes_of d \<times> nodes_of d)" using wf_finite [OF w] by simp
  qed
  moreover have "acyclic (parents d)" using w by (simp add: wf_store_def)
  ultimately have "wf ((parents d)\<inverse>)" by (rule finite_acyclic_wf_converse)
  then show ?thesis
  proof (induction x)
    case (less x)
    show ?case
    proof (cases "par d x")
      case None
      then show ?thesis by (intro exI [of _ x]) simp
    next
      case (Some q)
      then obtain r where "q \<in> below d r" "par d r = None" using less by (auto simp: parents_def)
      then show ?thesis using Some below_child by blast
    qed
  qed
qed

lemma no_nodes:
  assumes w: "wf_store d ch" "documented d" and e: "unlinked d doc = []" "ch doc = []" and x: "docu d x = Some doc"
  shows "x = doc"
proof -
  obtain r where r: "x \<in> below d r" "par d r = None" using root_above [OF w(1)] by blast
  have rd: "docu d r = Some doc" using below_docu [OF w(1) r(1)] x by simp
  have "set (unlinked d doc) = loose d doc" using wf_tracked [OF w(1)] by (simp add: tracked_but_def)
  then have "loose d doc = {}" using e(1) by simp
  then have "data d r = None" using rd r(2) by (auto simp: loose_def)
  then have "r = doc" using w(2) rd by (auto simp: documented_def)
  show ?thesis
  proof (rule ccontr)
    assume "x \<noteq> doc"
    then have "(x, doc) \<in> (parents d)\<^sup>+" using r(1) \<open>r = doc\<close> by (simp add: below_def rtrancl_eq_or_trancl)
    then obtain z where "(z, doc) \<in> parents d" by (meson tranclE)
    moreover have "links d ch" using w(1) by (simp add: wf_store_def)
    ultimately show False using linksD(6) [of d ch z doc] e(2) by (simp add: parents_def)
  qed
qed

lemma XMLDocument_Clear_run:
  assumes w: "wf_store d ch" "documented d" and own: "docu d doc = Some doc"
  shows "\<exists>d' ch'. XMLDocument_Clear doc d = (Inr (), d') \<and> wf_store d' ch' \<and> documented d' \<and> kept doc d ch d' ch' \<and>
    unlinked d' doc = [] \<and> ch' doc = [] \<and> (\<forall>x \<in> nodes_of d'. docu d x = Some doc \<longrightarrow> x = doc)"
proof -
  have doc: "doc \<in> nodes_of d" "data d doc = None" using own w(2) docu_node by (auto simp: documented_def)
  have l: "links d ch" using w(1) by (simp add: wf_store_def)
  obtain d1 where d1: "DeleteChildren (delete_fuel d) doc d = (Inr (), d1)" "emptied doc d d1" "tracked_but {} d1"
    using emptiesD [OF conjunct2 [OF delete_all] l wf_finite [OF w(1)] _ doc(1) wf_tracked [OF w(1)], of "delete_fuel d"]
      card_fuel [OF w(1) doc(1)] w(1) by (auto simp: wf_store_def)
  let ?ch = "removed (below d doc) ch"
  note w1 = wf_emptied [OF w doc d1(2,3)]
  have k1: "kept doc d ch d1 ?ch" by (rule emptied_kept [OF w(1) doc(1) own d1(2)])
  have doc1: "doc \<in> nodes_of d1" "data d1 doc = None" "?ch doc = []" using k1 doc(2) by (auto simp: kept_def removed_def)
  have "length (unlinked d1 doc) \<le> nfresh d1"
  proof -
    have "set (unlinked d1 doc) \<subseteq> {..<nfresh d1}"
      using wf_tracked [OF w1(1)] w1(1) docu_node by (fastforce simp: tracked_but_def loose_def wf_store_def)
    then have "card (set (unlinked d1 doc)) \<le> nfresh d1" using card_mono [of "{..<nfresh d1}"] by fastforce
    then show ?thesis using wf_tracked [OF w1(1)] distinct_card [of "unlinked d1 doc"] by (simp add: tracked_but_def)
  qed
  then have "length (unlinked d1 doc) < delete_fuel d" using k1 by (simp add: delete_fuel_def kept_def)
  from clear_unlinked_run [OF w1 doc1(1,2) this] obtain d2 ch2 where d2: "clear_unlinked (delete_fuel d) doc d1 = (Inr (), d2)"
      "wf_store d2 ch2" "documented d2" "kept doc d1 ?ch d2 ch2" "unlinked d2 doc = []" by blast
  have k2: "kept doc d ch d2 ch2" by (rule kept_trans [OF k1 d2(4) doc1(1)])
  have e: "ch2 doc = []" using d2(4) doc1(3) by (simp add: kept_def)
  have "x = doc" if "x \<in> nodes_of d2" "docu d x = Some doc" for x
    using no_nodes [OF d2(2,3,5) e, of x] that k2 by (auto simp: kept_def)
  moreover have "XMLDocument_Clear doc d = (Inr (), d2)" using d1(1) d2(1) by (simp add: XMLDocument_Clear_def cbind_Inr)
  ultimately show ?thesis using d2(2,3,5) k2 e by blast
qed

text \<open>
  C19: \<open>XMLDocument::Clear\<close> ends on every document that edits have produced, and frees all of its nodes, the ones in the
  tree and the ones outside it: what is left of the document is the empty document itself. The nodes of other
  documents stay, with their children.
\<close>

theorem xml_clear:
  assumes "edited d ch" "docu d doc = Some doc"
  shows "\<exists>d'. XMLDocument_Clear doc d = (Inr (), d') \<and> unlinked d' doc = [] \<and>
    nodes_of d' = insert doc {x \<in> nodes_of d. docu d x \<noteq> Some doc} \<and>
    children_of d' p = (if docu d p = Some doc then [] else ch p)"
proof -
  have w: "wf_store d ch" "documented d" using edited_wf [OF assms(1)] by simp_all
  obtain d2 ch2 where d2: "XMLDocument_Clear doc d = (Inr (), d2)" "wf_store d2 ch2" "documented d2" "kept doc d ch d2 ch2"
      "unlinked d2 doc = []" "ch2 doc = []" and own: "\<forall>x \<in> nodes_of d2. docu d x = Some doc \<longrightarrow> x = doc"
    using XMLDocument_Clear_run [OF w assms(2)] by blast
  have l2: "links d2 ch2" using d2(2) by (simp add: wf_store_def)
  have "nodes_of d2 = insert doc {x \<in> nodes_of d. docu d x \<noteq> Some doc}" using d2(4) own by (auto simp: kept_def)
  moreover have "ch2 p = (if docu d p = Some doc then [] else ch p)"
    using d2(4,6) own linksD(5) [OF l2, of p] by (auto simp: kept_def)
  ultimately show ?thesis using d2(1,5) children_list [OF d2(2)] by (intro exI [of _ d2]) simp
qed

theorem xml_clear_witness:
  "\<exists>d'. XMLDocument_Clear 0 pair_store = (Inr (), d') \<and> unlinked d' 0 = [] \<and> nodes_of d' = {0} \<and> children_of d' 0 = []"
proof -
  have d: "docu pair_store 0 = Some 0" "{x \<in> nodes_of pair_store. docu pair_store x \<noteq> Some 0} = {}"
    by (auto simp: edit_eval docu_def nodes_of_def numeral_eq_Suc split: if_splits)
  from xml_clear [OF pair_edited this(1), of 0] show ?thesis by (simp add: d)
qed

end
