(* ===== verification/XmlValues.thy ===== *)
theory XmlValues
  imports XmlDom
begin

text \<open>
  What the nodes of \<open>tinyxml2.cpp\<close> carry: new nodes, the setters of values, texts and attributes, the clones and
  the copy of a document. The overloads for numbers, which go through \<open>snprintf\<close>, are left out.
\<close>

section \<open>Values\<close>

fun put_value :: "strpair \<Rightarrow> xnode \<Rightarrow> xnode" where
  "put_value v (XMLDeclaration w) = XMLDeclaration v"
| "put_value v (XMLComment w) = XMLComment v"
| "put_value v (XMLText cdata w) = XMLText cdata v"
| "put_value v (XMLUnknown w) = XMLUnknown v"
| "put_value v (XMLElement name ct attrs cs) = XMLElement v ct attrs cs"

text \<open>\<open>SetValue\<close>, and \<open>SetName\<close> of an element; the value of a document is never read.\<close>

definition SetValue :: "string \<Rightarrow> nat \<Rightarrow> (xstore, unit) cm" where
  "SetValue str this = (cbind (fetch n_data this) (\<lambda>x.
     case x of
       None \<Rightarrow> ret ()
     | Some y \<Rightarrow> set_data (Some (put_value (sp_SetStr str 0) y)) this))"

definition no_value :: strpair where
  "no_value = StrPair 0 []"

definition NewElement :: "nat \<Rightarrow> string \<Rightarrow> (xstore, nat) cm" where
  "NewElement doc name = (cbind (CreateUnlinkedNode doc (XMLElement no_value OPEN [] [])) (\<lambda>ele.
     cbind (SetValue name ele) (\<lambda>_.
     ret ele)))"

definition NewComment :: "nat \<Rightarrow> string \<Rightarrow> (xstore, nat) cm" where
  "NewComment doc str = (cbind (CreateUnlinkedNode doc (XMLComment no_value)) (\<lambda>comment.
     cbind (SetValue str comment) (\<lambda>_.
     ret comment)))"

definition NewText :: "nat \<Rightarrow> string \<Rightarrow> (xstore, nat) cm" where
  "NewText doc str = (cbind (CreateUnlinkedNode doc (XMLText False no_value)) (\<lambda>text.
     cbind (SetValue str text) (\<lambda>_.
     ret text)))"

definition NewDeclaration :: "nat \<Rightarrow> string option \<Rightarrow> (xstore, nat) cm" where
  "NewDeclaration doc str = (cbind (CreateUnlinkedNode doc (XMLDeclaration no_value)) (\<lambda>dec.
     cbind (SetValue (case str of
         Some s \<Rightarrow> s
       | None \<Rightarrow> ''xml version='' @ [CHR 0x22] @ ''1.0'' @ [CHR 0x22] @ '' encoding='' @ [CHR 0x22] @ ''UTF-8'' @ [CHR 0x22]) dec) (\<lambda>_.
     ret dec)))"

definition NewUnknown :: "nat \<Rightarrow> string \<Rightarrow> (xstore, nat) cm" where
  "NewUnknown doc str = (cbind (CreateUnlinkedNode doc (XMLUnknown no_value)) (\<lambda>unk.
     cbind (SetValue str unk) (\<lambda>_.
     ret unk)))"

definition SetCData :: "bool \<Rightarrow> nat \<Rightarrow> (xstore, unit) cm" where
  "SetCData cdata this = (cbind (fetch n_data this) (\<lambda>x.
     case x of
       Some (XMLText b v) \<Rightarrow> set_data (Some (XMLText cdata v)) this
     | _ \<Rightarrow> throw Undefined))"

section \<open>Attributes\<close>

text \<open>\<open>FindOrCreateAttribute\<close> and the setting of its value.\<close>

fun set_attribute :: "string \<Rightarrow> string \<Rightarrow> (strpair \<times> strpair) list \<Rightarrow> (strpair \<times> strpair) list" where
  "set_attribute name v [] = [(sp_SetStr name 0, sp_SetStr v 0)]"
| "set_attribute name v ((n, w) # attrs) =
     (if sp_str n = name then (n, sp_SetStr v 0) # attrs else (n, w) # set_attribute name v attrs)"

fun delete_attribute :: "string \<Rightarrow> (strpair \<times> strpair) list \<Rightarrow> (strpair \<times> strpair) list" where
  "delete_attribute name [] = []"
| "delete_attribute name ((n, w) # attrs) =
     (if name = sp_str n then attrs else (n, w) # delete_attribute name attrs)"

definition upd_attributes :: "((strpair \<times> strpair) list \<Rightarrow> (strpair \<times> strpair) list) \<Rightarrow> nat \<Rightarrow> (xstore, unit) cm" where
  "upd_attributes f this = (cbind (fetch n_data this) (\<lambda>x.
     case x of
       Some (XMLElement name ct attrs cs) \<Rightarrow> set_data (Some (XMLElement name ct (f attrs) cs)) this
     | _ \<Rightarrow> throw Undefined))"

definition SetAttribute :: "string \<Rightarrow> string \<Rightarrow> nat \<Rightarrow> (xstore, unit) cm" where
  "SetAttribute name v = upd_attributes (set_attribute name v)"

definition DeleteAttribute :: "string \<Rightarrow> nat \<Rightarrow> (xstore, unit) cm" where
  "DeleteAttribute name = upd_attributes (delete_attribute name)"

text \<open>\<open>Attribute\<close>: the value of an attribute, with a second argument only if it is that one.\<close>

definition Attribute :: "(strpair \<times> strpair) list \<Rightarrow> string \<Rightarrow> string option \<Rightarrow> string option" where
  "Attribute attrs name v = (case FindAttribute attrs name of
     None \<Rightarrow> None
   | Some a \<Rightarrow> if v = None \<or> sp_str (snd a) = the v then Some (sp_str (snd a)) else None)"

section \<open>Texts\<close>

definition ElementText :: "nat \<Rightarrow> (xstore, string option) cm" where
  "ElementText this = (cbind (fetch n_firstChild this) (\<lambda>f.
     case f of
       None \<Rightarrow> ret None
     | Some c \<Rightarrow> (cbind (fetch n_data c) (\<lambda>x.
         case x of
           Some (XMLText cdata v) \<Rightarrow> ret (Some (sp_str v))
         | _ \<Rightarrow> ret None))))"

definition new_first_text :: "string \<Rightarrow> nat \<Rightarrow> (xstore, unit) cm" where
  "new_first_text inText this = (cbind (fetch n_document this) (\<lambda>doc.
     cbind (NewText doc inText) (\<lambda>theText.
     cbind (InsertFirstChild this theText) (\<lambda>r.
     ret ()))))"

definition SetText :: "string \<Rightarrow> nat \<Rightarrow> (xstore, unit) cm" where
  "SetText inText this = (cbind (fetch n_firstChild this) (\<lambda>f.
     case f of
       None \<Rightarrow> new_first_text inText this
     | Some c \<Rightarrow> (cbind (fetch n_data c) (\<lambda>x.
         case x of
           Some (XMLText cdata v) \<Rightarrow> SetValue inText c
         | _ \<Rightarrow> new_first_text inText this))))"

section \<open>Clones\<close>

fun clone_attributes :: "(strpair \<times> strpair) list \<Rightarrow> nat \<Rightarrow> (xstore, unit) cm" where
  "clone_attributes [] element = ret ()"
| "clone_attributes (a # attrs) element = (cbind (SetAttribute (sp_str (fst a)) (sp_str (snd a)) element) (\<lambda>_.
     clone_attributes attrs element))"

fun clone_node :: "nat \<Rightarrow> xnode \<Rightarrow> (xstore, nat) cm" where
  "clone_node doc (XMLDeclaration v) = NewDeclaration doc (Some (sp_str v))"
| "clone_node doc (XMLComment v) = NewComment doc (sp_str v)"
| "clone_node doc (XMLText cdata v) = (cbind (NewText doc (sp_str v)) (\<lambda>text.
     cbind (SetCData cdata text) (\<lambda>_.
     ret text)))"
| "clone_node doc (XMLUnknown v) = NewUnknown doc (sp_str v)"
| "clone_node doc (XMLElement name ct attrs cs) = (cbind (NewElement doc (sp_str name)) (\<lambda>element.
     cbind (clone_attributes attrs element) (\<lambda>_.
     ret element)))"

text \<open>\<open>ShallowClone\<close>: without a document the clone belongs to the document of the node; a document has no clone.\<close>

definition ShallowClone :: "nat option \<Rightarrow> nat \<Rightarrow> (xstore, nat option) cm" where
  "ShallowClone doc this = (cbind (fetch n_document this) (\<lambda>own.
     cbind (fetch n_data this) (\<lambda>x.
     case x of
       None \<Rightarrow> ret None
     | Some y \<Rightarrow> (cbind (clone_node (case doc of None \<Rightarrow> own | Some t \<Rightarrow> t) y) (\<lambda>r.
         ret (Some r))))))"

text \<open>The loop over the siblings from \<open>child\<close> on: each is cloned by \<open>f\<close> and appended. The first number is its fuel.\<close>

fun clone_loop :: "(nat \<Rightarrow> (xstore, nat option) cm) \<Rightarrow> nat \<Rightarrow> nat \<Rightarrow> nat option \<Rightarrow> (xstore, unit) cm" where
  "clone_loop f 0 clone child = throw Hang"
| "clone_loop f (Suc m) clone None = ret ()"
| "clone_loop f (Suc m) clone (Some child) = (cbind (f child) (\<lambda>childClone.
     cbind (deref childClone) (\<lambda>c.
     cbind (InsertEndChild clone c) (\<lambda>r.
     cbind (fetch n_next child) (\<lambda>n.
     clone_loop f m clone n)))))"

fun DeepClone :: "nat \<Rightarrow> nat option \<Rightarrow> nat \<Rightarrow> (xstore, nat option) cm" where
  "DeepClone 0 target this = throw Hang"
| "DeepClone (Suc k) target this = (cbind (ShallowClone target this) (\<lambda>clone.
     case clone of
       None \<Rightarrow> ret None
     | Some c \<Rightarrow> (cbind (fetch n_firstChild this) (\<lambda>f.
         cbind (gets nfresh) (\<lambda>m.
         cbind (clone_loop (DeepClone k target) (Suc m) c f) (\<lambda>_.
         ret (Some c)))))))"

text \<open>\<open>XMLDocument::DeepCopy\<close>; the depth of the recursion is bounded by the number of nodes.\<close>

definition DeepCopy :: "nat \<Rightarrow> nat \<Rightarrow> (xstore, unit) cm" where
  "DeepCopy this target =
     (if target = this then ret ()
      else (cbind (XMLDocument_Clear target) (\<lambda>_.
        cbind (fetch n_firstChild this) (\<lambda>f.
        cbind (gets nfresh) (\<lambda>m.
        clone_loop (DeepClone m (Some target)) (Suc m) target f)))))"

section \<open>Comparison\<close>

fun values_equal :: "(strpair \<times> strpair) list \<Rightarrow> (strpair \<times> strpair) list \<Rightarrow> bool" where
  "values_equal [] [] \<longleftrightarrow> True"
| "values_equal (a # as) (b # bs) \<longleftrightarrow> sp_str (snd a) = sp_str (snd b) \<and> values_equal as bs"
| "values_equal _ _ \<longleftrightarrow> False"

fun ShallowEqual :: "xnode \<Rightarrow> xnode \<Rightarrow> bool" where
  "ShallowEqual (XMLText b v) (XMLText b' w) \<longleftrightarrow> sp_str w = sp_str v"
| "ShallowEqual (XMLComment v) (XMLComment w) \<longleftrightarrow> sp_str w = sp_str v"
| "ShallowEqual (XMLDeclaration v) (XMLDeclaration w) \<longleftrightarrow> sp_str w = sp_str v"
| "ShallowEqual (XMLUnknown v) (XMLUnknown w) \<longleftrightarrow> sp_str w = sp_str v"
| "ShallowEqual (XMLElement v ct attrs cs) (XMLElement w ct' attrs' cs') \<longleftrightarrow> sp_str w = sp_str v \<and> values_equal attrs attrs'"
| "ShallowEqual _ _ \<longleftrightarrow> False"

end
