(* ===== verification/XmlCopy.thy ===== *)
theory XmlCopy
  imports XmlClear XmlValues XmlTree
begin

text \<open>
  Clones of nodes and the copy of a document: they end, build new nodes only, and what they build is the same tree with
  fresh strings, which prints as the original does.
\<close>

section \<open>Strings and attributes\<close>

definition recopy :: "strpair \<Rightarrow> strpair" where
  "recopy v = sp_SetStr (sp_str v) 0"

lemma c_str_idem: "c_str (c_str s) = c_str s"
  by (rule c_str_id) (auto simp: c_str_def dest: set_takeWhileD)

lemma sp_str_SetStr: "sp_str (sp_SetStr s 0) = c_str s"
  by (simp add: sp_str_def sp_SetStr_def GetStr_def NEEDS_DELETE_def NEEDS_FLUSH_def)

lemma sp_str_recopy [simp]: "sp_str (recopy v) = sp_str v"
  unfolding recopy_def sp_str_SetStr by (simp only: sp_str_def c_str_idem)

definition copy_attributes :: "(strpair \<times> strpair) list \<Rightarrow> (strpair \<times> strpair) list \<Rightarrow> (strpair \<times> strpair) list" where
  "copy_attributes = fold (\<lambda>a. set_attribute (sp_str (fst a)) (sp_str (snd a)))"

lemma set_attribute_new: "name \<notin> (\<lambda>a. sp_str (fst a)) ` set acc \<Longrightarrow> set_attribute name v acc = acc @ [(sp_SetStr name 0, sp_SetStr v 0)]"
  by (induction name v acc rule: set_attribute.induct) auto

lemma copy_attributes_distinct:
  "distinct (map (\<lambda>a. sp_str (fst a)) (acc @ attrs)) \<Longrightarrow>
     copy_attributes attrs acc = acc @ map (\<lambda>a. (recopy (fst a), recopy (snd a))) attrs"
proof (induction attrs arbitrary: acc)
  case (Cons a attrs)
  have "set_attribute (sp_str (fst a)) (sp_str (snd a)) acc = acc @ [(recopy (fst a), recopy (snd a))]"
    using Cons.prems by (subst set_attribute_new) (auto simp: recopy_def)
  then show ?case using Cons.IH [of "acc @ [(recopy (fst a), recopy (snd a))]"] Cons.prems
    by (simp add: copy_attributes_def)
qed (simp add: copy_attributes_def)

text \<open>What a set or deleted attribute is read as, for names without a zero byte.\<close>

lemma Attribute_simps [simp]:
  "Attribute [] m None = None"
  "Attribute (a # attrs) m None = (if sp_str (fst a) = m then Some (sp_str (snd a)) else Attribute attrs m None)"
  by (simp_all add: Attribute_def FindAttribute_def)

lemma Attribute_none: "m \<notin> (\<lambda>a. sp_str (fst a)) ` set attrs \<Longrightarrow> Attribute attrs m None = None"
  by (induction attrs) auto

lemma Attribute_set:
  "c_str name = name \<Longrightarrow> Attribute (set_attribute name v attrs) m None = (if m = name then Some (c_str v) else Attribute attrs m None)"
  by (induction name v attrs rule: set_attribute.induct) (auto simp: sp_str_SetStr)

lemma Attribute_delete:
  "distinct (map (\<lambda>a. sp_str (fst a)) attrs) \<Longrightarrow>
     Attribute (delete_attribute name attrs) m None = (if m = name then None else Attribute attrs m None)"
  by (induction name attrs rule: delete_attribute.induct) (auto simp: Attribute_none)

section \<open>Clones of nodes\<close>

fun clone_data :: "xnode \<Rightarrow> xnode" where
  "clone_data (XMLDeclaration v) = XMLDeclaration (recopy v)"
| "clone_data (XMLComment v) = XMLComment (recopy v)"
| "clone_data (XMLText cdata v) = XMLText cdata (recopy v)"
| "clone_data (XMLUnknown v) = XMLUnknown (recopy v)"
| "clone_data (XMLElement name ct attrs cs) = XMLElement (recopy name) OPEN (copy_attributes attrs []) []"

text \<open>A clone is equal to its node, but so are elements whose attributes differ in their names.\<close>

lemma values_equal_copy: "values_equal attrs (map (\<lambda>a. (recopy (fst a), recopy (snd a))) attrs)"
  by (induction attrs) simp_all

lemma ShallowEqual_clone:
  "(\<And>name ct attrs cs. y = XMLElement name ct attrs cs \<Longrightarrow> distinct (map (\<lambda>a. sp_str (fst a)) attrs)) \<Longrightarrow> ShallowEqual y (clone_data y)"
  using copy_attributes_distinct [of "[]"] values_equal_copy by (cases y) simp_all

lemma shallow_equal_names: "ShallowEqual (XMLElement v ct [(a, x)] cs) (XMLElement v ct' [(b, x)] cs')"
  by simp

definition created :: "nat \<Rightarrow> xnode \<Rightarrow> xstore \<Rightarrow> xstore" where
  "created doc x d = d\<lparr>nheap := (nheap d)(nfresh d \<mapsto> new_node doc (Some x)),
     unlinked := (unlinked d)(doc := unlinked d doc @ [nfresh d]), nfresh := Suc (nfresh d)\<rparr>"

lemma created_run:
  "CreateUnlinkedNode doc x d = (Inr (nfresh d), created doc x d)"
  "fetch n_data (nfresh d) (created doc x d) = (Inr (Some x), created doc x d)"
  "set_data (Some y) (nfresh d) (created doc x d) = (Inr (), created doc y d)"
  "SetValue s (nfresh d) (created doc x d) = (Inr (), created doc (put_value (sp_SetStr s 0) x) d)"
  by (simp_all add: CreateUnlinkedNode_def created_def fetch_def set_data_def store_def new_node_def SetValue_def cbind_def)

lemma clone_attributes_run:
  "clone_attributes attrs (nfresh d) (created doc (XMLElement n ct acc cs) d) =
     (Inr (), created doc (XMLElement n ct (copy_attributes attrs acc) cs) d)"
  by (induction attrs arbitrary: acc)
    (simp_all add: copy_attributes_def SetAttribute_def upd_attributes_def cbind_Inr created_run)

lemma clone_node_run: "clone_node doc y d = (Inr (nfresh d), created doc (clone_data y) d)"
  by (cases y) (simp_all add: NewDeclaration_def NewComment_def NewText_def NewUnknown_def NewElement_def SetCData_def
      cbind_Inr created_run clone_attributes_run recopy_def)

lemma ShallowClone_run:
  "p \<in> nodes_of d \<Longrightarrow> data d p = Some y \<Longrightarrow> ShallowClone (Some t) p d = (Inr (Some (nfresh d)), created t (clone_data y) d)"
  by (simp add: ShallowClone_def cbind_Inr dom_run clone_node_run)

section \<open>Trees\<close>

text \<open>What a node carries, with what its descendants carry; the first argument of \<open>tree\<close> bounds the depth.\<close>

datatype dom_tree = DomTree "xnode option" "dom_tree list"

fun tree :: "nat \<Rightarrow> (nat \<Rightarrow> xnode option) \<Rightarrow> (nat \<Rightarrow> nat list) \<Rightarrow> nat \<Rightarrow> dom_tree" where
  "tree 0 dt ch p = DomTree None []"
| "tree (Suc k) dt ch p = DomTree (dt p) (map (tree k dt ch) (ch p))"

fun clone_tree :: "dom_tree \<Rightarrow> dom_tree" where
  "clone_tree (DomTree x ts) = DomTree (map_option clone_data x) (map clone_tree ts)"

definition contents :: "xstore \<Rightarrow> nat \<Rightarrow> dom_tree list" where
  "contents d p = map (tree (nfresh d) (data d) (children_of d)) (children_of d p)"

lemma child_below: "links d ch \<Longrightarrow> c \<in> set (ch q) \<Longrightarrow> q \<in> below d a \<Longrightarrow> c \<in> below d a"
  using linksD(6) below_child by blast

lemma below_sub: "x \<in> below d c \<Longrightarrow> c \<in> below d a \<Longrightarrow> x \<in> below d a"
  by (auto simp: below_def)

lemma tree_cong:
  assumes "links d ch" "\<And>x. x \<in> below d q \<Longrightarrow> dt' x = data d x \<and> ch' x = ch x"
  shows "tree m dt' ch' q = tree m (data d) ch q"
  using assms(2)
proof (induction m arbitrary: q)
  case (Suc m)
  have "tree m dt' ch' c = tree m (data d) ch c" if "c \<in> set (ch q)" for c
  proof (rule Suc.IH)
    have c: "c \<in> below d q" by (rule child_below [OF assms(1) that]) simp
    fix x assume "x \<in> below d c"
    then show "dt' x = data d x \<and> ch' x = ch x" using Suc.prems below_sub [OF _ c] by blast
  qed
  then show ?case using Suc.prems [of q] by simp
qed simp

lemma card_child:
  assumes "wf_store d ch" "c \<in> set (ch p)" shows "card (below d c) < card (below d p)"
proof -
  have l: "links d ch" and ac: "acyclic (parents d)" using assms(1) by (simp_all add: wf_store_def)
  have c: "par d c = Some p" using linksD(6) [OF l] assms(2) by simp
  have "p \<in> nodes_of d" using linksD(5) [OF l, of p] assms(2) by (cases "ch p") auto
  then have "finite (below d p)" using below_nodes wf_finite [OF assms(1)] finite_subset by blast
  moreover have cp: "c \<in> below d p" using child_below [OF l assms(2)] by simp
  have "p \<notin> below d c"
  proof
    assume "p \<in> below d c"
    then have "(c, c) \<in> (parents d)\<^sup>+" using c by (auto simp: below_def parents_def intro: rtrancl_into_trancl2)
    then show False using ac by (simp add: acyclic_def)
  qed
  then have "below d c \<subset> below d p" using below_sub [OF _ cp] by auto
  ultimately show ?thesis by (rule psubset_card_mono)
qed

lemma tree_enough:
  assumes "wf_store d ch"
  shows "p \<in> nodes_of d \<Longrightarrow> card (below d p) \<le> k \<Longrightarrow> card (below d p) \<le> j \<Longrightarrow> tree k (data d) ch p = tree j (data d) ch p"
proof (induction k arbitrary: p j)
  case 0
  then show ?case using card_below [OF wf_finite [OF assms]] by fastforce
next
  case (Suc k)
  then obtain i where i: "j = Suc i" using card_below [OF wf_finite [OF assms], of p] by (cases j) auto
  have l: "links d ch" using assms by (simp add: wf_store_def)
  have "tree k (data d) ch c = tree i (data d) ch c" if "c \<in> set (ch p)" for c
    using Suc.IH [of c i] Suc.prems card_child [OF assms that] links_node [OF l that] i by simp
  then show ?case using i by simp
qed

lemma card_bound: "wf_store d ch \<Longrightarrow> p \<in> nodes_of d \<Longrightarrow> card (below d p) \<le> nfresh d"
  using card_fuel [of d ch p] below_nodes [of p d] card_mono [of "{..<nfresh d}" "below d p"] by (auto simp: wf_store_def)

section \<open>Stores that grow\<close>

text \<open>New nodes, and new children of the nodes in a set.\<close>

definition grown :: "nat set \<Rightarrow> xstore \<Rightarrow> (nat \<Rightarrow> nat list) \<Rightarrow> xstore \<Rightarrow> (nat \<Rightarrow> nat list) \<Rightarrow> bool" where
  "grown D d ch d' ch' \<longleftrightarrow> wf_store d' ch' \<and> documented d' \<and> nodes_of d \<subseteq> nodes_of d' \<and> nfresh d \<le> nfresh d' \<and>
     (\<forall>x \<in> nodes_of d. data d' x = data d x \<and> docu d' x = docu d x \<and> par d' x = par d x \<and> (x \<notin> D \<longrightarrow> ch' x = ch x))"

lemma grownD:
  assumes "grown D d ch d' ch'"
  shows "wf_store d' ch'" "documented d'" "links d' ch'" "x \<in> nodes_of d \<Longrightarrow> x \<in> nodes_of d'" "x \<in> nodes_of d \<Longrightarrow> data d' x = data d x"
    "x \<in> nodes_of d \<Longrightarrow> docu d' x = docu d x" "x \<in> nodes_of d \<Longrightarrow> par d' x = par d x" "x \<in> nodes_of d \<Longrightarrow> x \<notin> D \<Longrightarrow> ch' x = ch x"
    "nfresh d \<le> nfresh d'"
  using assms by (auto simp: grown_def wf_store_def)

lemma grown_refl: "wf_store d ch \<Longrightarrow> documented d \<Longrightarrow> grown D d ch d ch"
  by (simp add: grown_def)

lemma grown_trans: "grown D d ch d1 ch1 \<Longrightarrow> grown D d1 ch1 d2 ch2 \<Longrightarrow> grown D d ch d2 ch2"
  unfolding grown_def by (auto simp: subset_iff)

lemma grown_below:
  assumes g: "grown D d ch d' ch'" and l: "links d ch" and c: "c \<in> nodes_of d" "D \<inter> below d c = {}"
  shows "below d' c = below d c"
proof -
  have "x \<in> below d c" if "(x, c) \<in> (parents d')\<^sup>*" for x
    using that
  proof (induction rule: converse_rtrancl_induct)
    case (step x z)
    then have z: "z \<in> nodes_of d" "ch' z = ch z" using below_nodes [OF c(1)] c(2) grownD(8) [OF g] by auto
    have "x \<in> set (ch z)" using step(1) linksD(6) [OF grownD(3) [OF g]] z by (simp add: parents_def)
    then show ?case using child_below [OF l _ step(3)] by simp
  qed simp
  moreover have "x \<in> below d' c" if "(x, c) \<in> (parents d)\<^sup>*" for x
    using that
  proof (induction rule: converse_rtrancl_induct)
    case (step x z)
    then have "x \<in> nodes_of d" using missing_views(2) [of x d] by (force simp: parents_def)
    then have "par d' x = Some z" using step(1) grownD(7) [OF g] by (simp add: parents_def)
    then show ?case using below_child [OF _ step(3)] by simp
  qed simp
  ultimately show ?thesis by (auto simp: below_def)
qed

lemma grown_tree:
  assumes g: "grown D d ch d' ch'" and l: "links d ch" and c: "c \<in> nodes_of d" "D \<inter> below d c = {}"
  shows "tree m (data d') ch' c = tree m (data d) ch c"
proof (rule tree_cong [OF l])
  fix x assume "x \<in> below d c"
  then show "data d' x = data d x \<and> ch' x = ch x" using below_nodes [OF c(1)] c(2) grownD(5,8) [OF g] by blast
qed

lemma fresh_node: "wf_store d ch \<Longrightarrow> nfresh d \<notin> nodes_of d" "wf_store d ch \<Longrightarrow> ch (nfresh d) = []"
  using linksD(5) [of d ch "nfresh d"] by (auto simp: wf_store_def)

lemma created_grown:
  assumes w: "wf_store d ch" "documented d" and t: "docu d t = Some t" "data d t = None"
  shows "grown {} d ch (created t x d) ch" "docu (created t x d) (nfresh d) = Some t" "data (created t x d) (nfresh d) = Some x"
    "nfresh d \<in> nodes_of (created t x d)" "par (created t x d) = par d"
    "first (created t x d) = first d"
proof -
  note n = fresh_node(1) [OF w(1)]
  have h: "nheap (created t x d) = (nheap d)(nfresh d \<mapsto> new_node t (Some x))"
      "unlinked (created t x d) = (unlinked d)(t := unlinked d t @ [nfresh d])" "nfresh (created t x d) = Suc (nfresh d)"
    by (simp_all add: created_def)
  note v = fresh_views [OF n h(1)]
  show "docu (created t x d) (nfresh d) = Some t" "data (created t x d) (nfresh d) = Some x"
    "nfresh d \<in> nodes_of (created t x d)" "par (created t x d) = par d" "first (created t x d) = first d"
    using n by (simp_all add: v)
  have "tracked (created t x d)" using h(2) by (intro new_tracked [OF w h(1)]) simp_all
  then have "wf_store (created t x d) ch \<and> documented (created t x d)" using t h(3) by (intro wf_new [OF w h(1)]) simp_all
  then show "grown {} d ch (created t x d) ch" using n by (auto simp: grown_def v h(3))
qed

section \<open>The recursion\<close>

text \<open>What a clone of \<open>p\<close> in the document \<open>t\<close> must be when the fuel is \<open>k\<close>.\<close>

definition cloned :: "nat \<Rightarrow> nat \<Rightarrow> xstore \<Rightarrow> (nat \<Rightarrow> nat list) \<Rightarrow> (fault + nat option) \<times> xstore \<Rightarrow> bool" where
  "cloned t p d ch res \<longleftrightarrow> (\<exists>r d' ch'. res = (Inr (Some r), d') \<and> grown {} d ch d' ch' \<and> r \<notin> nodes_of d \<and> docu d' r = Some t \<and>
     data d' r \<noteq> None \<and> par d' r = None \<and> (\<forall>m. tree m (data d') ch' r = clone_tree (tree m (data d) ch p)))"

definition clones :: "nat \<Rightarrow> nat \<Rightarrow> bool" where
  "clones t k \<longleftrightarrow> (\<forall>d ch p. wf_store d ch \<longrightarrow> documented d \<longrightarrow> docu d t = Some t \<longrightarrow> data d p \<noteq> None \<longrightarrow> card (below d p) \<le> k \<longrightarrow>
     cloned t p d ch (DeepClone k (Some t) p d))"

text \<open>One round of the loop over the children: the clone is appended to \<open>dst\<close>.\<close>

lemma clone_round:
  assumes w: "wf_store d ch" "documented d" and t: "docu d t = Some t" and dst: "docu d dst = Some t" "par d dst = None"
    and c: "cloned t c d ch res"
  obtains r d1 d2 ch2 where "res = (Inr (Some r), d1)" "InsertEndChild dst r d1 = (Inr (Some r), d2)" "grown {dst} d ch d2 ch2"
    "ch2 dst = ch dst @ [r]" "r \<notin> nodes_of d" "r \<in> nodes_of d2" "par d2 r = Some dst"
    "\<And>m. tree m (data d2) ch2 r = clone_tree (tree m (data d) ch c)"
proof -
  obtain r d1 ch1 where r: "res = (Inr (Some r), d1)" "grown {} d ch d1 ch1" "r \<notin> nodes_of d" "docu d1 r = Some t"
      "data d1 r \<noteq> None" "par d1 r = None" "\<And>m. tree m (data d1) ch1 r = clone_tree (tree m (data d) ch c)"
    using c unfolding cloned_def by blast
  note g = grownD [OF r(2)]
  have dn: "dst \<in> nodes_of d" by (rule docu_node [OF dst(1)])
  have dst1: "docu d1 dst = Some t" "par d1 dst = None" "ch1 dst = ch dst" "dst \<in> nodes_of d1" "dst \<noteq> r"
    using g(4,6-8) [OF dn] dst dn r(3) by auto
  have b: "dst \<notin> below d1 r" using below_root [of dst d1 r] dst1(2,5) by blast
  have i: "insertable d1 dst r"
    using r(4,5) dst1(1,4) docu_node [OF r(4)] b by (simp add: insertable_def below_def)
  have ins: "inserted dst r d1 (insert_end dst r ch1) (InsertEndChild dst r d1)"
    using i by (intro InsertEndChild_run [OF g(3)]) (simp_all add: insertable_def)
  have ch2: "insert_end dst r ch1 = ch1(dst := ch dst @ [r])"
    using detach_none [OF g(3) r(6)] dst1(3) by (simp add: insert_end_def)
  obtain d2 where d2: "InsertEndChild dst r d1 = (Inr (Some r), d2)" "wf_store d2 (insert_end dst r ch1)" "same_nodes d1 d2"
      "par d2 = (par d1)(r := Some dst)"
    using wf_inserted [OF g(1) i ins] ins unfolding inserted_def by fastforce
  have "documented d2" by (rule same_documented [OF g(2) d2(3)])
  then have "grown {dst} d ch d2 (insert_end dst r ch1)"
    using r(2,3) d2(2-4) unfolding grown_def ch2 same_nodes_def by auto
  moreover have "tree m (data d2) (insert_end dst r ch1) r = tree m (data d1) ch1 r" for m
    using d2(3) b unfolding ch2 by (intro tree_cong [OF g(3)]) (auto simp: same_nodes_def)
  ultimately show ?thesis
    using that [OF r(1) d2(1)] r(3,7) d2(3,4) docu_node [OF r(4)] unfolding ch2 by (simp add: same_nodes_def)
qed

lemma clone_loop_run:
  assumes k: "clones t k"
  shows "wf_store d ch \<Longrightarrow> documented d \<Longrightarrow> docu d t = Some t \<Longrightarrow> docu d dst = Some t \<Longrightarrow> par d dst = None \<Longrightarrow> p \<noteq> dst \<Longrightarrow>
    ch p = pre @ cs \<Longrightarrow> (\<And>c. c \<in> set cs \<Longrightarrow> card (below d c) \<le> k) \<Longrightarrow> length cs < m \<Longrightarrow>
    \<exists>d' ch' rs. clone_loop (DeepClone k (Some t)) m dst (hd_opt cs None) d = (Inr (), d') \<and> grown {dst} d ch d' ch' \<and>
      ch' dst = ch dst @ rs \<and> (\<forall>n. map (tree n (data d') ch') rs = map (\<lambda>c. clone_tree (tree n (data d) ch c)) cs)"
proof (induction cs arbitrary: d ch pre m)
  case Nil
  then obtain j where "m = Suc j" by (cases m) auto
  then show ?case using grown_refl [OF Nil.prems(1,2)] by (intro exI [of _ d] exI [of _ ch] exI [of _ "[]"]) simp
next
  case (Cons c cs)
  then obtain j where j: "m = Suc j" "length cs < j" by (cases m) auto
  have w: "wf_store d ch" and l: "links d ch" using Cons.prems(1) by (simp_all add: wf_store_def)
  have kid: "x \<in> nodes_of d" "par d x = Some p" "dst \<notin> below d x" "x \<noteq> dst" if "x \<in> set (c # cs)" for x
  proof -
    have x: "x \<in> set (ch p)" using that Cons.prems(7) by auto
    show "x \<in> nodes_of d" "par d x = Some p" using links_node [OF l x] linksD(6) [OF l] x by simp_all
    then show "x \<noteq> dst" using Cons.prems(5) by auto
    then show "dst \<notin> below d x" using below_root [of dst d x] Cons.prems(5) by blast
  qed
  have pn: "p \<in> nodes_of d" using linksD(5) [OF l, of p] Cons.prems(7) by simp
  have "data d c \<noteq> None" using kid(2) [of c] w unfolding wf_store_def by fastforce
  then have "cloned t c d ch (DeepClone k (Some t) c d)" using k w Cons.prems(2,3,8) unfolding clones_def by simp
  then obtain r d1 d2 ch2 where r: "DeepClone k (Some t) c d = (Inr (Some r), d1)" "InsertEndChild dst r d1 = (Inr (Some r), d2)"
      "grown {dst} d ch d2 ch2" "ch2 dst = ch dst @ [r]" "r \<notin> nodes_of d" "r \<in> nodes_of d2" "par d2 r = Some dst"
      "\<And>m. tree m (data d2) ch2 r = clone_tree (tree m (data d) ch c)"
    using clone_round [OF w Cons.prems(2-5)] by blast
  note g = grownD [OF r(3)]
  have dn: "dst \<in> nodes_of d" by (rule docu_node [OF Cons.prems(4)])
  have p2: "ch2 p = pre @ c # cs" using g(8) [OF pn] Cons.prems(6,7) by simp
  have c2: "c \<in> nodes_of d2" "nxt d2 c = hd_opt cs None" using g(4) kid(1) nxt_list [OF g(3) p2] by auto
  have "card (below d2 x) \<le> k" if "x \<in> set cs" for x
    using grown_below [OF r(3) l kid(1)] kid(3) Cons.prems(8) that by simp
  then obtain d3 ch3 rs where d3: "clone_loop (DeepClone k (Some t)) j dst (hd_opt cs None) d2 = (Inr (), d3)"
      "grown {dst} d2 ch2 d3 ch3" "ch3 dst = ch2 dst @ rs"
      "\<And>n. map (tree n (data d3) ch3) rs = map (\<lambda>c. clone_tree (tree n (data d2) ch2 c)) cs"
    using Cons.IH [OF g(1,2), of "pre @ [c]" j] g(6,7) dn docu_node Cons.prems(3-6) p2 j(2) by auto
  have "DeepClone k (Some t) c d = (Inr (Some r), d1) \<Longrightarrow> clone_loop (DeepClone k (Some t)) m dst (hd_opt (c # cs) None) d = (Inr (), d3)"
    using r(2) d3(1) c2 j(1) by (simp add: cbind_Inr dom_run deref_def)
  moreover have "tree n (data d3) ch3 r = clone_tree (tree n (data d) ch c)" for n
  proof -
    have "dst \<notin> below d2 r" using below_root [of dst d2 r] g(7) [OF dn] Cons.prems(5) r(5) dn by auto
    then show ?thesis using grown_tree [OF d3(2) g(3) r(6)] r(8) by simp
  qed
  moreover have "tree n (data d2) ch2 x = tree n (data d) ch x" if "x \<in> set cs" for n x
    using grown_tree [OF r(3) l kid(1)] kid(3) that by simp
  ultimately show ?case using r(1,4) d3(3,4) grown_trans [OF r(3) d3(2)]
    by (intro exI [of _ d3] exI [of _ ch3] exI [of _ "r # rs"]) simp
qed

lemma clones_all: "clones t k"
proof (induction k)
  case 0
  show ?case unfolding clones_def using card_below wf_finite data_node by (metis le_zero_eq less_numeral_extra(3))
next
  case (Suc k)
  show ?case unfolding clones_def
  proof (intro allI impI)
    fix d ch p
    assume w: "wf_store d ch" "documented d" and t: "docu d t = Some t" and p: "data d p \<noteq> None" and k: "card (below d p) \<le> Suc k"
    have l: "links d ch" using w(1) by (simp add: wf_store_def)
    obtain y where y: "data d p = Some y" using p by auto
    have pn: "p \<in> nodes_of d" by (rule data_node [OF p])
    have td: "data d t = None" using w(2) t by (auto simp: documented_def)
    let ?r = "nfresh d" and ?d1 = "created t (clone_data y) d"
    note c = created_grown [OF w t td, of "clone_data y"]
    note g = grownD [OF c(1)]
    note f = fresh_node [OF w(1)]
    have "card (below ?d1 x) \<le> k" if "x \<in> set (ch p)" for x
      using card_child [OF w(1) that] k c(5) by (simp add: below_def parents_def)
    moreover have "par ?d1 ?r = None" using missing_views(2) [OF f(1)] c(5) by simp
    moreover have "p \<noteq> ?r" using pn f(1) by auto
    moreover have "length (ch p) < Suc (nfresh ?d1)" using few_children [OF g(1), of p] by simp
    ultimately obtain d2 ch2 rs where d2: "clone_loop (DeepClone k (Some t)) (Suc (nfresh ?d1)) ?r (hd_opt (ch p) None) ?d1 = (Inr (), d2)"
        "grown {?r} ?d1 ch d2 ch2" "ch2 ?r = ch ?r @ rs"
        "\<And>n. map (tree n (data d2) ch2) rs = map (\<lambda>c. clone_tree (tree n (data ?d1) ch c)) (ch p)"
      using clone_loop_run [OF Suc.IH g(1,2) _ c(2), of p "[]" "ch p" "Suc (nfresh ?d1)"] g(6) [OF docu_node [OF t]] t by auto
    note g2 = grownD [OF d2(2)]
    have run: "DeepClone (Suc k) (Some t) p d = (Inr (Some ?r), d2)"
      using ShallowClone_run [OF pn y] g(4) [OF pn] c(6) linksD(1) [OF l, of p] d2(1)
      by (simp add: cbind_Inr dom_run del: clone_loop.simps)
    have "grown {} d ch d2 ch2" using c(1) f(1) d2(2) unfolding grown_def by (auto simp: subset_iff)
    moreover have "tree n (data ?d1) ch x = tree n (data d) ch x" if "x \<in> set (ch p)" for n x
      using grown_tree [OF c(1) l links_node [OF l that]] by simp
    then have "tree n (data d2) ch2 ?r = clone_tree (tree n (data d) ch p)" for n
      using d2(3,4) c(3) f(2) y g2(5) [OF c(4)] by (cases n) (simp_all add: comp_def)
    ultimately show "cloned t p d ch (DeepClone (Suc k) (Some t) p d)"
      unfolding run cloned_def using c(2-4) f(1) g2(5-7) [OF c(4)] \<open>par ?d1 ?r = None\<close>
      by (intro exI [of _ ?r] exI [of _ d2] exI [of _ ch2]) simp
  qed
qed

section \<open>The copy of a document\<close>

text \<open>The nodes that the printer visits, and the documents whose elements have no two attributes of one name.\<close>

fun printed_node :: "dom_tree \<Rightarrow> xnode" where
  "printed_node (DomTree x ts) = (case x of
     Some (XMLElement name ct attrs cs) \<Rightarrow> XMLElement name ct attrs (map printed_node ts)
   | Some y \<Rightarrow> y
   | None \<Rightarrow> XMLText False no_value)"

fun distinct_names :: "dom_tree \<Rightarrow> bool" where
  "distinct_names (DomTree x ts) \<longleftrightarrow> (case x of
     Some (XMLElement name ct attrs cs) \<Rightarrow> distinct (map (\<lambda>a. sp_str (fst a)) attrs) | _ \<Rightarrow> True) \<and> list_all distinct_names ts"

lemma Accept_children_cong:
  "(\<And>t p. t \<in> set ts \<Longrightarrow> Accept (f t) p = Accept (g t) p) \<Longrightarrow> Accept_children (map f ts) p = Accept_children (map g ts) p"
  by (induction ts arbitrary: p) simp_all

lemma Accept_clone: "distinct_names T \<Longrightarrow> Accept (printed_node (clone_tree T)) p = Accept (printed_node T) p"
proof (induction T arbitrary: p)
  case (DomTree x ts)
  have kids: "Accept_children (map (\<lambda>t. printed_node (clone_tree t)) ts) q = Accept_children (map printed_node ts) q" for q
    using DomTree by (intro Accept_children_cong) (auto simp: list_all_iff)
  show ?case
  proof (cases x)
    case (Some y)
    then show ?thesis
    proof (cases y)
      case (XMLElement name ct attrs cs)
      then have "copy_attributes attrs [] = map (\<lambda>a. (recopy (fst a), recopy (snd a))) attrs"
        using DomTree.prems Some copy_attributes_distinct [of "[]" attrs] by simp
      then show ?thesis using Some XMLElement kids by (simp add: comp_def fold_map case_prod_unfold)
    qed simp_all
  qed simp
qed

definition print_contents :: "xdoc \<Rightarrow> bool \<Rightarrow> bool \<Rightarrow> xstore \<Rightarrow> nat \<Rightarrow> string" where
  "print_contents opts hasBOM compact d p = XMLDocument_Print opts hasBOM compact (map printed_node (contents d p))"

lemma contents_enough:
  assumes "wf_store d ch" "nfresh d \<le> m" shows "contents d p = map (tree m (data d) ch) (ch p)"
proof -
  have l: "links d ch" using assms(1) by (simp add: wf_store_def)
  have "children_of d = ch" using children_list [OF assms(1)] by (rule ext)
  moreover have "tree (nfresh d) (data d) ch c = tree m (data d) ch c" if "c \<in> set (ch p)" for c
    using tree_enough [OF assms(1)] card_bound [OF assms(1)] links_node [OF l that] assms(2) by (meson order_trans)
  ultimately show ?thesis by (simp add: contents_def)
qed

text \<open>Clearing another document leaves the trees of a document as they are.\<close>

lemma kept_tree:
  assumes w: "wf_store d ch" and k: "kept t d ch d1 ch1" and x: "docu d x = Some s" "s \<noteq> t"
  shows "tree m (data d1) ch1 x = tree m (data d) ch x"
proof (rule tree_cong)
  show "links d ch" using w by (simp add: wf_store_def)
  fix z assume "z \<in> below d x"
  then have z: "docu d z = Some s" using below_docu [OF w] x(1) by simp
  then show "data d1 z = data d z \<and> ch1 z = ch z" using k x(2) docu_node [OF z] by (simp add: kept_def)
qed

lemma DeepCopy_run:
  assumes w: "wf_store d ch" "documented d" and s: "docu d s = Some s" "docu d t = Some t" "s \<noteq> t"
  shows "\<exists>d'. DeepCopy s t d = (Inr (), d') \<and> wf_store d' (children_of d') \<and>
    contents d' t = map clone_tree (contents d s) \<and> contents d' s = contents d s"
proof -
  obtain d1 ch1 where d1: "XMLDocument_Clear t d = (Inr (), d1)" "wf_store d1 ch1" "documented d1" "kept t d ch d1 ch1" "ch1 t = []"
    using XMLDocument_Clear_run [OF w s(2)] by blast
  have l1: "links d1 ch1" using d1(2) by (simp add: wf_store_def)
  have sd: "s \<in> nodes_of d1" "docu d1 s = Some s" "ch1 s = ch s" "docu d1 t = Some t" "data d1 t = None"
    using d1(3,4) s docu_node [OF s(1)] by (auto simp: kept_def documented_def)
  have pt: "par d1 t = None" by (rule document_root [OF d1(2) sd(5)])
  have kid: "docu d1 c = Some s" "c \<in> nodes_of d1" if "c \<in> set (ch s)" for c
  proof -
    have c: "c \<in> set (ch1 s)" using that sd(3) by simp
    then show "docu d1 c = Some s" using linksD(6) [OF l1] d1(2) sd(2) unfolding wf_store_def by metis
    then show "c \<in> nodes_of d1" by (rule docu_node)
  qed
  obtain d2 ch2 rs where d2: "clone_loop (DeepClone (nfresh d1) (Some t)) (Suc (nfresh d1)) t (hd_opt (ch s) None) d1 = (Inr (), d2)"
      "grown {t} d1 ch1 d2 ch2" "ch2 t = ch1 t @ rs"
      "\<And>n. map (tree n (data d2) ch2) rs = map (\<lambda>c. clone_tree (tree n (data d1) ch1 c)) (ch s)"
    using clone_loop_run [OF clones_all d1(2,3) sd(4) sd(4) pt s(3), of "[]" "ch s" "nfresh d1" "Suc (nfresh d1)"]
      sd(3) card_bound [OF d1(2) kid(2)] few_children [OF d1(2), of s] by auto
  note g = grownD [OF d2(2)]
  have run: "DeepCopy s t d = (Inr (), d2)"
    using s(3) d1(1) sd(1,3) linksD(1) [OF l1, of s] d2(1)
    by (simp add: DeepCopy_def cbind_Inr dom_run del: clone_loop.simps)
  have below: "t \<notin> below d1 c" if "c \<in> set (ch s)" for c
    using below_docu [OF d1(2), of t c] kid(1) [OF that] sd(4) s(3) by auto
  have m: "nfresh d \<le> nfresh d2" "nfresh d1 \<le> nfresh d2" using g(9) d1(4) by (simp_all add: kept_def)
  have same: "tree n (data d1) ch1 c = tree n (data d) ch c" if "c \<in> set (ch s)" for n c
    using kept_tree [OF w(1) d1(4) _ s(3)] that d1(4) kid [OF that] by (auto simp: kept_def)
  have "contents d2 t = map clone_tree (contents d s)"
    using d2(3,4) d1(5) same contents_enough [OF g(1), of "nfresh d2"] contents_enough [OF w(1) m(1)] by simp
  moreover have "tree n (data d2) ch2 c = tree n (data d1) ch1 c" if "c \<in> set (ch s)" for n c
    using grown_tree [OF d2(2) l1 kid(2)] below that by simp
  then have "contents d2 s = contents d s"
    using g(8) [OF sd(1)] s(3) sd(3) same contents_enough [OF g(1), of "nfresh d2"] contents_enough [OF w(1) m(1)] by simp
  moreover have "children_of d2 = ch2" using children_list [OF g(1)] by (rule ext)
  ultimately show ?thesis using run g(1) by auto
qed

text \<open>
  C18: \<open>XMLDocument::DeepCopy\<close> ends on any two documents that edits have produced. Whatever the target has held
  before, afterwards it holds a clone of each node of the source, in the same order and at the same depth; the source is as it was,
  the pointers are well-formed, and when no element has two attributes of one name, both documents print the same text.
\<close>

theorem xml_deep_copy:
  assumes "edited d ch" "docu d s = Some s" "docu d t = Some t" "s \<noteq> t"
  shows "\<exists>d'. DeepCopy s t d = (Inr (), d') \<and> wf_store d' (children_of d') \<and>
    contents d' t = map clone_tree (contents d s) \<and> contents d' s = contents d s \<and>
    (list_all distinct_names (contents d s) \<longrightarrow> print_contents opts hasBOM compact d' t = print_contents opts hasBOM compact d s)"
proof -
  obtain d' where d': "DeepCopy s t d = (Inr (), d')" "wf_store d' (children_of d')"
      "contents d' t = map clone_tree (contents d s)" "contents d' s = contents d s"
    using DeepCopy_run [of d ch s t] edited_wf [OF assms(1)] assms(2-4) by blast
  have "print_contents opts hasBOM compact d' t = print_contents opts hasBOM compact d s" if "list_all distinct_names (contents d s)"
    using that Accept_children_cong [of "contents d s" "\<lambda>T. printed_node (clone_tree T)" printed_node] Accept_clone
    by (simp add: print_contents_def XMLDocument_Print_def d'(3) comp_def list_all_iff)
  then show ?thesis using d' by blast
qed

section \<open>A worked copy\<close>

text \<open>An element with an attribute and a text below the first child of the document, and another document with an element.\<close>

definition copy_edits :: "xedit list" where
  "copy_edits = [NewDocument, NewNode 3 blank, EndChild 3 4,
     NewNode 0 (XMLElement (StrPair 0 ''b'') CLOSED [(StrPair 0 ''k'', StrPair 0 ''v'')] []),
     NewNode 0 (XMLText False (StrPair 0 ''x'')), EndChild 1 5, EndChild 5 6]"

fun all_allowed :: "xedit list \<Rightarrow> xstore \<Rightarrow> (nat \<Rightarrow> nat list) \<Rightarrow> bool" where
  "all_allowed [] d ch \<longleftrightarrow> True"
| "all_allowed (e # es) d ch \<longleftrightarrow> allowed d ch e \<and> all_allowed es (snd (perform e d)) (abs_edit e ch)"

lemma all_allowed_edited:
  "edited d ch \<Longrightarrow> all_allowed es d ch \<Longrightarrow> edited (snd (performs es d)) (fold abs_edit es ch)"
proof (induction es arbitrary: d ch)
  case (Cons e es)
  obtain r d' where d': "perform e d = (Inr r, d')"
    using perform_step [of d ch e] edited_wf [OF Cons.prems(1)] Cons.prems(2) by auto
  then have "edited d' (abs_edit e ch)" using edited.step [OF Cons.prems(1)] Cons.prems(2) by simp
  then show ?case using Cons.IH Cons.prems(2) d' by (simp add: cbind_Inr)
qed simp

definition copy_store :: xstore where
  "copy_store = snd (performs copy_edits pair_store)"

lemma copy_edited: "edited copy_store (fold abs_edit copy_edits pair_lists)"
  unfolding copy_store_def
  by (rule all_allowed_edited [OF pair_edited])
    (simp add: copy_edits_def edit_eval pair_lists_def may_insert_def docu_def data_def subtree_none insert_end_def detach_def numeral_eq_Suc)

lemma copy_contents:
  "docu copy_store 0 = Some 0" "docu copy_store 3 = Some 3"
  "contents copy_store 0 = [DomTree (Some blank)
     [DomTree (Some (XMLElement (StrPair 0 ''b'') CLOSED [(StrPair 0 ''k'', StrPair 0 ''v'')] []))
       [DomTree (Some (XMLText False (StrPair 0 ''x''))) []]], DomTree (Some blank) []]"
  by (simp_all add: copy_store_def copy_edits_def edit_eval docu_def data_def contents_def children_of_def first_def nxt_def numeral_eq_Suc)

theorem xml_deep_copy_witness:
  "\<exists>d'. DeepCopy 0 3 copy_store = (Inr (), d') \<and>
     print_contents default_doc False True d' 3 = ''<a><b k='' @ [CHR 0x22] @ ''v'' @ [CHR 0x22] @ ''>x</b></a><a/>''"
proof -
  have "list_all distinct_names (contents copy_store 0)" by (simp add: copy_contents blank_def)
  moreover have "print_contents default_doc False True copy_store 0 = ''<a><b k='' @ [CHR 0x22] @ ''v'' @ [CHR 0x22] @ ''>x</b></a><a/>''"
    by (simp add: print_contents_def copy_contents blank_def print_text attr_text_def sp_str_def GetStr_def c_str_def
        print_char_def entity_flag_def entities_def)
  ultimately show ?thesis
    using xml_deep_copy [OF copy_edited, of 0 3 default_doc False True] by (auto simp: copy_contents(1,2))
qed

end
