(* ===== verification/Answers.thy ===== *)
theory Answers
  imports Service XmlTree
begin

text \<open>
  The answers of the operator's server: what they say, as a function of the received text, and that the response functions
  read just that. The reply is the one of \<open>Replies\<close>.
\<close>

section \<open>The queue of the help thread\<close>

interpretation help_queue: observation helpq
  by unfold_locales simp_all

section \<open>What an answer says\<close>

text \<open>
  A text of a document is named by the path to its element, as positions among children. \<open>answer\<close> is the reply that
  belongs to a call and the answer of the operator's server: the values for the client and the messages for the help
  thread, \<open>None\<close> for an answer that is no document, and \<open>Inl Undefined\<close> for a document in which one of the texts
  is missing.
\<close>

definition nth_opt :: "nat \<Rightarrow> 'a list \<Rightarrow> 'a option" where
  "nth_opt i xs = (if i < length xs then Some (xs ! i) else None)"

fun text_at :: "xml \<Rightarrow> nat list \<Rightarrow> string option" where
  "text_at x [] = map_option c_str (xtext x)"
| "text_at x (i # p) = Option.bind (nth_opt i (xchildren x)) (\<lambda>y. text_at y p)"

definition received_text :: "ext \<Rightarrow> buf \<Rightarrow> string" where
  "received_text e o' = c_str (utf8_ansi e (take (unat (dwRecvedCount o')) (bdata o')))"

definition of_texts :: "string option list \<Rightarrow> (string list \<Rightarrow> fault + 'a) \<Rightarrow> fault + 'a option" where
  "of_texts ts f = (case those ts of None \<Rightarrow> Inl Undefined | Some xs \<Rightarrow> map_sum id Some (f xs))"

definition xml_answer :: "string \<Rightarrow> (xml \<Rightarrow> fault + 'a option) \<Rightarrow> fault + 'a option" where
  "xml_answer t f = (case xml_doc t of None \<Rightarrow> Inr None | Some None \<Rightarrow> Inl Undefined | Some (Some root) \<Rightarrow> f root)"

definition json_answer :: "ext \<Rightarrow> string \<Rightarrow> string list \<Rightarrow> (string list \<Rightarrow> 'a) \<Rightarrow> fault + 'a option" where
  "json_answer e t ns f = (case cJSON_Parse (fpu_of e) t of
     PFail \<Rightarrow> Inr None | PUndef \<Rightarrow> Inl Undefined | PFuel \<Rightarrow> Inl Hang
   | POk root r \<Rightarrow> of_texts (map (\<lambda>n. Option.bind (cJSON_GetObjectItem root n) valuestring) ns) (\<lambda>ts. Inr (f ts)))"

text \<open>The replies to the calls for one card and to the list of pools.\<close>

definition card_head :: "buf \<Rightarrow> tok list" where
  "card_head o' = [pack_array 6, TInt (nCmd o'), TInt (nSubCmd o'), TInt (nSubSubCmd o'), TInt 0, TStr (strJrhm o'), pack_array 1]"

definition dis_number_toks :: "buf \<Rightarrow> int \<Rightarrow> int \<Rightarrow> string \<Rightarrow> string \<Rightarrow> tok list" where
  "dis_number_toks o' rsptype res msg tid = card_head o' @ [pack_array 4, TInt rsptype, TInt res, TStr msg, TStr tid]"

definition dis_number_answer :: "buf \<Rightarrow> string list \<Rightarrow> fault + tok list \<times> help_msg list" where
  "dis_number_answer o' ts = (case (c_atoi (ts ! 0), c_atoi (ts ! 1)) of
     (Inr n0, Inr n1) \<Rightarrow> Inr (dis_number_toks o' n0 n1 (ts ! 2) (ts ! 3),
       [MSG_DIS_NUMBER \<lparr>dn_Jrhm = strJrhm o', dn_Rsptype = ts ! 0, dn_Result = ts ! 1, dn_ResultMsg = ts ! 2, dn_TRANSACTIONID = ts ! 3\<rparr>])
   | _ \<Rightarrow> Inl Undefined)"

definition card_status_answer :: "buf \<Rightarrow> string list \<Rightarrow> fault + tok list \<times> help_msg list" where
  "card_status_answer o' ts = Inr (card_head o' @ pack_array 6 # map TStr (take 5 ts @ [ts ! 6]),
     [MSG_CARD_STATUS \<lparr>cs_Result = ts ! 0, cs_ResultMsg = ts ! 1, cs_ProductStatusCd = ts ! 2,
        cs_ProductStatusName = ts ! 3, cs_PservCreateDate = ts ! 4, cs_Number = ts ! 5, cs_TRANSACTIONID = ts ! 6\<rparr>])"

definition pool_list_toks :: "buf \<Rightarrow> string list list \<Rightarrow> tok list" where
  "pool_list_toks o' ps = [pack_array 5, TInt (nCmd o'), TInt (nSubCmd o'), TInt 0, pack_array (int (length ps))] @ pool_toks ps"

fun answer :: "ext \<Rightarrow> api_response \<Rightarrow> buf \<Rightarrow> fault + (tok list \<times> help_msg list) option" where
  "answer e doDisNumberResponse o' = xml_answer (received_text e o') (\<lambda>root.
     of_texts (map (text_at root) [[0], [1], [2], [3]]) (dis_number_answer o'))"
| "answer e doCardStatusResponse o' = xml_answer (received_text e o') (\<lambda>root.
     of_texts (map (text_at root) [[0, 0, 0], [0, 0, 1], [0, 1, 0, 0, 0], [0, 1, 0, 0, 1], [0, 1, 0, 0, 2], [0, 2], [0, 3]])
       (card_status_answer o'))"
| "answer e doPoolList01Response o' = xml_answer (received_text e o') (\<lambda>root.
     case those (map (\<lambda>pool. those (map (\<lambda>i. text_at pool [i]) [0..<7])) (xchildren root)) of
       None \<Rightarrow> Inl Undefined | Some ps \<Rightarrow> Inr (Some (pool_list_toks o' ps, [])))"
| "answer e doServActiveResponse o' = json_answer e (received_text e o') [''RESULT'', ''SMSG'', ''GROUP_TRANSACTIONID'']
     (\<lambda>ts. (json_reply o' ts, [MSG_SERV_ACTIVE \<lparr>sa_Jrhm = strJrhm o', sa_Result = ts ! 0, sa_Smsg = ts ! 1, sa_TRANSACTIONID = ts ! 2\<rparr>]))"
| "answer e doPay2Response o' = json_answer e (received_text e o') [''status'', ''message'', ''url'']
     (\<lambda>ts. (json_reply o' ts, [MSG_PAY2 \<lparr>pp_Jrhm = strJrhm o', pp_Status = ts ! 0, pp_Message = ts ! 1, pp_Url = ts ! 2\<rparr>]))"
| "answer e f o' = Inr None"

definition failed_toks :: "buf \<Rightarrow> tok list" where
  "failed_toks o' = [pack_array 5, TInt (nCmd o'), TInt (nSubCmd o'), TInt (nSubSubCmd o'), TInt 1, TStr (strJrhm o')]"

section \<open>The response functions read what the answer says\<close>

text \<open>The operations that read a document are partial functions that leave the state alone.\<close>

lemma elem_at_nth: "elem_at xs = of_opt Undefined (nth_opt 0 xs)"
  by (cases xs) (simp_all add: elem_at_def nth_opt_def)

lemma nth_opt_drop: "nth_opt i (drop n xs) = nth_opt (n + i) xs"
  by (auto simp: nth_opt_def)

lemma bind_of_opt: "cbind (of_opt f r) g = (case r of None \<Rightarrow> throw f | Some x \<Rightarrow> g x)"
  by (cases r) simp_all

definition text_nth :: "nat \<Rightarrow> xml list \<Rightarrow> string option" where
  "text_nth i xs = Option.bind (nth_opt i xs) (\<lambda>x. map_option c_str (xtext x))"

lemma get_text_nth: "get_text xs = of_opt Undefined (text_nth 0 xs)"
  by (cases xs) (simp_all add: get_text_def elem_at_def text_nth_def nth_opt_def)

lemma text_nth_drop: "text_nth i (drop n xs) = text_nth (n + i) xs"
  by (simp add: text_nth_def nth_opt_drop)

lemma get_texts_those: "get_texts n xs = of_opt Undefined (those (map (\<lambda>i. text_nth i xs) [0..<n]))"
proof (induction n arbitrary: xs)
  case (Suc n)
  have "map (\<lambda>i. text_nth (Suc i) xs) [0..<n] = map (\<lambda>i. text_nth i (drop 1 xs)) [0..<n]"
    by (simp add: text_nth_drop)
  then have m: "map (\<lambda>i. text_nth i xs) [0..<Suc n] = text_nth 0 xs # map (\<lambda>i. text_nth i (drop 1 xs)) [0..<n]"
    by (simp add: map_upt_Suc del: upt_Suc)
  show ?case unfolding m get_texts.simps Suc get_text_nth
    by (auto simp: bind_of_opt fun_eq_iff split: option.split)
qed simp

lemma pool_texts_those:
  "pool_texts xs = of_opt Undefined (those (map (\<lambda>p. those (map (\<lambda>i. text_nth i (xchildren p)) [0..<7])) xs))"
proof (induction xs)
  case (Cons p ps)
  show ?case unfolding pool_texts.simps get_texts_those Cons
    by (auto simp: bind_of_opt fun_eq_iff split: option.split)
qed simp

lemma those_length: "those xs = Some ys \<Longrightarrow> length ys = length xs"
  by (induction xs arbitrary: ys) (auto split: option.splits)

lemma those_append: "those (xs @ ys) = Option.bind (those xs) (\<lambda>us. map_option ((@) us) (those ys))"
  by (induction xs) (auto split: option.splits simp: option.map_comp comp_def map_option_case Option.bind_map_option)

lemma those_None: "None \<in> set xs \<Longrightarrow> those xs = None"
  by (induction xs) (auto split: option.splits)

subsection \<open>One function per kind of call\<close>

text \<open>\<open>sends\<close>: what a response function does with the state for an answer of \<open>answer\<close>.\<close>

definition sends :: "ext \<Rightarrow> nat \<Rightarrow> fault + (tok list \<times> help_msg list) option \<Rightarrow> (world, bool) cm" where
  "sends e b r = (case r of Inl f \<Rightarrow> throw f | Inr None \<Rightarrow> ret False
   | Inr (Some (toks, ms)) \<Rightarrow> cthen (DealTail e toks b) (cthen (modify (\<lambda>w. w\<lparr>helpq := helpq w @ ms\<rparr>)) (ret True)))"

lemma sends_simps: "sends e b (Inl f) = throw f" "sends e b (Inr None) = ret False"
  "sends e b (Inr (Some (toks, []))) = cthen (DealTail e toks b) (ret True)"
  "sends e b (Inr (Some (toks, [m]))) = cthen (DealTail e toks b) (cthen (post_help m) (ret True))"
  by (simp_all add: sends_def post_help_def cthen_def modify_def cbind_def fun_eq_iff split: prod.split sum.split)

lemma received:
  assumes "bufs w b = Some o'" "unat (dwRecvedCount o') \<le> length (bdata o')"
  shows "parse_doc e b w = (Inr (xml_doc (received_text e o')), w)"
    "Utf8ConvertAnsi e b w = (Inr (received_text e o'), w)"
  using assms by (simp_all add: parse_doc_def Utf8ConvertAnsi_def cbind_def received_text_def)

lemma xml_sends:
  assumes "bufs w b = Some o'" "unat (dwRecvedCount o') \<le> length (bdata o')" "\<And>root. g o' root w = sends e b (h root) w"
  shows "cbind (parse_doc e b) (\<lambda>doc. case doc of None \<Rightarrow> ret False
      | Some r \<Rightarrow> cbind (get_buf b) (\<lambda>o1. cbind (of_opt Undefined r) (g o1))) w =
    sends e b (xml_answer (received_text e o') h) w"
  using assms(1,3) received(1) [OF assms(1,2), of e]
  by (auto simp: cbind_def xml_answer_def sends_simps split: option.split)

lemma text_at_nth: "text_at x [i] = text_nth i (xchildren x)"
  by (simp add: text_nth_def)

lemma c_atoi_fault: "c_atoi s = Inl f \<Longrightarrow> f = Undefined"
  by (auto simp: c_atoi_def Let_def split: prod.splits if_splits)

lemma list_upt: "[0..<3] = [0, 1, 2]" "[0..<2] = [0, 1]" "[0..<4] = [0, 1, 2, 3 :: nat]"
  by (simp_all add: upt_rec)

lemmas answer_eval = get_texts_those get_text_nth elem_at_nth text_nth_drop nth_opt_drop list_upt bind_of_opt of_texts_def
  sends_simps cthen_def

lemma sends_dis_number:
  assumes "bufs w b = Some o'" "unat (dwRecvedCount o') \<le> length (bdata o')"
  shows "doDisNumberResponse_fn e b w = sends e b (answer e doDisNumberResponse o') w"
  unfolding doDisNumberResponse_fn_def answer.simps
  by (rule xml_sends [OF assms])
    (auto simp: answer_eval text_at_nth dis_number_answer_def dis_number_toks_def card_head_def lift_fault_def
      simp del: text_at.simps get_texts.simps dest: c_atoi_fault split: option.split sum.split)

lemma text_at_path: "text_at x (i # j # p) = (case nth_opt i (xchildren x) of None \<Rightarrow> None | Some y \<Rightarrow> text_at y (j # p))"
  by (simp split: option.split)

lemma sends_card_status:
  assumes "bufs w b = Some o'" "unat (dwRecvedCount o') \<le> length (bdata o')"
  shows "doCardStatusResponse_fn e b w = sends e b (answer e doCardStatusResponse o') w"
  unfolding doCardStatusResponse_fn_def answer.simps Let_def
  by (rule xml_sends [OF assms])
    (auto simp: answer_eval text_at_nth text_at_path card_status_answer_def card_head_def numeral_2_eq_2 numeral_3_eq_3
      simp del: text_at.simps get_texts.simps split: option.split)

lemma sends_pool_list:
  assumes "bufs w b = Some o'" "unat (dwRecvedCount o') \<le> length (bdata o')"
  shows "doPoolList01Response_fn e b w = sends e b (answer e doPoolList01Response o') w"
  unfolding doPoolList01Response_fn_def answer.simps
  by (rule xml_sends [OF assms])
    (auto simp: pool_texts_those bind_of_opt sends_simps pool_list_toks_def text_at_nth simp del: text_at.simps split: option.split)

lemma json_text_opt: "json_text root name = of_opt Undefined (Option.bind (cJSON_GetObjectItem root name) valuestring)"
  by (simp add: json_text_def bind_of_opt split: option.split)

lemma json_sends:
  assumes "bufs w b = Some o'" "unat (dwRecvedCount o') \<le> length (bdata o')"
    and "\<And>root. g root w = sends e b (of_texts (map (\<lambda>n. Option.bind (cJSON_GetObjectItem root n) valuestring) ns) (\<lambda>ts. Inr (f ts))) w"
  shows "cbind (parse_json e b) (\<lambda>rr. case rr of None \<Rightarrow> ret False | Some root \<Rightarrow> g root) w =
    sends e b (json_answer e (received_text e o') ns f) w"
  using assms(3) received(2) [OF assms(1,2), of e]
  by (auto simp: cbind_def parse_json_def json_answer_def sends_simps split: pres.split option.split)

lemma bind_get_buf: "bufs w b = Some o' \<Longrightarrow> cbind (get_buf b) f w = f o' w"
  by (simp add: cbind_def)

lemma sends_json:
  assumes "bufs w b = Some o'" "unat (dwRecvedCount o') \<le> length (bdata o')"
  shows "doServActiveResponse_fn e b w = sends e b (answer e doServActiveResponse o') w"
    "doPay2Response_fn e b w = sends e b (answer e doPay2Response o') w"
  unfolding doServActiveResponse_fn_def doPay2Response_fn_def answer.simps
  by (rule json_sends [OF assms]; auto simp: json_text_opt bind_of_opt of_texts_def sends_simps cthen_def
      bind_get_buf [OF assms(1)] split: option.split)+

lemma response_sends:
  assumes "bufs w b = Some o'" "unat (dwRecvedCount o') \<le> length (bdata o')" "f \<notin> {doPoolList02Response, doPoolList03Response}"
  shows "api_response_fn f e b w = sends e b (answer e f o') w"
  using assms(3) sends_dis_number [OF assms(1,2)] sends_card_status [OF assms(1,2)] sends_pool_list [OF assms(1,2)] sends_json [OF assms(1,2)]
  by (cases f) (simp_all del: answer.simps)

section \<open>From the answer to the reply\<close>

lemma settles_responds:
  assumes "responds b m"
  shows "settles b (cbind m (\<lambda>ok. if \<not> ok then API_Failed e b else ret ()))"
  unfolding settles_def
proof (intro allI, rule hoare_bind)
  fix c B S
  show "hoare (own b c B S) m (\<lambda>ok w. if ok then winv B S w else own b c B S w) (exn (own b c B S))"
    using assms by (simp add: responds_def)
  fix ok :: bool
  show "hoare (\<lambda>w. if ok then winv B S w else own b c B S w) (if \<not> ok then API_Failed e b else ret ())
      (\<lambda>_. winv B S) (exn (own b c B S))"
    by (cases ok) (simp_all add: settlesD [OF settles_API_Failed] hoare_ret del: ret_app)
qed

lemma DoReturnData_run:
  assumes "bufs w b = Some o'" "pfndoApiResponse o' = Some f"
  shows "DoReturnData e b w = cbind (api_response_fn f e b) (\<lambda>ok. if \<not> ok then API_Failed e b else ret ()) w"
  using assms by (simp add: DoReturnData_def cbind_def)

lemma DealTail_refused:
  assumes b: "bufs w b = Some o'" "pRelatedSObj o' = Some c" "socks w c = Some s"
    and fits: "reply_fits e toks o'" and no: "\<not> os_send e (tick w)"
  shows "\<exists>w'. DealTail e toks b w = (Inr (), w') \<and> pending w' = pending w"
proof -
  have "length (frame_of (payload e toks)) \<le> length (bdata o')"
    using fits by (simp_all add: reply_fits_def Let_def)
  then show ?thesis
    using b no unfolding DealTail_def DealTail_sbuf_def tail_frame_reply [OF fits]
    by (simp add: cbind_def write_data_def related_sobj_def PostSend_def SetIoRequestFunction_def Let_def close_and_free_def
        CSCloseSocket_def freeSObj_def freeBObj_def upd_sobj_def buf_ReleaseRecorder_def ReleaseRes_def modify_def)
qed

text \<open>What a reply does to the requests in the hands of the system.\<close>

definition replied :: "ext \<Rightarrow> nat \<Rightarrow> nat \<Rightarrow> buf \<Rightarrow> tok list \<Rightarrow> world \<Rightarrow> world \<Rightarrow> bool" where
  "replied e b c o' toks w w' \<longleftrightarrow>
     (if os_send e (tick w)
      then pending w' = pending w @ [(b, KSock c, IoSend (drop (unat (dwSendedCount o')) (frame_of (payload e toks))))]
      else pending w' = pending w \<and> given_back b w')"

lemma DealTail_replied:
  assumes own: "own b c B S w" and o: "bufs w b = Some o'" "reply_fits e toks o'" "unat (dwSendedCount o') \<le> length (payload e toks) + 8"
  shows "\<exists>w'. DealTail e toks b w = (Inr (), w') \<and> helpq w' = helpq w \<and> replied e b c o' toks w w'"
proof -
  have c: "pRelatedSObj o' = Some c" using own o(1) by (simp add: own_def)
  have "c \<in> dom (socks w)" using own unfolding own_def winv_def parts_def by blast
  then obtain s where s: "socks w c = Some s" by blast
  have "\<exists>w'. DealTail e toks b w = (Inr (), w') \<and>
     (if os_send e (tick w) then pending w' = pending w @ [(b, KSock c, IoSend (drop (unat (dwSendedCount o')) (frame_of (payload e toks))))]
      else pending w' = pending w)"
    using DealTail_posts [OF o(1) c s o(2,3)] DealTail_refused [OF o(1) c s o(2)] by (cases "os_send e (tick w)") auto
  then obtain w' where w': "DealTail e toks b w = (Inr (), w')"
     "if os_send e (tick w) then pending w' = pending w @ [(b, KSock c, IoSend (drop (unat (dwSendedCount o')) (frame_of (payload e toks))))]
      else pending w' = pending w" by blast
  have "winv B S w'" using hoareD_Inr [OF settlesD [OF settles_DealTail] own w'(1)] .
  then have "pending w' = pending w \<Longrightarrow> given_back b w'"
    using own winv_disposed [of B S w' b] own_not_disposed [OF own] by (auto simp: own_def disposed_def given_back_def)
  then have "replied e b c o' toks w w'" using w'(2) by (auto simp: replied_def)
  then show ?thesis using w'(1) keepsD [OF help_queue.keeps_DealTail w'(1)] by blast
qed

end
