(* ===== verification/Operator.thy ===== *)
theory Operator
  imports Answers
begin

text \<open>The answers and the notifications of the operator: which are passed on to the client or acknowledged, and which are not.\<close>

section \<open>The query of the cards of a pool\<close>

text \<open>
  The answer to the query of a pool's cards is parsed and thrown away: no reply is posted, the
  connection is not released, and no thread holds it any more.
\<close>

theorem pool_cards_unanswered:
  assumes "own b c B S w" "bufs w b = Some o'" "pfndoApiResponse o' = Some doPoolList02Response"
    and "unat (dwRecvedCount o') \<le> length (bdata o')"
    and "xml_doc (c_str (utf8_ansi e (take (unat (dwRecvedCount o')) (bdata o')))) \<noteq> None"
  shows "DoReturnData e b w = (Inr (), w) \<and> \<not> disposed b w"
proof -
  have "doPoolList02Response_fn e b w = (Inr True, w)"
    using assms(2,4,5) by (simp add: doPoolList02Response_fn_def parse_doc_def Utf8ConvertAnsi_def cbind_def)
  then show ?thesis
    using DoReturnData_run [OF assms(2,3)] own_not_disposed [OF assms(1)] by (simp add: cbind_def)
qed

text \<open>A connection that has received the answer \<open>t\<close>, in a buffer of 512 bytes.\<close>

definition answer_buf :: "api_response option \<Rightarrow> string \<Rightarrow> buf" where
  "answer_buf f t = (zero_buf 512)\<lparr>pRelatedSObj := Some 1, pfndoApiResponse := f, datalen := 512,
     bdata := bytes_of t @ replicate (512 - length t) 0, dwRecvedCount := of_nat (length t)\<rparr>"

definition answer_world :: "api_response option \<Rightarrow> string \<Rightarrow> world" where
  "answer_world f t = (conn0 [])\<lparr>bufs := [0 \<mapsto> answer_buf f t]\<rparr>"

lemma answer_world_simps:
  "bufs (answer_world f t) 0 = Some (answer_buf f t)" "socks (answer_world f t) 1 = Some (zero_sobj\<lparr>sock := Some 7, pRelatedBObj := Some 0\<rparr>)"
  "pending (answer_world f t) = []" "tick (answer_world f t) = 0" "helpq (answer_world f t) = []"
  by (simp_all add: answer_world_def conn0_def world0_def)

lemma answer_buf_simps:
  "pRelatedSObj (answer_buf f t) = Some 1" "pfndoApiResponse (answer_buf f t) = f" "dwSendedCount (answer_buf f t) = 0"
  "datalen (answer_buf f t) = 512" "length t \<le> 512 \<Longrightarrow> length (bdata (answer_buf f t)) = 512"
  "length t \<le> 512 \<Longrightarrow> unat (dwRecvedCount (answer_buf f t)) = length t"
  "nCmd (answer_buf f t) = 0" "nSubCmd (answer_buf f t) = 0" "nSubSubCmd (answer_buf f t) = 0" "strJrhm (answer_buf f t) = []"
  by (simp_all add: answer_buf_def zero_buf_def unat_of_nat)

lemma own_answer: "own 0 1 {} {} (answer_world f t)"
  by (auto simp: own_def winv_def parts_def answer_world_def answer_buf_def conn0_def world0_def)

lemma answer_text:
  assumes "length t \<le> 512" "CHR 0x00 \<notin> set t"
  shows "c_str (utf8_ansi ext0 (take (unat (dwRecvedCount (answer_buf f t))) (bdata (answer_buf f t)))) = t"
proof -
  have "take (length t) (bdata (answer_buf f t)) = bytes_of t" by (simp add: answer_buf_def)
  moreover have "c_str t = t" using assms(2) by (simp add: c_str_def takeWhile_eq_all_conv) (metis)
  ultimately show ?thesis using assms(1) by (simp add: answer_buf_simps ext0_def)
qed

lemma answer_root:
  assumes "length t \<le> 512" "CHR 0x00 \<notin> set t" "xml_doc t = Some r"
  shows "xml_doc (c_str (utf8_ansi ext0 (take (unat (dwRecvedCount (answer_buf f t))) (bdata (answer_buf f t))))) = Some r"
  unfolding answer_text [OF assms(1,2)] by (rule assms(3))

lemma empty_root: "xml_doc ''<r/>'' = Some (Some (Elem ''r'' None []))"
  by (simp add: xml_doc_def xml_eval sp_str_def sp_Set_def GetStr_def flag_defs c_str_def del: XMLNode_ParseDeep.simps)

theorem pool_cards_unanswered_witness:
  "DoReturnData ext0 0 (answer_world (Some doPoolList02Response) ''<r/>'') = (Inr (), answer_world (Some doPoolList02Response) ''<r/>'') \<and>
   \<not> disposed 0 (answer_world (Some doPoolList02Response) ''<r/>'')"
proof (rule pool_cards_unanswered [OF own_answer answer_world_simps(1)])
  show "xml_doc (c_str (utf8_ansi ext0 (take (unat (dwRecvedCount (answer_buf (Some doPoolList02Response) ''<r/>'')))
      (bdata (answer_buf (Some doPoolList02Response) ''<r/>''))))) \<noteq> None"
    using answer_root [OF _ _ empty_root, of "Some doPoolList02Response"] by simp
qed (simp_all add: answer_buf_simps)

text \<open>Sample documents.\<close>

abbreviation node :: "string \<Rightarrow> xnode list \<Rightarrow> xnode" where
  "node name cs \<equiv> XMLElement (StrPair 0 name) OPEN [] cs"

abbreviation tnode :: "string \<Rightarrow> xnode" where
  "tnode t \<equiv> XMLText False (StrPair 0 t)"

abbreviation doc_text :: "xnode list \<Rightarrow> string" where
  "doc_text ns \<equiv> XMLDocument_Print default_doc False True ns"

lemmas text_eval = print_text attr_text_def print_char_def entity_flag_def entities_def sp_str_def GetStr_def flag_defs c_str_def

lemma printed_root:
  assumes "printable_doc ns" "elements ns = x # xs" "length (doc_text ns) \<le> 512" "CHR 0x00 \<notin> set (doc_text ns)"
  shows "xml_doc (c_str (utf8_ansi ext0 (take (unat (dwRecvedCount (answer_buf f (doc_text ns)))) (bdata (answer_buf f (doc_text ns)))))) =
    Some (Some x)"
  by (rule answer_root [OF assms(3,4)]) (simp add: xml_doc_print [OF assms(1)] assms(2))

section \<open>An answer from its text to the reply\<close>

lemma GetText_c_str: "GetText cs = Some t \<Longrightarrow> c_str t = t"
  by (cases cs rule: GetText.cases) auto

lemma elements_text: "x \<in> set (elements ns) \<Longrightarrow> xtext x = Some t \<Longrightarrow> c_str t = t"
  by (induction ns arbitrary: x rule: elements.induct) (auto dest: GetText_c_str)

lemma elements_children: "x \<in> set (elements ns) \<Longrightarrow> \<exists>cs. xchildren x = elements cs"
  by (induction ns arbitrary: x rule: elements.induct) auto

lemma get_texts_all: "map xtext (take n xs) = map Some ts \<Longrightarrow> length ts = n \<Longrightarrow> get_texts n xs w = (Inr (map c_str ts), w)"
proof (induction n arbitrary: xs ts)
  case (Suc n)
  then obtain x r t us where "xs = x # r" "ts = t # us" by (cases xs; cases ts) auto
  then show ?case using Suc by (simp add: cbind_def get_text_def elem_at_def)
qed simp

lemma values_six: "nvalues 1 ts \<Longrightarrow> nvalues 6 (TInt a # TInt b # TInt c # TInt d # TStr s # ts)"
  by (simp add: eval_nat_numeral values_Cons)

text \<open>
  C22: the operator's answer to the locking of a card, a printed document whose root has four elements with a
  text, reaches the client: the four texts with their entities resolved, the first two as numbers, are sent as one well-formed
  value, and the message for the help thread carries the same texts. The first two are numbers of 32 bits, nothing is left of an
  earlier send, the reply fits the buffer and the system accepts the send.
\<close>

theorem dis_number_answered:
  assumes "bufs w b = Some o'" "pRelatedSObj o' = Some c" "socks w c = Some s" "dwSendedCount o' = 0"
    and "pfndoApiResponse o' = Some doDisNumberResponse" "unat (dwRecvedCount o') \<le> length (bdata o')"
    and "c_str (utf8_ansi e (take (unat (dwRecvedCount o')) (bdata o'))) = XMLDocument_Print default_doc False True ns"
    and "printable_doc ns" "elements ns = Elem r x cs # rs" "map xtext (take 4 cs) = [Some t0, Some t1, Some t2, Some t3]"
    and "c_atoi t0 = Inr n0" "c_atoi t1 = Inr n1" "reply_fits e (dis_number_toks o' n0 n1 t2 t3) o'" "os_send e (tick w)"
  shows "one_value (dis_number_toks o' n0 n1 t2 t3) \<and> (\<exists>w'. DoReturnData e b w = (Inr (), w') \<and>
    pending w' = pending w @ [(b, KSock c, IoSend (frame_of (payload e (dis_number_toks o' n0 n1 t2 t3))))] \<and>
    helpq w' = helpq w @ [MSG_DIS_NUMBER \<lparr>dn_Jrhm = strJrhm o', dn_Rsptype = t0, dn_Result = t1, dn_ResultMsg = t2,
      dn_TRANSACTIONID = t3\<rparr>])"
proof
  have "nvalues 4 [TInt n0, TInt n1, TStr t2, TStr t3]" by (simp add: eval_nat_numeral values_Cons)
  then show "one_value (dis_number_toks o' n0 n1 t2 t3)"
    by (simp add: dis_number_toks_def card_head_def one_value_array pack_array_def values_array [simplified] values_six)
  have "parse_doc e b w = (Inr (Some (Some (Elem r x cs))), w)"
    using assms(1,6,7) by (simp add: parse_doc_def Utf8ConvertAnsi_def cbind_def xml_doc_print [OF assms(8)] assms(9))
  moreover obtain ds where ds: "cs = elements ds" using elements_children [of "Elem r x cs" ns] assms(9) by auto
  have "c_str t = t" if "t \<in> {t0, t1, t2, t3}" for t
  proof -
    have "Some t \<in> set (map xtext (take 4 cs))" using assms(10) that by auto
    then show ?thesis using elements_text ds by (auto dest: in_set_takeD)
  qed
  then have "get_texts 4 cs w = (Inr [t0, t1, t2, t3], w)" using get_texts_all [of 4 cs "[t0, t1, t2, t3]" w] assms(10) by simp
  ultimately have run: "doDisNumberResponse_fn e b w =
      cbind (DealTail e (dis_number_toks o' n0 n1 t2 t3) b) (\<lambda>_. cbind (post_help (MSG_DIS_NUMBER \<lparr>dn_Jrhm = strJrhm o',
        dn_Rsptype = t0, dn_Result = t1, dn_ResultMsg = t2, dn_TRANSACTIONID = t3\<rparr>)) (\<lambda>_. ret True)) w"
    using assms(1,11,12) by (simp add: doDisNumberResponse_fn_def cbind_def dis_number_toks_def card_head_def cthen_def
        del: get_texts.simps split: prod.split sum.split)
  obtain w1 where w1: "DealTail e (dis_number_toks o' n0 n1 t2 t3) b w = (Inr (), w1)"
      "pending w1 = pending w @ [(b, KSock c, IoSend (frame_of (payload e (dis_number_toks o' n0 n1 t2 t3))))]"
    using DealTail_posts [OF assms(1-3,13) _ assms(14)] assms(4) by auto
  then have "helpq w1 = helpq w" using keepsD [OF help_queue.keeps_DealTail] by blast
  then show "\<exists>w'. DoReturnData e b w = (Inr (), w') \<and>
    pending w' = pending w @ [(b, KSock c, IoSend (frame_of (payload e (dis_number_toks o' n0 n1 t2 t3))))] \<and>
    helpq w' = helpq w @ [MSG_DIS_NUMBER \<lparr>dn_Jrhm = strJrhm o', dn_Rsptype = t0, dn_Result = t1, dn_ResultMsg = t2,
      dn_TRANSACTIONID = t3\<rparr>]"
    using w1 run unfolding DoReturnData_run [OF assms(1,5)] by (simp add: cbind_def post_help_def)
qed

abbreviation dis_number_doc :: "xnode list" where
  "dis_number_doc \<equiv> [node ''r'' [node ''t'' [tnode ''1''], node ''c'' [tnode ''0''], node ''m'' [tnode ''a<b''], node ''i'' [tnode ''17'']]]"

lemma dis_number_doc: "printable_doc dis_number_doc"
  "elements dis_number_doc = [Elem ''r'' None [Elem ''t'' (Some ''1'') [], Elem ''c'' (Some ''0'') [],
     Elem ''m'' (Some ''a<b'') [], Elem ''i'' (Some ''17'') []]]"
  "length (doc_text dis_number_doc) \<le> 512" "CHR 0x00 \<notin> set (doc_text dis_number_doc)"
  by (simp_all add: printable_eval, simp_all add: text_eval)

theorem dis_number_answered_witness:
  "one_value (dis_number_toks (answer_buf (Some doDisNumberResponse) (doc_text dis_number_doc)) 1 0 ''a<b'' ''17'') \<and>
   (\<exists>w'. DoReturnData ext0 0 (answer_world (Some doDisNumberResponse) (doc_text dis_number_doc)) = (Inr (), w') \<and>
    pending w' = pending (answer_world (Some doDisNumberResponse) (doc_text dis_number_doc)) @
      [(0, KSock 1, IoSend (frame_of (payload ext0
        (dis_number_toks (answer_buf (Some doDisNumberResponse) (doc_text dis_number_doc)) 1 0 ''a<b'' ''17''))))] \<and>
    helpq w' = helpq (answer_world (Some doDisNumberResponse) (doc_text dis_number_doc)) @
      [MSG_DIS_NUMBER \<lparr>dn_Jrhm = strJrhm (answer_buf (Some doDisNumberResponse) (doc_text dis_number_doc)), dn_Rsptype = ''1'',
        dn_Result = ''0'', dn_ResultMsg = ''a<b'', dn_TRANSACTIONID = ''17''\<rparr>])"
proof (rule dis_number_answered [OF answer_world_simps(1) _ answer_world_simps(2) _ _ _ _ dis_number_doc(1,2)])
  let ?o = "answer_buf (Some doDisNumberResponse) (doc_text dis_number_doc)"
  show "c_str (utf8_ansi ext0 (take (unat (dwRecvedCount ?o)) (bdata ?o))) = doc_text dis_number_doc"
    by (rule answer_text [OF dis_number_doc(3,4)])
  show "c_atoi ''1'' = Inr 1" "c_atoi ''0'' = Inr 0" by code_simp+
  show "reply_fits ext0 (dis_number_toks ?o 1 0 ''a<b'' ''17'') ?o"
    using answer_buf_simps(5) [OF dis_number_doc(3)]
    by (simp add: dis_number_toks_def card_head_def reply_fits_def answer_buf_simps payload_def ext0_def pack_array_def PDATA_SIZE_def bytes_of_def)
qed (use dis_number_doc(3) in \<open>simp_all add: answer_buf_simps answer_world_simps ext0_def\<close>)

text \<open>
  C21: the answer of the operator's server is passed on to the client. A document with all the texts
  that belong to the call becomes the reply with these texts, and the message for the help thread carries them as
  well; an answer that is no document becomes the failure reply. One send of the complete frame is posted, from the
  first byte that has not been sent yet; if the system refuses it, the connection is released; and every object still has one
  owner. A document in which a text is missing, or whose number does not fit 32 bits, makes the worker read through a null pointer or
  overflow, before it has changed anything. This is the whole behaviour for the calls to lock a card, for its state, for activation, for payment
  and for the list of pools, as long as the reply fits the buffer. The two queries of a single pool are not included.
\<close>

theorem api_answer_settled:
  assumes "own b c B S w" "bufs w b = Some o'" "unat (dwRecvedCount o') \<le> length (bdata o')"
    and "pfndoApiResponse o' = Some f" "f \<notin> {doPoolList02Response, doPoolList03Response}"
  shows "case answer e f o' of
      Inl x \<Rightarrow> DoReturnData e b w = (Inl x, w)
    | Inr r \<Rightarrow> (let (toks, ms) = (case r of None \<Rightarrow> (failed_toks o', []) | Some t \<Rightarrow> t) in
        reply_fits e toks o' \<and> unat (dwSendedCount o') \<le> length (payload e toks) + 8 \<longrightarrow>
        (\<exists>w'. DoReturnData e b w = (Inr (), w') \<and> winv B S w' \<and> replied e b c o' toks w w' \<and> helpq w' = helpq w @ ms))"
proof -
  note run = DoReturnData_run [OF assms(2,4), of e, unfolded cbind_def, unfolded response_sends [OF assms(2,3,5)]]
  have "responds b (api_response_fn f e b)" using assms(5) by (cases f) (simp_all add: responds_fns)
  from hoareD_Inr [OF settlesD [OF settles_responds [OF this, of e]] assms(1)]
  have inv: "DoReturnData e b w = (Inr u, w') \<Longrightarrow> winv B S w'" for u w'
    unfolding DoReturnData_run [OF assms(2,4)] .
  show ?thesis
  proof (cases "answer e f o'")
    case (Inl x)
    then show ?thesis using run by (simp add: sends_simps)
  next
    case (Inr r)
    show ?thesis
    proof (cases r)
      case None
      have "API_Failed e b w = DealTail e (failed_toks o') b w" using assms(2) by (simp add: API_Failed_def failed_toks_def cbind_def)
      then have "DoReturnData e b w = DealTail e (failed_toks o') b w" using run Inr None by (simp add: sends_simps)
      then show ?thesis using DealTail_replied [OF assms(1,2), of e "failed_toks o'"] inv Inr None by (fastforce simp: Let_def)
    next
      case (Some t)
      obtain toks ms where t: "t = (toks, ms)" by (cases t)
      have "\<exists>w'. DoReturnData e b w = (Inr (), w') \<and> replied e b c o' toks w w' \<and> helpq w' = helpq w @ ms"
        if fits: "reply_fits e toks o'" "unat (dwSendedCount o') \<le> length (payload e toks) + 8"
      proof -
        obtain w1 where w1: "DealTail e toks b w = (Inr (), w1)" "helpq w1 = helpq w" "replied e b c o' toks w w1"
          using DealTail_replied [OF assms(1,2) fits] by blast
        then have "DoReturnData e b w = (Inr (), w1\<lparr>helpq := helpq w1 @ ms\<rparr>)"
          using run Inr Some t by (simp add: sends_def cthen_def cbind_def modify_def)
        then show ?thesis using w1(2,3) by (auto simp: replied_def given_back_def)
      qed
      then show ?thesis using inv Inr Some t by fastforce
    qed
  qed
qed

theorem api_answer_settled_witness:
  "\<exists>w'. DoReturnData ext0 0 (answer_world (Some doDisNumberResponse) (doc_text dis_number_doc)) = (Inr (), w') \<and> winv {} {} w' \<and>
     replied ext0 0 1 (answer_buf (Some doDisNumberResponse) (doc_text dis_number_doc))
       (dis_number_toks (answer_buf (Some doDisNumberResponse) (doc_text dis_number_doc)) 1 0 ''a<b'' ''17'')
       (answer_world (Some doDisNumberResponse) (doc_text dis_number_doc)) w' \<and> length (helpq w') = 1"
proof -
  let ?o = "answer_buf (Some doDisNumberResponse) (doc_text dis_number_doc)"
  have "received_text ext0 ?o = doc_text dis_number_doc"
    unfolding received_text_def by (rule answer_text [OF dis_number_doc(3,4)])
  moreover have "c_atoi ''1'' = Inr 1" "c_atoi ''0'' = Inr 0" by code_simp+
  ultimately have a: "\<exists>m. answer ext0 doDisNumberResponse ?o = Inr (Some (dis_number_toks ?o 1 0 ''a<b'' ''17'', [m]))"
    by (simp add: xml_answer_def xml_doc_print [OF dis_number_doc(1)] dis_number_doc(2) of_texts_def nth_opt_def
        dis_number_answer_def c_str_def del: elements.simps GetText.simps)
  have f: "reply_fits ext0 (dis_number_toks ?o 1 0 ''a<b'' ''17'') ?o"
    using answer_buf_simps(5) [OF dis_number_doc(3)]
    by (simp add: dis_number_toks_def card_head_def reply_fits_def answer_buf_simps payload_def ext0_def pack_array_def PDATA_SIZE_def bytes_of_def)
  have n: "unat (dwRecvedCount ?o) \<le> length (bdata ?o)"
    using answer_buf_simps(5,6) [OF dis_number_doc(3)] dis_number_doc(3) by simp
  show ?thesis
    using api_answer_settled [OF own_answer answer_world_simps(1) n answer_buf_simps(2), of ext0] a f
    by (auto simp: answer_buf_simps answer_world_simps)
qed

lemma values_strings: "nvalues (length ts) (map TStr ts)"
  by (induction ts) (simp_all add: values_Cons)

lemma pool_toks_values:
  assumes "\<And>ts. ts \<in> set ps \<Longrightarrow> length ts = 7"
  shows "nvalues (length ps) (pool_toks ps)"
proof -
  have "nvalues 1 (pack_array 7 # map TStr ts)" if "ts \<in> set ps" for ts
    using values_strings [of ts] assms [OF that] by (simp add: values_array [simplified] pack_array_def)
  then have "nvalues (length (map (\<lambda>ts. pack_array 7 # map TStr ts) (rev ps))) (pool_toks ps)"
    unfolding pool_toks_def by (intro values_concat) auto
  then show ?thesis by simp
qed

lemma get_texts_length: "get_texts n xs w = (Inr ts, w') \<Longrightarrow> length ts = n \<and> w' = w"
  by (induction n arbitrary: xs ts w w')
    (auto simp: cbind_def get_text_def elem_at_def of_opt_def split: sum.splits prod.splits list.splits option.splits)

lemma pool_texts_length: "pool_texts xs w = (Inr ps, w') \<Longrightarrow> (\<forall>ts \<in> set ps. length ts = 7) \<and> w' = w"
proof (induction xs arbitrary: ps w)
  case (Cons x xs)
  obtain r w1 where r: "get_texts 7 (xchildren x) w = (r, w1)" by fastforce
  with Cons.prems obtain ts where ts: "r = Inr ts" by (cases r) (simp_all add: cbind_def del: get_texts.simps)
  note l = get_texts_length [OF r [unfolded ts]]
  obtain q w2 where q: "pool_texts xs w1 = (q, w2)" by fastforce
  with Cons.prems r ts obtain us where us: "q = Inr us" "ps = ts # us" "w2 = w'"
    by (cases q) (simp_all add: cbind_def del: get_texts.simps)
  then show ?case using Cons.IH [of w1 us] q l by simp
qed simp

text \<open>
  The reply to the list of pools announces five values and has four, whatever pools the operator
  returns: it is sent, but it is no well-formed value and the client waits for the fifth.
\<close>

theorem pool_list_malformed:
  assumes "bufs w b = Some o'" "pRelatedSObj o' = Some c" "socks w c = Some s" "dwSendedCount o' = 0"
    and "unat (dwRecvedCount o') \<le> length (bdata o')"
    and "xml_doc (c_str (utf8_ansi e (take (unat (dwRecvedCount o')) (bdata o')))) = Some (Some root)"
    and "pool_texts (xchildren root) w = (Inr ps, w)" "length ps < 2 ^ 32"
    and "reply_fits e (pool_list_toks o' ps) o'" "os_send e (tick w)"
  shows "\<not> one_value (pool_list_toks o' ps) \<and> (\<exists>w'. doPoolList01Response_fn e b w = (Inr True, w') \<and>
    pending w' = pending w @ [(b, KSock c, IoSend (frame_of (payload e (pool_list_toks o' ps))))])"
proof
  have "nvalues (length ps) (pool_toks ps)"
    using pool_texts_length [OF assms(7)] by (intro pool_toks_values) simp
  then have "nvalues (Suc (Suc (Suc (Suc 0)))) ([TInt (nCmd o'), TInt (nSubCmd o'), TInt 0, pack_array (int (length ps))] @ pool_toks ps)"
    using assms(8) by (simp add: values_Cons)
  then have "\<not> nvalues 5 ([TInt (nCmd o'), TInt (nSubCmd o'), TInt 0, pack_array (int (length ps))] @ pool_toks ps)"
    using values_unique [of "Suc (Suc (Suc (Suc 0)))" _ 5] by auto
  then show "\<not> one_value (pool_list_toks o' ps)"
    by (simp add: pool_list_toks_def one_value_array pack_array_def)
  have "parse_doc e b w = (Inr (Some (Some root)), w)"
    using assms(1,5,6) by (simp add: parse_doc_def Utf8ConvertAnsi_def cbind_def)
  then have "doPoolList01Response_fn e b w = cbind (DealTail e (pool_list_toks o' ps) b) (\<lambda>_. ret True) w"
    using assms(1,7) by (simp add: doPoolList01Response_fn_def cbind_def pool_list_toks_def cthen_def)
  then show "\<exists>w'. doPoolList01Response_fn e b w = (Inr True, w') \<and>
    pending w' = pending w @ [(b, KSock c, IoSend (frame_of (payload e (pool_list_toks o' ps))))]"
    using DealTail_posts [OF assms(1,2,3,9) _ assms(10)] assms(4) by (auto simp: cbind_def)
qed

abbreviation pool_doc :: "xnode list" where
  "pool_doc \<equiv> [node ''r'' [node ''p'' (replicate 7 (node ''x'' [tnode ''1'']))]]"

abbreviation pool_root :: xml where
  "pool_root \<equiv> Elem ''r'' None [Elem ''p'' None (replicate 7 (Elem ''x'' (Some ''1'') []))]"

lemma replicate_7: "replicate 7 x = [x, x, x, x, x, x, x]"
  by (simp add: numeral_eq_Suc)

lemma pool_doc: "printable_doc pool_doc" "elements pool_doc = [pool_root]" "length (doc_text pool_doc) \<le> 512" "CHR 0x00 \<notin> set (doc_text pool_doc)"
  by (simp_all add: replicate_7 printable_eval, simp_all add: text_eval)

lemmas pool_root = printed_root [OF pool_doc]

lemma NC_length: "length NC_RESPONSE = 157"
  by (simp add: NC_RESPONSE_def dq_def)

lemma get_texts_replicate: "get_texts n (replicate n (Elem x (Some t) cs)) w = (Inr (replicate n (c_str t)), w)"
  by (induction n) (simp_all add: cbind_def get_text_def elem_at_def)

theorem pool_list_malformed_witness:
  "\<not> one_value (pool_list_toks (answer_buf None (doc_text pool_doc)) [replicate 7 ''1'']) \<and>
   (\<exists>w'. doPoolList01Response_fn ext0 0 (answer_world None (doc_text pool_doc)) = (Inr True, w') \<and>
    pending w' = pending (answer_world None (doc_text pool_doc)) @ [(0, KSock 1,
      IoSend (frame_of (payload ext0 (pool_list_toks (answer_buf None (doc_text pool_doc)) [replicate 7 ''1'']))))])"
proof (rule pool_list_malformed [OF answer_world_simps(1) _ answer_world_simps(2) _ _ pool_root])
  let ?w = "answer_world None (doc_text pool_doc)"
  show "pool_texts (xchildren pool_root) ?w = (Inr [replicate 7 ''1''], ?w)"
    using get_texts_replicate [of 7 "''x''" "''1''" "[]" ?w] by (simp add: cbind_def c_str_def del: get_texts.simps)
  show "reply_fits ext0 (pool_list_toks (answer_buf None (doc_text pool_doc)) [replicate 7 ''1'']) (answer_buf None (doc_text pool_doc))"
    unfolding pool_list_toks_def reply_fits_def using answer_buf_simps(5) [OF pool_doc(3)]
    by (simp add: replicate_7 answer_buf_simps payload_def pool_toks_def ext0_def pack_array_def PDATA_SIZE_def bytes_of_def)
qed (use pool_doc(3) in \<open>simp_all add: answer_buf_simps answer_world_simps ext0_def\<close>)

section \<open>Notifications\<close>

text \<open>
  C36: a notification whose root element contains elements and no text, as every notification of the
  documented form does, is acknowledged to the operator as accepted, and then ends the thread: the handler
  compares the text of the root element, which is a null pointer, instead of its name. The order is never
  passed on.
\<close>

theorem notification_lost:
  assumes "bufs w b = Some o'" "pRelatedSObj o' = Some c" "socks w c = Some s" "dwSendedCount o' = 0"
    and "unat (dwRecvedCount o') \<le> length (bdata o')" "int (length NC_RESPONSE) \<le> datalen o'" "length NC_RESPONSE \<le> length (bdata o')"
    and "xml_doc (c_str (utf8_ansi e (take (unat (dwRecvedCount o')) (bdata o')))) = Some (Some root)" "xtext root = None"
    and "os_send e (tick w)"
  shows "\<exists>w'. doNcData e b w = (Inl Undefined, w') \<and> pending w' = pending w @ [(b, KSock c, IoSend (bytes_of NC_RESPONSE))] \<and>
    helpq w' = helpq w"
proof -
  have len: "length NC_RESPONSE < 2 ^ 32" by (simp add: NC_length)
  have doc: "parse_doc e b w = (Inr (Some (Some root)), w)"
    using assms(1,5,8) by (simp add: parse_doc_def Utf8ConvertAnsi_def cbind_def)
  have "\<exists>w'. doNcResponse e b w = (Inr (), w') \<and> pending w' = pending w @ [(b, KSock c, IoSend (bytes_of NC_RESPONSE))] \<and>
      helpq w' = helpq w"
    using assms(1-4,6,7,10) len
    by (simp add: doNcResponse_def cbind_def write_data_def related_sobj_def PostSend_def post_def SetIoRequestFunction_def
        Let_def unat_of_nat)
  then obtain w1 where w1: "doNcResponse e b w = (Inr (), w1)"
      "pending w1 = pending w @ [(b, KSock c, IoSend (bytes_of NC_RESPONSE))]" "helpq w1 = helpq w" by blast
  then show ?thesis using doc assms(9) by (simp add: doNcData_def cbind_def nc_message_def)
qed

abbreviation contract_doc :: "xnode list" where
  "contract_doc \<equiv> [node ''NotifyContractRoot'' [node ''TYPE'' [tnode ''7'']]]"

lemma contract_doc: "printable_doc contract_doc"
  "elements contract_doc = [Elem ''NotifyContractRoot'' None [Elem ''TYPE'' (Some ''7'') []]]"
  "length (doc_text contract_doc) \<le> 512" "CHR 0x00 \<notin> set (doc_text contract_doc)"
  by (simp_all add: printable_eval, simp_all add: text_eval)

theorem notification_lost_witness:
  "\<exists>w'. doNcData ext0 0 (answer_world None (doc_text contract_doc)) = (Inl Undefined, w') \<and>
    pending w' = pending (answer_world None (doc_text contract_doc)) @ [(0, KSock 1, IoSend (bytes_of NC_RESPONSE))] \<and>
    helpq w' = helpq (answer_world None (doc_text contract_doc))"
  by (rule notification_lost [OF answer_world_simps(1) _ answer_world_simps(2) _ _ _ _ printed_root [OF contract_doc]])
    (use contract_doc(3) in \<open>simp_all add: answer_buf_simps answer_world_simps NC_length ext0_def\<close>)

end
