(* ===== verification/Spec2Isabelle.thy ===== *)
theory Spec2Isabelle
  imports PoolThreads Server JsonTree Paging Accounts Values Import Transport Startup XmlTree XmlClear XmlCopy Operator
begin

text \<open>
  CDBServer (\<open>src/CDBServer\<close>) is a Win32 server for a database of SIM cards. Clients send framed msgpack requests;
  the server reads and writes the database through a pool of ADO connections and a pool of MySQL handles, calls the
  operator's HTTP interface for some commands, and takes notifications of the operator on a second port. All
  network operations are overlapped: a worker thread takes a completion from the completion port, runs the function
  stored in the buffer object, and that function posts the next operation or releases the connection.

  State and effects (\<open>CBase\<close>, \<open>Externals\<close>, \<open>SignalData\<close>). The code is translated to functions of type
  \<open>('s, 'a) cm\<close>: they take a state and return a result or a \<open>fault\<close>, and the state. A fault is undefined behaviour, the
  abort of a secure CRT function, a blocked thread, a loop without end, a \<open>_com_error\<close> or another C++ exception. The
  state \<open>world\<close> has the buffer, socket and listen objects (\<open>_buffer_obj\<close>, \<open>_socket_obj\<close>, \<open>_listen_obj\<close> of
  \<open>SignalData.h\<close>) by address, the two vectors of \<open>MemPool.cpp\<close>, the requests that have been handed to the system
  (\<open>pending\<close>), the state of the two connection pools, the table of API calls and the queue of the help thread.
  Machine integers are words, \<open>int\<close> arithmetic that can overflow is a fault or wraps as the
  compiler does it, data areas are lists of bytes and an access outside them is undefined behaviour. Everything that is
  not under \<open>src/CDBServer\<close>, Winsock, the process heap, msgpack, ADO, the MySQL client, the DES component,
  the code page and floating point, is a field of the record \<open>ext\<close> (or \<open>fpu\<close>), an argument of the functions that
  use it. A call that can answer differently each time gets a counter.

  Theories and the code they model:
  \<^item> \<open>DBPool\<close>, \<open>MysqlPool\<close>: the two pools of \<open>DBPool.cpp\<close>. The locale \<open>conn_pool\<close> is the contract of a pool; both are
    interpretations of it. Shown: a connection in use is never given out again, the number of connections is bounded,
    a query gives its connection back on every path except the one that loses a wake-up.
  \<^item> \<open>PoolThreads\<close>: both pools under threads that interleave between the critical sections, the check of a connection and the
    event, with the locale \<open>waiting_pool\<close>: connections stay exclusive, no release is lost, and a failed
    reconnection can leave a sleeper that nobody wakes.
  \<^item> \<open>SignalData\<close>, \<open>Ownership\<close>: \<open>SignalData.cpp\<close>, \<open>MemPool.cpp\<close>, \<open>RequestPost.cpp\<close>; who owns an object: the pool, a
    pending request or the thread that runs. \<open>DealHeadTail\<close>: \<open>DealHeadTail.cpp\<close>, with its round trip, what the check of a
    received frame accepts, rejects and waits for, and the lengths for which it leaves the buffer.
  \<^item> \<open>DataParser\<close>, \<open>Requests\<close>, \<open>UserData\<close>, \<open>SimData\<close>, \<open>KhData\<close>, \<open>KhjlData\<close>, \<open>TableData\<close>, \<open>ExcelLoad\<close>: the request handlers, one
    definition per command, over the shared loops of \<open>Requests\<close>. \<open>ProcessCommand\<close>: the dispatcher.
  \<^item> \<open>ApiConn\<close>, \<open>ApiRequests\<close>, \<open>ApiResponse\<close>: the calls of the operator's interface and the translation of its
    answers. \<open>NcData\<close>: notifications and the help thread. \<open>CJson\<close>: the JSON library \<open>cjson.c\<close>. \<open>TinyXml\<close>:
    the parser of the XML library \<open>tinyxml2.cpp\<close>, from the text of an answer to the elements the server reads;
    \<open>TinyXmlPrint\<close>: its printer; \<open>XmlDom\<close>: the tree as nodes with pointers, with the operations that build, move, delete and
    search nodes; \<open>XmlValues\<close>: the setters of values, texts and attributes, the clones and the copy of a document.
  \<^item> \<open>DatabaseMap\<close>: the tables in memory, which are part of \<open>world\<close>; \<open>main\<close> clears them. \<open>Completion\<close>: the completion functions of the three \<open>RequestComplete\<close> files
    and the worker thread. \<open>Server\<close>: \<open>main\<close> with the start of its worker threads, the start of Winsock in \<open>InitWinsock.cpp\<close>, the accept loop and the step relation \<open>server_step\<close> with its reachable
    states: a step is a completed request, a round of the accept loop or a change of the database; the two
    threads are interleaved by steps.

  Theories of proofs:
  \<^item> \<open>Ownership\<close>, \<open>Completion\<close>, \<open>Server\<close>: every handler keeps the ownership of all objects or hands
    it on, by a Hoare logic whose rules are collected in named theorems; from it the invariant of the server.
  \<^item> \<open>Observe\<close>, with the locale \<open>observation\<close>: which operations no exception leaves, and which leave a part of the state
    alone. \<open>Replies\<close>: the contract of a handler, by rules over these operations: it ends with one reply that names the
    command of the request, or with the request line for the operator. \<open>Service\<close>: the life of a request, from the last byte
    received to the reply; which requests are dropped. \<open>Transport\<close>: the two
    checks of a frame agree; a new buffer carries nothing of its former user but two fields.
  \<^item> \<open>Paging\<close>: a list reply against the abstract list of rows, for the ADO and the MySQL loop. \<open>Values\<close>: each row is one
    value. \<open>Accounts\<close>: the login. \<open>Import\<close>: the statements that an import makes of its rows, each
    in order inside one transaction. \<open>Startup\<close>: start-up and
    the accept loop. \<open>Answers\<close>, \<open>Operator\<close>: what an answer of the operator says, by paths into its document, and that the client
    gets it; notifications.
  \<^item> \<open>JsonProofs\<close>, \<open>JsonTree\<close>: the parser ends, stays in its buffers for well-formed escapes and reads printed values
    back. \<open>XmlProofs\<close>: the XML parser ends on every text, converts strings within their own bytes, bounds its depth and
    accepts well-formed documents only. \<open>XmlTree\<close>: a printed document is read back; which end tags and which nesting are rejected.
  \<^item> \<open>XmlLinks\<close>, \<open>XmlEdits\<close>, \<open>XmlClear\<close>: the pointers of the tree implement lists of children, for any sequence of edits, the
    search functions are searches in these lists, and a document that is cleared gives all of its nodes back. \<open>XmlCopy\<close>: clones
    are new nodes, and a copied document holds and prints what the original does.

  Fuel. The JSON parser recurses with a fuel of one more than the length of the text, which bounds both the depth and the
  number of elements, and never runs out. The loop of the XML parser over the nodes of one level gets one more than the
  length of its text, its recursion the 99 levels that the code admits. The row loops of the MySQL lists get one more than the number of rows the
  library reports; the row loops of ADO are bounded by the page, as in the code. Loops over the connections of a pool are
  structural or end in the fault \<open>Hang\<close>, where the code does not end. The deletion of a node and the loop over the nodes outside the tree
  get two more than twice the number of nodes ever allocated, the searches one more than that number; both are shown to be enough,
  as are the number of nodes for the depth of a clone and one more for the loop over the children.

  Not modelled: of \<open>tinyxml2.cpp\<close> the line numbers, the text of errors, its memory pools and
  the conversions of numbers, none of which the server uses. The hash map of
  Threading Building Blocks is a function. \<open>stdafx.cpp\<close> has no code. Memory leaks of the C++ heap, the text of debug output and races on fields that the
  code does not protect are not expressed: outside of \<open>PoolThreads\<close> a handler is one step. Allocation inside the JSON
  library and the C++ run-time, the buffer of a reply included, succeeds, so \<open>std::bad_alloc\<close> is never thrown, and the stack of a
  recursion has no end. Reading the state of a record set and closing it, in \<open>ReleaseRecorder\<close> of \<open>SignalData.h\<close>, do not fail; that code has no
  \<open>catch\<close>, and the theorems on ownership and on the settling of requests rest on this.
\<close>

end
